(* ===== verification/Prelude.thy ===== *)
theory Prelude
  imports Complex_Main "HOL-Library.Word" "HOL-Library.Sublist" "HOL-Library.Code_Target_Nat"
begin

text \<open>
  Shared vocabulary of the development: the Go types the program uses that have no
  component of their own (times, durations, the 64-bit integers), the collections of
  facts the component theories feed to the simplifier, and generic lemmas on lists and
  maps.

  A \<^verbatim>\<open>time.Time\<close> is the number of nanoseconds since Go's zero time (so the zero
  value is \<open>0\<close>), a \<^verbatim>\<open>time.Duration\<close> the number of nanoseconds of an
  \<^verbatim>\<open>int64\<close>. \<open>int64\<close> writes the wrap-around of a 64-bit signed result out.
\<close>

named_theorems go_defs \<open>definitions of the Go library functions the components unfold\<close>
named_theorems go_intros \<open>introduction rules for the invariants of the components\<close>

type_synonym gotime = int
type_synonym duration = int

definition int64 :: "int \<Rightarrow> int" where
  "int64 x = (x + 2 ^ 63) mod 2 ^ 64 - 2 ^ 63"

definition Nanosecond :: duration where "Nanosecond = 1"
definition Millisecond :: duration where "Millisecond = 1000000"
definition Second :: duration where "Second = 1000000000"
definition Minute :: duration where "Minute = 60 * Second"
definition Hour :: duration where "Hour = 60 * Minute"

text \<open>\<^verbatim>\<open>Time.Sub\<close> saturates at the ends of the duration range.\<close>

definition time_sub :: "gotime \<Rightarrow> gotime \<Rightarrow> duration" where
  "time_sub a b = max (- (2 ^ 63)) (min (2 ^ 63 - 1) (a - b))"

lemmas duration_defs = Nanosecond_def Millisecond_def Second_def Minute_def Hour_def

lemma int64_id: "- (2 ^ 63) \<le> x \<Longrightarrow> x < 2 ^ 63 \<Longrightarrow> int64 x = x"
  by (simp add: int64_def)

lemma int64_range: "- (2 ^ 63) \<le> int64 x \<and> int64 x < 2 ^ 63"
  by (simp add: int64_def)

lemma time_sub_pos_iff [simp]: "0 < time_sub a b \<longleftrightarrow> b < a"
  by (auto simp: time_sub_def)

lemma time_sub_self [simp]: "time_sub a a = 0"
  by (simp add: time_sub_def)

lemma time_sub_le: "b \<le> a \<Longrightarrow> time_sub a b \<le> a - b"
  by (auto simp: time_sub_def)

lemma time_sub_exact: "\<bar>a - b\<bar> < 2 ^ 63 \<Longrightarrow> time_sub a b = a - b"
  by (auto simp: time_sub_def)

text \<open>Lists and association lists.\<close>

lemma distinct_map_filter: "distinct (map f xs) \<Longrightarrow> distinct (map f (filter P xs))"
  by (induction xs) auto

lemma map_of_filter_ne:
  "map_of (filter (\<lambda>p. fst p \<noteq> k) xs) = (map_of xs)(k := None)"
  by (induction xs) (auto simp: fun_eq_iff)

lemma find_none_iff: "find P xs = None \<longleftrightarrow> (\<forall>x \<in> set xs. \<not> P x)"
  by (induction xs) auto

lemma find_someD: "find P xs = Some x \<Longrightarrow> x \<in> set xs \<and> P x"
  by (induction xs) (auto split: if_splits)

lemma find_append: "find P (xs @ ys) = (case find P xs of None \<Rightarrow> find P ys | Some x \<Rightarrow> Some x)"
  by (induction xs) auto

lemma length_filter_ne_distinct:
  "distinct (map f xs) \<Longrightarrow> x \<in> set xs \<Longrightarrow>
   length (filter (\<lambda>y. f y \<noteq> f x) xs) = length xs - 1"
proof (induction xs)
  case Nil
  then show ?case by simp
next
  case (Cons a xs)
  show ?case
  proof (cases "a = x")
    case True
    with Cons.prems have "\<forall>y \<in> set xs. f y \<noteq> f x" by (auto simp: image_iff)
    then have "filter (\<lambda>y. f y \<noteq> f x) xs = xs" by (simp add: filter_id_conv)
    with True show ?thesis by simp
  next
    case False
    with Cons.prems have "x \<in> set xs" "f a \<noteq> f x" by (auto simp: image_iff)
    moreover from this have "0 < length xs" by (cases xs) auto
    ultimately show ?thesis using Cons by simp
  qed
qed

text \<open>The first hit in a sorted list is the least hit.\<close>

lemma find_sorted:
  "find P (sort_key k xs) = Some x \<Longrightarrow> x \<in> set xs \<and> P x \<and> (\<forall>y \<in> set xs. P y \<longrightarrow> k x \<le> k y)"
proof -
  have "find P ys = Some x \<Longrightarrow> sorted (map k ys) \<Longrightarrow> x \<in> set ys \<and> P x \<and> (\<forall>y \<in> set ys. P y \<longrightarrow> k x \<le> k y)" for ys
    by (induction ys) (auto split: if_splits)
  from this [of "sort_key k xs"] show "find P (sort_key k xs) = Some x \<Longrightarrow> ?thesis" by simp
qed

lemma find_sorted_None: "find P (sort_key k xs) = None \<longleftrightarrow> (\<forall>y \<in> set xs. \<not> P y)"
  by (simp add: find_none_iff)

text \<open>The first occurrence of a separator splits a list in one way only.\<close>

lemma split_at_first:
  "a @ c # b = a' @ c # b' \<Longrightarrow> c \<notin> set a \<Longrightarrow> c \<notin> set a' \<Longrightarrow> a = a' \<and> b = b'"
proof (induction a arbitrary: a')
  case Nil
  then show ?case by (cases a') auto
next
  case (Cons x a)
  then show ?case by (cases a') auto
qed

lemma split_at_last:
  assumes "a @ c # b = a' @ c # b'" "c \<notin> set b" "c \<notin> set b'"
  shows "a = a' \<and> b = b'"
proof -
  from assms(1) have "rev b @ c # rev a = rev b' @ c # rev a'"
    by (metis append_Cons append_assoc append_Nil rev.simps(2) rev_append)
  from split_at_first [OF this] assms(2,3) show ?thesis by simp
qed

text \<open>
  What every component with an invariant promises: no operation breaks it. Whoever uses a
  component, in a run, as an optional part or through several operations, rests on these facts.
\<close>

locale preserving =
  fixes step :: "'e \<Rightarrow> 's \<Rightarrow> 's" and good :: "'s \<Rightarrow> bool"
  assumes step_good: "good s \<Longrightarrow> good (step e s)"
begin

lemma run_good: "good s \<Longrightarrow> good (fold step es s)"
  by (induction es arbitrary: s) (simp_all add: step_good)

lemma option_good: "pred_option good x \<Longrightarrow> pred_option good (map_option (step e) x)"
  by (cases x) (simp_all add: step_good)

lemma member_good: "x = Some s \<Longrightarrow> pred_option good x \<Longrightarrow> pred_option good (Some (step e s))"
  by (simp add: step_good)

end

end
