(* ===== verification/GoStrings.thy ===== *)
theory GoStrings
  imports Prelude
begin

text \<open>
  The functions of Go's \<^verbatim>\<open>strings\<close>, \<^verbatim>\<open>strconv\<close> and \<^verbatim>\<open>net\<close> packages
  that the program calls. A Go string is a list of bytes, here a \<open>char list\<close>.
  White space is Unicode's, recognised in its UTF-8 encoding (\<open>spaces\<close>); case mapping is
  that of ASCII: a byte outside ASCII is left as it is, where Go would map the letters of
  other scripts.
\<close>

subsection \<open>Prefixes, suffixes, search\<close>

definition HasPrefix :: "string \<Rightarrow> string \<Rightarrow> bool" where
  "HasPrefix s p = prefix p s"

definition HasSuffix :: "string \<Rightarrow> string \<Rightarrow> bool" where
  "HasSuffix s p = prefix (rev p) (rev s)"

definition TrimPrefix :: "string \<Rightarrow> string \<Rightarrow> string" where
  "TrimPrefix s p = (if HasPrefix s p then drop (length p) s else s)"

definition TrimSuffix :: "string \<Rightarrow> string \<Rightarrow> string" where
  "TrimSuffix s p = (if HasSuffix s p then take (length s - length p) s else s)"

fun Index :: "string \<Rightarrow> string \<Rightarrow> nat option" where
  "Index [] sub = (if sub = [] then Some 0 else None)"
| "Index (c # s) sub = (if prefix sub (c # s) then Some 0 else map_option Suc (Index s sub))"

definition Contains :: "string \<Rightarrow> string \<Rightarrow> bool" where
  "Contains s sub = (Index s sub \<noteq> None)"

fun Count :: "string \<Rightarrow> char \<Rightarrow> nat" where
  "Count [] d = 0"
| "Count (c # s) d = (if c = d then Suc (Count s d) else Count s d)"

lemma HasPrefix_append [simp]: "HasPrefix (p @ s) p"
  by (simp add: HasPrefix_def)

lemma HasPrefix_drop: "HasPrefix s p \<Longrightarrow> s = p @ drop (length p) s"
  by (auto simp: HasPrefix_def prefix_def)

lemma HasSuffix_append [simp]: "HasSuffix (s @ p) p"
  by (simp add: HasSuffix_def)

lemma HasSuffix_iff: "HasSuffix s p \<longleftrightarrow> (\<exists>t. s = t @ p)"
proof
  assume "HasSuffix s p"
  then obtain t where "rev s = rev p @ t" by (auto simp: HasSuffix_def prefix_def)
  then have "rev (rev s) = rev t @ p" by simp
  then show "\<exists>t. s = t @ p" by auto
qed auto

lemma Index_Some: "Index s sub = Some i \<Longrightarrow> \<exists>r. s = take i s @ sub @ r \<and> i \<le> length s"
proof (induction s arbitrary: i)
  case Nil
  then show ?case by (auto split: if_splits)
next
  case (Cons c s)
  show ?case
  proof (cases "prefix sub (c # s)")
    case True
    with Cons.prems show ?thesis by (auto simp: prefix_def)
  next
    case False
    with Cons.prems obtain j where "Index s sub = Some j" "i = Suc j" by auto
    with Cons.IH [of j] show ?thesis by auto
  qed
qed

lemma Index_None: "Index s sub = None \<Longrightarrow> s \<noteq> a @ sub @ b"
proof (induction s arbitrary: a)
  case Nil
  then show ?case by (auto split: if_splits)
next
  case (Cons c s)
  from Cons.prems have np: "\<not> prefix sub (c # s)" and none: "Index s sub = None"
    by (auto split: if_splits)
  show ?case
  proof (cases a)
    case Nil
    with np show ?thesis by (auto simp: prefix_def)
  next
    case (Cons x xs)
    with Cons.IH [OF none, of xs] show ?thesis by auto
  qed
qed

text \<open>\<^verbatim>\<open>Index\<close> finds the leftmost occurrence.\<close>

lemma Index_least: "Index s sub = Some i \<Longrightarrow> s = a @ sub @ b \<Longrightarrow> i \<le> length a"
proof (induction s arbitrary: i a)
  case Nil
  then show ?case by (auto split: if_splits)
next
  case (Cons c s)
  show ?case
  proof (cases "prefix sub (c # s)")
    case True
    with Cons.prems(1) have "i = 0" by simp
    then show ?thesis by simp
  next
    case False
    with Cons.prems(1) obtain j where j: "Index s sub = Some j" "i = Suc j" by auto
    from False Cons.prems(2) obtain x xs where "a = x # xs" by (cases a) (auto simp: prefix_def)
    with Cons.prems(2) j Cons.IH [OF j(1), of xs] show ?thesis by auto
  qed
qed

lemma Contains_iff: "Contains s sub \<longleftrightarrow> (\<exists>a b. s = a @ sub @ b)"
  using Index_Some [of s sub] Index_None [of s sub]
  by (auto simp: Contains_def) metis

subsection \<open>White space\<close>

text \<open>
  The UTF-8 encodings of the code points that \<^verbatim>\<open>unicode.IsSpace\<close> accepts.
\<close>

definition spaces :: "string list" where
  "spaces =
    [[CHR 0x20], [CHR 0x09], [CHR 0x0A], [CHR 0x0B], [CHR 0x0C], [CHR 0x0D],
     [CHR 0xC2, CHR 0x85], [CHR 0xC2, CHR 0xA0], [CHR 0xE1, CHR 0x9A, CHR 0x80],
     [CHR 0xE2, CHR 0x80, CHR 0x80], [CHR 0xE2, CHR 0x80, CHR 0x81],
     [CHR 0xE2, CHR 0x80, CHR 0x82], [CHR 0xE2, CHR 0x80, CHR 0x83],
     [CHR 0xE2, CHR 0x80, CHR 0x84], [CHR 0xE2, CHR 0x80, CHR 0x85],
     [CHR 0xE2, CHR 0x80, CHR 0x86], [CHR 0xE2, CHR 0x80, CHR 0x87],
     [CHR 0xE2, CHR 0x80, CHR 0x88], [CHR 0xE2, CHR 0x80, CHR 0x89],
     [CHR 0xE2, CHR 0x80, CHR 0x8A], [CHR 0xE2, CHR 0x80, CHR 0xA8],
     [CHR 0xE2, CHR 0x80, CHR 0xA9], [CHR 0xE2, CHR 0x80, CHR 0xAF],
     [CHR 0xE2, CHR 0x81, CHR 0x9F], [CHR 0xE3, CHR 0x80, CHR 0x80]]"

text \<open>Remove words of a list from the front of a string for as long as one is there.\<close>

function lstrip :: "string list \<Rightarrow> string \<Rightarrow> string" where
  "lstrip ws s =
     (case find (\<lambda>w. w \<noteq> [] \<and> prefix w s) ws of
        None \<Rightarrow> s
      | Some w \<Rightarrow> lstrip ws (drop (length w) s))"
  by pat_completeness auto
termination
proof (relation "measure (\<lambda>(ws, s). length s)")
  fix ws :: "string list" and s w
  assume "find (\<lambda>w. w \<noteq> [] \<and> prefix w s) ws = Some w"
  then have "w \<noteq> []" "prefix w s" by (auto dest: find_someD)
  then have "0 < length w" "length w \<le> length s" by (auto simp: prefix_length_le)
  then have "length s - length w < length s" by linarith
  then show "((ws, drop (length w) s), ws, s) \<in> measure (\<lambda>(ws, s). length s)" by simp
qed simp

declare lstrip.simps [simp del]

definition TrimLeftSpace :: "string \<Rightarrow> string" where
  "TrimLeftSpace s = lstrip spaces s"

definition TrimRightSpace :: "string \<Rightarrow> string" where
  "TrimRightSpace s = rev (lstrip (map rev spaces) (rev s))"

definition TrimSpace :: "string \<Rightarrow> string" where
  "TrimSpace s = TrimRightSpace (TrimLeftSpace s)"

lemma lstrip_suffix: "\<exists>p. s = p @ lstrip ws s"
proof (induction ws s rule: lstrip.induct)
  case (1 ws s)
  show ?case
  proof (cases "find (\<lambda>w. w \<noteq> [] \<and> prefix w s) ws")
    case None
    then show ?thesis by (simp add: lstrip.simps [of ws s])
  next
    case (Some w)
    then have "prefix w s" by (auto dest: find_someD)
    then have s: "s = w @ drop (length w) s" by (auto simp: prefix_def)
    from "1.IH" [OF Some] obtain p where "drop (length w) s = p @ lstrip ws (drop (length w) s)"
      by blast
    with s have "s = (w @ p) @ lstrip ws (drop (length w) s)" by simp
    moreover from Some have "lstrip ws s = lstrip ws (drop (length w) s)"
      by (simp add: lstrip.simps [of ws s])
    ultimately show ?thesis by metis
  qed
qed

lemma lstrip_no_prefix: "w \<in> set ws \<Longrightarrow> w \<noteq> [] \<Longrightarrow> \<not> prefix w (lstrip ws s)"
proof (induction ws s rule: lstrip.induct)
  case (1 ws s)
  show ?case
  proof (cases "find (\<lambda>w. w \<noteq> [] \<and> prefix w s) ws")
    case None
    then have "lstrip ws s = s" by (simp add: lstrip.simps [of ws s])
    with None "1.prems" show ?thesis by (auto simp: find_none_iff)
  next
    case (Some v)
    with "1.IH" [OF Some] "1.prems" show ?thesis by (simp add: lstrip.simps [of ws s])
  qed
qed

lemma lstrip_id: "\<forall>w \<in> set ws. w \<noteq> [] \<longrightarrow> \<not> prefix w s \<Longrightarrow> lstrip ws s = s"
  by (subst lstrip.simps) (auto simp: find_none_iff split: option.splits dest: find_someD)

lemma TrimRightSpace_prefix: "prefix (TrimRightSpace s) s"
proof -
  from lstrip_suffix [of "rev s" "map rev spaces"]
  obtain p where "rev s = p @ lstrip (map rev spaces) (rev s)" by blast
  then have "rev (rev s) = rev (lstrip (map rev spaces) (rev s)) @ rev p"
    by (metis rev_append)
  then show ?thesis by (auto simp: TrimRightSpace_def prefix_def)
qed

lemma TrimRightSpace_idem: "TrimRightSpace (TrimRightSpace s) = TrimRightSpace s"
  by (simp add: TrimRightSpace_def) (metis lstrip_id lstrip_no_prefix)

text \<open>Trimming twice changes nothing.\<close>

lemma TrimSpace_idem [simp]: "TrimSpace (TrimSpace s) = TrimSpace s"
proof -
  let ?l = "TrimLeftSpace s"
  have "\<not> prefix w (TrimRightSpace ?l)" if "w \<in> set spaces" "w \<noteq> []" for w
    using that lstrip_no_prefix [of w spaces s] TrimRightSpace_prefix [of ?l]
    by (metis TrimLeftSpace_def prefix_order.order_trans)
  then have "TrimLeftSpace (TrimRightSpace ?l) = TrimRightSpace ?l"
    by (subst TrimLeftSpace_def) (rule lstrip_id, blast)
  then show ?thesis by (simp add: TrimSpace_def TrimRightSpace_idem)
qed

lemma TrimSpace_Nil [simp]: "TrimSpace [] = []"
  by (simp add: TrimSpace_def TrimLeftSpace_def TrimRightSpace_def lstrip_id spaces_def)

text \<open>\<^verbatim>\<open>strings.Trim\<close> with a cutset of ASCII bytes.\<close>

definition Trim :: "string \<Rightarrow> string \<Rightarrow> string" where
  "Trim s cs = rev (dropWhile (\<lambda>c. c \<in> set cs) (rev (dropWhile (\<lambda>c. c \<in> set cs) s)))"

lemma Trim_Nil [simp]: "Trim [] cs = []"
  by (simp add: Trim_def)

subsection \<open>Splitting and joining\<close>

text \<open>\<^verbatim>\<open>strings.Split\<close> with a separator of one byte.\<close>

fun Split :: "string \<Rightarrow> char \<Rightarrow> string list" where
  "Split [] d = [[]]"
| "Split (c # s) d =
     (if c = d then [] # Split s d
      else (case Split s d of [] \<Rightarrow> [[c]] | p # ps \<Rightarrow> (c # p) # ps))"

lemma Split_ne [simp]: "Split s d \<noteq> []"
  by (induction s) (auto split: list.splits)

lemma Split_no_sep: "p \<in> set (Split s d) \<Longrightarrow> d \<notin> set p"
  by (induction s arbitrary: p) (auto split: list.splits if_splits)

fun Join :: "string list \<Rightarrow> string \<Rightarrow> string" where
  "Join [] sep = []"
| "Join [s] sep = s"
| "Join (s # ss) sep = s @ sep @ Join ss sep"

lemma Join_Cons: "ss \<noteq> [] \<Longrightarrow> Join (s # ss) sep = s @ sep @ Join ss sep"
  by (cases ss) auto

lemma Join_Split: "Join (Split s d) [d] = s"
proof (induction s)
  case Nil
  then show ?case by simp
next
  case (Cons c s)
  obtain p ps where sp: "Split s d = p # ps" using Split_ne [of s d] by (cases "Split s d") auto
  show ?case
  proof (cases "c = d")
    case True
    with sp Cons show ?thesis by (simp add: Join_Cons)
  next
    case False
    with sp Cons show ?thesis by (cases ps) auto
  qed
qed

text \<open>\<^verbatim>\<open>strings.Cut\<close> at a byte: what is before it, what is after it, and whether it is there.\<close>

definition Cut :: "string \<Rightarrow> char \<Rightarrow> string \<times> string \<times> bool" where
  "Cut s d = (if d \<in> set s then (takeWhile (\<lambda>c. c \<noteq> d) s, tl (dropWhile (\<lambda>c. c \<noteq> d) s), True)
              else (s, [], False))"

lemma Cut_found: "Cut s d = (a, b, True) \<Longrightarrow> s = a @ d # b \<and> d \<notin> set a"
proof -
  assume cut: "Cut s d = (a, b, True)"
  then have d: "d \<in> set s" and a: "a = takeWhile (\<lambda>c. c \<noteq> d) s"
    and b: "b = tl (dropWhile (\<lambda>c. c \<noteq> d) s)"
    by (auto simp: Cut_def split: if_splits)
  from d have ne: "dropWhile (\<lambda>c. c \<noteq> d) s \<noteq> []" by (auto simp: dropWhile_eq_Nil_conv)
  have "hd (dropWhile (\<lambda>c. c \<noteq> d) s) = d" using hd_dropWhile [OF ne] by simp
  with ne b have "dropWhile (\<lambda>c. c \<noteq> d) s = d # b" by (metis list.collapse)
  then have "s = a @ d # b" using a by (metis takeWhile_dropWhile_id)
  moreover have "d \<notin> set a" using a by (metis set_takeWhileD)
  ultimately show ?thesis by simp
qed

text \<open>\<^verbatim>\<open>strings.Fields\<close>: the words between runs of white space.\<close>

function fields_from :: "string \<Rightarrow> string \<Rightarrow> string list" where
  "fields_from acc s =
     (case s of
        [] \<Rightarrow> (if acc = [] then [] else [rev acc])
      | c # r \<Rightarrow>
          (case find (\<lambda>w. w \<noteq> [] \<and> prefix w s) spaces of
             None \<Rightarrow> fields_from (c # acc) r
           | Some w \<Rightarrow> (if acc = [] then [] else [rev acc]) @ fields_from [] (drop (length w) s)))"
  by pat_completeness auto
termination
proof (relation "measure (\<lambda>(acc, s). length s)")
  fix acc s c r w
  assume s: "s = c # r" and "find (\<lambda>w. w \<noteq> [] \<and> prefix w s) spaces = Some w"
  then have "w \<noteq> []" "prefix w s" by (auto dest: find_someD)
  then have "0 < length w" "length w \<le> length s" by (auto simp: prefix_length_le)
  then have "length s - length w < length s" by linarith
  then show "(([], drop (length w) s), acc, s) \<in> measure (\<lambda>(acc, s). length s)" by simp
qed simp_all

declare fields_from.simps [simp del]

definition Fields :: "string \<Rightarrow> string list" where
  "Fields s = fields_from [] s"

lemma fields_from_set: "set (concat (fields_from acc s)) \<subseteq> set acc \<union> set s"
proof (induction acc s rule: fields_from.induct)
  case (1 acc s)
  show ?case
  proof (cases s)
    case Nil
    then show ?thesis by (subst fields_from.simps) simp
  next
    case (Cons c r)
    show ?thesis
    proof (cases "find (\<lambda>w. w \<noteq> [] \<and> prefix w s) spaces")
      case None
      with 1(1) [OF Cons None] Cons show ?thesis
        by (subst fields_from.simps) auto
    next
      case (Some w)
      then have "fields_from acc s = (if acc = [] then [] else [rev acc]) @ fields_from [] (drop (length w) s)"
        using Cons by (subst fields_from.simps) simp
      moreover have "set (concat (fields_from [] (drop (length w) s))) \<subseteq> set s"
        using 1(2) [OF Cons Some] set_drop_subset [of "length w" s] by auto
      ultimately show ?thesis by auto
    qed
  qed
qed

lemma Fields_set: "set (concat (Fields s)) \<subseteq> set s"
  using fields_from_set [of "[]" s] by (simp add: Fields_def)

lemma Join_Nil_sep: "Join ss [] = concat ss"
proof (induction ss)
  case (Cons s ss)
  then show ?case by (cases ss) auto
qed simp

subsection \<open>Case\<close>

definition lower_char :: "char \<Rightarrow> char" where
  "lower_char c = (if 65 \<le> (of_char c :: nat) \<and> (of_char c :: nat) \<le> 90
                   then char_of ((of_char c :: nat) + 32) else c)"

definition upper_char :: "char \<Rightarrow> char" where
  "upper_char c = (if 97 \<le> (of_char c :: nat) \<and> (of_char c :: nat) \<le> 122
                   then char_of ((of_char c :: nat) - 32) else c)"

definition ToLower :: "string \<Rightarrow> string" where
  "ToLower s = map lower_char s"

definition ToUpper :: "string \<Rightarrow> string" where
  "ToUpper s = map upper_char s"

definition EqualFold :: "string \<Rightarrow> string \<Rightarrow> bool" where
  "EqualFold a b = (ToLower a = ToLower b)"

lemma lower_char_idem [simp]: "lower_char (lower_char c) = lower_char c"
  by (auto simp: lower_char_def)

lemma ToLower_idem [simp]: "ToLower (ToLower s) = ToLower s"
  by (simp add: ToLower_def)

lemma lower_char_above: "122 < (of_char c :: nat) \<Longrightarrow> d \<noteq> c \<Longrightarrow> lower_char d \<noteq> c"
  by (auto simp: lower_char_def)

lemma length_ToLower [simp]: "length (ToLower s) = length s"
  by (simp add: ToLower_def)

lemma ToLower_Nil [simp]: "ToLower [] = []"
  by (simp add: ToLower_def)

lemma ToLower_eq_Nil [simp]: "ToLower s = [] \<longleftrightarrow> s = []"
  by (simp add: ToLower_def)

lemma EqualFold_refl [simp]: "EqualFold s s"
  by (simp add: EqualFold_def)

subsection \<open>Numbers\<close>

definition is_digit :: "char \<Rightarrow> bool" where
  "is_digit c = (48 \<le> (of_char c :: nat) \<and> (of_char c :: nat) \<le> 57)"

definition digit_val :: "char \<Rightarrow> nat" where
  "digit_val c = (of_char c :: nat) - 48"

definition digit_char :: "nat \<Rightarrow> char" where
  "digit_char n = char_of (48 + n)"

fun nat_digits :: "nat \<Rightarrow> string" where
  "nat_digits n = (if n < 10 then [digit_char n] else nat_digits (n div 10) @ [digit_char (n mod 10)])"

declare nat_digits.simps [simp del]

text \<open>\<^verbatim>\<open>strconv.Itoa\<close>.\<close>

definition Itoa :: "int \<Rightarrow> string" where
  "Itoa n = (if n < 0 then CHR ''-'' # nat_digits (nat (- n)) else nat_digits (nat n))"

definition digits_val :: "string \<Rightarrow> nat" where
  "digits_val s = foldl (\<lambda>n c. 10 * n + digit_val c) 0 s"

lemma digit_char_digit: "n < 10 \<Longrightarrow> is_digit (digit_char n) \<and> digit_val (digit_char n) = n"
  by (simp add: is_digit_def digit_val_def digit_char_def)

lemma nat_digits_digits: "\<forall>c \<in> set (nat_digits n). is_digit c"
proof (induction n rule: nat_digits.induct)
  case (1 n)
  then show ?case
    by (subst nat_digits.simps) (auto simp: digit_char_digit)
qed

lemma nat_digits_val: "digits_val (nat_digits n) = n"
proof (induction n rule: nat_digits.induct)
  case (1 n)
  show ?case
  proof (cases "n < 10")
    case True
    then show ?thesis by (subst nat_digits.simps) (simp add: digits_val_def digit_char_digit)
  next
    case False
    with 1 have "digits_val (nat_digits (n div 10)) = n div 10" by simp
    with False show ?thesis
      by (subst nat_digits.simps) (simp add: digits_val_def digit_char_digit)
  qed
qed

lemma nat_digits_ne [simp]: "nat_digits n \<noteq> []"
  by (subst nat_digits.simps) simp

lemma nat_digits_inj: "nat_digits m = nat_digits n \<longleftrightarrow> m = n"
  by (metis nat_digits_val)

text \<open>
  \<^verbatim>\<open>strconv.ParseInt(s, 10, 64)\<close>: an optional sign, then at least one digit; a value
  outside the 64-bit range is an error.
\<close>

definition ParseInt :: "string \<Rightarrow> int option" where
  "ParseInt s =
     (let (neg, ds) = (case s of
            [] \<Rightarrow> (False, [])
          | c # r \<Rightarrow> if c = CHR ''-'' then (True, r) else if c = CHR ''+'' then (False, r) else (False, s))
      in if ds = [] \<or> \<not> list_all is_digit ds then None
         else let n = int (digits_val ds)
              in if neg then (if n \<le> 2 ^ 63 then Some (- n) else None)
                 else (if n < 2 ^ 63 then Some n else None))"

lemma ParseInt_range: "ParseInt s = Some n \<Longrightarrow> - (2 ^ 63) \<le> n \<and> n < 2 ^ 63"
  by (auto simp: ParseInt_def Let_def split: if_splits list.splits prod.splits)

subsection \<open>Host and port\<close>

definition last_index :: "string \<Rightarrow> char \<Rightarrow> nat option" where
  "last_index s d = (if d \<in> set s then Some (length s - 1 - length (takeWhile (\<lambda>c. c \<noteq> d) (rev s)))
                     else None)"

text \<open>
  \<^verbatim>\<open>net.SplitHostPort\<close>: \<open>host:port\<close>, \<open>[host]:port\<close> or \<open>[host%zone]:port\<close>;
  \<open>None\<close> for every error.
\<close>

definition SplitHostPort :: "string \<Rightarrow> (string \<times> string) option" where
  "SplitHostPort hostport =
     (case last_index hostport (CHR '':'') of
        None \<Rightarrow> None
      | Some i \<Rightarrow>
          (if take 1 hostport = ''['' then
             (case Index hostport '']'' of
                None \<Rightarrow> None
              | Some e \<Rightarrow>
                  (if e + 1 = length hostport then None
                   else if e + 1 \<noteq> i then None
                   else if CHR ''['' \<in> set (drop 1 hostport) then None
                   else if CHR '']'' \<in> set (drop (e + 1) hostport) then None
                   else Some (take (e - 1) (drop 1 hostport), drop (i + 1) hostport)))
           else
             (if CHR '':'' \<in> set (take i hostport) then None
              else if CHR ''['' \<in> set hostport then None
              else if CHR '']'' \<in> set hostport then None
              else Some (take i hostport, drop (i + 1) hostport))))"

lemma SplitHostPort_no_colon: "CHR '':'' \<notin> set s \<Longrightarrow> SplitHostPort s = None"
  by (simp add: SplitHostPort_def last_index_def)

end
