(* ===== verification/Float64.thy ===== *)
theory Float64
  imports Prelude "HOL-Library.Log_Nat"
begin

text \<open>
  Go's \<^verbatim>\<open>float64\<close> arithmetic. A float is the rational number it stands for, and
  every operation of the source is the exact operation followed by \<open>fl\<close>, the rounding to
  the nearest number with a 53-bit significand, ties to even (IEEE 754). The exponent is
  not bounded: the limiters and detectors work with values between \<open>2\<^sup>-\<^sup>1\<^sup>0\<^sup>0\<close> and
  \<open>2\<^sup>2\<^sup>0\<^sup>0\<close>, far from overflow and from subnormal numbers, and no NaN or
  infinity arises there.

  The lemmas are what the limiters need: rounding is monotone, leaves numbers with at most
  53 significant bits alone, has a relative error of at most \<open>2\<^sup>-\<^sup>5\<^sup>3\<close>, and
  taking one token from a bucket of at most \<open>2\<^sup>5\<^sup>3\<close> is exact.
\<close>

subsection \<open>Rounding to an integer, half to even\<close>

definition rhe :: "rat \<Rightarrow> int" where
  "rhe y = (let f = \<lfloor>y\<rfloor>; d = y - of_int f in
            if d < 1 / 2 then f else if 1 / 2 < d then f + 1 else if even f then f else f + 1)"

lemma rhe_of_int [simp]: "rhe (of_int n) = n"
  by (simp add: rhe_def)

lemma rhe_error: "\<bar>of_int (rhe y) - y\<bar> \<le> 1 / 2"
proof -
  have "of_int \<lfloor>y\<rfloor> \<le> y" "y < of_int \<lfloor>y\<rfloor> + 1" by linarith+
  then show ?thesis by (auto simp: rhe_def Let_def abs_le_iff)
qed

lemma rhe_floor: "rhe y = \<lfloor>y\<rfloor> \<or> rhe y = \<lfloor>y\<rfloor> + 1"
  by (simp add: rhe_def Let_def)

lemma rhe_mono: "x \<le> y \<Longrightarrow> rhe x \<le> rhe y"
proof -
  assume le: "x \<le> y"
  then have f: "\<lfloor>x\<rfloor> \<le> \<lfloor>y\<rfloor>" by (rule floor_mono)
  show ?thesis
  proof (cases "\<lfloor>x\<rfloor> = \<lfloor>y\<rfloor>")
    case True
    with le show ?thesis by (auto simp: rhe_def Let_def)
  next
    case False
    with f have "\<lfloor>x\<rfloor> + 1 \<le> \<lfloor>y\<rfloor>" by linarith
    with rhe_floor [of x] rhe_floor [of y] show ?thesis by linarith
  qed
qed

subsection \<open>The exponent\<close>

definition lg :: "rat \<Rightarrow> int" where
  "lg x = (let (p, q) = quotient_of x; k = bitlen p - bitlen q
           in if 2 powi k \<le> x then k else k - 1)"

lemma powi2_pos [simp]: "(0::rat) < 2 powi k"
  by simp

lemma powi2_mono: "i \<le> j \<Longrightarrow> (2::rat) powi i \<le> 2 powi j"
  by (rule power_int_increasing) auto

lemma powi2_Suc: "(2::rat) powi (k + 1) = 2 * 2 powi k"
  by (simp add: power_int_add)

lemma floorlog_bounds: "0 < n \<Longrightarrow> 2 ^ (floorlog 2 n - 1) \<le> n \<and> n < 2 ^ floorlog 2 n \<and> 0 < floorlog 2 n"
  using floorlog_bounds [of n 2] by (auto simp: floorlog_def)

lemma lg_bounds:
  assumes "0 < x"
  shows "2 powi (lg x) \<le> x \<and> x < 2 powi (lg x + 1)"
proof -
  obtain p q where pq: "quotient_of x = (p, q)" by (cases "quotient_of x")
  then have q: "0 < q" and x: "x = of_int p / of_int q"
    by (auto dest: quotient_of_denom_pos quotient_of_div)
  with assms have p: "0 < p" by (auto simp: zero_less_divide_iff)
  define a b where "a = floorlog 2 (nat p)" and "b = floorlog 2 (nat q)"
  have A: "2 ^ (a - 1) \<le> nat p" "nat p < 2 ^ a" "0 < a"
    using Float64.floorlog_bounds [of "nat p"] p unfolding a_def by auto
  have B: "2 ^ (b - 1) \<le> nat q" "nat q < 2 ^ b" "0 < b"
    using Float64.floorlog_bounds [of "nat q"] q unfolding b_def by auto
  have rp: "of_int p = (of_nat (nat p) :: rat)" and rq: "of_int q = (of_nat (nat q) :: rat)"
    using p q by simp_all
  have pu: "of_int p < (2::rat) ^ a" unfolding rp using A(2)
    by (metis of_nat_less_iff of_nat_numeral of_nat_power)
  have pl: "(2::rat) ^ (a - 1) \<le> of_int p" unfolding rp using A(1)
    by (metis of_nat_le_iff of_nat_numeral of_nat_power)
  have qu: "of_int q < (2::rat) ^ b" unfolding rq using B(2)
    by (metis of_nat_less_iff of_nat_numeral of_nat_power)
  have ql: "(2::rat) ^ (b - 1) \<le> of_int q" unfolding rq using B(1)
    by (metis of_nat_le_iff of_nat_numeral of_nat_power)
  let ?k = "int a - int b"
  have low: "2 powi (?k - 1) \<le> x"
  proof -
    have "2 powi (?k - 1) = (2::rat) ^ (a - 1) / 2 ^ b"
      using A(3) by (simp add: power_int_diff of_nat_diff flip: power_int_of_nat)
    also have "\<dots> \<le> of_int p / of_int q"
      using pl qu q p by (intro frac_le) auto
    finally show ?thesis using x by simp
  qed
  have high: "x < 2 powi (?k + 1)"
  proof -
    have "of_int p / of_int q < (2::rat) ^ a / 2 ^ (b - 1)"
      using pu ql q p by (intro frac_less) auto
    also have "\<dots> = 2 powi (?k + 1)"
      using B(3) by (simp add: power_int_diff of_nat_diff power_int_add flip: power_int_of_nat)
    finally show ?thesis using x by simp
  qed
  have "lg x = (if 2 powi ?k \<le> x then ?k else ?k - 1)"
    by (simp add: lg_def pq a_def b_def Let_def bitlen_def)
  with low high show ?thesis by auto
qed

lemma lg_unique:
  assumes "2 powi k \<le> x" "x < 2 powi (k + 1)"
  shows "lg x = k"
proof -
  have "0 < x" using assms(1) powi2_pos [of k] by linarith
  from lg_bounds [OF this] have l: "2 powi (lg x) \<le> x" "x < 2 powi (lg x + 1)" by auto
  have "\<not> k + 1 \<le> lg x" using powi2_mono [of "k + 1" "lg x"] l assms by linarith
  moreover have "\<not> lg x + 1 \<le> k" using powi2_mono [of "lg x + 1" k] l assms by linarith
  ultimately show ?thesis by linarith
qed

lemma lg_mono: "0 < x \<Longrightarrow> x \<le> y \<Longrightarrow> lg x \<le> lg y"
proof (rule ccontr)
  assume x: "0 < x" and xy: "x \<le> y" and "\<not> lg x \<le> lg y"
  then have "lg y + 1 \<le> lg x" by linarith
  then have "(2::rat) powi (lg y + 1) \<le> 2 powi (lg x)" by (rule powi2_mono)
  with lg_bounds [OF x] lg_bounds [of y] x xy show False by linarith
qed

subsection \<open>Rounding\<close>

definition fl_pos :: "rat \<Rightarrow> rat" where
  "fl_pos x = (let u = 2 powi (lg x - 52) in of_int (rhe (x / u)) * u)"

definition fl :: "rat \<Rightarrow> rat" where
  "fl x = (if x = 0 then 0 else if 0 < x then fl_pos x else - fl_pos (- x))"

lemma fl_0 [simp]: "fl 0 = 0"
  by (simp add: fl_def)

lemma fl_uminus [simp]: "fl (- x) = - fl x"
  by (simp add: fl_def)

lemma scaled_bounds:
  assumes "0 < x"
  shows "2 ^ 52 \<le> x / 2 powi (lg x - 52) \<and> x / 2 powi (lg x - 52) < 2 ^ 53"
proof -
  have e: "(2::rat) powi (lg x - 52) * 2 ^ 52 = 2 powi (lg x)"
    "(2::rat) powi (lg x - 52) * 2 ^ 53 = 2 powi (lg x + 1)"
    by (simp_all add: power_int_diff power_int_add)
  then show ?thesis
    using lg_bounds [OF assms] by (simp add: field_simps)
qed

lemma fl_pos_bounds:
  assumes "0 < x"
  shows "2 powi (lg x) \<le> fl_pos x \<and> fl_pos x \<le> 2 powi (lg x + 1)"
proof -
  let ?u = "(2::rat) powi (lg x - 52)"
  from scaled_bounds [OF assms]
  have "rhe (of_int (2 ^ 52)) \<le> rhe (x / ?u)" "rhe (x / ?u) \<le> rhe (of_int (2 ^ 53))"
    by (auto intro!: rhe_mono)
  then have r: "2 ^ 52 \<le> rhe (x / ?u)" "rhe (x / ?u) \<le> 2 ^ 53" by (simp_all only: rhe_of_int)
  then have "(of_int (2 ^ 52) :: rat) \<le> of_int (rhe (x / ?u))"
    "of_int (rhe (x / ?u)) \<le> (of_int (2 ^ 53) :: rat)"
    by (simp_all only: of_int_le_iff)
  then have "of_int (2 ^ 52) * ?u \<le> fl_pos x" "fl_pos x \<le> of_int (2 ^ 53) * ?u"
    unfolding fl_pos_def Let_def by (intro mult_right_mono; simp)+
  moreover have "of_int (2 ^ 52) * ?u = 2 powi (lg x)" "of_int (2 ^ 53) * ?u = 2 powi (lg x + 1)"
    by (simp_all add: power_int_diff power_int_add)
  ultimately show ?thesis by simp
qed

lemma fl_pos_pos: "0 < x \<Longrightarrow> 0 < fl_pos x"
  using fl_pos_bounds [of x] powi2_pos [of "lg x"] by linarith

lemma fl_pos_mono:
  assumes "0 < x" "x \<le> y"
  shows "fl_pos x \<le> fl_pos y"
proof (cases "lg x = lg y")
  case True
  have "rhe (x / 2 powi (lg x - 52)) \<le> rhe (y / 2 powi (lg x - 52))"
    using assms by (intro rhe_mono divide_right_mono) auto
  with True show ?thesis by (simp add: fl_pos_def Let_def)
next
  case False
  with lg_mono [OF assms] have "lg x + 1 \<le> lg y" by linarith
  then have "(2::rat) powi (lg x + 1) \<le> 2 powi (lg y)" by (rule powi2_mono)
  with fl_pos_bounds [of x] fl_pos_bounds [of y] assms show ?thesis by linarith
qed

lemma fl_mono: "x \<le> y \<Longrightarrow> fl x \<le> fl y"
proof -
  assume le: "x \<le> y"
  consider "0 < x" | "x \<le> 0" "0 \<le> y" | "y < 0" by linarith
  then show ?thesis
  proof cases
    case 1
    with le fl_pos_mono show ?thesis by (simp add: fl_def)
  next
    case 2
    then show ?thesis using fl_pos_pos [of "- x"] fl_pos_pos [of y] by (auto simp: fl_def)
  next
    case 3
    with le fl_pos_mono [of "- y" "- x"] show ?thesis by (simp add: fl_def)
  qed
qed

lemma fl_nonneg: "0 \<le> x \<Longrightarrow> 0 \<le> fl x"
  using fl_mono [of 0 x] by simp

lemma fl_pos_error:
  assumes "0 < x"
  shows "\<bar>fl_pos x - x\<bar> \<le> x / 2 ^ 53"
proof -
  let ?u = "(2::rat) powi (lg x - 52)"
  have "fl_pos x - x = (of_int (rhe (x / ?u)) - x / ?u) * ?u"
    by (simp add: fl_pos_def Let_def left_diff_distrib)
  then have "\<bar>fl_pos x - x\<bar> = \<bar>of_int (rhe (x / ?u)) - x / ?u\<bar> * ?u" by (simp add: abs_mult)
  also have "\<dots> \<le> 1 / 2 * ?u" by (intro mult_right_mono rhe_error) simp
  also have "\<dots> \<le> x / 2 ^ 53" using scaled_bounds [OF assms] by (simp add: field_simps)
  finally show ?thesis .
qed

text \<open>The relative error of one rounding.\<close>

lemma fl_error: "\<bar>fl x - x\<bar> \<le> \<bar>x\<bar> / 2 ^ 53"
proof -
  consider "x = 0" | "0 < x" | "0 < - x" by linarith
  then show ?thesis
  proof cases
    case 2
    with fl_pos_error [of x] show ?thesis by (simp add: fl_def)
  next
    case 3
    with fl_pos_error [of "- x"] show ?thesis by (simp add: fl_def abs_if split: if_splits)
  qed simp
qed

lemma fl_le: "0 \<le> x \<Longrightarrow> fl x \<le> x * (1 + 1 / 2 ^ 53)"
proof -
  assume "0 \<le> x"
  with fl_error [of x] have "fl x - x \<le> x / 2 ^ 53" by (simp only: abs_le_iff abs_of_nonneg)
  then show ?thesis by (simp add: ring_distribs)
qed

subsection \<open>Numbers that need no rounding\<close>

definition is_f64 :: "rat \<Rightarrow> bool" where
  "is_f64 x = (fl x = x)"

lemma fl_pos_exact:
  assumes x: "x = of_int m * 2 powi e" and m: "0 < m" "m \<le> 2 ^ 53"
  shows "fl_pos x = x"
proof -
  have pos: "0 < x" using m x by simp
  have "x \<le> of_int (2 ^ 53) * 2 powi e"
    unfolding x using m(2) by (intro mult_right_mono) (simp_all only: of_int_le_iff, simp)
  also have "\<dots> = 2 powi (e + 53)" by (simp add: power_int_add)
  finally have le: "x \<le> 2 powi (e + 53)" .
  have lg: "lg x \<le> e + 53"
  proof (rule ccontr)
    assume "\<not> lg x \<le> e + 53"
    then have "(2::rat) powi (e + 54) \<le> 2 powi (lg x)" by (intro powi2_mono) linarith
    moreover have "(2::rat) powi (e + 53) < 2 powi (e + 54)" by (rule power_int_strict_increasing) auto
    ultimately show False using le lg_bounds [OF pos] by linarith
  qed
  have "\<exists>n. x / 2 powi (lg x - 52) = of_int n"
  proof (cases "lg x = e + 53")
    case True
    with lg_bounds [OF pos] le have "x = 2 powi (e + 53)" by simp
    with True have "x / 2 powi (lg x - 52) = of_int (2 ^ 52)"
      by (simp add: power_int_add)
    then show ?thesis by blast
  next
    case False
    define l where "l = lg x - 52"
    with False lg have "0 \<le> e - l" by linarith
    then obtain k where "e - l = int k" using zero_le_imp_eq_int by metis
    then have k: "e = l + int k" by linarith
    have "(2::rat) powi e = 2 ^ k * 2 powi l" by (simp add: k power_int_add)
    with x have "x = of_int (m * 2 ^ k) * 2 powi l" by simp
    then have "x / 2 powi l = of_int (m * 2 ^ k)"
      by (metis nonzero_mult_div_cancel_right powi2_pos less_irrefl)
    then have "x / 2 powi (lg x - 52) = of_int (m * 2 ^ k)" by (simp only: l_def)
    then show ?thesis by blast
  qed
  then obtain n where n: "x / 2 powi (lg x - 52) = of_int n" by blast
  then have "x = of_int n * 2 powi (lg x - 52)" by (simp add: field_simps)
  with n show ?thesis by (simp add: fl_pos_def Let_def)
qed

lemma fl_exact:
  assumes "x = of_int m * 2 powi e" "\<bar>m\<bar> \<le> 2 ^ 53"
  shows "fl x = x"
proof -
  consider "m = 0" | "0 < m" | "0 < - m" by linarith
  then show ?thesis
  proof cases
    case 2
    then have "0 < x" using assms by simp
    with 2 assms fl_pos_exact [of x m e] show ?thesis by (simp add: fl_def)
  next
    case 3
    then have "x < 0" using assms by (simp add: mult_less_0_iff)
    with 3 assms fl_pos_exact [of "- x" "- m" e] show ?thesis by (simp add: fl_def)
  qed (use assms in simp)
qed

lemma fl_of_int: "\<bar>n\<bar> \<le> 2 ^ 53 \<Longrightarrow> fl (of_int n) = of_int n"
  using fl_exact [of "of_int n" n 0] by simp

lemma fl_1 [simp]: "fl 1 = 1"
  using fl_of_int [of 1] by simp

text \<open>A rounded number is a 53-bit integer times a power of two.\<close>

lemma fl_form:
  assumes "0 < x"
  shows "\<exists>m. fl x = of_int m * 2 powi (lg x - 52) \<and> 0 < m \<and> m \<le> 2 ^ 53"
proof -
  let ?m = "rhe (x / 2 powi (lg x - 52))"
  from scaled_bounds [OF assms]
  have "rhe (of_int (2 ^ 52)) \<le> ?m" "?m \<le> rhe (of_int (2 ^ 53))"
    by (auto intro!: rhe_mono)
  then have "2 ^ 52 \<le> ?m" "?m \<le> 2 ^ 53" by (simp_all only: rhe_of_int)
  then show ?thesis using assms by (auto simp: fl_def fl_pos_def Let_def intro!: exI [of _ ?m])
qed

lemma fl_fl [simp]: "fl (fl x) = fl x"
proof -
  consider "x = 0" | "0 < x" | "0 < - x" by linarith
  then show ?thesis
  proof cases
    case 2
    from fl_form [OF 2] fl_exact show ?thesis by (metis abs_of_pos)
  next
    case 3
    from fl_form [OF 3] fl_exact have "fl (fl (- x)) = fl (- x)" by (metis abs_of_pos)
    then show ?thesis by simp
  qed simp
qed

lemma is_f64_fl [simp, intro]: "is_f64 (fl x)"
  by (simp add: is_f64_def)

text \<open>Taking a whole number of tokens is exact.\<close>

lemma fl_minus_int:
  assumes f: "is_f64 x" and n: "0 \<le> n" "of_int n \<le> x" and x: "x \<le> 2 ^ 53"
  shows "fl (x - of_int n) = x - of_int n"
proof (cases "x = 2 ^ 53 \<or> x = 0")
  case True
  then have "x - of_int n = of_int (2 ^ 53 - n) \<or> x - of_int n = of_int (0 - n)" by auto
  moreover have "n \<le> 2 ^ 53"
  proof -
    have "(of_int n :: rat) \<le> of_int (2 ^ 53)" using n x by simp
    then show ?thesis by (simp only: of_int_le_iff)
  qed
  ultimately show ?thesis using n fl_of_int [of "2 ^ 53 - n"] fl_of_int [of "0 - n"] by auto
next
  case False
  have pos: "0 < x" using n False by (metis less_eq_rat_def of_int_0_le_iff order_trans)
  from fl_form [OF pos] f obtain m where m: "x = of_int m * 2 powi (lg x - 52)" "0 < m" "m \<le> 2 ^ 53"
    by (auto simp: is_f64_def)
  have "lg x < 53"
  proof (rule ccontr)
    assume "\<not> lg x < 53"
    then have "(2::rat) powi 53 \<le> 2 powi (lg x)" by (intro powi2_mono) simp
    with lg_bounds [OF pos] x False show False by (simp add: power_int_numeral)
  qed
  then obtain k where k: "52 - lg x = int k" using zero_le_imp_eq_int [of "52 - lg x"] by auto
  have "2 powi (lg x - 52) * (2::rat) ^ k = 1"
  proof -
    have "lg x - 52 = - int k" using k by simp
    then show ?thesis by (simp add: power_int_minus)
  qed
  then have "of_int n = of_int (n * 2 ^ k) * (2::rat) powi (lg x - 52)"
    by (simp add: mult.commute)
  then have e: "x - of_int n = of_int (m - n * 2 ^ k) * 2 powi (lg x - 52)"
    using m(1) by (metis left_diff_distrib of_int_diff)
  have "0 \<le> of_int (m - n * 2 ^ k) * (2::rat) powi (lg x - 52)" using e n by linarith
  then have "(0::rat) \<le> of_int (m - n * 2 ^ k)" by (metis powi2_pos mult_neg_pos not_le)
  then have "0 \<le> m - n * 2 ^ k" by (simp only: of_int_0_le_iff)
  moreover have "0 \<le> n * 2 ^ k" using n by simp
  ultimately have "\<bar>m - n * 2 ^ k\<bar> \<le> 2 ^ 53" using m(3) by linarith
  with e show ?thesis by (rule fl_exact)
qed

subsection \<open>The conversions the limiters use\<close>

text \<open>\<^verbatim>\<open>float64(n)\<close> of an integer.\<close>

definition f64_of_int :: "int \<Rightarrow> rat" where
  "f64_of_int n = fl (of_int n)"

text \<open>
  \<^verbatim>\<open>Duration.Seconds\<close>: whole seconds plus the nanoseconds left over divided by
  \<^verbatim>\<open>1e9\<close>, each rounded. Go's division truncates; the limiters only ask for the
  seconds of a positive duration.
\<close>

definition Seconds :: "duration \<Rightarrow> rat" where
  "Seconds d = (let s = sgn d * (\<bar>d\<bar> div Second); ns = d - s * Second
                in fl (f64_of_int s + fl (f64_of_int ns / 1000000000)))"

lemma Seconds_0 [simp]: "Seconds 0 = 0"
  by (simp add: Seconds_def f64_of_int_def)

lemma Seconds_pos_iff: "0 < d \<Longrightarrow> 0 < Seconds d"
proof -
  assume d: "0 < d"
  let ?s = "d div Second" and ?n = "d mod Second"
  have S: "Seconds d = fl (f64_of_int ?s + fl (f64_of_int ?n / 1000000000))"
    using d by (simp add: Seconds_def Let_def minus_div_mult_eq_mod)
  have s: "0 \<le> ?s" and n: "0 \<le> ?n" using d by (simp_all add: Second_def pos_imp_zdiv_nonneg_iff)
  have fs: "0 \<le> f64_of_int ?s" "0 < ?s \<Longrightarrow> 1 \<le> f64_of_int ?s"
    using fl_mono [of 1 "of_int ?s"] fl_nonneg s by (simp_all add: f64_of_int_def)
  have fn: "0 \<le> f64_of_int ?n" "0 < ?n \<Longrightarrow> 1 \<le> f64_of_int ?n"
    using fl_mono [of 1 "of_int ?n"] fl_nonneg n by (simp_all add: f64_of_int_def)
  have "0 < ?s \<or> 0 < ?n" using d s n div_mult_mod_eq [of d Second]
    by (metis add_cancel_left_right less_le mult_zero_left)
  then show ?thesis
  proof
    assume "0 < ?s"
    have "1 \<le> f64_of_int ?s + fl (f64_of_int ?n / 1000000000)"
      using fs(2) [OF \<open>0 < ?s\<close>] fl_nonneg [of "f64_of_int ?n / 1000000000"] fn(1) by simp
    from fl_mono [OF this] show ?thesis unfolding S by simp
  next
    assume "0 < ?n"
    then have "0 < f64_of_int ?n / 1000000000" using fn(2) by simp
    then have "0 < fl (f64_of_int ?n / 1000000000)"
      using fl_pos_pos by (simp add: fl_def)
    with fs(1) have "0 < f64_of_int ?s + fl (f64_of_int ?n / 1000000000)" by linarith
    then show ?thesis unfolding S using fl_pos_pos by (simp add: fl_def)
  qed
qed

end
