(* ===== verification/GoList.thy ===== *)
theory GoList
  imports Prelude
begin

text \<open>
  Go's \<^verbatim>\<open>container/list\<close>, the doubly linked list under the response cache, the rate
  limiter and the challenge store. A list is the sequence of its elements, front first; an
  element is its identity (a number never used twice in a list, for the pointer
  \<^verbatim>\<open>*list.Element\<close>) and its value.

  The three stores use the list in the same way: a map finds the element of a key, the list
  keeps the keys in order of use or of age. The locale \<open>element_list\<close> is the interface
  they rely on, with the facts about such an index proved once from its laws; it is
  interpreted for the lists that grow at the front and for those that grow at the back.
\<close>

record 'v golist =
  elems :: "(nat \<times> 'v) list"
  next_elem :: nat

definition new_list :: "'v golist" where
  "new_list = \<lparr>elems = [], next_elem = 0\<rparr>"

definition Len :: "'v golist \<Rightarrow> nat" where
  "Len l = length (elems l)"

definition Front :: "'v golist \<Rightarrow> (nat \<times> 'v) option" where
  "Front l = (case elems l of [] \<Rightarrow> None | p # _ \<Rightarrow> Some p)"

definition Back :: "'v golist \<Rightarrow> (nat \<times> 'v) option" where
  "Back l = (if elems l = [] then None else Some (last (elems l)))"

definition Value :: "'v golist \<Rightarrow> nat \<Rightarrow> 'v option" where
  "Value l e = map_of (elems l) e"

definition SetValue :: "nat \<Rightarrow> 'v \<Rightarrow> 'v golist \<Rightarrow> 'v golist" where
  "SetValue e v l = l\<lparr>elems := map (\<lambda>p. if fst p = e then (e, v) else p) (elems l)\<rparr>"

definition Remove :: "nat \<Rightarrow> 'v golist \<Rightarrow> 'v golist" where
  "Remove e l = l\<lparr>elems := filter (\<lambda>p. fst p \<noteq> e) (elems l)\<rparr>"

definition PushFront :: "'v \<Rightarrow> 'v golist \<Rightarrow> nat \<times> 'v golist" where
  "PushFront v l = (next_elem l,
     l\<lparr>elems := (next_elem l, v) # elems l, next_elem := Suc (next_elem l)\<rparr>)"

definition PushBack :: "'v \<Rightarrow> 'v golist \<Rightarrow> nat \<times> 'v golist" where
  "PushBack v l = (next_elem l,
     l\<lparr>elems := elems l @ [(next_elem l, v)], next_elem := Suc (next_elem l)\<rparr>)"

definition MoveToFront :: "nat \<Rightarrow> 'v golist \<Rightarrow> 'v golist" where
  "MoveToFront e l = l\<lparr>elems :=
     filter (\<lambda>p. fst p = e) (elems l) @ filter (\<lambda>p. fst p \<noteq> e) (elems l)\<rparr>"

definition MoveToBack :: "nat \<Rightarrow> 'v golist \<Rightarrow> 'v golist" where
  "MoveToBack e l = l\<lparr>elems :=
     filter (\<lambda>p. fst p \<noteq> e) (elems l) @ filter (\<lambda>p. fst p = e) (elems l)\<rparr>"

text \<open>No two elements have the same identity, and the next identity is unused.\<close>

definition list_ok :: "'v golist \<Rightarrow> bool" where
  "list_ok l = (distinct (map fst (elems l)) \<and> (\<forall>p \<in> set (elems l). fst p < next_elem l))"

lemmas golist_defs = new_list_def Len_def Front_def Back_def Value_def SetValue_def Remove_def
  PushFront_def PushBack_def MoveToFront_def MoveToBack_def list_ok_def

lemma filter_eq_fst:
  "distinct (map fst xs) \<Longrightarrow> (e, v) \<in> set xs \<Longrightarrow> filter (\<lambda>p. fst p = e) xs = [(e, v)]"
proof (induction xs)
  case Nil
  then show ?case by simp
next
  case (Cons a xs)
  show ?case
  proof (cases "fst a = e")
    case True
    with Cons.prems have "e \<notin> fst ` set xs" by auto
    then have "filter (\<lambda>p. fst p = e) xs = []" by (auto simp: filter_empty_conv)
    with True Cons.prems \<open>e \<notin> fst ` set xs\<close> show ?thesis by (auto simp: image_iff)
  next
    case False
    with Cons show ?thesis by auto
  qed
qed

lemma distinct_split_fst:
  "distinct (map fst xs) \<Longrightarrow>
   distinct (map fst (filter (\<lambda>p. fst p = e) xs @ filter (\<lambda>p. fst p \<noteq> e) xs))"
  by (auto simp: distinct_map_filter)

lemma list_ok_new [simp, go_intros]: "list_ok new_list"
  by (simp add: golist_defs)

lemma list_ok_Remove [go_intros]: "list_ok l \<Longrightarrow> list_ok (Remove e l)"
  by (auto simp: golist_defs distinct_map_filter)

lemma list_ok_SetValue [go_intros]: "list_ok l \<Longrightarrow> list_ok (SetValue e v l)"
proof -
  have "map fst (map (\<lambda>p. if fst p = e then (e, v) else p) xs) = map fst xs" for xs :: "(nat \<times> 'a) list"
    by simp
  then show "list_ok l \<Longrightarrow> list_ok (SetValue e v l)"
    by (auto simp: golist_defs simp del: map_map split: if_splits)
qed

lemma list_ok_PushFront [go_intros]: "list_ok l \<Longrightarrow> list_ok (snd (PushFront v l))"
  by (auto simp: golist_defs less_Suc_eq)

lemma list_ok_PushBack [go_intros]: "list_ok l \<Longrightarrow> list_ok (snd (PushBack v l))"
  by (auto simp: golist_defs less_Suc_eq)

lemma list_ok_MoveToFront [go_intros]: "list_ok l \<Longrightarrow> list_ok (MoveToFront e l)"
  using distinct_split_fst [of "elems l" e] by (auto simp: golist_defs)

lemma list_ok_MoveToBack [go_intros]: "list_ok l \<Longrightarrow> list_ok (MoveToBack e l)"
  using distinct_split_fst [of "elems l" e] by (auto simp: golist_defs)

lemma Value_iff: "list_ok l \<Longrightarrow> Value l e = Some v \<longleftrightarrow> (e, v) \<in> set (elems l)"
  by (simp add: Value_def list_ok_def)

lemma Back_mem: "Back l = Some p \<Longrightarrow> p \<in> set (elems l)"
  by (auto simp: Back_def split: if_splits)

lemma Front_mem: "Front l = Some p \<Longrightarrow> p \<in> set (elems l)"
  by (auto simp: Front_def split: list.splits)

text \<open>What removing the last or moving an element does to the sequence of values.\<close>

lemma filter_not_last:
  "distinct (map fst xs) \<Longrightarrow> xs \<noteq> [] \<Longrightarrow> filter (\<lambda>p. fst p \<noteq> fst (last xs)) xs = butlast xs"
proof (induction xs rule: rev_induct)
  case (snoc x xs)
  then have "fst x \<notin> fst ` set xs" by auto
  then have "filter (\<lambda>p. fst p \<noteq> fst x) xs = xs" by (auto simp: filter_id_conv image_iff)
  then show ?case by simp
qed simp

lemma elems_Remove_Back:
  "list_ok l \<Longrightarrow> Back l = Some p \<Longrightarrow> elems (Remove (fst p) l) = butlast (elems l)"
  by (auto simp: golist_defs filter_not_last split: if_splits)

lemma elems_MoveToFront:
  "list_ok l \<Longrightarrow> (e, v) \<in> set (elems l) \<Longrightarrow>
   elems (MoveToFront e l) = (e, v) # elems (Remove e l)"
  by (simp add: golist_defs filter_eq_fst)

lemma elems_SetValue_Front:
  "list_ok l \<Longrightarrow> (e, v) \<in> set (elems l) \<Longrightarrow>
   elems (SetValue e w (MoveToFront e l)) = (e, w) # elems (Remove e l)"
  by (simp add: elems_MoveToFront SetValue_def) (auto simp: golist_defs intro!: map_idI)

lemma elems_PushFront: "elems (snd (PushFront v l)) = (next_elem l, v) # elems l"
  by (simp add: PushFront_def)

lemma elems_PushBack: "elems (snd (PushBack v l)) = elems l @ [(next_elem l, v)]"
  by (simp add: PushBack_def)

subsection \<open>An index into a list\<close>

text \<open>
  \<open>indexes keyof xs idx\<close>: the map \<open>idx\<close> takes a key to the element whose value has that
  key, and to nothing when there is none.
\<close>

definition indexes :: "('v \<Rightarrow> 'k) \<Rightarrow> (nat \<times> 'v) list \<Rightarrow> ('k \<rightharpoonup> nat) \<Rightarrow> bool" where
  "indexes keyof xs idx = (\<forall>k e. idx k = Some e \<longleftrightarrow> (\<exists>v. (e, v) \<in> set xs \<and> keyof v = k))"

lemma indexes_empty [simp]: "indexes keyof [] Map.empty"
  by (simp add: indexes_def)

lemma indexesD: "indexes keyof xs idx \<Longrightarrow> idx k = Some e \<Longrightarrow> \<exists>v. (e, v) \<in> set xs \<and> keyof v = k"
  by (simp add: indexes_def)

lemma indexes_mem: "indexes keyof xs idx \<Longrightarrow> (e, v) \<in> set xs \<Longrightarrow> idx (keyof v) = Some e"
  by (auto simp: indexes_def)

lemma indexes_set: "indexes keyof xs idx \<Longrightarrow> set ys = set xs \<Longrightarrow> indexes keyof ys idx"
  by (simp add: indexes_def)

text \<open>Only the pairs of element and key matter, so a value may be replaced by one of the same key.\<close>

lemma indexes_image:
  "indexes keyof xs idx \<longleftrightarrow>
   (\<forall>k e. idx k = Some e \<longleftrightarrow> (e, k) \<in> (\<lambda>p. (fst p, keyof (snd p))) ` set xs)"
  unfolding indexes_def image_iff by (simp add: Bex_def) metis

lemma indexes_replace:
  assumes ix: "indexes keyof xs idx" and d: "distinct (map fst xs)" and mem: "(e, old) \<in> set xs"
    and k: "keyof new = keyof old" and ys: "set ys = insert (e, new) {p \<in> set xs. fst p \<noteq> e}"
  shows "indexes keyof ys idx"
proof -
  let ?f = "\<lambda>p. (fst p, keyof (snd p))"
  have "set xs = insert (e, old) {p \<in> set xs. fst p \<noteq> e}"
    using mem d by (auto dest: eq_key_imp_eq_value)
  then have "?f ` set xs = insert (e, keyof old) (?f ` {p \<in> set xs. fst p \<noteq> e})"
    by (metis (no_types, lifting) fst_conv image_insert snd_conv)
  also have "\<dots> = ?f ` set ys" by (simp add: ys k)
  finally show ?thesis using ix unfolding indexes_image by simp
qed

lemma indexes_distinct_keys:
  assumes "indexes keyof xs idx" "distinct (map fst xs)"
  shows "distinct (map (\<lambda>p. keyof (snd p)) xs)"
proof -
  have "inj_on (\<lambda>p. keyof (snd p)) (set xs)"
  proof (rule inj_onI)
    fix p q assume p: "p \<in> set xs" "q \<in> set xs" and eq: "keyof (snd p) = keyof (snd q)"
    with assms(1) have "fst p = fst q"
      by (metis indexes_mem option.inject prod.collapse)
    with assms(2) p show "p = q" by (metis distinct_map inj_onD)
  qed
  with assms(2) show ?thesis by (simp add: distinct_map)
qed

lemma indexes_dom: "indexes keyof xs idx \<Longrightarrow> dom idx = (\<lambda>p. keyof (snd p)) ` set xs"
  by (force simp: indexes_def dom_def)

lemma indexes_card:
  assumes "indexes keyof xs idx" "distinct (map fst xs)"
  shows "card (dom idx) = length xs"
  using indexes_distinct_keys [OF assms] indexes_dom [OF assms(1)]
  by (metis distinct_card length_map list.set_map)

text \<open>Dropping an element from the list drops its key from the sequence of values.\<close>

lemma indexes_filter:
  assumes "indexes keyof xs idx" "(e, v) \<in> set xs" and d: "distinct (map fst xs)"
  shows "map snd (filter (\<lambda>p. fst p \<noteq> e) xs) = filter (\<lambda>w. keyof w \<noteq> keyof v) (map snd xs)"
proof -
  have "fst p \<noteq> e \<longleftrightarrow> keyof (snd p) \<noteq> keyof v" if "p \<in> set xs" for p
    using that assms by (metis eq_key_imp_eq_value indexes_mem option.inject prod.collapse)
  then show ?thesis
    by (auto simp: filter_map comp_def intro!: arg_cong [where f = "map snd"] filter_cong)
qed

locale element_list =
  fixes els :: "'l \<Rightarrow> (nat \<times> 'v) list"
    and ok :: "'l \<Rightarrow> bool"
    and push :: "'v \<Rightarrow> 'l \<Rightarrow> nat \<times> 'l"
    and touch :: "nat \<Rightarrow> 'l \<Rightarrow> 'l"
    and remove :: "nat \<Rightarrow> 'l \<Rightarrow> 'l"
  assumes ok_distinct: "ok l \<Longrightarrow> distinct (map fst (els l))"
    and ok_push: "ok l \<Longrightarrow> ok (snd (push v l))"
    and ok_touch: "ok l \<Longrightarrow> ok (touch e l)"
    and ok_remove: "ok l \<Longrightarrow> ok (remove e l)"
    and push_fresh: "ok l \<Longrightarrow> fst (push v l) \<notin> fst ` set (els l)"
    and push_set: "ok l \<Longrightarrow> set (els (snd (push v l))) = insert (fst (push v l), v) (set (els l))"
    and touch_set: "ok l \<Longrightarrow> set (els (touch e l)) = set (els l)"
    and remove_set: "ok l \<Longrightarrow> set (els (remove e l)) = {p \<in> set (els l). fst p \<noteq> e}"
begin

lemma distinct_els: "ok l \<Longrightarrow> distinct (els l)"
  using ok_distinct by (auto simp: distinct_map)

lemma length_push: "ok l \<Longrightarrow> length (els (snd (push v l))) = Suc (length (els l))"
proof -
  assume l: "ok l"
  have d: "distinct (els (snd (push v l)))" "distinct (els l)"
    using l by (simp_all add: distinct_els ok_push)
  have "(fst (push v l), v) \<notin> set (els l)" using push_fresh [OF l, of v] by force
  then have "card (set (els (snd (push v l)))) = Suc (card (set (els l)))"
    by (simp add: push_set [OF l])
  with d show ?thesis by (simp add: distinct_card)
qed

lemma length_touch: "ok l \<Longrightarrow> length (els (touch e l)) = length (els l)"
  by (metis distinct_card distinct_els ok_touch touch_set)

lemma length_remove: "ok l \<Longrightarrow> e \<in> fst ` set (els l) \<Longrightarrow> Suc (length (els (remove e l))) = length (els l)"
proof -
  assume l: "ok l" and "e \<in> fst ` set (els l)"
  then obtain v where v: "(e, v) \<in> set (els l)" by force
  have d: "distinct (els (remove e l))" "distinct (els l)" and m: "distinct (map fst (els l))"
    using l by (simp_all add: distinct_els ok_remove ok_distinct)
  have "{p \<in> set (els l). fst p \<noteq> e} = set (els l) - {(e, v)}"
    using m v by (force simp: distinct_map inj_on_def)
  then have "card (set (els (remove e l))) = card (set (els l)) - 1"
    using v by (simp add: remove_set [OF l])
  moreover have "0 < card (set (els l))" using v by (auto simp: card_gt_0_iff)
  ultimately show ?thesis using d by (simp add: distinct_card)
qed

lemma indexes_push:
  assumes "ok l" "indexes keyof (els l) idx" "idx (keyof v) = None"
  shows "indexes keyof (els (snd (push v l))) (idx(keyof v \<mapsto> fst (push v l)))"
proof -
  have "(fst (push v l), w) \<notin> set (els l)" for w
    using push_fresh [OF assms(1), of v] by force
  moreover have "keyof w \<noteq> keyof v" if "(e, w) \<in> set (els l)" for e w
    using indexes_mem [OF assms(2) that] assms(3) by auto
  ultimately show ?thesis
    using assms(2) by (auto simp: indexes_def push_set [OF assms(1)])
qed

lemma indexes_touch: "ok l \<Longrightarrow> indexes keyof (els l) idx \<Longrightarrow> indexes keyof (els (touch e l)) idx"
  by (rule indexes_set) (auto simp: touch_set)

lemma indexes_remove:
  assumes "ok l" "indexes keyof (els l) idx" "(e, v) \<in> set (els l)"
  shows "indexes keyof (els (remove e l)) (idx(keyof v := None))"
proof -
  have "w = v" if "(e, w) \<in> set (els l)" for w
    using that assms(1,3) by (metis eq_key_imp_eq_value ok_distinct)
  moreover have "e' = e" if "(e', w) \<in> set (els l)" "keyof w = keyof v" for e' w
    using that indexes_mem [OF assms(2)] assms(3) by (metis option.inject)
  ultimately show ?thesis
    using assms(2) by (auto simp: indexes_def remove_set [OF assms(1)])
qed

lemma indexes_remove_absent:
  assumes "ok l" "indexes keyof (els l) idx" "e \<notin> fst ` set (els l)"
  shows "indexes keyof (els (remove e l)) idx"
  using assms by (intro indexes_set [OF assms(2)]) (force simp: remove_set)

end

interpretation front_list: element_list elems list_ok PushFront MoveToFront Remove
proof unfold_locales
  fix l :: "'a golist" and e v
  assume l: "list_ok l"
  show "distinct (map fst (elems l))" using l by (simp add: list_ok_def)
  show "list_ok (snd (PushFront v l))" "list_ok (MoveToFront e l)" "list_ok (Remove e l)"
    using l by (simp_all add: go_intros)
  show "fst (PushFront v l) \<notin> fst ` set (elems l)"
    using l by (auto simp: golist_defs)
  show "set (elems (snd (PushFront v l))) = insert (fst (PushFront v l), v) (set (elems l))"
    by (simp add: golist_defs)
  show "set (elems (MoveToFront e l)) = set (elems l)" by (auto simp: golist_defs)
  show "set (elems (Remove e l)) = {p \<in> set (elems l). fst p \<noteq> e}" by (simp add: golist_defs)
qed

interpretation back_list: element_list elems list_ok PushBack MoveToBack Remove
proof unfold_locales
  fix l :: "'a golist" and e v
  assume l: "list_ok l"
  show "distinct (map fst (elems l))" using l by (simp add: list_ok_def)
  show "list_ok (snd (PushBack v l))" "list_ok (MoveToBack e l)" "list_ok (Remove e l)"
    using l by (simp_all add: go_intros)
  show "fst (PushBack v l) \<notin> fst ` set (elems l)"
    using l by (auto simp: golist_defs)
  show "set (elems (snd (PushBack v l))) = insert (fst (PushBack v l), v) (set (elems l))"
    by (simp add: golist_defs)
  show "set (elems (MoveToBack e l)) = set (elems l)" by (auto simp: golist_defs)
  show "set (elems (Remove e l)) = {p \<in> set (elems l). fst p \<noteq> e}" by (simp add: golist_defs)
qed

end
