(* ===== verification/GoMap.thy ===== *)
theory GoMap
  imports Prelude "HOL-Library.AList"
begin

text \<open>
  Go maps whose size the program asks for or which it ranges over: an association list with
  at most one pair per key. Reading is \<open>map_of\<close>, storing \<open>AList.update\<close>, deleting
  \<open>AList.delete\<close>, \<^verbatim>\<open>len\<close> is \<open>length\<close> and ranging over the map goes through the
  pairs; Go leaves the order open, and no theorem depends on it.
\<close>

type_synonym ('k, 'v) gomap = "('k \<times> 'v) list"

definition map_ok :: "('k, 'v) gomap \<Rightarrow> bool" where
  "map_ok m = distinct (map fst m)"

lemmas gomap_simps = AList.update_conv' AList.delete_conv'

lemma map_ok_Nil [simp]: "map_ok []"
  by (simp add: map_ok_def)

lemma map_ok_update [go_intros]: "map_ok m \<Longrightarrow> map_ok (AList.update k v m)"
  by (simp add: map_ok_def AList.distinct_update)

lemma map_ok_delete [go_intros]: "map_ok m \<Longrightarrow> map_ok (AList.delete k m)"
  by (simp add: map_ok_def AList.distinct_delete)

lemma map_of_update [simp]: "map_of (AList.update k v m) = (map_of m)(k \<mapsto> v)"
  by (rule AList.update_conv')

lemma map_of_delete [simp]: "map_of (AList.delete k m) = (map_of m)(k := None)"
  by (rule AList.delete_conv')

lemma length_update:
  "length (AList.update k v m) = (if map_of m k = None then Suc (length m) else length m)"
  by (induction m) auto

lemma length_delete_le: "length (AList.delete k m) \<le> length m"
  by (simp add: AList.delete_eq)

lemma length_delete:
  assumes "map_ok m" "map_of m k \<noteq> None"
  shows "Suc (length (AList.delete k m)) = length m"
proof -
  from assms(2) obtain v where v: "(k, v) \<in> set m" by (auto dest: map_of_SomeD)
  have "AList.delete k m = filter (\<lambda>p. fst p \<noteq> fst (k, v)) m"
    by (induction m) auto
  moreover have "0 < length m" using v by (cases m) auto
  ultimately show ?thesis
    using length_filter_ne_distinct [of fst m "(k, v)"] assms(1) v by (simp add: map_ok_def)
qed

lemma length_dom: "map_ok m \<Longrightarrow> length m = card (dom (map_of m))"
  by (metis distinct_card dom_map_of_conv_image_fst length_map list.set_map map_ok_def)

lemma delete_absent: "map_of m k = None \<Longrightarrow> AList.delete k m = m"
  by (induction m) (auto split: if_splits)

lemma ran_update: "v' \<in> ran (map_of (AList.update k v m)) \<Longrightarrow> v' = v \<or> v' \<in> ran (map_of m)"
  by (auto simp: ran_def split: if_splits)

lemma set_update_subset: "set (AList.update k v m) \<subseteq> insert (k, v) (set m)"
  by (induction m) auto

text \<open>A sum over the pairs changes by the pair that is stored.\<close>

lemma sum_update:
  fixes f :: "'k \<times> 'v \<Rightarrow> 'a :: ab_group_add"
  assumes "map_ok m"
  shows "sum_list (map f (AList.update k v m)) =
    sum_list (map f m) - (case map_of m k of None \<Rightarrow> 0 | Some x \<Rightarrow> f (k, x)) + f (k, v)"
  using assms by (induction m) (auto simp: map_ok_def map_of_eq_None_iff algebra_simps split: option.splits)

end
