(* ===== verification/GoHttp.thy ===== *)
theory GoHttp
  imports GoStrings
begin

text \<open>
  What the program uses of Go's \<^verbatim>\<open>net/http\<close> and \<^verbatim>\<open>net/url\<close>: header maps
  with their canonical keys, percent-encoding of paths and queries, and the fields of a
  request. A header is a map from canonical keys to the list of their values.
\<close>

type_synonym header = "string \<rightharpoonup> string list"

subsection \<open>Canonical header keys\<close>

definition is_alpha :: "char \<Rightarrow> bool" where
  "is_alpha c = (let n = (of_char c :: nat) in (97 \<le> n \<and> n \<le> 122) \<or> (65 \<le> n \<and> n \<le> 90))"

definition is_alnum :: "char \<Rightarrow> bool" where
  "is_alnum c = (is_alpha c \<or> is_digit c)"

definition is_tchar :: "char \<Rightarrow> bool" where
  "is_tchar c = (is_alnum c \<or> c \<in> set ''!#$%&*+-.^_`|~'' \<or> c = CHR 0x27)"

fun canon_from :: "bool \<Rightarrow> string \<Rightarrow> string" where
  "canon_from up [] = []"
| "canon_from up (c # s) = (if up then upper_char c else lower_char c) # canon_from (c = CHR ''-'') s"

definition canonical_key :: "string \<Rightarrow> string" where
  "canonical_key k = (if list_all is_tchar k then canon_from True k else k)"

definition hdr_values :: "header \<Rightarrow> string \<Rightarrow> string list" where
  "hdr_values h k = (case h (canonical_key k) of None \<Rightarrow> [] | Some vs \<Rightarrow> vs)"

definition hdr_get :: "header \<Rightarrow> string \<Rightarrow> string" where
  "hdr_get h k = (case hdr_values h k of [] \<Rightarrow> [] | v # _ \<Rightarrow> v)"

definition hdr_set :: "string \<Rightarrow> string \<Rightarrow> header \<Rightarrow> header" where
  "hdr_set k v h = h(canonical_key k \<mapsto> [v])"

definition hdr_del :: "string \<Rightarrow> header \<Rightarrow> header" where
  "hdr_del k h = h(canonical_key k := None)"

definition hdr_add :: "string \<Rightarrow> string \<Rightarrow> header \<Rightarrow> header" where
  "hdr_add k v h = h(canonical_key k \<mapsto> hdr_values h k @ [v])"

lemma hdr_get_set [simp]: "hdr_get (hdr_set k v h) k = v"
  by (simp add: hdr_get_def hdr_values_def hdr_set_def)

lemma hdr_get_del [simp]: "hdr_get (hdr_del k h) k = []"
  by (simp add: hdr_get_def hdr_values_def hdr_del_def)

lemma hdr_values_del [simp]: "hdr_values (hdr_del k h) k = []"
  by (simp add: hdr_values_def hdr_del_def)

lemma hdr_values_set: "hdr_values (hdr_set k v h) k' =
    (if canonical_key k' = canonical_key k then [v] else hdr_values h k')"
  by (simp add: hdr_values_def hdr_set_def)

lemma hdr_values_del_other: "hdr_values (hdr_del k h) k' =
    (if canonical_key k' = canonical_key k then [] else hdr_values h k')"
  by (simp add: hdr_values_def hdr_del_def)

subsection \<open>Percent-encoding\<close>

datatype url_mode = EncodePath | EncodeQueryComponent

definition is_hex :: "char \<Rightarrow> bool" where
  "is_hex c = (is_digit c \<or> c \<in> set ''abcdefABCDEF'')"

definition unhex :: "char \<Rightarrow> nat" where
  "unhex c = (let n = (of_char c :: nat) in
     if is_digit c then n - 48 else if 97 \<le> n \<and> n \<le> 102 then n - 87
     else if 65 \<le> n \<and> n \<le> 70 then n - 55 else 0)"

definition hexdig :: "nat \<Rightarrow> char" where
  "hexdig n = ''0123456789ABCDEF'' ! (n mod 16)"

text \<open>\<^verbatim>\<open>url.unescape\<close>; \<open>None\<close> is an \<^verbatim>\<open>EscapeError\<close>.\<close>

fun unescape :: "url_mode \<Rightarrow> string \<Rightarrow> string option" where
  "unescape m [] = Some []"
| "unescape m (c # s) =
     (if c = CHR ''%'' then
        (case s of
           a # b # r \<Rightarrow>
             (if is_hex a \<and> is_hex b
              then map_option (\<lambda>t. char_of (16 * unhex a + unhex b) # t) (unescape m r)
              else None)
         | _ \<Rightarrow> None)
      else map_option (\<lambda>t. (if m = EncodeQueryComponent \<and> c = CHR ''+'' then CHR '' '' else c) # t)
             (unescape m s))"

definition QueryUnescape :: "string \<Rightarrow> string option" where
  "QueryUnescape s = unescape EncodeQueryComponent s"

definition should_escape :: "url_mode \<Rightarrow> char \<Rightarrow> bool" where
  "should_escape m c =
     (if is_alnum c \<or> c \<in> set ''-_.~'' then False
      else if c \<in> set ''$&+,/:;=?@'' then (m = EncodeQueryComponent \<or> c = CHR ''?'')
      else True)"

definition escape :: "url_mode \<Rightarrow> string \<Rightarrow> string" where
  "escape m s = concat (map (\<lambda>c.
     if should_escape m c then
       (if m = EncodeQueryComponent \<and> c = CHR '' '' then ''+''
        else [CHR ''%'', hexdig ((of_char c :: nat) div 16), hexdig ((of_char c :: nat) mod 16)])
     else [c]) s)"

definition valid_encoded :: "url_mode \<Rightarrow> string \<Rightarrow> bool" where
  "valid_encoded m s = list_all (\<lambda>c. c \<in> set ''!$&()*+,;=:@[]%'' \<or> c = CHR 0x27 \<or> \<not> should_escape m c) s"

text \<open>\<^verbatim>\<open>URL.EscapedPath\<close>: the raw path where it is a valid encoding of the path.\<close>

definition EscapedPath :: "string \<Rightarrow> string \<Rightarrow> string" where
  "EscapedPath path rawpath =
     (if rawpath \<noteq> [] \<and> valid_encoded EncodePath rawpath \<and> unescape EncodePath rawpath = Some path
      then rawpath
      else if path = ''*'' then ''*''
      else escape EncodePath path)"

lemma hexdig_alnum: "is_alnum (hexdig n)"
proof -
  have "hexdig n \<in> set ''0123456789ABCDEF''"
    unfolding hexdig_def by (rule nth_mem) simp
  moreover have "\<forall>c \<in> set ''0123456789ABCDEF''. is_alnum c"
    by (simp add: is_alnum_def is_alpha_def is_digit_def)
  ultimately show ?thesis by blast
qed

lemma hexdig_plain: "\<not> should_escape m (hexdig n)"
  by (simp add: should_escape_def hexdig_alnum)

lemma escape_path_chars:
  "c \<in> set (escape EncodePath s) \<Longrightarrow> c = CHR ''%'' \<or> \<not> should_escape EncodePath c"
  by (auto simp: escape_def hexdig_plain split: if_splits)

lemma EscapedPath_class:
  assumes "c \<in> set (EscapedPath p r)"
  shows "c \<in> set ''!$&()*+,;=:@[]%'' \<or> c = CHR 0x27 \<or> \<not> should_escape EncodePath c"
  using assms escape_path_chars [of c p]
  by (auto simp: EscapedPath_def valid_encoded_def list_all_iff split: if_splits)

text \<open>An escaped path never contains a question mark, a vertical bar or a backslash.\<close>

lemma EscapedPath_chars:
  assumes "c \<in> set (EscapedPath p r)"
  shows "c \<noteq> CHR ''?'' \<and> c \<noteq> CHR ''|'' \<and> c \<noteq> CHR 0x5C"
proof -
  have "should_escape EncodePath (CHR ''?'')" "should_escape EncodePath (CHR ''|'')" "should_escape EncodePath (CHR 0x5C)"
    by (simp_all add: should_escape_def is_alnum_def is_alpha_def is_digit_def)
  then show ?thesis using EscapedPath_class [OF assms] by auto
qed

subsection \<open>Query parameters\<close>

text \<open>
  \<^verbatim>\<open>url.ParseQuery\<close> as \<^verbatim>\<open>URL.Query\<close> uses it: pairs that do not parse are
  dropped. \<open>query_get\<close> is \<^verbatim>\<open>Query().Get\<close>, the first value of a key.
\<close>

definition parse_pair :: "string \<Rightarrow> (string \<times> string) option" where
  "parse_pair kv =
     (if CHR '';'' \<in> set kv \<or> kv = [] then None
      else (let (k, v, _) = Cut kv (CHR ''='') in
            case (QueryUnescape k, QueryUnescape v) of
              (Some k', Some v') \<Rightarrow> Some (k', v')
            | _ \<Rightarrow> None))"

definition parse_query :: "string \<Rightarrow> (string \<times> string) list" where
  "parse_query q = List.map_filter parse_pair (Split q (CHR ''&''))"

definition query_get :: "string \<Rightarrow> string \<Rightarrow> string" where
  "query_get q k = (case map_of (parse_query q) k of None \<Rightarrow> [] | Some v \<Rightarrow> v)"

definition query_values :: "string \<Rightarrow> (string \<rightharpoonup> string list)" where
  "query_values q k = (let vs = map snd (filter (\<lambda>p. fst p = k) (parse_query q))
                       in if vs = [] then None else Some vs)"

subsection \<open>Requests\<close>

record request =
  req_Method :: string
  req_Host :: string
  req_Path :: string
  req_RawPath :: string
  req_RawQuery :: string
  req_Header :: header
  req_RemoteAddr :: string
  req_ContentLength :: int
  req_HasBody :: bool
  req_TransferEncoding :: "string list"
  req_TLS :: bool

text \<open>A request for the root of a host, for the concrete instances.\<close>

definition plain_request :: "string \<Rightarrow> header \<Rightarrow> string \<Rightarrow> request" where
  "plain_request m h remote = \<lparr>req_Method = m, req_Host = ''h'', req_Path = ''/'', req_RawPath = [],
     req_RawQuery = [], req_Header = h, req_RemoteAddr = remote, req_ContentLength = 0, req_HasBody = False,
     req_TransferEncoding = [], req_TLS = False\<rparr>"

definition StatusOK :: int where "StatusOK = 200"
definition StatusFound :: int where "StatusFound = 302"
definition StatusBadRequest :: int where "StatusBadRequest = 400"
definition StatusUnauthorized :: int where "StatusUnauthorized = 401"
definition StatusForbidden :: int where "StatusForbidden = 403"
definition StatusNotFound :: int where "StatusNotFound = 404"
definition StatusMethodNotAllowed :: int where "StatusMethodNotAllowed = 405"
definition StatusTooManyRequests :: int where "StatusTooManyRequests = 429"
definition StatusInternalServerError :: int where "StatusInternalServerError = 500"
definition StatusBadGateway :: int where "StatusBadGateway = 502"
definition StatusServiceUnavailable :: int where "StatusServiceUnavailable = 503"
definition StatusGatewayTimeout :: int where "StatusGatewayTimeout = 504"

lemmas status_defs = StatusOK_def StatusFound_def StatusBadRequest_def StatusUnauthorized_def
  StatusForbidden_def StatusNotFound_def StatusMethodNotAllowed_def StatusTooManyRequests_def
  StatusInternalServerError_def StatusBadGateway_def StatusServiceUnavailable_def
  StatusGatewayTimeout_def

end
