(* ===== verification/GoUrl.thy ===== *)
theory GoUrl
  imports GoHttp
begin

text \<open>
  \<^verbatim>\<open>url.Parse\<close> of Go's \<^verbatim>\<open>net/url\<close>, and \<^verbatim>\<open>URL.RequestURI\<close>: the
  program parses the targets of its routes, the addresses it probes and the place a visitor
  is sent back to after a challenge. \<open>None\<close> is a parse error.
\<close>

record url =
  url_Scheme :: string
  url_Opaque :: string
  url_User :: "string option"
  url_Host :: string
  url_Path :: string
  url_RawPath :: string
  url_ForceQuery :: bool
  url_RawQuery :: string
  url_Fragment :: string

definition empty_url :: url where
  "empty_url = \<lparr>url_Scheme = [], url_Opaque = [], url_User = None, url_Host = [], url_Path = [],
     url_RawPath = [], url_ForceQuery = False, url_RawQuery = [], url_Fragment = []\<rparr>"

definition is_ctl :: "char \<Rightarrow> bool" where
  "is_ctl c = ((of_char c :: nat) < 32 \<or> (of_char c :: nat) = 127)"

text \<open>\<open>getScheme\<close>; the boolean is whether anything but a letter may be the next byte.\<close>

fun scheme_from :: "bool \<Rightarrow> string \<Rightarrow> string \<Rightarrow> string \<Rightarrow> (string \<times> string) option" where
  "scheme_from started acc whole [] = Some ([], whole)"
| "scheme_from started acc whole (c # s) =
     (if is_alpha c then scheme_from True (c # acc) whole s
      else if is_digit c \<or> c \<in> set ''+-.'' then
        (if started then scheme_from True (c # acc) whole s else Some ([], whole))
      else if c = CHR '':'' then (if started then Some (rev acc, s) else None)
      else Some ([], whole))"

definition getScheme :: "string \<Rightarrow> (string \<times> string) option" where
  "getScheme s = scheme_from False [] s s"

subsection \<open>The authority\<close>

definition host_char :: "char \<Rightarrow> bool" where
  "host_char c = (is_alnum c \<or> c \<in> set ''!$&()*+,;=:[]<>-_.~'' \<or> c = CHR 0x27 \<or> c = CHR 0x22)"

text \<open>\<^verbatim>\<open>unescape\<close> of a host, or of a zone of an IPv6 address.\<close>

fun unescape_host :: "bool \<Rightarrow> string \<Rightarrow> string option" where
  "unescape_host zone [] = Some []"
| "unescape_host zone (c # s) =
     (if c = CHR ''%'' then
        (case s of
           a # b # r \<Rightarrow>
             (let v = 16 * unhex a + unhex b in
              if \<not> (is_hex a \<and> is_hex b) then None
              else if \<not> zone \<and> unhex a < 8 \<and> [a, b] \<noteq> ''25'' then None
              else if zone \<and> [a, b] \<noteq> ''25'' \<and> v \<noteq> 32 \<and> \<not> host_char (char_of v) then None
              else map_option (\<lambda>t. char_of v # t) (unescape_host zone r))
         | _ \<Rightarrow> None)
      else if (of_char c :: nat) < 128 \<and> \<not> host_char c then None
      else map_option (\<lambda>t. c # t) (unescape_host zone s))"

definition validOptionalPort :: "string \<Rightarrow> bool" where
  "validOptionalPort port = (port = [] \<or> (hd port = CHR '':'' \<and> list_all is_digit (tl port)))"

definition parseHost :: "string \<Rightarrow> string option" where
  "parseHost host =
     (if HasPrefix host ''['' then
        (case last_index host (CHR '']'') of
           None \<Rightarrow> None
         | Some i \<Rightarrow>
             if \<not> validOptionalPort (drop (i + 1) host) then None
             else (case Index (take i host) ''%25'' of
                     None \<Rightarrow> unescape_host False host
                   | Some z \<Rightarrow>
                       (case (unescape_host False (take z host), unescape_host True (drop z (take i host)),
                              unescape_host False (drop i host)) of
                          (Some a, Some b, Some c) \<Rightarrow> Some (a @ b @ c)
                        | _ \<Rightarrow> None)))
      else (case last_index host (CHR '':'') of
              None \<Rightarrow> unescape_host False host
            | Some i \<Rightarrow> if validOptionalPort (drop i host) then unescape_host False host else None))"

definition userinfo_char :: "char \<Rightarrow> bool" where
  "userinfo_char c = (is_alnum c \<or> c \<in> set ''-._:~!$&()*+,;=%@'' \<or> c = CHR 0x27)"

definition parseAuthority :: "string \<Rightarrow> (string option \<times> string) option" where
  "parseAuthority authority =
     (case last_index authority (CHR ''@'') of
        None \<Rightarrow> map_option (\<lambda>h. (None, h)) (parseHost authority)
      | Some i \<Rightarrow>
          (case parseHost (drop (i + 1) authority) of
             None \<Rightarrow> None
           | Some h \<Rightarrow>
               if list_all userinfo_char (take i authority) \<and> unescape EncodePath (take i authority) \<noteq> None
               then Some (Some (take i authority), h) else None))"

subsection \<open>The path and the whole\<close>

text \<open>\<^verbatim>\<open>setPath\<close>: the raw path is kept only where it is not the default encoding.\<close>

definition setPath :: "string \<Rightarrow> url \<Rightarrow> url option" where
  "setPath p u =
     (case unescape EncodePath p of
        None \<Rightarrow> None
      | Some path \<Rightarrow> Some (u\<lparr>url_Path := path, url_RawPath := (if escape EncodePath path = p then [] else p)\<rparr>))"

definition split_query :: "string \<Rightarrow> string \<times> string \<times> bool" where
  "split_query rest =
     (if HasSuffix rest ''?'' \<and> Count rest (CHR ''?'') = 1 then (butlast rest, [], True)
      else (let (r, q, _) = Cut rest (CHR ''?'') in (r, q, False)))"

definition parse_hier :: "string \<Rightarrow> url \<Rightarrow> url option" where
  "parse_hier rest u =
     (if (url_Scheme u \<noteq> [] \<or> \<not> HasPrefix rest ''///'') \<and> HasPrefix rest ''//'' then
        (case parseAuthority (takeWhile (\<lambda>c. c \<noteq> CHR ''/'') (drop 2 rest)) of
           None \<Rightarrow> None
         | Some (user, host) \<Rightarrow>
             setPath (dropWhile (\<lambda>c. c \<noteq> CHR ''/'') (drop 2 rest)) (u\<lparr>url_User := user, url_Host := host\<rparr>))
      else setPath rest u)"

definition parse_url :: "string \<Rightarrow> url option" where
  "parse_url rawURL =
     (if \<exists>c \<in> set rawURL. is_ctl c then None
      else if rawURL = ''*'' then Some (empty_url\<lparr>url_Path := ''*''\<rparr>)
      else (case getScheme rawURL of
              None \<Rightarrow> None
            | Some (sch, rest0) \<Rightarrow>
                (let (rest, query, force) = split_query rest0;
                     u = empty_url\<lparr>url_Scheme := ToLower sch, url_RawQuery := query, url_ForceQuery := force\<rparr>
                 in if \<not> HasPrefix rest ''/'' \<and> sch \<noteq> [] then Some (u\<lparr>url_Opaque := rest\<rparr>)
                    else if \<not> HasPrefix rest ''/'' \<and> CHR '':'' \<in> set (fst (Cut rest (CHR ''/''))) then None
                    else parse_hier rest u)))"

text \<open>\<^verbatim>\<open>url.Parse\<close>.\<close>

definition Parse :: "string \<Rightarrow> url option" where
  "Parse rawURL =
     (let (u, frag, _) = Cut rawURL (CHR ''#'')
      in case parse_url u of
           None \<Rightarrow> None
         | Some url \<Rightarrow>
             if frag = [] then Some url
             else map_option (\<lambda>f. url\<lparr>url_Fragment := f\<rparr>) (unescape EncodePath frag))"

definition RequestURI :: "url \<Rightarrow> string" where
  "RequestURI u =
     (let result = (if url_Opaque u = [] then
                      (let p = EscapedPath (url_Path u) (url_RawPath u) in if p = [] then ''/'' else p)
                    else if HasPrefix (url_Opaque u) ''//'' then url_Scheme u @ '':'' @ url_Opaque u
                    else url_Opaque u)
      in if url_ForceQuery u \<or> url_RawQuery u \<noteq> [] then result @ ''?'' @ url_RawQuery u else result)"

subsection \<open>Facts\<close>

lemma setPath_path: "setPath p u = Some v \<Longrightarrow> url_Opaque v = url_Opaque u"
  by (auto simp: setPath_def split: option.splits)

text \<open>A URL that has a path has no opaque part.\<close>

lemma parse_hier_opaque: "parse_hier rest u = Some v \<Longrightarrow> url_Opaque v = url_Opaque u"
  by (auto simp: parse_hier_def dest!: setPath_path split: if_split_asm option.split_asm)

lemma parse_url_opaque:
  assumes "parse_url s = Some u"
  shows "url_Path u = [] \<or> url_Opaque u = []"
proof (cases "getScheme s")
  case None
  with assms show ?thesis by (simp add: parse_url_def empty_url_def split: if_split_asm) auto
next
  case (Some p)
  obtain sch rest0 where p: "p = (sch, rest0)" by (cases p)
  obtain rest query force where q: "split_query rest0 = (rest, query, force)" by (cases "split_query rest0")
  define w where "w = empty_url\<lparr>url_Scheme := ToLower sch, url_RawQuery := query, url_ForceQuery := force\<rparr>"
  have w: "url_Opaque w = []" "url_Path w = []" by (simp_all add: w_def empty_url_def)
  have "parse_url s = None \<or> parse_url s = Some (empty_url\<lparr>url_Path := ''*''\<rparr>) \<or>
      parse_url s = Some (w\<lparr>url_Opaque := rest\<rparr>) \<or> parse_url s = parse_hier rest w"
    unfolding parse_url_def Some p option.case prod.case Let_def q w_def by argo
  with assms parse_hier_opaque [of rest w u] w show ?thesis by (auto simp: empty_url_def)
qed

lemma Parse_path_opaque: "Parse s = Some u \<Longrightarrow> url_Path u \<noteq> [] \<Longrightarrow> url_Opaque u = []"
  using parse_url_opaque [of "fst (Cut s (CHR ''#''))"]
  by (auto simp: Parse_def split_beta Let_def split: if_split_asm option.split_asm)

lemma escape_Cons_plain: "\<not> should_escape EncodePath c \<Longrightarrow> escape EncodePath (c # s) = c # escape EncodePath s"
  by (simp add: escape_def)

lemma escape_Cons_special: "should_escape EncodePath c \<Longrightarrow>
    escape EncodePath (c # s) =
      CHR ''%'' # hexdig ((of_char c :: nat) div 16) # hexdig ((of_char c :: nat) mod 16) # escape EncodePath s"
  by (simp add: escape_def)

lemma escape_Nil [simp]: "escape m [] = []"
  by (simp add: escape_def)

lemma slash_plain [simp]: "\<not> should_escape EncodePath (CHR ''/'')"
  by (simp add: should_escape_def)

lemma backslash_special [simp]: "should_escape EncodePath (CHR 0x5C)"
  by (simp add: should_escape_def is_alnum_def is_alpha_def is_digit_def)

text \<open>
  A path that starts with one slash is written as a path that starts with one slash, or with
  a percent-encoded byte; in no case with two slashes or a slash and a backslash, which a
  browser would take for another host.
\<close>

definition local_uri :: "string \<Rightarrow> bool" where
  "local_uri s = ((\<exists>r. s = CHR ''/'' # r \<and> (r = [] \<or> hd r \<notin> {CHR ''/'', CHR 0x5C})) \<or> (\<exists>r. s = CHR ''%'' # r))"

lemma escape_local:
  assumes "HasPrefix p ''/''" "\<not> HasPrefix p ''//''"
  shows "local_uri (escape EncodePath p)"
proof -
  obtain r where p: "p = CHR ''/'' # r" using assms(1) by (auto simp: HasPrefix_def prefix_def)
  have "escape EncodePath r = [] \<or> hd (escape EncodePath r) \<notin> {CHR ''/'', CHR 0x5C}"
  proof (cases r)
    case (Cons c t)
    with assms(2) p have "c \<noteq> CHR ''/''" by (auto simp: HasPrefix_def prefix_def)
    with Cons show ?thesis
      by (cases "should_escape EncodePath c") (auto simp: escape_Cons_plain escape_Cons_special)
  qed simp
  then show ?thesis by (simp add: local_uri_def p escape_Cons_plain)
qed

lemma valid_encoded_no_backslash: "valid_encoded EncodePath r \<Longrightarrow> CHR 0x5C \<notin> set r"
proof
  assume v: "valid_encoded EncodePath r" and "CHR 0x5C \<in> set r"
  then have "CHR 0x5C \<in> set ''!$&()*+,;=:@[]%'' \<or> CHR 0x5C = CHR 0x27 \<or> \<not> should_escape EncodePath (CHR 0x5C)"
    unfolding valid_encoded_def list_all_iff by blast
  then show False by simp
qed

lemma raw_local:
  assumes r: "valid_encoded EncodePath r" "unescape EncodePath r = Some p"
    and p: "HasPrefix p ''/''" "\<not> HasPrefix p ''//''"
  shows "local_uri r"
proof (cases r)
  case Nil
  with r p show ?thesis by (simp add: HasPrefix_def)
next
  case (Cons c s)
  show ?thesis
  proof (cases "c = CHR ''%''")
    case False
    then obtain t where t: "unescape EncodePath s = Some t" "p = c # t" using r(2) Cons by auto
    then have c: "c = CHR ''/''" using p(1) by (auto simp: HasPrefix_def prefix_def)
    have "s = [] \<or> hd s \<notin> {CHR ''/'', CHR 0x5C}"
    proof (cases s)
      case (Cons d s')
      have "d \<noteq> CHR ''/''"
      proof
        assume "d = CHR ''/''"
        with Cons t(1) obtain t' where "t = CHR ''/'' # t'" by auto
        with t(2) c p(2) show False by (simp add: HasPrefix_def)
      qed
      moreover have "d \<noteq> CHR 0x5C" using valid_encoded_no_backslash [OF r(1)] \<open>r = c # s\<close> Cons by auto
      ultimately show ?thesis using Cons by simp
    qed simp
    then show ?thesis by (simp add: local_uri_def \<open>r = c # s\<close> c)
  qed (simp add: local_uri_def Cons)
qed

lemma EscapedPath_local:
  "HasPrefix p ''/'' \<Longrightarrow> \<not> HasPrefix p ''//'' \<Longrightarrow> local_uri (EscapedPath p r)"
  by (auto simp: EscapedPath_def escape_local raw_local HasPrefix_def prefix_def)

lemma local_uri_append: "local_uri s \<Longrightarrow> c \<notin> {CHR ''/'', CHR 0x5C} \<Longrightarrow> local_uri (s @ c # t)"
proof -
  have "r @ c # t = [] \<or> hd (r @ c # t) \<notin> {CHR ''/'', CHR 0x5C}"
    if "c \<notin> {CHR ''/'', CHR 0x5C}" "r = [] \<or> hd r \<notin> {CHR ''/'', CHR 0x5C}" for r
    using that by (cases r) auto
  then show "local_uri s \<Longrightarrow> c \<notin> {CHR ''/'', CHR 0x5C} \<Longrightarrow> local_uri (s @ c # t)"
    unfolding local_uri_def by fastforce
qed

lemma RequestURI_local:
  assumes "url_Opaque u = []" "HasPrefix (url_Path u) ''/''" "\<not> HasPrefix (url_Path u) ''//''"
  shows "local_uri (RequestURI u)"
proof -
  have l: "local_uri (EscapedPath (url_Path u) (url_RawPath u))" by (rule EscapedPath_local) fact+
  then have "EscapedPath (url_Path u) (url_RawPath u) \<noteq> []" by (auto simp: local_uri_def)
  with l local_uri_append [OF l, of "CHR ''?''"] show ?thesis
    by (simp add: RequestURI_def Let_def assms(1))
qed

end
