(* ===== verification/Netip.thy ===== *)
theory Netip
  imports GoHttp
begin

text \<open>
  Go's \<^verbatim>\<open>net/netip\<close> as the client address resolver uses it: addresses (IPv4, and
  IPv6 with an optional zone), prefixes, their parsers and the printer. An address is a
  machine word, so prefixes compare bits. Parse errors are \<open>None\<close>.
\<close>

unbundle bit_operations_syntax

datatype addr = V4 "32 word" | V6 "128 word" string

definition Zone :: "addr \<Rightarrow> string" where
  "Zone a = (case a of V4 _ \<Rightarrow> [] | V6 _ z \<Rightarrow> z)"

definition Is4In6 :: "addr \<Rightarrow> bool" where
  "Is4In6 a = (case a of V4 _ \<Rightarrow> False | V6 w _ \<Rightarrow> drop_bit 32 w = 0xffff)"

definition Unmap :: "addr \<Rightarrow> addr" where
  "Unmap a = (if Is4In6 a then (case a of V4 w \<Rightarrow> V4 w | V6 w _ \<Rightarrow> V4 (ucast w)) else a)"

definition BitLen :: "addr \<Rightarrow> nat" where
  "BitLen a = (case a of V4 _ \<Rightarrow> 32 | V6 _ _ \<Rightarrow> 128)"

subsection \<open>Parsing\<close>

definition parse_octet :: "string \<Rightarrow> nat option" where
  "parse_octet s = (if s \<noteq> [] \<and> list_all is_digit s \<and> (hd s = CHR ''0'' \<longrightarrow> length s = 1) \<and>
                       length s \<le> 3 \<and> digits_val s \<le> 255 then Some (digits_val s) else None)"

definition parse_ipv4_word :: "string \<Rightarrow> (32 word) option" where
  "parse_ipv4_word s =
     (case map parse_octet (Split s (CHR ''.'')) of
        [Some a, Some b, Some c, Some d] \<Rightarrow>
          Some (word_of_nat (((a * 256 + b) * 256 + c) * 256 + d))
      | _ \<Rightarrow> None)"

definition hex_val :: "string \<Rightarrow> nat" where
  "hex_val s = foldl (\<lambda>n c. 16 * n + unhex c) 0 s"

text \<open>
  The fields of an IPv6 address: from the text, the 16-bit groups read so far and the place
  of the double colon, the groups and that place. Each field has one to four hexadecimal
  digits; an IPv4 address may stand for the last two.
\<close>

function v6_fields :: "string \<Rightarrow> nat list \<Rightarrow> nat option \<Rightarrow> (nat list \<times> nat option) option" where
  "v6_fields s gs ell =
     (if 8 \<le> length gs then (if s = [] then Some (gs, ell) else None)
      else
        let ds = takeWhile is_hex s; r = dropWhile is_hex s
        in if ds = [] \<or> 4 < length ds then None
           else (case r of
                   [] \<Rightarrow> Some (gs @ [hex_val ds], ell)
                 | c # r' \<Rightarrow>
                     if c = CHR ''.'' then
                       (if (ell = None \<and> length gs \<noteq> 6) \<or> 6 < length gs then None
                        else (case parse_ipv4_word s of
                                None \<Rightarrow> None
                              | Some w \<Rightarrow> Some (gs @ [unat w div 65536, unat w mod 65536], ell)))
                     else if c \<noteq> CHR '':'' \<or> r' = [] then None
                     else if hd r' = CHR '':'' then
                       (if ell \<noteq> None then None
                        else if tl r' = [] then Some (gs @ [hex_val ds], Some (Suc (length gs)))
                        else v6_fields (tl r') (gs @ [hex_val ds]) (Some (Suc (length gs))))
                     else v6_fields r' (gs @ [hex_val ds]) ell))"
  by pat_completeness auto
termination by (relation "measure (\<lambda>(s, gs, ell). 8 - length gs)") auto

declare v6_fields.simps [simp del]

definition groups_word :: "nat list \<Rightarrow> 128 word" where
  "groups_word gs = word_of_nat (foldl (\<lambda>n g. 65536 * n + g) 0 gs)"

definition v6_expand :: "nat list \<times> nat option \<Rightarrow> (128 word) option" where
  "v6_expand p =
     (case p of (gs, ell) \<Rightarrow>
        if 8 < length gs then None
        else if length gs < 8 then
          (case ell of
             None \<Rightarrow> None
           | Some i \<Rightarrow> Some (groups_word (take i gs @ replicate (8 - length gs) 0 @ drop i gs)))
        else if ell \<noteq> None then None else Some (groups_word gs))"

definition parse_ipv6 :: "string \<Rightarrow> addr option" where
  "parse_ipv6 s0 =
     (let (s, zone, zoned) = Cut s0 (CHR ''%'')
      in if zoned \<and> zone = [] then None
         else if HasPrefix s ''::'' then
           (if s = ''::'' then Some (V6 0 zone)
            else (case v6_fields (drop 2 s) [] (Some 0) of
                    None \<Rightarrow> None
                  | Some p \<Rightarrow> map_option (\<lambda>w. V6 w zone) (v6_expand p)))
         else (case v6_fields s [] None of
                 None \<Rightarrow> None
               | Some p \<Rightarrow> map_option (\<lambda>w. V6 w zone) (v6_expand p)))"

definition ParseAddr :: "string \<Rightarrow> addr option" where
  "ParseAddr s =
     (case find (\<lambda>c. c \<in> set ''.:%'') s of
        None \<Rightarrow> None
      | Some c \<Rightarrow>
          if c = CHR ''.'' then map_option V4 (parse_ipv4_word s)
          else if c = CHR '':'' then parse_ipv6 s
          else None)"

definition parse_port :: "string \<Rightarrow> nat option" where
  "parse_port s = (if s \<noteq> [] \<and> list_all is_digit s \<and> digits_val s \<le> 65535 then Some (digits_val s) else None)"

definition ParseAddrPort :: "string \<Rightarrow> (addr \<times> nat) option" where
  "ParseAddrPort s =
     (case last_index s (CHR '':'') of
        None \<Rightarrow> None
      | Some i \<Rightarrow>
          (let host = take i s; port = drop (i + 1) s;
               bracketed = (host \<noteq> [] \<and> hd host = CHR ''['')
           in if host = [] \<or> port = [] then None
              else if bracketed \<and> (length host < 2 \<or> last host \<noteq> CHR '']'') then None
              else let ip = (if bracketed then butlast (tl host) else host)
                   in case (parse_port port, ParseAddr ip) of
                        (Some p, Some a) \<Rightarrow>
                          (case a of
                             V4 _ \<Rightarrow> if bracketed then None else Some (a, p)
                           | V6 _ _ \<Rightarrow> if bracketed then Some (a, p) else None)
                      | _ \<Rightarrow> None))"

subsection \<open>Prefixes\<close>

record prefix_net =
  pf_addr :: addr
  pf_bits :: nat

definition mask_addr :: "addr \<Rightarrow> nat \<Rightarrow> addr" where
  "mask_addr a bits = (case a of
     V4 w \<Rightarrow> V4 (push_bit (32 - bits) (drop_bit (32 - bits) w))
   | V6 w z \<Rightarrow> V6 (push_bit (128 - bits) (drop_bit (128 - bits) w)) z)"

definition Masked :: "prefix_net \<Rightarrow> prefix_net" where
  "Masked p = \<lparr>pf_addr = mask_addr (pf_addr p) (pf_bits p), pf_bits = pf_bits p\<rparr>"

definition prefix_contains :: "prefix_net \<Rightarrow> addr \<Rightarrow> bool" where
  "prefix_contains p a =
     (case (pf_addr p, a) of
        (V4 w, V4 v) \<Rightarrow> drop_bit (32 - pf_bits p) (w XOR v) = 0
      | (V6 w _, V6 v z) \<Rightarrow> z = [] \<and> drop_bit (128 - pf_bits p) (w XOR v) = 0
      | _ \<Rightarrow> False)"

definition ParsePrefix :: "string \<Rightarrow> prefix_net option" where
  "ParsePrefix s =
     (case last_index s (CHR ''/'') of
        None \<Rightarrow> None
      | Some i \<Rightarrow>
          (case ParseAddr (take i s) of
             None \<Rightarrow> None
           | Some a \<Rightarrow>
               (let b = drop (i + 1) s
                in if Zone a \<noteq> [] then None
                   else if 1 < length b \<and> \<not> (is_digit (hd b) \<and> hd b \<noteq> CHR ''0'') then None
                   else (case ParseInt b of
                           None \<Rightarrow> None
                         | Some n \<Rightarrow> if n < 0 \<or> int (BitLen a) < n then None
                                     else Some \<lparr>pf_addr = a, pf_bits = nat n\<rparr>))))"

subsection \<open>Printing\<close>

definition hex_digit :: "nat \<Rightarrow> char" where
  "hex_digit n = ''0123456789abcdef'' ! (n mod 16)"

fun hex_digits :: "nat \<Rightarrow> string" where
  "hex_digits n = (if n < 16 then [hex_digit n] else hex_digits (n div 16) @ [hex_digit (n mod 16)])"

declare hex_digits.simps [simp del]

definition octets :: "32 word \<Rightarrow> nat list" where
  "octets w = (let n = unat w in [n div 16777216, n div 65536 mod 256, n div 256 mod 256, n mod 256])"

definition string4 :: "32 word \<Rightarrow> string" where
  "string4 w = Join (map nat_digits (octets w)) ''.''"

fun groups_of :: "nat \<Rightarrow> nat \<Rightarrow> nat list" where
  "groups_of 0 n = []"
| "groups_of (Suc k) n = groups_of k (n div 65536) @ [n mod 65536]"

definition zero_run :: "nat list \<Rightarrow> nat \<Rightarrow> nat" where
  "zero_run gs i = length (takeWhile (\<lambda>g. g = 0) (drop i gs))"

text \<open>The first of the longest runs of two or more zero groups, if any.\<close>

definition best_run :: "nat list \<Rightarrow> nat \<times> nat" where
  "best_run gs = foldl (\<lambda>(s, l) i. if 2 \<le> zero_run gs i \<and> l < zero_run gs i then (i, zero_run gs i) else (s, l))
     (length gs, 0) [0..<length gs]"

definition string6 :: "128 word \<Rightarrow> string" where
  "string6 w =
     (let gs = groups_of 8 (unat w); (s, l) = best_run gs
      in if l = 0 then Join (map hex_digits gs) '':''
         else Join (map hex_digits (take s gs)) '':'' @ ''::'' @ Join (map hex_digits (drop (s + l) gs)) '':'')"

definition addr_string :: "addr \<Rightarrow> string" where
  "addr_string a = (case a of
     V4 w \<Rightarrow> string4 w
   | V6 w z \<Rightarrow>
       (let s = (if Is4In6 a then ''::ffff:'' @ string4 (ucast w) else string6 w)
        in if z = [] then s else s @ CHR ''%'' # z))"

subsection \<open>IPv4 round trip\<close>

lemma octet_bounds: "x \<in> set (octets w) \<Longrightarrow> x < 256"
proof -
  have "unat w < 2 ^ 32" using unsigned_less [of w, where 'a = nat] by simp
  then have "unat w div 16777216 < 256" by simp
  then show "x \<in> set (octets w) \<Longrightarrow> x < 256" by (auto simp: octets_def Let_def)
qed

lemma octets_value: "(((unat w div 16777216) * 256 + unat w div 65536 mod 256) * 256 + unat w div 256 mod 256) * 256
    + unat w mod 256 = unat (w :: 32 word)"
proof -
  have "n = ((n div 16777216 * 256 + n div 65536 mod 256) * 256 + n div 256 mod 256) * 256 + n mod 256" for n :: nat
  proof -
    have "n div 16777216 = n div 65536 div 256" "n div 65536 = n div 256 div 256"
      using div_mult2_eq [of n 65536 256] div_mult2_eq [of n 256 256] by simp_all
    then have a: "n div 65536 = n div 16777216 * 256 + n div 65536 mod 256"
      "n div 256 = n div 65536 * 256 + n div 256 mod 256" by simp_all
    then show ?thesis by (metis div_mult_mod_eq)
  qed
  then show ?thesis by simp
qed

lemma digit_char_zero: "k < 10 \<Longrightarrow> digit_char k = CHR ''0'' \<Longrightarrow> k = 0"
  using digit_char_digit [of k] digit_char_digit [of 0] by (simp add: digit_val_def)

lemma parse_octet_digits:
  assumes "n < 256"
  shows "parse_octet (nat_digits n) = Some n"
proof -
  have d: "list_all is_digit (nat_digits n)" using nat_digits_digits by (simp add: list_all_iff)
  consider "n < 10" | "10 \<le> n" "n < 100" | "100 \<le> n" by linarith
  then have "length (nat_digits n) \<le> 3 \<and> (hd (nat_digits n) = CHR ''0'' \<longrightarrow> length (nat_digits n) = 1)"
  proof cases
    case 1
    then show ?thesis by (subst nat_digits.simps, subst (2) nat_digits.simps, subst (3) nat_digits.simps) simp
  next
    case 2
    then have e: "nat_digits n = [digit_char (n div 10), digit_char (n mod 10)]"
      by (subst nat_digits.simps) (simp, subst nat_digits.simps, simp)
    have "0 < n div 10" "n div 10 < 10" using 2 by (simp_all add: div_greater_zero_iff)
    with digit_char_zero [of "n div 10"] show ?thesis by (auto simp: e)
  next
    case 3
    have q: "10 \<le> n div 10" "n div 10 < 100" "0 < n div 10 div 10" "n div 10 div 10 < 10" using 3 assms by simp_all
    then have "nat_digits (n div 10) = [digit_char (n div 10 div 10), digit_char (n div 10 mod 10)]"
      by (subst nat_digits.simps) (simp, subst nat_digits.simps, simp)
    with 3 have e: "nat_digits n = [digit_char (n div 10 div 10), digit_char (n div 10 mod 10), digit_char (n mod 10)]"
      by (subst nat_digits.simps) simp
    from q digit_char_zero [of "n div 10 div 10"] show ?thesis by (auto simp: e)
  qed
  with d assms show ?thesis by (simp add: parse_octet_def nat_digits_val)
qed

lemma dot_not_digit: "CHR ''.'' \<notin> set (nat_digits n)"
  using nat_digits_digits [of n] by (auto simp: is_digit_def)

lemma Split_append: "d \<notin> set a \<Longrightarrow> Split (a @ d # b) d = a # Split b d"
proof (induction a)
  case (Cons c a)
  then show ?case by (auto split: list.splits)
qed simp

lemma Split_single: "d \<notin> set a \<Longrightarrow> Split a d = [a]"
  by (induction a) auto

lemma parse_string4: "parse_ipv4_word (string4 w) = Some w"
proof -
  let ?n = "unat w"
  have "Split (string4 w) (CHR ''.'') = map nat_digits (octets w)"
    by (simp add: string4_def octets_def Let_def Split_append Split_single dot_not_digit)
  then have "parse_ipv4_word (string4 w) = (case map parse_octet (map nat_digits (octets w)) of
        [Some a, Some b, Some c, Some d] \<Rightarrow> Some (word_of_nat (((a * 256 + b) * 256 + c) * 256 + d))
      | _ \<Rightarrow> None)"
    by (simp add: parse_ipv4_word_def)
  also have "map parse_octet (map nat_digits (octets w)) = map Some (octets w)"
    by (simp add: parse_octet_digits octet_bounds)
  finally have "parse_ipv4_word (string4 w) = Some (word_of_nat ((((?n div 16777216) * 256 + ?n div 65536 mod 256) * 256
      + ?n div 256 mod 256) * 256 + ?n mod 256))"
    unfolding octets_def Let_def list.map by (simp only: list.case option.case)
  then show ?thesis unfolding octets_value by simp
qed

lemma find_map_prefix: "list_all (\<lambda>x. \<not> P x) a \<Longrightarrow> find P (a @ b) = find P b"
  by (induction a) auto

text \<open>The text of an IPv4 address is read back as that address.\<close>

lemma ParseAddr_string4: "ParseAddr (string4 w) = Some (V4 w)"
proof -
  have "list_all (\<lambda>c. c \<notin> set ''.:%'') (nat_digits m)" for m
    using nat_digits_digits [of m] by (auto simp: list_all_iff is_digit_def)
  then have "find (\<lambda>c. c \<in> set ''.:%'') (string4 w) = Some (CHR ''.'')"
    by (simp add: string4_def octets_def Let_def find_map_prefix)
  then show ?thesis by (simp add: ParseAddr_def parse_string4)
qed

end
