(* ===== verification/ResponseCache.thy ===== *)
theory ResponseCache
  imports GoHttp GoList
begin

text \<open>
  The shared response cache, \<^verbatim>\<open>internal/cache/cache.go\<close>: the bounded LRU store with
  a time to live (\<open>store\<close>, \<open>Store_Get\<close>, \<open>SetWithTTL\<close>), the key of a request and the
  reader that records a response body while it streams to the client. The clock the code
  reads with \<^verbatim>\<open>time.Now\<close> is an argument; the mutex makes each operation one step.

  The store refines an abstract cache that is only the sequence of entries, most recently
  used first (\<open>lru_get\<close>, \<open>lru_set\<close>).
\<close>

subsection \<open>The store\<close>

record entry =
  ent_key :: string
  ent_status :: int
  ent_header :: header
  ent_body :: string
  ent_expires :: gotime

record store =
  ttl :: duration
  maxEntries :: int
  maxBodyBytes :: int
  ll :: "entry golist"
  items :: "string \<rightharpoonup> nat"

definition NewStore :: "duration \<Rightarrow> int \<Rightarrow> int \<Rightarrow> store" where
  "NewStore t me mb =
     \<lparr>ttl = (if t \<le> 0 then 60 * Second else t),
      maxEntries = (if me \<le> 0 then 1024 else me),
      maxBodyBytes = (if mb \<le> 0 then 1048576 else mb),
      ll = new_list, items = Map.empty\<rparr>"

definition removeElement :: "nat \<Rightarrow> store \<Rightarrow> store" where
  "removeElement e s =
     (case Value (ll s) e of
        None \<Rightarrow> s
      | Some ent \<Rightarrow> s\<lparr>ll := Remove e (ll s), items := (items s)(ent_key ent := None)\<rparr>)"

definition removeOldest :: "store \<Rightarrow> store" where
  "removeOldest s = (case Back (ll s) of None \<Rightarrow> s | Some p \<Rightarrow> removeElement (fst p) s)"

definition Store_Get :: "gotime \<Rightarrow> string \<Rightarrow> store \<Rightarrow> entry option \<times> store" where
  "Store_Get now key s =
     (case items s key of
        None \<Rightarrow> (None, s)
      | Some e \<Rightarrow>
          (case Value (ll s) e of
             None \<Rightarrow> (None, s)
           | Some ent \<Rightarrow>
               if ent_expires ent < now then (None, removeElement e s)
               else (Some ent, s\<lparr>ll := MoveToFront e (ll s)\<rparr>)))"

definition isHopByHop :: "string \<Rightarrow> bool" where
  "isHopByHop k = (ToLower k \<in> set [''connection'', ''keep-alive'', ''proxy-authenticate'',
     ''proxy-authorization'', ''te'', ''trailers'', ''transfer-encoding'', ''upgrade''])"

definition cloneHeader :: "header \<Rightarrow> header" where
  "cloneHeader h = (\<lambda>k. if isHopByHop k then None else h k)"

definition SetWithTTL ::
  "gotime \<Rightarrow> string \<Rightarrow> int \<Rightarrow> header \<Rightarrow> string \<Rightarrow> duration \<Rightarrow> store \<Rightarrow> store" where
  "SetWithTTL now key status hdr body t s =
     (if maxBodyBytes s < int (length body) then s
      else if t \<le> 0 then s
      else
        let t' = (if ttl s < t then ttl s else t);
            ent = \<lparr>ent_key = key, ent_status = status, ent_header = cloneHeader hdr,
                   ent_body = body, ent_expires = now + t'\<rparr>
        in case items s key of
             Some e \<Rightarrow> s\<lparr>ll := SetValue e ent (MoveToFront e (ll s))\<rparr>
           | None \<Rightarrow>
               let (e, l) = PushFront ent (ll s);
                   s' = s\<lparr>ll := l, items := (items s)(key \<mapsto> e)\<rparr>
               in if maxEntries s' < int (Len (ll s')) then removeOldest s' else s')"

definition Store_Set :: "gotime \<Rightarrow> string \<Rightarrow> int \<Rightarrow> header \<Rightarrow> string \<Rightarrow> store \<Rightarrow> store" where
  "Store_Set now key status hdr body s = SetWithTTL now key status hdr body (ttl s) s"

subsection \<open>Invariant\<close>

definition entry_ok :: "store \<Rightarrow> entry \<Rightarrow> bool" where
  "entry_ok s ent = (int (length (ent_body ent)) \<le> maxBodyBytes s \<and>
                     (\<forall>k. isHopByHop k \<longrightarrow> ent_header ent k = None))"

definition store_ok :: "store \<Rightarrow> bool" where
  "store_ok s = (list_ok (ll s) \<and> indexes ent_key (elems (ll s)) (items s) \<and>
                 int (Len (ll s)) \<le> maxEntries s \<and> 0 < maxEntries s \<and> 0 < ttl s \<and>
                 (\<forall>p \<in> set (elems (ll s)). entry_ok s (snd p)))"

lemma store_okD:
  assumes "store_ok s"
  shows "list_ok (ll s)" "indexes ent_key (elems (ll s)) (items s)"
    "distinct (map fst (elems (ll s)))" "int (length (elems (ll s))) \<le> maxEntries s"
    "0 < maxEntries s" "0 < ttl s"
  using assms by (auto simp: store_ok_def list_ok_def Len_def)

lemma store_ok_item:
  assumes "store_ok s" "items s key = Some e"
  obtains ent where "Value (ll s) e = Some ent" "(e, ent) \<in> set (elems (ll s))" "ent_key ent = key"
  using assms indexesD [of ent_key "elems (ll s)" "items s"] Value_iff [of "ll s"]
  by (metis store_okD(1,2))

lemma removeElement_ok:
  assumes ok: "store_ok s" and mem: "(e, ent) \<in> set (elems (ll s))"
  shows "store_ok (removeElement e s)"
proof -
  note okD = store_okD [OF ok]
  have v: "Value (ll s) e = Some ent" using mem Value_iff [OF okD(1)] by simp
  have "Suc (length (elems (Remove e (ll s)))) = length (elems (ll s))"
    using mem by (intro front_list.length_remove okD) force
  moreover have "indexes ent_key (elems (Remove e (ll s))) ((items s)(ent_key ent := None))"
    by (rule front_list.indexes_remove [OF okD(1,2) mem])
  ultimately show ?thesis
    using ok okD v by (auto simp: store_ok_def removeElement_def entry_ok_def Len_def
        front_list.remove_set go_intros)
qed

lemma NewStore_ok [go_intros]: "store_ok (NewStore t me mb)"
  by (simp add: NewStore_def store_ok_def Len_def new_list_def list_ok_def duration_defs)

lemma Store_Get_ok: "store_ok s \<Longrightarrow> store_ok (snd (Store_Get now key s))"
proof -
  assume ok: "store_ok s"
  show ?thesis
  proof (cases "items s key")
    case None
    with ok show ?thesis by (simp add: Store_Get_def)
  next
    case (Some e)
    from ok Some obtain ent where ent: "Value (ll s) e = Some ent" "(e, ent) \<in> set (elems (ll s))"
      by (rule store_ok_item)
    note okD = store_okD [OF ok]
    have "store_ok (s\<lparr>ll := MoveToFront e (ll s)\<rparr>)"
      using ok okD by (auto simp: store_ok_def Len_def entry_ok_def go_intros
          front_list.indexes_touch front_list.length_touch front_list.touch_set)
    with ok Some ent removeElement_ok show ?thesis by (auto simp: Store_Get_def)
  qed
qed

subsection \<open>The abstract cache\<close>

text \<open>The entries in order of use, most recent first.\<close>

definition recency :: "store \<Rightarrow> entry list" where
  "recency s = map snd (elems (ll s))"

definition lru_get :: "gotime \<Rightarrow> string \<Rightarrow> entry list \<Rightarrow> entry option \<times> entry list" where
  "lru_get now key xs =
     (case find (\<lambda>x. ent_key x = key) xs of
        None \<Rightarrow> (None, xs)
      | Some ent \<Rightarrow>
          (let rest = filter (\<lambda>x. ent_key x \<noteq> key) xs
           in if ent_expires ent < now then (None, rest) else (Some ent, ent # rest)))"

definition lru_put :: "nat \<Rightarrow> entry \<Rightarrow> entry list \<Rightarrow> entry list" where
  "lru_put n ent xs = take n (ent # filter (\<lambda>x. ent_key x \<noteq> ent_key ent) xs)"

lemma recency_distinct: "store_ok s \<Longrightarrow> distinct (map ent_key (recency s))"
  using indexes_distinct_keys [OF store_okD(2,3), of s]
  by (simp add: recency_def comp_def)

lemma recency_find:
  assumes "store_ok s" "(e, ent) \<in> set (elems (ll s))"
  shows "find (\<lambda>x. ent_key x = ent_key ent) (recency s) = Some ent"
proof -
  have "ent \<in> set (recency s)" using assms(2) by (force simp: recency_def)
  moreover have "x = ent" if "x \<in> set (recency s)" "ent_key x = ent_key ent" for x
    using recency_distinct [OF assms(1)] that \<open>ent \<in> set (recency s)\<close>
    by (auto simp: distinct_map dest: inj_onD)
  ultimately show ?thesis
    by (cases "find (\<lambda>x. ent_key x = ent_key ent) (recency s)")
      (auto simp: find_none_iff dest: find_someD)
qed

lemma recency_absent:
  "store_ok s \<Longrightarrow> items s key = None \<Longrightarrow> x \<in> set (recency s) \<Longrightarrow> ent_key x \<noteq> key"
  using indexes_mem [OF store_okD(2)] by (fastforce simp: recency_def)

lemma recency_remove:
  assumes "store_ok s" "(e, ent) \<in> set (elems (ll s))"
  shows "map snd (elems (Remove e (ll s))) = filter (\<lambda>x. ent_key x \<noteq> ent_key ent) (recency s)"
  using indexes_filter [OF store_okD(2) [OF assms(1)] assms(2) store_okD(3) [OF assms(1)]]
  by (simp add: recency_def Remove_def)

text \<open>Both operations of the store refine the abstract ones.\<close>

lemma Store_Get_refines:
  assumes ok: "store_ok s"
  shows "fst (Store_Get now key s) = fst (lru_get now key (recency s)) \<and>
         recency (snd (Store_Get now key s)) = snd (lru_get now key (recency s))"
proof (cases "items s key")
  case None
  then have "find (\<lambda>x. ent_key x = key) (recency s) = None"
    using recency_absent [OF ok] by (auto simp: find_none_iff)
  with None show ?thesis by (simp add: Store_Get_def lru_get_def)
next
  case (Some e)
  from ok Some obtain ent where
    ent: "Value (ll s) e = Some ent" "(e, ent) \<in> set (elems (ll s))" "ent_key ent = key"
    by (rule store_ok_item)
  have f: "find (\<lambda>x. ent_key x = key) (recency s) = Some ent"
    using recency_find [OF ok ent(2)] ent(3) by simp
  have r: "map snd (elems (Remove e (ll s))) = filter (\<lambda>x. ent_key x \<noteq> key) (recency s)"
    using recency_remove [OF ok ent(2)] ent(3) by simp
  have m: "map snd (elems (MoveToFront e (ll s))) = ent # filter (\<lambda>x. ent_key x \<noteq> key) (recency s)"
    using elems_MoveToFront [OF store_okD(1) [OF ok] ent(2)] r by simp
  show ?thesis
    using Some ent(1) f r m
    by (simp add: Store_Get_def lru_get_def removeElement_def recency_def Let_def)
qed

lemma removeOldest_butlast:
  assumes "list_ok (ll s)" "elems (ll s) \<noteq> []"
  shows "elems (ll (removeOldest s)) = butlast (elems (ll s))"
proof -
  obtain p where p: "Back (ll s) = Some p" using assms(2) by (auto simp: Back_def)
  then have "Value (ll s) (fst p) = Some (snd p)"
    using Back_mem [OF p] Value_iff [OF assms(1)] by simp
  then show ?thesis
    using elems_Remove_Back [OF assms(1) p] p by (simp add: removeOldest_def removeElement_def)
qed

lemma removeOldest_fields [simp]:
  "maxEntries (removeOldest s) = maxEntries s" "ttl (removeOldest s) = ttl s"
  "maxBodyBytes (removeOldest s) = maxBodyBytes s"
  by (auto simp: removeOldest_def removeElement_def split: option.splits)

text \<open>The entry \<^verbatim>\<open>SetWithTTL\<close> builds.\<close>

definition new_entry :: "gotime \<Rightarrow> string \<Rightarrow> int \<Rightarrow> header \<Rightarrow> string \<Rightarrow> duration \<Rightarrow> store \<Rightarrow> entry" where
  "new_entry now key status hdr body t s =
     \<lparr>ent_key = key, ent_status = status, ent_header = cloneHeader hdr,
      ent_body = body, ent_expires = now + min t (ttl s)\<rparr>"

lemma SetWithTTL_hit:
  assumes "int (length body) \<le> maxBodyBytes s" "0 < t" "items s key = Some e"
  shows "SetWithTTL now key status hdr body t s =
    s\<lparr>ll := SetValue e (new_entry now key status hdr body t s) (MoveToFront e (ll s))\<rparr>"
  using assms by (auto simp: SetWithTTL_def new_entry_def min_def)

lemma SetWithTTL_miss:
  assumes "int (length body) \<le> maxBodyBytes s" "0 < t" "items s key = None"
  shows "SetWithTTL now key status hdr body t s =
    (let ent = new_entry now key status hdr body t s;
         s' = s\<lparr>ll := snd (PushFront ent (ll s)), items := (items s)(key \<mapsto> fst (PushFront ent (ll s)))\<rparr>
     in if maxEntries s < int (Suc (length (elems (ll s)))) then removeOldest s' else s')"
  using assms by (auto simp: SetWithTTL_def new_entry_def min_def PushFront_def Len_def Let_def)

lemma entry_ok_new: "int (length body) \<le> maxBodyBytes s \<Longrightarrow>
    entry_ok s (new_entry now key status hdr body t s)"
  by (simp add: entry_ok_def new_entry_def cloneHeader_def)

lemma new_entry_key [simp]: "ent_key (new_entry now key status hdr body t s) = key"
  by (simp add: new_entry_def)

lemma entry_ok_cong: "maxBodyBytes s' = maxBodyBytes s \<Longrightarrow> entry_ok s' = entry_ok s"
  by (simp add: entry_ok_def fun_eq_iff)

lemma store_ok_update:
  assumes ok: "store_ok s" and mem: "(e, old) \<in> set (elems (ll s))"
    and k: "ent_key ent = ent_key old" and eok: "entry_ok s ent"
  shows "store_ok (s\<lparr>ll := SetValue e ent (MoveToFront e (ll s))\<rparr>)"
proof -
  note okD = store_okD [OF ok]
  let ?l = "SetValue e ent (MoveToFront e (ll s))"
  have el: "elems ?l = (e, ent) # elems (Remove e (ll s))"
    by (rule elems_SetValue_Front [OF okD(1) mem])
  have len: "length (elems ?l) = length (elems (ll s))"
    unfolding el using front_list.length_remove [OF okD(1), of e] mem by force
  have "indexes ent_key (elems ?l) (items s)"
    by (rule indexes_replace [OF okD(2,3) mem k]) (simp add: el front_list.remove_set [OF okD(1)])
  then show ?thesis
    using ok okD len eok by (auto simp: store_ok_def Len_def el entry_ok_def go_intros
        front_list.remove_set)
qed

lemma store_ok_insert:
  assumes ok: "store_ok s" and none: "items s (ent_key ent) = None" and eok: "entry_ok s ent"
  defines "s' \<equiv> s\<lparr>ll := snd (PushFront ent (ll s)),
                  items := (items s)(ent_key ent \<mapsto> fst (PushFront ent (ll s)))\<rparr>"
  shows "list_ok (ll s')" "indexes ent_key (elems (ll s')) (items s')"
    "\<forall>p \<in> set (elems (ll s')). entry_ok s (snd p)"
    "length (elems (ll s')) = Suc (length (elems (ll s)))"
proof -
  note okD = store_okD [OF ok]
  show "list_ok (ll s')" using okD(1) by (simp add: s'_def go_intros)
  show "indexes ent_key (elems (ll s')) (items s')"
    using front_list.indexes_push [OF okD(1,2) none] by (simp add: s'_def)
  show "\<forall>p \<in> set (elems (ll s')). entry_ok s (snd p)"
    using ok eok by (auto simp: s'_def store_ok_def front_list.push_set)
  show "length (elems (ll s')) = Suc (length (elems (ll s)))"
    using front_list.length_push [OF okD(1)] by (simp add: s'_def)
qed

lemma removeOldest_indexes:
  assumes "list_ok (ll s)" "indexes ent_key (elems (ll s)) (items s)" "elems (ll s) \<noteq> []"
  shows "list_ok (ll (removeOldest s)) \<and>
         indexes ent_key (elems (ll (removeOldest s))) (items (removeOldest s))"
proof -
  obtain p where p: "Back (ll s) = Some p" using assms(3) by (auto simp: Back_def)
  then have m: "(fst p, snd p) \<in> set (elems (ll s))" using Back_mem [OF p] by simp
  then have "Value (ll s) (fst p) = Some (snd p)" using Value_iff [OF assms(1)] by simp
  then show ?thesis
    using front_list.indexes_remove [OF assms(1,2) m] p assms(1)
    by (simp add: removeOldest_def removeElement_def go_intros)
qed

lemma SetWithTTL_ok: "store_ok s \<Longrightarrow> store_ok (SetWithTTL now key status hdr body t s)"
proof -
  assume ok: "store_ok s"
  note okD = store_okD [OF ok]
  let ?ent = "new_entry now key status hdr body t s"
  consider "\<not> int (length body) \<le> maxBodyBytes s \<or> \<not> 0 < t"
    | e where "int (length body) \<le> maxBodyBytes s" "0 < t" "items s key = Some e"
    | "int (length body) \<le> maxBodyBytes s" "0 < t" "items s key = None"
    by (cases "items s key") auto
  then show ?thesis
  proof cases
    case 1
    with ok show ?thesis by (auto simp: SetWithTTL_def)
  next
    case (2 e)
    from ok 2(3) obtain old where "(e, old) \<in> set (elems (ll s))" "ent_key old = key"
      by (rule store_ok_item)
    with store_ok_update [OF ok, of e old ?ent] 2 show ?thesis
      by (simp add: SetWithTTL_hit entry_ok_new)
  next
    case 3
    let ?s = "s\<lparr>ll := snd (PushFront ?ent (ll s)), items := (items s)(key \<mapsto> fst (PushFront ?ent (ll s)))\<rparr>"
    note ins = store_ok_insert [OF ok, of ?ent, unfolded new_entry_key, OF 3(3) entry_ok_new [OF 3(1)]]
    have ne: "elems (ll ?s) \<noteq> []" using ins(4) by auto
    note rem = removeOldest_indexes [OF ins(1,2) ne] removeOldest_butlast [OF ins(1) ne]
    have "store_ok (removeOldest ?s)"
      using ok okD ins(3,4) rem by (auto simp: store_ok_def Len_def entry_ok_def dest: in_set_butlastD)
    moreover have "store_ok ?s" if "int (Suc (length (elems (ll s)))) \<le> maxEntries s"
      using that ok okD ins by (simp add: store_ok_def Len_def entry_ok_def)
    ultimately show ?thesis using 3 by (simp add: SetWithTTL_miss Let_def)
  qed
qed

lemma SetWithTTL_refines:
  assumes ok: "store_ok s" and fits: "int (length body) \<le> maxBodyBytes s" "0 < t"
  shows "recency (SetWithTTL now key status hdr body t s) =
         lru_put (nat (maxEntries s)) (new_entry now key status hdr body t s) (recency s)"
proof -
  note okD = store_okD [OF ok]
  let ?ent = "new_entry now key status hdr body t s"
  have n: "length (recency s) \<le> nat (maxEntries s)" using okD(4) by (simp add: recency_def)
  show ?thesis
  proof (cases "items s key")
    case (Some e)
    from ok Some obtain old where m: "(e, old) \<in> set (elems (ll s))" "ent_key old = key"
      by (rule store_ok_item)
    have r: "recency (SetWithTTL now key status hdr body t s)
        = ?ent # filter (\<lambda>x. ent_key x \<noteq> key) (recency s)"
      using elems_SetValue_Front [OF okD(1) m(1)] recency_remove [OF ok m(1)] m(2)
      by (simp add: SetWithTTL_hit [OF fits Some] recency_def)
    have "old \<in> set (recency s)" using m(1) by (force simp: recency_def)
    with m(2) have "length (filter (\<lambda>x. ent_key x \<noteq> key) (recency s)) < length (recency s)"
      by (metis (mono_tags) length_filter_less)
    with n r show ?thesis by (simp add: lru_put_def)
  next
    case None
    then have f: "filter (\<lambda>x. ent_key x \<noteq> key) (recency s) = recency s"
      using recency_absent [OF ok None] by (auto simp: filter_id_conv)
    let ?s = "s\<lparr>ll := snd (PushFront ?ent (ll s)), items := (items s)(key \<mapsto> fst (PushFront ?ent (ll s)))\<rparr>"
    have r: "recency ?s = ?ent # recency s" by (simp add: recency_def elems_PushFront)
    have "list_ok (ll ?s)" using okD(1) by (simp add: go_intros)
    then have b: "recency (removeOldest ?s) = butlast (?ent # recency s)"
      using removeOldest_butlast [of ?s] r
      by (simp add: recency_def elems_PushFront map_butlast)
    show ?thesis
    proof (cases "maxEntries s < int (Suc (length (elems (ll s))))")
      case True
      with okD(4,5) have "nat (maxEntries s) = length (recency s)" by (simp add: recency_def)
      then have "lru_put (nat (maxEntries s)) ?ent (recency s) = butlast (?ent # recency s)"
        by (simp add: lru_put_def f butlast_conv_take)
      with True b show ?thesis by (simp add: SetWithTTL_miss [OF fits None] Let_def)
    next
      case False
      then have "length (?ent # recency s) \<le> nat (maxEntries s)" by (simp add: recency_def)
      then have "lru_put (nat (maxEntries s)) ?ent (recency s) = ?ent # recency s"
        by (simp add: lru_put_def f)
      with False r show ?thesis by (simp add: SetWithTTL_miss [OF fits None] Let_def)
    qed
  qed
qed

subsection \<open>The key of a request\<close>

definition accept_encoding :: "request \<Rightarrow> string" where
  "accept_encoding r = ToLower (Join (Fields (hdr_get (req_Header r) ''Accept-Encoding'')) [])"

definition CacheKey :: "request \<Rightarrow> string" where
  "CacheKey r = req_Method r @ ''|'' @ ToLower (req_Host r) @ ''|''
     @ EscapedPath (req_Path r) (req_RawPath r) @ ''?'' @ req_RawQuery r
     @ ''|ae='' @ accept_encoding r"

lemma bar_ToLower: "CHR ''|'' \<notin> set s \<Longrightarrow> CHR ''|'' \<notin> set (ToLower s)"
proof
  assume s: "CHR ''|'' \<notin> set s" and "CHR ''|'' \<in> set (ToLower s)"
  then obtain d where d: "d \<in> set s" "lower_char d = CHR ''|''"
    unfolding ToLower_def set_map by (metis imageE)
  have "(122::nat) < of_char (CHR ''|'')" by simp
  from lower_char_above [OF this] d s show False by metis
qed

lemma bar_accept_encoding:
  "CHR ''|'' \<notin> set (hdr_get (req_Header r) ''Accept-Encoding'') \<Longrightarrow> CHR ''|'' \<notin> set (accept_encoding r)"
  unfolding accept_encoding_def Join_Nil_sep
proof (rule bar_ToLower)
  let ?v = "hdr_get (req_Header r) ''Accept-Encoding''"
  assume "CHR ''|'' \<notin> set ?v"
  then show "CHR ''|'' \<notin> set (concat (Fields ?v))" using Fields_set [of ?v] by blast
qed

subsection \<open>Recording a body as it streams\<close>

datatype read_err = NoErr | EOF | ReadFailed

record capture =
  cap_buf :: string
  cap_max :: int
  cap_overflow :: bool
  cap_completed :: bool

text \<open>\<open>None\<close>: the body is returned unwrapped.\<close>

definition CaptureOnEOF :: "int \<Rightarrow> capture option" where
  "CaptureOnEOF maxBytes =
     (if maxBytes \<le> 0 then None
      else Some \<lparr>cap_buf = [], cap_max = maxBytes, cap_overflow = False, cap_completed = False\<rparr>)"

text \<open>One read of the wrapped body: what \<^verbatim>\<open>onComplete\<close> is called with, and the new reader.\<close>

definition capture_Read :: "string \<times> read_err \<Rightarrow> capture \<Rightarrow> string option \<times> capture" where
  "capture_Read rd c =
     (let (p, err) = rd;
          c1 = (if p \<noteq> [] \<and> \<not> cap_overflow c then
                  (if int (length (cap_buf c) + length p) \<le> cap_max c
                   then c\<lparr>cap_buf := cap_buf c @ p\<rparr>
                   else c\<lparr>cap_overflow := True, cap_buf := []\<rparr>)
                else c)
      in if err = EOF \<and> \<not> cap_completed c1
         then (if cap_overflow c1 then None else Some (cap_buf c1), c1\<lparr>cap_completed := True\<rparr>)
         else (None, c1))"

fun capture_run :: "(string \<times> read_err) list \<Rightarrow> capture \<Rightarrow> string list" where
  "capture_run [] c = []"
| "capture_run (rd # rds) c =
     (case capture_Read rd c of (out, c') \<Rightarrow>
        (case out of None \<Rightarrow> [] | Some b \<Rightarrow> [b]) @ capture_run rds c')"

lemma capture_run_completed: "cap_completed c \<Longrightarrow> capture_run rds c = []"
proof (induction rds arbitrary: c)
  case (Cons rd rds)
  obtain p err where rd: "rd = (p, err)" by (cases rd)
  have "fst (capture_Read rd c) = None" "cap_completed (snd (capture_Read rd c))"
    using Cons.prems by (auto simp: capture_Read_def rd Let_def)
  with Cons.IH show ?case by (auto split: prod.splits)
qed simp

text \<open>The bytes read up to and including the read that reports the end of the body.\<close>

fun until_eof :: "(string \<times> read_err) list \<Rightarrow> string option" where
  "until_eof [] = None"
| "until_eof ((p, err) # rds) = (if err = EOF then Some p else map_option ((@) p) (until_eof rds))"

lemma capture_run_spec:
  assumes "\<not> cap_completed c" "cap_overflow c \<Longrightarrow> cap_buf c = []"
    "int (length (cap_buf c)) \<le> cap_max c"
  shows "capture_run rds c =
    (case until_eof rds of
       None \<Rightarrow> []
     | Some b \<Rightarrow> if \<not> cap_overflow c \<and> int (length (cap_buf c @ b)) \<le> cap_max c
                 then [cap_buf c @ b] else [])"
  using assms
proof (induction rds arbitrary: c)
  case (Cons rd rds)
  obtain p err where rd: "rd = (p, err)" by (cases rd)
  let ?c1 = "if p \<noteq> [] \<and> \<not> cap_overflow c then
       (if int (length (cap_buf c) + length p) \<le> cap_max c then c\<lparr>cap_buf := cap_buf c @ p\<rparr>
        else c\<lparr>cap_overflow := True, cap_buf := []\<rparr>) else c"
  show ?case
  proof (cases "err = EOF")
    case True
    with Cons.prems have "capture_run (rd # rds) c = (if cap_overflow ?c1 then [] else [cap_buf ?c1])"
      by (simp add: rd capture_Read_def Let_def capture_run_completed)
    with True Cons.prems show ?thesis by (simp add: rd)
  next
    case False
    have "capture_run (rd # rds) c = capture_run rds ?c1"
      using False by (simp add: rd capture_Read_def Let_def)
    also have "\<dots> = (case until_eof rds of None \<Rightarrow> []
       | Some b \<Rightarrow> if \<not> cap_overflow ?c1 \<and> int (length (cap_buf ?c1 @ b)) \<le> cap_max ?c1
                   then [cap_buf ?c1 @ b] else [])"
      by (rule Cons.IH) (use Cons.prems in \<open>auto split: if_splits\<close>)
    finally show ?thesis using False Cons.prems by (auto simp: rd split: option.splits)
  qed
qed simp

subsection \<open>Runs of the store\<close>

datatype cache_op =
    OpGet gotime string
  | OpSet gotime string int header string duration

fun cache_step :: "cache_op \<Rightarrow> store \<Rightarrow> entry option \<times> store" where
  "cache_step (OpGet now key) s = Store_Get now key s"
| "cache_step (OpSet now key status hdr body t) s = (None, SetWithTTL now key status hdr body t s)"

fun cache_run :: "cache_op list \<Rightarrow> store \<Rightarrow> entry option list \<times> store" where
  "cache_run [] s = ([], s)"
| "cache_run (x # xs) s =
     (let (r, s') = cache_step x s; (rs, s'') = cache_run xs s' in (r # rs, s''))"

text \<open>The same run on the abstract cache of a store with the same bounds.\<close>

fun lru_step :: "store \<Rightarrow> cache_op \<Rightarrow> entry list \<Rightarrow> entry option \<times> entry list" where
  "lru_step c (OpGet now key) xs = lru_get now key xs"
| "lru_step c (OpSet now key status hdr body t) xs =
     (None, if int (length body) \<le> maxBodyBytes c \<and> 0 < t
            then lru_put (nat (maxEntries c)) (new_entry now key status hdr body t c) xs else xs)"

fun lru_run :: "store \<Rightarrow> cache_op list \<Rightarrow> entry list \<Rightarrow> entry option list \<times> entry list" where
  "lru_run c [] xs = ([], xs)"
| "lru_run c (x # ops) xs =
     (let (r, xs') = lru_step c x xs; (rs, xs'') = lru_run c ops xs' in (r # rs, xs''))"

definition same_bounds :: "store \<Rightarrow> store \<Rightarrow> bool" where
  "same_bounds a b = (ttl a = ttl b \<and> maxEntries a = maxEntries b \<and> maxBodyBytes a = maxBodyBytes b)"

lemma cache_step_ok: "store_ok s \<Longrightarrow> store_ok (snd (cache_step x s))"
  by (cases x) (simp_all add: Store_Get_ok SetWithTTL_ok)

interpretation cache_inv: preserving "\<lambda>op s. snd (cache_step op s)" store_ok
  by unfold_locales (rule cache_step_ok)

lemma cache_step_bounds: "same_bounds (snd (cache_step x s)) s"
  by (cases x) (auto simp: same_bounds_def Store_Get_def SetWithTTL_def removeElement_def Let_def
      split: option.splits prod.splits)

lemma SetWithTTL_rejected:
  "\<not> (int (length body) \<le> maxBodyBytes s \<and> 0 < t) \<Longrightarrow> SetWithTTL now key status hdr body t s = s"
  by (auto simp: SetWithTTL_def)

lemma new_entry_bounds: "ttl a = ttl b \<Longrightarrow>
    new_entry now key status hdr body t a = new_entry now key status hdr body t b"
  by (simp add: new_entry_def)

lemma cache_step_refines:
  assumes "store_ok s" "same_bounds s c"
  shows "fst (cache_step x s) = fst (lru_step c x (recency s)) \<and>
         recency (snd (cache_step x s)) = snd (lru_step c x (recency s))"
proof (cases x)
  case (OpGet now key)
  with Store_Get_refines [OF assms(1)] show ?thesis by simp
next
  case (OpSet now key status hdr body t)
  with SetWithTTL_refines [OF assms(1), of body t now key status hdr] assms(2)
    SetWithTTL_rejected [of body s t now key status hdr] new_entry_bounds [of s c]
  show ?thesis by (auto simp: same_bounds_def)
qed

lemma cache_run_refines:
  assumes "store_ok s" "same_bounds s c"
  shows "fst (cache_run ops s) = fst (lru_run c ops (recency s)) \<and>
         recency (snd (cache_run ops s)) = snd (lru_run c ops (recency s)) \<and>
         store_ok (snd (cache_run ops s)) \<and> same_bounds (snd (cache_run ops s)) s"
  using assms
proof (induction ops arbitrary: s)
  case Nil
  then show ?case by (simp add: same_bounds_def)
next
  case (Cons x ops)
  obtain r s' where s': "cache_step x s = (r, s')" by (cases "cache_step x s")
  have "store_ok s'" using cache_step_ok [OF Cons.prems(1), of x] s' by simp
  moreover have b: "same_bounds s' s" using cache_step_bounds [of x s] s' by simp
  moreover from b Cons.prems(2) have "same_bounds s' c" by (simp add: same_bounds_def)
  ultimately show ?case
    using Cons.IH [of s'] cache_step_refines [OF Cons.prems, of x] s'
    by (auto simp: same_bounds_def split: prod.splits)
qed

lemma recency_New [simp]: "recency (NewStore t me mb) = []"
  by (simp add: recency_def NewStore_def new_list_def)

text \<open>Every entry of the cache was stored by a call with its key, status and body.\<close>

definition stored_by :: "store \<Rightarrow> cache_op list \<Rightarrow> entry \<Rightarrow> bool" where
  "stored_by c ops ent = (\<exists>now hdr t. 0 < t \<and>
     OpSet now (ent_key ent) (ent_status ent) hdr (ent_body ent) t \<in> set ops \<and>
     ent_header ent = cloneHeader hdr \<and> ent_expires ent = now + min t (ttl c))"

lemma stored_by_append: "stored_by c ops ent \<Longrightarrow> stored_by c (ops @ xs) ent"
  unfolding stored_by_def by (metis Un_iff set_append)

lemma lru_step_stored:
  assumes "\<forall>ent \<in> set xs. stored_by c ops ent"
  shows "\<forall>ent \<in> set (snd (lru_step c x xs)). stored_by c (ops @ [x]) ent"
proof (cases x)
  case (OpGet now key)
  with assms show ?thesis
    by (auto simp: lru_get_def Let_def stored_by_append split: option.splits dest!: find_someD)
next
  case (OpSet now key status hdr body t)
  have "stored_by c (ops @ [x]) (new_entry now key status hdr body t c)" if "0 < t"
    using that by (auto simp: stored_by_def new_entry_def OpSet)
  moreover have "stored_by c (ops @ [x]) ent" if "ent \<in> set xs" for ent
    using assms that by (simp add: stored_by_append)
  ultimately show ?thesis
    by (auto simp: OpSet lru_put_def dest!: in_set_takeD)
qed

lemma lru_run_append:
  "snd (lru_run c (xs @ ys) l) = snd (lru_run c ys (snd (lru_run c xs l)))"
  by (induction xs arbitrary: l) (simp_all add: Let_def split_beta)

lemma lru_run_stored: "\<forall>ent \<in> set (snd (lru_run c ops [])). stored_by c ops ent"
proof (induction ops rule: rev_induct)
  case (snoc x ops)
  from lru_step_stored [OF this, of x] show ?case
    by (simp add: lru_run_append Let_def split: prod.splits)
qed simp

lemma lru_get_some:
  "fst (lru_get now key xs) = Some ent \<Longrightarrow> ent \<in> set xs \<and> ent_key ent = key \<and> now \<le> ent_expires ent"
  by (auto simp: lru_get_def Let_def split: option.splits if_splits dest!: find_someD)

subsection \<open>Properties\<close>

text \<open>
  whatever the sequence of \<^verbatim>\<open>Get\<close> and \<^verbatim>\<open>SetWithTTL\<close> calls, a new store keeps its
  invariant: the index and the list agree, no more than \<^verbatim>\<open>maxEntries\<close> entries are held,
  every body is within \<^verbatim>\<open>maxBodyBytes\<close> and no hop-by-hop header is kept.
\<close>

theorem cache_store_invariant: "store_ok (snd (cache_run ops (NewStore t me mb)))"
proof -
  have "same_bounds (NewStore t me mb) (NewStore t me mb)" by (simp add: same_bounds_def)
  with cache_run_refines [OF NewStore_ok] show ?thesis by blast
qed

text \<open>
  C4: the store is an LRU cache. Over any sequence of calls its answers, and its entries in
  order of use, are those of the abstract cache, which puts an entry it serves or stores at
  the front and drops what is beyond \<^verbatim>\<open>maxEntries\<close> at the back.
\<close>

theorem cache_refines_lru:
  "let s0 = NewStore t me mb in
   fst (cache_run ops s0) = fst (lru_run s0 ops []) \<and>
   recency (snd (cache_run ops s0)) = snd (lru_run s0 ops [])"
  using cache_run_refines [OF NewStore_ok, of t me mb "NewStore t me mb" ops]
  by (simp add: same_bounds_def Let_def)

text \<open>
  C5: a cache hit is never stale and never another resource's response. What
  \<^verbatim>\<open>Get\<close> returns after any run was stored by an earlier call under the requested key,
  with the status, body and (hop-by-hop headers removed) headers of that call, and the time
  is at most the store's TTL and the call's own TTL after it.
\<close>

theorem cache_hit_sound:
  assumes "fst (Store_Get now key (snd (cache_run ops (NewStore t me mb)))) = Some ent"
  shows "\<exists>now0 hdr u. OpSet now0 key (ent_status ent) hdr (ent_body ent) u \<in> set ops \<and>
           ent_header ent = cloneHeader hdr \<and> now \<le> now0 + u \<and> now \<le> now0 + ttl (NewStore t me mb)"
proof -
  let ?n = "NewStore t me mb" and ?s = "snd (cache_run ops (NewStore t me mb))"
  have "same_bounds ?n ?n" by (simp add: same_bounds_def)
  from cache_run_refines [OF NewStore_ok this, of ops]
  have ok: "store_ok ?s" and rec: "recency ?s = snd (lru_run ?n ops [])" by auto
  from assms Store_Get_refines [OF ok, of now key] have "fst (lru_get now key (recency ?s)) = Some ent"
    by simp
  from lru_get_some [OF this] lru_run_stored [of ?n ops] rec
  have "stored_by ?n ops ent" "ent_key ent = key" "now \<le> ent_expires ent" by auto
  then show ?thesis by (fastforce simp: stored_by_def)
qed

theorem cache_hit_sound_witness:
  "\<exists>now0 hdr u. OpSet now0 ''k'' 200 hdr ''hi'' u \<in> set [OpSet 5 ''k'' 200 Map.empty ''hi'' 10] \<and>
     (Map.empty :: header) = cloneHeader hdr \<and> 12 \<le> now0 + u \<and> 12 \<le> now0 + ttl (NewStore 100 4 64)"
proof -
  let ?ent = "\<lparr>ent_key = ''k'', ent_status = 200, ent_header = Map.empty, ent_body = ''hi'',
               ent_expires = 15\<rparr>"
  have "fst (Store_Get 12 ''k''
      (snd (cache_run [OpSet 5 ''k'' 200 Map.empty ''hi'' 10] (NewStore 100 4 64)))) = Some ?ent"
    by (simp add: NewStore_def SetWithTTL_def Store_Get_def cloneHeader_def golist_defs fun_eq_iff)
  from cache_hit_sound [OF this] show ?thesis by simp
qed

text \<open>
  what is stored is found. A response within the body limit and with a positive TTL is
  returned by a lookup of its key at any time up to the end of its life, with its status,
  body and end-to-end headers.
\<close>

theorem cache_set_get:
  assumes ok: "store_ok s" and fits: "int (length body) \<le> maxBodyBytes s" and pos: "0 < u"
    and fresh: "later \<le> now + min u (ttl s)"
  shows "\<exists>ent. fst (Store_Get later key (SetWithTTL now key status hdr body u s)) = Some ent \<and>
           ent_status ent = status \<and> ent_body ent = body \<and> ent_header ent = cloneHeader hdr"
proof -
  let ?s = "SetWithTTL now key status hdr body u s"
  have "nat (maxEntries s) \<noteq> 0" using store_okD(5) [OF ok] by simp
  then obtain n where n: "nat (maxEntries s) = Suc n" using not0_implies_Suc by blast
  have "fst (lru_get later key (recency ?s)) = Some (new_entry now key status hdr body u s)"
    using fresh by (simp add: SetWithTTL_refines [OF ok fits pos] lru_put_def n lru_get_def
        new_entry_def Let_def)
  then show ?thesis
    using Store_Get_refines [OF SetWithTTL_ok [OF ok]] by (auto simp: new_entry_def)
qed

theorem cache_set_get_witness:
  "\<exists>ent. fst (Store_Get 7 ''k'' (SetWithTTL 5 ''k'' 200 Map.empty ''hi'' 10 (NewStore 100 1 64))) = Some ent \<and>
     ent_status ent = 200 \<and> ent_body ent = ''hi'' \<and> ent_header ent = cloneHeader Map.empty"
proof -
  have "int (length ''hi'') \<le> maxBodyBytes (NewStore 100 1 64)" by (simp add: NewStore_def)
  moreover have "(7::int) \<le> 5 + min 10 (ttl (NewStore 100 1 64))" by (simp add: NewStore_def)
  ultimately show ?thesis by (intro cache_set_get NewStore_ok) simp_all
qed

text \<open>
  the recording reader hands the body to the cache exactly when it should: once, after
  the upstream body has ended, with all the bytes streamed, provided they fit the limit; a
  body that is longer, fails or never ends is never handed over.
\<close>

theorem capture_on_eof_exact:
  assumes "CaptureOnEOF maxBytes = Some c"
  shows "capture_run rds c =
    (case until_eof rds of None \<Rightarrow> []
     | Some b \<Rightarrow> if int (length b) \<le> maxBytes then [b] else [])"
proof -
  from assms have c: "c = \<lparr>cap_buf = [], cap_max = maxBytes, cap_overflow = False, cap_completed = False\<rparr>"
    and "0 < maxBytes" by (auto simp: CaptureOnEOF_def split: if_splits)
  then have "capture_run rds c =
    (case until_eof rds of None \<Rightarrow> []
     | Some b \<Rightarrow> if \<not> cap_overflow c \<and> int (length (cap_buf c @ b)) \<le> cap_max c
                 then [cap_buf c @ b] else [])"
    by (intro capture_run_spec) simp_all
  with c show ?thesis by (simp split: option.splits)
qed

theorem capture_on_eof_exact_witness:
  "capture_run [(''ab'', NoErr), (''c'', EOF), ([], EOF)]
     \<lparr>cap_buf = [], cap_max = 3, cap_overflow = False, cap_completed = False\<rparr> = [''abc'']"
proof -
  have "CaptureOnEOF 3 = Some \<lparr>cap_buf = [], cap_max = 3, cap_overflow = False, cap_completed = False\<rparr>"
    by (simp add: CaptureOnEOF_def)
  from capture_on_eof_exact [OF this] show ?thesis by simp
qed

text \<open>
  two requests share a cache key only if they ask for the same resource in the same
  encodings: when neither method, host nor \<^verbatim>\<open>Accept-Encoding\<close> holds a vertical bar, equal
  keys mean equal methods, hosts (up to case), escaped paths, queries and normalised
  encodings.
\<close>

theorem cache_key_injective:
  assumes bars: "CHR ''|'' \<notin> set (req_Method a)" "CHR ''|'' \<notin> set (req_Method b)"
    "CHR ''|'' \<notin> set (req_Host a)" "CHR ''|'' \<notin> set (req_Host b)"
    "CHR ''|'' \<notin> set (hdr_get (req_Header a) ''Accept-Encoding'')"
    "CHR ''|'' \<notin> set (hdr_get (req_Header b) ''Accept-Encoding'')"
    and eq: "CacheKey a = CacheKey b"
  shows "req_Method a = req_Method b \<and> ToLower (req_Host a) = ToLower (req_Host b) \<and>
         EscapedPath (req_Path a) (req_RawPath a) = EscapedPath (req_Path b) (req_RawPath b) \<and>
         req_RawQuery a = req_RawQuery b \<and> accept_encoding a = accept_encoding b"
proof -
  let ?p = "\<lambda>r. EscapedPath (req_Path r) (req_RawPath r)"
  let ?t = "\<lambda>r. req_RawQuery r @ CHR ''|'' # ''ae='' @ accept_encoding r"
  have k: "CacheKey r = req_Method r @ CHR ''|'' # (ToLower (req_Host r) @ CHR ''|'' #
      (?p r @ CHR ''?'' # ?t r))" for r by (simp add: CacheKey_def)
  have q: "CHR ''?'' \<notin> set (?p r)" for r using EscapedPath_chars by blast
  from split_at_first [OF eq [unfolded k] bars(1,2)]
  have m: "req_Method a = req_Method b"
    and r1: "ToLower (req_Host a) @ CHR ''|'' # (?p a @ CHR ''?'' # ?t a)
       = ToLower (req_Host b) @ CHR ''|'' # (?p b @ CHR ''?'' # ?t b)" by blast+
  from split_at_first [OF r1 bar_ToLower [OF bars(3)] bar_ToLower [OF bars(4)]]
  have h: "ToLower (req_Host a) = ToLower (req_Host b)"
    and r2: "?p a @ CHR ''?'' # ?t a = ?p b @ CHR ''?'' # ?t b" by blast+
  from split_at_first [OF r2 q q] have p: "?p a = ?p b" and r3: "?t a = ?t b" by blast+
  have e: "CHR ''|'' \<notin> set (''ae='' @ accept_encoding a)" "CHR ''|'' \<notin> set (''ae='' @ accept_encoding b)"
    using bar_accept_encoding [OF bars(5)] bar_accept_encoding [OF bars(6)] by auto
  from split_at_last [OF r3 e] m h p show ?thesis by simp
qed

definition example_request :: "string \<Rightarrow> string \<Rightarrow> request" where
  "example_request query encoding =
     \<lparr>req_Method = ''GET'', req_Host = ''app.test'', req_Path = ''/'', req_RawPath = [],
      req_RawQuery = query, req_Header = [''Accept-Encoding'' \<mapsto> [encoding]],
      req_RemoteAddr = ''192.0.2.1:4000'', req_ContentLength = 0, req_HasBody = False,
      req_TransferEncoding = [], req_TLS = False\<rparr>"

theorem cache_key_injective_witness:
  "req_RawQuery (example_request ''a=1'' ''gzip'') = req_RawQuery (example_request ''a=1'' '' gzip'')"
proof -
  have e: "accept_encoding (example_request ''a=1'' ''gzip'')
      = accept_encoding (example_request ''a=1'' '' gzip'')"
    by (simp add: accept_encoding_def example_request_def hdr_get_def hdr_values_def) code_simp
  then have k: "CacheKey (example_request ''a=1'' ''gzip'') = CacheKey (example_request ''a=1'' '' gzip'')"
    by (simp add: CacheKey_def) (simp add: example_request_def)
  have v: "hdr_get (req_Header (example_request q x)) ''Accept-Encoding'' = x" for q x
    by (simp add: example_request_def hdr_get_def hdr_values_def) code_simp
  have "req_RawQuery (example_request ''a=1'' ''gzip'') = req_RawQuery (example_request ''a=1'' '' gzip'')"
    using cache_key_injective [OF _ _ _ _ _ _ k] by (simp only: v) (simp add: example_request_def)
  then show ?thesis .
qed

text \<open>
  the restriction on vertical bars is needed. A query that ends like the key's suffix and
  an \<^verbatim>\<open>Accept-Encoding\<close> with a bar give two requests for different resources the same key.
\<close>

theorem cache_key_collision:
  "CacheKey (example_request ''a=1|ae=gzip'' []) = CacheKey (example_request ''a=1'' ''gzip|ae='')"
proof -
  have "accept_encoding (example_request q []) = []" "accept_encoding (example_request q ''gzip|ae='') = ''gzip|ae=''" for q
    by (simp_all add: accept_encoding_def example_request_def hdr_get_def hdr_values_def) code_simp+
  then show ?thesis by (simp add: CacheKey_def) (simp add: example_request_def)
qed

end
