(* ===== verification/CachePolicy.thy ===== *)
theory CachePolicy
  imports ResponseCache
begin

text \<open>
  What may enter and leave the shared cache: the functions of \<^verbatim>\<open>main.go\<close> that decide
  whether a request may be answered from it, whether a response may be stored, and for how
  long (\<open>isRequestCacheableForSharedStore\<close>, \<open>isSharedCacheableResponse\<close>, \<open>sharedCacheTTL\<close>).
\<close>

definition hasCacheDirective :: "string \<Rightarrow> string \<Rightarrow> bool" where
  "hasCacheDirective line directive =
     list_ex (\<lambda>part. TrimSpace (fst (Cut part (CHR ''=''))) = directive) (Split line (CHR '',''))"

definition conditional_headers :: "string list" where
  "conditional_headers = [''Range'', ''If-Match'', ''If-None-Match'', ''If-Modified-Since'', ''If-Unmodified-Since'']"

definition isRequestCacheableForSharedStore :: "store option \<Rightarrow> request \<Rightarrow> bool" where
  "isRequestCacheableForSharedStore st r =
     (let h = req_Header r; cc = ToLower (hdr_get h ''Cache-Control'')
      in if st = None then False
         else if req_Method r \<noteq> ''GET'' \<or> hdr_get h ''Upgrade'' \<noteq> [] then False
         else if hdr_get h ''Authorization'' \<noteq> [] \<or> hdr_get h ''Cookie'' \<noteq> [] then False
         else if list_ex (\<lambda>k. hdr_get h k \<noteq> []) conditional_headers then False
         else if hasCacheDirective cc ''no-cache'' \<or> hasCacheDirective cc ''no-store'' \<or>
                 hasCacheDirective cc ''max-age'' \<or> EqualFold (TrimSpace (hdr_get h ''Pragma'')) ''no-cache'' then False
         else True)"

definition isSharedCacheableResponse :: "header \<Rightarrow> bool" where
  "isSharedCacheableResponse h =
     (let cc = ToLower (hdr_get h ''Cache-Control''); vary = ToLower (TrimSpace (hdr_get h ''Vary''))
      in if hdr_get h ''Set-Cookie'' \<noteq> [] then False
         else if cc = [] \<or> \<not> hasCacheDirective cc ''public'' then False
         else if list_ex (hasCacheDirective cc) [''private'', ''no-store'', ''no-cache''] then False
         else if vary = [] then True
         else list_all (\<lambda>part. TrimSpace part = ''accept-encoding'') (Split vary (CHR '','')))"

text \<open>
  \<^verbatim>\<open>sharedCacheTTL\<close>: the first element with the directive decides. A duration is an
  \<^verbatim>\<open>int64\<close>, so the product with \<^verbatim>\<open>time.Second\<close> wraps around.
\<close>

definition directive_arg :: "string \<Rightarrow> string \<Rightarrow> string option" where
  "directive_arg preferred part =
     (let (name, arg, found) = Cut (TrimSpace part) (CHR ''='')
      in if \<not> found \<or> \<not> EqualFold name preferred then None else Some arg)"

definition ttl_of_arg :: "string \<Rightarrow> duration \<Rightarrow> duration \<times> bool" where
  "ttl_of_arg arg maximum =
     (case ParseInt (Trim (TrimSpace arg) [CHR 0x22]) of
        None \<Rightarrow> (0, False)
      | Some seconds \<Rightarrow>
          if seconds \<le> 0 then (0, False)
          else (let ttl = int64 (seconds * Second) in if ttl < maximum then (ttl, True) else (maximum, True)))"

definition first_arg :: "string \<Rightarrow> string \<Rightarrow> string option" where
  "first_arg cacheControl preferred =
     (case List.map_filter (directive_arg preferred) (Split cacheControl (CHR '','')) of [] \<Rightarrow> None | a # _ \<Rightarrow> Some a)"

definition sharedCacheTTL :: "string \<Rightarrow> duration \<Rightarrow> duration \<times> bool" where
  "sharedCacheTTL cacheControl maximum =
     (if maximum \<le> 0 then (0, False)
      else (case first_arg cacheControl ''s-maxage'' of
              Some a \<Rightarrow> ttl_of_arg a maximum
            | None \<Rightarrow>
                (case first_arg cacheControl ''max-age'' of
                   Some a \<Rightarrow> ttl_of_arg a maximum
                 | None \<Rightarrow> (maximum, True))))"

text \<open>
  What the handler does with a response to a request it found cacheable: the time to live
  under which the response is stored, if it is.
\<close>

definition store_decision :: "store option \<Rightarrow> request \<Rightarrow> int \<Rightarrow> header \<Rightarrow> duration option" where
  "store_decision st r status h =
     (case st of
        None \<Rightarrow> None
      | Some s \<Rightarrow>
          if \<not> isRequestCacheableForSharedStore st r then None
          else if status \<noteq> StatusOK then None
          else if \<not> isSharedCacheableResponse h then None
          else (let (t, ok) = sharedCacheTTL (hdr_get h ''Cache-Control'') (ttl s)
                in if ok then Some t else None))"

subsection \<open>Properties\<close>

text \<open>The directives of a header, as the code reads them.\<close>

definition directives :: "string \<Rightarrow> string set" where
  "directives v = (\<lambda>part. TrimSpace (fst (Cut part (CHR ''='')))) ` set (Split v (CHR '',''))"

lemma hasCacheDirective_iff: "hasCacheDirective v d \<longleftrightarrow> d \<in> directives v"
  by (auto simp: hasCacheDirective_def directives_def list_ex_iff)

lemma ttl_of_arg_bound: "ttl_of_arg a maximum = (t, True) \<Longrightarrow> t \<le> maximum"
  by (auto simp: ttl_of_arg_def Let_def split: option.splits if_splits)

lemma sharedCacheTTL_bound: "sharedCacheTTL cc maximum = (t, True) \<Longrightarrow> t \<le> maximum \<and> 0 < maximum"
  by (auto simp: sharedCacheTTL_def dest: ttl_of_arg_bound split: option.splits if_splits)

lemma if_false_branch: "(if c then False else b) \<longleftrightarrow> \<not> c \<and> b"
  by simp

lemma cacheable_request:
  assumes "isRequestCacheableForSharedStore st r"
  shows "req_Method r = ''GET'' \<and>
    hdr_get (req_Header r) ''Authorization'' = [] \<and> hdr_get (req_Header r) ''Cookie'' = [] \<and>
    (\<forall>k \<in> set conditional_headers. hdr_get (req_Header r) k = []) \<and>
    {''no-cache'', ''no-store'', ''max-age''} \<inter> directives (ToLower (hdr_get (req_Header r) ''Cache-Control'')) = {}"
  using assms unfolding isRequestCacheableForSharedStore_def Let_def if_false_branch hasCacheDirective_iff list_ex_iff
  by blast

lemma cacheable_response:
  assumes "isSharedCacheableResponse h"
  shows "hdr_get h ''Set-Cookie'' = [] \<and>
    ''public'' \<in> directives (ToLower (hdr_get h ''Cache-Control'')) \<and>
    {''private'', ''no-store'', ''no-cache''} \<inter> directives (ToLower (hdr_get h ''Cache-Control'')) = {} \<and>
    (\<forall>p \<in> set (Split (ToLower (TrimSpace (hdr_get h ''Vary''))) (CHR '','')).
       TrimSpace p = [] \<or> TrimSpace p = ''accept-encoding'')"
proof -
  let ?v = "ToLower (TrimSpace (hdr_get h ''Vary''))"
  have h: "hdr_get h ''Set-Cookie'' = []" "''public'' \<in> directives (ToLower (hdr_get h ''Cache-Control''))"
    "list_all (\<lambda>d. d \<notin> directives (ToLower (hdr_get h ''Cache-Control''))) [''private'', ''no-store'', ''no-cache'']"
    "?v = [] \<or> list_all (\<lambda>part. TrimSpace part = ''accept-encoding'') (Split ?v (CHR '',''))"
    using assms unfolding isSharedCacheableResponse_def Let_def if_false_branch hasCacheDirective_iff list_ex_iff list_all_iff
    by (blast, blast, blast, argo)
  have "\<forall>p \<in> set (Split ?v (CHR '','')). TrimSpace p = [] \<or> TrimSpace p = ''accept-encoding''"
  proof (cases "?v = []")
    case True
    then show ?thesis by simp
  next
    case False
    with h(4) show ?thesis by (simp add: list_all_iff)
  qed
  with h show ?thesis unfolding list_all_iff by auto
qed


definition public_header :: header where
  "public_header = [''Cache-Control'' \<mapsto> [''public, max-age=30'']]"


text \<open>
  The time to live is what the response allows: when the first \<open>s-maxage\<close>, or else the
  first \<open>max-age\<close>, is a positive number of seconds that a duration can hold, the response is
  stored for that long or for the maximum, whichever is shorter; an argument that is not a
  positive number keeps the response out.
\<close>

theorem cache_ttl_exact:
  assumes "0 < maximum"
    and "a = (case first_arg cc ''s-maxage'' of Some x \<Rightarrow> Some x | None \<Rightarrow> first_arg cc ''max-age'')"
    and "a = Some x" "ParseInt (Trim (TrimSpace x) [CHR 0x22]) = n"
    and "\<forall>k. n = Some k \<longrightarrow> k \<le> 9223372036"
  shows "sharedCacheTTL cc maximum =
    (case n of Some k \<Rightarrow> if 0 < k then (min (k * Second) maximum, True) else (0, False) | None \<Rightarrow> (0, False))"
proof -
  have t: "sharedCacheTTL cc maximum = ttl_of_arg x maximum"
    using assms(1-3) by (auto simp: sharedCacheTTL_def split: option.splits)
  show ?thesis
  proof (cases n)
    case None
    with assms(4) show ?thesis by (simp add: t ttl_of_arg_def)
  next
    case (Some k)
    with assms(5) have "k \<le> 9223372036" by simp
    moreover have "0 < k \<Longrightarrow> k \<le> 9223372036 \<Longrightarrow> int64 (k * Second) = k * Second"
      by (intro int64_id) (simp_all add: Second_def)
    ultimately show ?thesis using Some assms(4) by (auto simp: t ttl_of_arg_def Let_def min_def)
  qed
qed

theorem cache_ttl_exact_witness:
  "sharedCacheTTL ''public, max-age=10, s-maxage=20'' (60 * Second) = (20 * Second, True)"
proof -
  have f: "first_arg ''public, max-age=10, s-maxage=20'' ''s-maxage'' = Some ''20''" by code_simp
  have p: "ParseInt (Trim (TrimSpace ''20'') [CHR 0x22]) = Some 20" by code_simp
  show ?thesis
    by (subst cache_ttl_exact [OF _ refl _ p]) (simp_all add: f Second_def)
qed

text \<open>
  The product with \<^verbatim>\<open>time.Second\<close> overflows: a response that may be kept for more
  than 292 years is not stored at all, and one with a somewhat larger number is stored for a
  fraction of a second instead of for the maximum.
\<close>

theorem cache_ttl_overflow:
  "sharedCacheTTL ''max-age=9223372037'' (60 * Second) = (-9223372036709551616, True) \<and>
   sharedCacheTTL ''max-age=18446744074'' (60 * Second) = (290448384, True)"
  by code_simp

text \<open>
  Only the first line of a repeated header counts: a response whose second
  \<open>Cache-Control\<close> line says \<open>private\<close>, or whose second \<open>Vary\<close> line names another header,
  is stored for every client.
\<close>

theorem repeated_header_ignored:
  "isSharedCacheableResponse [''Cache-Control'' \<mapsto> [''public'', ''private'']] \<and>
   isSharedCacheableResponse [''Cache-Control'' \<mapsto> [''public''], ''Vary'' \<mapsto> [''Accept-Encoding'', ''Accept-Language'']]"
  by code_simp

end
