(* ===== verification/TokenBucket.thy ===== *)
theory TokenBucket
  imports GoStrings GoMap Float64
begin

text \<open>
  What the two limiters of \<^verbatim>\<open>internal/traffic\<close> share: the refill of a token bucket
  with its rounding errors, and two interfaces. \<open>token_bucket\<close> is the contract of a single
  bucket, from which the bound on what it grants over any run follows. \<open>keyed_limiter\<close> is a
  limiter with one bucket per key that may drop buckets; in a window of time in which it
  drops none, the bucket of a key meets the contract of \<open>token_bucket\<close>. The rate limiter
  and the bandwidth limiter interpret \<open>keyed_limiter\<close>.
\<close>

subsection \<open>The refill\<close>

text \<open>
  The refill both limiters of the package do: credit the elapsed time, cap at the burst.
\<close>

definition refill :: "rat \<Rightarrow> rat \<Rightarrow> gotime \<Rightarrow> rat \<times> gotime \<Rightarrow> rat \<times> gotime" where
  "refill rate burst now b =
     (let (tokens, since) = b; elapsed = Seconds (time_sub now since)
      in if 0 < elapsed then
           (let t = fl (tokens + fl (elapsed * rate)) in (if burst < t then burst else t, now))
         else (tokens, since))"

text \<open>
  What one refill can add, from the elapsed nanoseconds and the rounding errors of the four
  float operations.
\<close>

definition ulp :: rat where
  "ulp = 1 / 2 ^ 53"

definition credit :: "rat \<Rightarrow> rat \<Rightarrow> gotime \<Rightarrow> gotime \<Rightarrow> rat" where
  "credit rate burst now since =
     (if since < now then of_int (now - since) / 1000000000 * rate * (1 + ulp) ^ 5 + burst * ulp else 0)"

lemma ulp_pos [simp]: "0 < ulp"
  by (simp add: ulp_def)

lemma ulp_nonneg [simp]: "0 \<le> ulp"
  by (simp add: ulp_def)

lemma fl_up: "0 \<le> x \<Longrightarrow> fl x \<le> x * (1 + ulp)"
  using fl_le [of x] by (simp add: ulp_def)

lemma fl_down: "0 \<le> x \<Longrightarrow> x * (1 - ulp) \<le> fl x"
proof -
  assume "0 \<le> x"
  with fl_error [of x] have "\<bar>fl x - x\<bar> \<le> x / 2 ^ 53" by simp
  then have "x - fl x \<le> x / 2 ^ 53" unfolding abs_le_iff by linarith
  then show ?thesis by (simp add: ulp_def algebra_simps)
qed

lemma Seconds_pos_time: "0 < Seconds (time_sub now since) \<longleftrightarrow> since < now"
proof -
  have "Seconds (time_sub now since) \<le> 0" if "\<not> since < now"
  proof -
    have "time_sub now since \<le> 0" using that time_sub_pos_iff by (metis not_le)
    then have "time_sub now since = 0 \<or> 0 < - time_sub now since" by linarith
    moreover have "Seconds (- d) = - Seconds d" for d
    proof -
      have "fl (- a + - b) = - fl (a + b)" for a b using fl_uminus [of "a + b"] by simp
      then show ?thesis by (simp add: Seconds_def Let_def f64_of_int_def)
    qed
    ultimately show ?thesis using Seconds_pos_iff [of "- time_sub now since"] by force
  qed
  then show ?thesis using Seconds_pos_iff [of "time_sub now since"] by force
qed

lemma Seconds_nonneg: "0 \<le> d \<Longrightarrow> 0 \<le> Seconds d"
  using Seconds_pos_iff [of d] by (cases "d = 0") auto

lemma Seconds_le:
  assumes "0 \<le> d"
  shows "Seconds d \<le> of_int d / 1000000000 * (1 + ulp) ^ 3"
proof -
  let ?s = "d div Second" and ?n = "d mod Second"
  have S: "Seconds d = fl (f64_of_int ?s + fl (f64_of_int ?n / 1000000000))"
    using assms by (cases "d = 0") (simp_all add: Seconds_def Let_def minus_div_mult_eq_mod f64_of_int_def [of 0])
  have s: "0 \<le> ?s" and n: "0 \<le> ?n" using assms by (simp_all add: Second_def pos_imp_zdiv_nonneg_iff)
  have fs: "0 \<le> f64_of_int ?s" "f64_of_int ?s \<le> of_int ?s * (1 + ulp)"
    using s fl_nonneg fl_up [of "of_int ?s"] by (simp_all add: f64_of_int_def)
  have fn: "0 \<le> f64_of_int ?n / 1000000000" "f64_of_int ?n / 1000000000 \<le> of_int ?n / 1000000000 * (1 + ulp)"
    using n fl_nonneg fl_up [of "of_int ?n"] by (simp_all add: f64_of_int_def)
  have u: "0 \<le> 1 + ulp" "1 \<le> 1 + ulp" using ulp_pos by linarith+
  have "fl (f64_of_int ?n / 1000000000) \<le> of_int ?n / 1000000000 * (1 + ulp) * (1 + ulp)"
    using fl_up [OF fn(1)] mult_right_mono [OF fn(2) u(1)] by linarith
  moreover have "f64_of_int ?s \<le> of_int ?s * (1 + ulp) * (1 + ulp)"
  proof -
    have "of_int ?s * (1 + ulp) * 1 \<le> of_int ?s * (1 + ulp) * (1 + ulp)"
      using s u by (intro mult_left_mono) (auto intro!: mult_nonneg_nonneg)
    with fs(2) show ?thesis by simp
  qed
  ultimately have "f64_of_int ?s + fl (f64_of_int ?n / 1000000000)
      \<le> (of_int ?s + of_int ?n / 1000000000) * (1 + ulp) * (1 + ulp)"
    by (simp add: distrib_right)
  moreover have "of_int ?s + of_int ?n / 1000000000 = (of_int d / 1000000000 :: rat)"
  proof -
    have "d = ?s * 1000000000 + ?n" by (simp add: Second_def)
    then have "(of_int d :: rat) = of_int ?s * 1000000000 + of_int ?n"
      by (metis of_int_add of_int_mult of_int_numeral)
    then show ?thesis by simp
  qed
  ultimately have le: "f64_of_int ?s + fl (f64_of_int ?n / 1000000000)
      \<le> of_int d / 1000000000 * (1 + ulp) * (1 + ulp)" by simp
  have nn: "0 \<le> f64_of_int ?s + fl (f64_of_int ?n / 1000000000)"
    using fs(1) fl_nonneg [OF fn(1)] by linarith
  have "Seconds d \<le> of_int d / 1000000000 * (1 + ulp) * (1 + ulp) * (1 + ulp)"
    unfolding S using fl_up [OF nn] mult_right_mono [OF le u(1)] by linarith
  then show ?thesis by (simp add: power3_eq_cube mult.assoc)
qed

text \<open>A refill keeps the tokens between zero and the burst and adds no more than the credit.\<close>

lemma refill_bounds:
  assumes "0 \<le> rate" "0 \<le> tokens" "tokens \<le> burst" "is_f64 tokens" "is_f64 burst"
  shows "0 \<le> fst (refill rate burst now (tokens, since)) \<and>
         fst (refill rate burst now (tokens, since)) \<le> burst \<and>
         is_f64 (fst (refill rate burst now (tokens, since)))"
proof -
  have "0 \<le> fl (tokens + fl (Seconds (time_sub now since) * rate))" if "0 < Seconds (time_sub now since)"
    using that assms by (intro fl_nonneg add_nonneg_nonneg) auto
  with assms show ?thesis by (auto simp: refill_def Let_def)
qed

lemma refill_last:
  "since \<le> now \<Longrightarrow> snd (refill rate burst now (tokens, since)) = now"
  using Seconds_pos_iff [of "time_sub now since"]
  by (cases "since = now") (auto simp: refill_def Let_def)

lemma refill_credit:
  assumes "0 \<le> rate" "0 \<le> tokens" "tokens \<le> burst"
  shows "fst (refill rate burst now (tokens, since)) \<le> tokens + credit rate burst now since"
proof (cases "since < now")
  case False
  then have "\<not> 0 < Seconds (time_sub now since)" by (simp add: Seconds_pos_time)
  with False show ?thesis by (simp add: refill_def credit_def Let_def)
next
  case True
  let ?d = "time_sub now since" and ?x = "of_int (now - since) / 1000000000 :: rat"
  have u: "0 \<le> 1 + ulp" using ulp_pos by linarith
  have d: "0 \<le> ?d" "?d \<le> now - since" using True time_sub_le [of since now] by (simp_all add: less_imp_le)
  have x: "0 \<le> ?x" using True by simp
  have "(of_int ?d / 1000000000 :: rat) \<le> ?x" using d(2) by (intro divide_right_mono) (simp only: of_int_le_iff, simp)
  then have S: "Seconds ?d \<le> ?x * (1 + ulp) ^ 3"
    using Seconds_le [OF d(1)] mult_right_mono [of "of_int ?d / 1000000000" ?x "(1 + ulp) ^ 3"] u
    by (meson order_trans zero_le_power)
  have Sr: "0 \<le> Seconds ?d * rate" "Seconds ?d * rate \<le> ?x * (1 + ulp) ^ 3 * rate"
    using Seconds_nonneg [OF d(1)] assms(1) mult_right_mono [OF S assms(1)] by auto
  have "fl (Seconds ?d * rate) \<le> ?x * (1 + ulp) ^ 3 * rate * (1 + ulp)"
    using fl_up [OF Sr(1)] mult_right_mono [OF Sr(2) u] by linarith
  then have g: "fl (Seconds ?d * rate) \<le> ?x * rate * (1 + ulp) ^ 4"
    by (simp add: power_numeral_reduce mult.commute mult.left_commute mult.assoc)
  let ?t = "tokens + fl (Seconds ?d * rate)"
  have "0 \<le> ?t" using assms(2) fl_nonneg [OF Sr(1)] by linarith
  then have "fl ?t \<le> ?t * (1 + ulp)" by (rule fl_up)
  also have "\<dots> = tokens + tokens * ulp + fl (Seconds ?d * rate) * (1 + ulp)" by (simp add: algebra_simps)
  also have "\<dots> \<le> tokens + burst * ulp + ?x * rate * (1 + ulp) ^ 4 * (1 + ulp)"
    using mult_right_mono [OF g u] mult_right_mono [OF assms(3), of ulp] ulp_pos by linarith
  finally have "fl ?t \<le> tokens + (?x * rate * (1 + ulp) ^ 5 + burst * ulp)"
    by (simp add: power_numeral_reduce mult.commute mult.left_commute mult.assoc add.assoc)
  moreover have "0 \<le> ?x * rate * (1 + ulp) ^ 5 + burst * ulp"
    using x assms u by (intro add_nonneg_nonneg mult_nonneg_nonneg) (auto simp: less_imp_le)
  ultimately show ?thesis using True by (auto simp: refill_def credit_def Let_def)
qed

text \<open>The bound on one refill as a slope over the time that passed and a constant.\<close>

definition slope :: "rat \<Rightarrow> rat" where
  "slope rate = rate / 1000000000 * (1 + ulp) ^ 5"

lemma slope_nonneg [simp]: "0 \<le> rate \<Longrightarrow> 0 \<le> slope rate"
  by (simp add: slope_def ulp_def)

lemma refill_slope:
  assumes "0 \<le> rate" "0 \<le> tokens" "tokens \<le> burst" "refill rate burst now (tokens, since) = (t, s)"
  shows "t \<le> tokens + slope rate * of_int (s - since) + burst * ulp \<and> since \<le> s"
proof (cases "since < now")
  case True
  have "0 \<le> burst * ulp" using assms by (intro mult_nonneg_nonneg) (auto simp: less_imp_le)
  with True refill_credit [OF assms(1-3), of now since] refill_last [of since now rate burst tokens] assms(4)
  show ?thesis by (auto simp: credit_def slope_def algebra_simps)
next
  case False
  then have "\<not> 0 < Seconds (time_sub now since)" by (simp add: Seconds_pos_time)
  with assms show ?thesis by (auto simp: refill_def Let_def ulp_def)
qed

subsection \<open>The contract of a token bucket\<close>

text \<open>
  A step of a bucket answers an event with an amount it grants. Its law: what is granted
  comes out of the tokens, which grow by no more than the slope times the advance of the
  bucket's clock plus a slack for rounding.
\<close>

locale token_bucket =
  fixes valid :: "'s \<Rightarrow> bool"
    and allowed :: "'e \<Rightarrow> 's \<Rightarrow> bool"
    and step :: "'e \<Rightarrow> 's \<Rightarrow> rat \<times> 's"
    and level :: "'s \<Rightarrow> rat"
    and clock :: "'s \<Rightarrow> int"
    and gain :: rat
    and slack :: rat
  assumes valid_step: "valid s \<Longrightarrow> allowed e s \<Longrightarrow> valid (snd (step e s))"
    and level_nonneg: "valid s \<Longrightarrow> 0 \<le> level s"
    and step_law: "valid s \<Longrightarrow> allowed e s \<Longrightarrow>
      fst (step e s) + level (snd (step e s)) \<le>
      level s + gain * of_int (clock (snd (step e s)) - clock s) + slack"
begin

primrec run :: "'e list \<Rightarrow> 's \<Rightarrow> rat list \<times> 's" where
  "run [] s = ([], s)"
| "run (e # es) s = (let (g, s') = step e s; (gs, s'') = run es s' in (g # gs, s''))"

primrec allowed_run :: "'e list \<Rightarrow> 's \<Rightarrow> bool" where
  "allowed_run [] s = True"
| "allowed_run (e # es) s = (allowed e s \<and> allowed_run es (snd (step e s)))"

lemma run_valid: "valid s \<Longrightarrow> allowed_run es s \<Longrightarrow> valid (snd (run es s))"
  by (induction es arbitrary: s) (auto simp: split_beta valid_step)

lemma run_law:
  "valid s \<Longrightarrow> allowed_run es s \<Longrightarrow>
   sum_list (fst (run es s)) + level (snd (run es s)) \<le>
   level s + gain * of_int (clock (snd (run es s)) - clock s) + of_nat (length es) * slack"
proof (induction es arbitrary: s)
  case (Cons e es)
  let ?s = "snd (step e s)"
  from Cons.prems have "valid ?s" by (simp add: valid_step)
  with Cons have "sum_list (fst (run es ?s)) + level (snd (run es ?s)) \<le>
      level ?s + gain * of_int (clock (snd (run es ?s)) - clock ?s) + of_nat (length es) * slack" by simp
  moreover have "fst (step e s) + level ?s \<le> level s + gain * of_int (clock ?s - clock s) + slack"
    using Cons.prems step_law by simp
  ultimately show ?case by (simp add: split_beta algebra_simps)
qed simp

text \<open>What a run grants is bounded by the initial level and the time that passes.\<close>

lemma run_bound:
  assumes "valid s" "allowed_run es s"
  shows "sum_list (fst (run es s)) \<le>
    level s + gain * of_int (clock (snd (run es s)) - clock s) + of_nat (length es) * slack"
  using run_law [OF assms] level_nonneg [OF run_valid [OF assms]] by linarith

end

subsection \<open>Limiters with a bucket per key\<close>

text \<open>
  A bucket is seen as its tokens and the time of its last refill. A call for a key may drop
  the bucket of another only when that bucket is stale or there is no room for a new one;
  it refills the bucket of its own key, or starts a full one, and takes what it grants.
\<close>

locale keyed_limiter =
  fixes valid :: "'l \<Rightarrow> bool"
    and buckets :: "'l \<Rightarrow> string \<Rightarrow> (rat \<times> gotime) option"
    and rate :: "'l \<Rightarrow> rat" and burst :: "'l \<Rightarrow> rat"
    and room :: "'l \<Rightarrow> int" and ttl :: "'l \<Rightarrow> duration"
    and call :: "'e \<Rightarrow> 'l \<Rightarrow> rat \<times> 'l"
    and key_of :: "'e \<Rightarrow> string" and time_of :: "'e \<Rightarrow> gotime"
  assumes valid_call: "valid l \<Longrightarrow> valid (snd (call e l))"
    and params: "valid l \<Longrightarrow> rate (snd (call e l)) = rate l \<and> burst (snd (call e l)) = burst l \<and>
      room (snd (call e l)) = room l \<and> ttl (snd (call e l)) = ttl l"
    and rate_burst: "valid l \<Longrightarrow> 0 \<le> rate l \<and> 0 \<le> burst l \<and> 0 \<le> ttl l"
    and tokens: "valid l \<Longrightarrow> buckets l k = Some (t, s) \<Longrightarrow> 0 \<le> t \<and> t \<le> burst l"
    and others: "valid l \<Longrightarrow> k \<noteq> key_of e \<Longrightarrow>
      (\<And>k t s. buckets l k = Some (t, s) \<Longrightarrow> time_sub (time_of e) s \<le> ttl l) \<Longrightarrow>
      (buckets l (key_of e) \<noteq> None \<or> int (card (dom (buckets l))) < room l) \<Longrightarrow>
      buckets (snd (call e l)) k = buckets l k"
    and hit: "valid l \<Longrightarrow> buckets l (key_of e) = Some (t, s) \<Longrightarrow>
      time_sub (time_of e) s \<le> ttl l \<Longrightarrow>
      refill (rate l) (burst l) (time_of e) (t, s) = (t', s') \<Longrightarrow>
      buckets (snd (call e l)) (key_of e) = Some (t' - fst (call e l), s')"
    and miss: "valid l \<Longrightarrow> buckets l (key_of e) = None \<Longrightarrow>
      buckets (snd (call e l)) (key_of e) = Some (burst l - fst (call e l), time_of e)"
begin

text \<open>
  A window of time from \<open>t0\<close> to \<open>t1\<close> no longer than the time to live, in which calls are
  made for the keys of \<open>K\<close>, no more than there is room for: no bucket is dropped.
\<close>

definition in_window :: "gotime \<Rightarrow> gotime \<Rightarrow> string set \<Rightarrow> rat \<Rightarrow> rat \<Rightarrow> 'l \<Rightarrow> bool" where
  "in_window t0 t1 K r b l = (valid l \<and> rate l = r \<and> burst l = b \<and> finite K \<and>
     int (card K) \<le> room l \<and> t1 - t0 \<le> ttl l \<and> t0 \<le> t1 \<and>
     (\<forall>k t s. buckets l k = Some (t, s) \<longrightarrow> k \<in> K \<and> t0 \<le> s \<and> s \<le> t1))"

definition call_in :: "gotime \<Rightarrow> gotime \<Rightarrow> string set \<Rightarrow> 'e \<Rightarrow> 'l \<Rightarrow> bool" where
  "call_in t0 t1 K e l = (key_of e \<in> K \<and> t0 \<le> time_of e \<and> time_of e \<le> t1)"

definition level :: "string \<Rightarrow> 'l \<Rightarrow> rat" where
  "level k l = (case buckets l k of None \<Rightarrow> burst l | Some (t, s) \<Rightarrow> t)"

definition clock :: "gotime \<Rightarrow> string \<Rightarrow> 'l \<Rightarrow> gotime" where
  "clock t0 k l = (case buckets l k of None \<Rightarrow> t0 | Some (t, s) \<Rightarrow> s)"

definition step :: "string \<Rightarrow> 'e \<Rightarrow> 'l \<Rightarrow> rat \<times> 'l" where
  "step k e l = (if key_of e = k then fst (call e l) else 0, snd (call e l))"

lemma window_fresh:
  assumes w: "in_window t0 t1 K r b l" and c: "call_in t0 t1 K e l" and k: "buckets l k = Some (t, s)"
  shows "time_sub (time_of e) s \<le> ttl l"
proof (cases "s \<le> time_of e")
  case True
  then show ?thesis using w c k time_sub_le [OF True] by (force simp: in_window_def call_in_def)
next
  case False
  moreover have "0 \<le> ttl l" using w rate_burst by (simp add: in_window_def)
  ultimately show ?thesis by (simp add: time_sub_def)
qed

lemma window_others:
  assumes w: "in_window t0 t1 K r b l" and c: "call_in t0 t1 K e l" and k: "k \<noteq> key_of e"
  shows "buckets (snd (call e l)) k = buckets l k"
proof (rule others [OF _ k window_fresh [OF w c]])
  show "valid l" using w by (simp add: in_window_def)
  show "buckets l (key_of e) \<noteq> None \<or> int (card (dom (buckets l))) < room l"
  proof (rule disjCI)
    assume "\<not> int (card (dom (buckets l))) < room l"
    have "dom (buckets l) \<subseteq> K" using w by (force simp: in_window_def)
    moreover have "card K \<le> card (dom (buckets l))"
      using w \<open>\<not> int (card (dom (buckets l))) < room l\<close> by (simp add: in_window_def)
    ultimately have "dom (buckets l) = K" using w by (intro card_seteq) (auto simp: in_window_def)
    with c show "buckets l (key_of e) \<noteq> None" by (auto simp: call_in_def)
  qed
qed

lemma window_own:
  assumes w: "in_window t0 t1 K r b l" and c: "call_in t0 t1 K e l"
  obtains t s where "buckets (snd (call e l)) (key_of e) = Some (t, s)" "t0 \<le> s" "s \<le> t1"
    "fst (call e l) + t \<le> level (key_of e) l + slope r * of_int (s - clock t0 (key_of e) l) + b * ulp"
proof (cases "buckets l (key_of e)")
  case None
  have v: "valid l" and rb: "rate l = r" "burst l = b" "0 \<le> r" "0 \<le> b"
    using w rate_burst by (auto simp: in_window_def)
  have "0 \<le> slope r * of_int (time_of e - t0)" "0 \<le> b * ulp"
    using c rb by (auto simp: call_in_def intro!: mult_nonneg_nonneg)
  with miss [OF v None] c rb None show ?thesis
    by (intro that [of "b - fst (call e l)" "time_of e"]) (auto simp: call_in_def level_def clock_def)
next
  case (Some p)
  obtain t s where p: "buckets l (key_of e) = Some (t, s)" using Some by (cases p) auto
  obtain t' s' where r: "refill (rate l) (burst l) (time_of e) (t, s) = (t', s')" by fastforce
  have v: "valid l" and rb: "rate l = r" "burst l = b" "0 \<le> r"
    using w rate_burst by (auto simp: in_window_def)
  have "t' \<le> t + slope r * of_int (s' - s) + b * ulp"
    using refill_slope [OF rb(3), of t b "time_of e" s t' s'] tokens [OF v p] r rb by simp
  moreover have "s' = s \<or> s' = time_of e" using r by (auto simp: refill_def Let_def split: if_splits)
  then have "t0 \<le> s' \<and> s' \<le> t1" using w c p by (auto simp: in_window_def call_in_def)
  ultimately show ?thesis using hit [OF v p window_fresh [OF w c p] r] p
    by (intro that [of "t' - fst (call e l)" s']) (auto simp: level_def clock_def)
qed

lemma window_step:
  assumes w: "in_window t0 t1 K r b l" and c: "call_in t0 t1 K e l"
  shows "in_window t0 t1 K r b (snd (step k e l)) \<and>
    fst (step k e l) + level k (snd (step k e l)) \<le>
    level k l + slope r * of_int (clock t0 k (snd (step k e l)) - clock t0 k l) + b * ulp"
proof -
  let ?l = "snd (call e l)"
  obtain t s where own: "buckets ?l (key_of e) = Some (t, s)" "t0 \<le> s" "s \<le> t1"
    "fst (call e l) + t \<le> level (key_of e) l + slope r * of_int (s - clock t0 (key_of e) l) + b * ulp"
    by (rule window_own [OF w c])
  have v: "valid l" and nn: "0 \<le> b * ulp" and rb: "burst l = b"
    using w rate_burst by (auto simp: in_window_def intro!: mult_nonneg_nonneg)
  have win: "in_window t0 t1 K r b ?l"
  proof -
    have "k \<in> K \<and> t0 \<le> s' \<and> s' \<le> t1" if "buckets ?l k = Some (t', s')" for k t' s'
      using that own w c window_others [OF w c, of k]
      by (cases "k = key_of e") (auto simp: in_window_def call_in_def)
    with w params [OF v, of e] valid_call [OF v, of e] show ?thesis by (auto simp: in_window_def)
  qed
  show ?thesis
  proof (cases "key_of e = k")
    case True
    with win own show ?thesis by (auto simp: step_def level_def clock_def)
  next
    case False
    with win window_others [OF w c, of k] params [OF v, of e] nn
    show ?thesis by (simp add: step_def level_def clock_def split: option.splits)
  qed
qed

end

sublocale keyed_limiter \<subseteq> bucket: token_bucket "in_window t0 t1 K r b" "call_in t0 t1 K" "step k"
  "level k" "clock t0 k" "slope r" "b * ulp" for t0 t1 K r b k
proof unfold_locales
  fix l e
  assume w: "in_window t0 t1 K r b l"
  then show "0 \<le> level k l"
    using tokens rate_burst by (auto simp: in_window_def level_def split: option.splits)
  assume c: "call_in t0 t1 K e l"
  from window_step [OF w c, of k]
  show "in_window t0 t1 K r b (snd (step k e l))"
    "fst (step k e l) + level k (snd (step k e l)) \<le>
      level k l + slope r * of_int (clock t0 k (snd (step k e l)) - clock t0 k l) + b * ulp"
    by simp_all
qed

context keyed_limiter
begin

text \<open>The amounts granted for a key along a run of calls.\<close>

primrec granted :: "string \<Rightarrow> 'e list \<Rightarrow> 'l \<Rightarrow> rat" where
  "granted k [] l = 0"
| "granted k (e # es) l = fst (step k e l) + granted k es (snd (step k e l))"

lemma granted_run: "sum_list (fst (bucket.run k es l)) = granted k es l"
  by (induction es arbitrary: l) (simp_all add: split_beta)

lemma granted_bound:
  assumes v: "valid l" "buckets l = Map.empty"
    and t: "\<forall>e \<in> set es. t0 \<le> time_of e \<and> time_of e \<le> t1" "t0 \<le> t1" "t1 - t0 \<le> ttl l"
    and room: "int (card (key_of ` set es)) \<le> room l"
  shows "granted k es l \<le> burst l + rate l * (of_int (t1 - t0) / 1000000000) * (1 + 1 / 2 ^ 53) ^ 5
    + of_nat (length es) * burst l / 2 ^ 53"
proof -
  let ?K = "key_of ` set es" and ?l = "snd (bucket.run k es l)"
  have w: "in_window t0 t1 ?K (rate l) (burst l) l"
    using v t room by (simp add: in_window_def)
  have "bucket.allowed_run t0 t1 K k fs m" if "\<forall>e \<in> set fs. call_in t0 t1 K e l" for fs m K
    using that by (induction fs arbitrary: m) (auto simp: call_in_def)
  then have a: "bucket.allowed_run t0 t1 ?K k es l" using t(1) by (auto simp: call_in_def)
  have b: "granted k es l \<le> level k l + slope (rate l) * of_int (clock t0 k ?l - clock t0 k l)
      + of_nat (length es) * (burst l * ulp)"
    using bucket.run_bound [OF w a] by (simp add: granted_run)
  have "in_window t0 t1 ?K (rate l) (burst l) ?l" by (rule bucket.run_valid [OF w a])
  then have "clock t0 k ?l \<le> t1" using t(2) by (auto simp: clock_def in_window_def split: option.splits)
  then have "of_int (clock t0 k ?l - clock t0 k l) \<le> (of_int (t1 - t0) :: rat)"
    by (simp only: of_int_le_iff) (simp add: clock_def v)
  moreover have "0 \<le> slope (rate l)" using rate_burst [OF v(1)] by simp
  ultimately have "slope (rate l) * of_int (clock t0 k ?l - clock t0 k l) \<le> slope (rate l) * of_int (t1 - t0)"
    by (rule mult_left_mono)
  moreover have "slope (rate l) * of_int (t1 - t0)
      = rate l * (of_int (t1 - t0) / 1000000000) * (1 + 1 / 2 ^ 53) ^ 5"
    by (simp add: slope_def ulp_def)
  moreover have "of_nat (length es) * (burst l * ulp) = of_nat (length es) * burst l / 2 ^ 53"
    by (simp add: ulp_def)
  moreover have "level k l = burst l" by (simp add: level_def v)
  ultimately show ?thesis using b by linarith
qed

end

end
