(* ===== verification/RateLimit.thy ===== *)
theory RateLimit
  imports GoList TokenBucket
begin

text \<open>
  The rate limiter of \<^verbatim>\<open>internal/traffic/limiter.go\<close>: one token bucket per key,
  \<open>float64\<close> tokens refilled at \<open>rl_rate\<close> per second up to \<open>rl_burst\<close>, at most
  \<open>rl_maxBuckets\<close> buckets (the least recently used is evicted) and a sweep, at most once a
  minute, of those unused for longer than \<open>rl_ttl\<close>. The clock is an argument of
  \<open>allowAt\<close>, as it is in the source.
\<close>

subsection \<open>The limiter\<close>

record rateBucket =
  rb_tokens :: rat
  rb_last :: gotime
  rb_rateElement :: "nat option"

record rateLimiter =
  rl_rate :: rat
  rl_burst :: rat
  rl_buckets :: "(string, rateBucket) gomap"
  rl_recency :: "string golist"
  rl_maxBuckets :: int
  rl_ttl :: duration
  rl_lastPrune :: gotime

definition defaultLimiterMaxBuckets :: int where "defaultLimiterMaxBuckets = 10000"
definition defaultLimiterBucketTTL :: duration where "defaultLimiterBucketTTL = 10 * Minute"

definition NewRateLimiter :: "int \<Rightarrow> int \<Rightarrow> rateLimiter" where
  "NewRateLimiter requestsPerMinute burst =
     (let rpm = (if requestsPerMinute \<le> 0 then 60 else requestsPerMinute);
          b = (if burst \<le> 0 then rpm else burst)
      in \<lparr>rl_rate = fl (f64_of_int rpm / 60), rl_burst = f64_of_int b, rl_buckets = [],
          rl_recency = new_list, rl_maxBuckets = defaultLimiterMaxBuckets,
          rl_ttl = defaultLimiterBucketTTL, rl_lastPrune = 0\<rparr>)"

definition removeBucketLocked :: "string \<Rightarrow> rateBucket option \<Rightarrow> rateLimiter \<Rightarrow> rateLimiter" where
  "removeBucketLocked key b l =
     (let l' = l\<lparr>rl_buckets := AList.delete key (rl_buckets l)\<rparr>
      in case Option.bind b rb_rateElement of
           None \<Rightarrow> l'
         | Some e \<Rightarrow> l'\<lparr>rl_recency := Remove e (rl_recency l')\<rparr>)"

definition pruneLocked :: "gotime \<Rightarrow> rateLimiter \<Rightarrow> rateLimiter" where
  "pruneLocked now l =
     (if rl_ttl l \<le> 0 \<or> time_sub now (rl_lastPrune l) < Minute then l
      else (fold (\<lambda>(key, b) l. if rl_ttl l < time_sub now (rb_last b)
                                then removeBucketLocked key (Some b) l else l)
              (rl_buckets l) l)\<lparr>rl_lastPrune := now\<rparr>)"

definition ensureCapacityLocked :: "gotime \<Rightarrow> rateLimiter \<Rightarrow> rateLimiter" where
  "ensureCapacityLocked now l =
     (if rl_maxBuckets l \<le> 0 \<or> int (length (rl_buckets l)) < rl_maxBuckets l then l
      else (case Back (rl_recency l) of
              None \<Rightarrow> l
            | Some (_, key) \<Rightarrow> removeBucketLocked key (map_of (rl_buckets l) key) l)
           \<lparr>rl_lastPrune := now\<rparr>)"

definition rate_key :: "string \<Rightarrow> string" where
  "rate_key key = (if key = [] then ''global'' else key)"

definition allowAt :: "gotime \<Rightarrow> string \<Rightarrow> rateLimiter \<Rightarrow> bool \<times> rateLimiter" where
  "allowAt now key0 l0 =
     (let key = rate_key key0; l = pruneLocked now l0
      in case map_of (rl_buckets l) key of
           None \<Rightarrow>
             (let l = ensureCapacityLocked now l;
                  (e, r) = PushFront key (rl_recency l);
                  b = \<lparr>rb_tokens = fl (rl_burst l - 1), rb_last = now, rb_rateElement = Some e\<rparr>
              in (True, l\<lparr>rl_recency := r, rl_buckets := AList.update key b (rl_buckets l)\<rparr>))
         | Some b \<Rightarrow>
             (let r = (case rb_rateElement b of None \<Rightarrow> rl_recency l
                       | Some e \<Rightarrow> MoveToFront e (rl_recency l));
                  (t, since) = refill (rl_rate l) (rl_burst l) now (rb_tokens b, rb_last b);
                  granted = (1 \<le> t);
                  b' = b\<lparr>rb_tokens := (if granted then fl (t - 1) else t), rb_last := since\<rparr>
              in (granted, l\<lparr>rl_recency := r, rl_buckets := AList.update key b' (rl_buckets l)\<rparr>)))"

text \<open>A run of calls, each with the time it is made and its key.\<close>

primrec allow_run :: "(gotime \<times> string) list \<Rightarrow> rateLimiter \<Rightarrow> bool list \<times> rateLimiter" where
  "allow_run [] l = ([], l)"
| "allow_run (c # cs) l =
     (let (g, l') = allowAt (fst c) (snd c) l; (gs, l'') = allow_run cs l' in (g # gs, l''))"

text \<open>How many calls for a key a run grants.\<close>

definition grants :: "string \<Rightarrow> (gotime \<times> string) list \<Rightarrow> rateLimiter \<Rightarrow> nat" where
  "grants k cs l = length (filter (\<lambda>(g, c). g \<and> rate_key (snd c) = k) (zip (fst (allow_run cs l)) cs))"

subsection \<open>Invariant\<close>

definition rate_index :: "rateLimiter \<Rightarrow> string \<rightharpoonup> nat" where
  "rate_index l = (\<lambda>k. Option.bind (map_of (rl_buckets l) k) rb_rateElement)"

definition bucket_ok :: "rat \<Rightarrow> rateBucket \<Rightarrow> bool" where
  "bucket_ok burst b = (0 \<le> rb_tokens b \<and> rb_tokens b \<le> burst \<and> is_f64 (rb_tokens b) \<and>
                        rb_rateElement b \<noteq> None)"

definition params_ok :: "rateLimiter \<Rightarrow> bool" where
  "params_ok l = (0 \<le> rl_rate l \<and> 1 \<le> rl_burst l \<and> rl_burst l \<le> 2 ^ 53 \<and> is_f64 (rl_burst l) \<and>
                  0 < rl_maxBuckets l \<and> 0 < rl_ttl l)"

definition limiter_ok :: "rateLimiter \<Rightarrow> bool" where
  "limiter_ok l = (list_ok (rl_recency l) \<and> map_ok (rl_buckets l) \<and>
     indexes id (elems (rl_recency l)) (rate_index l) \<and>
     (\<forall>k b. map_of (rl_buckets l) k = Some b \<longrightarrow> bucket_ok (rl_burst l) b) \<and>
     params_ok l \<and> int (length (rl_buckets l)) \<le> rl_maxBuckets l)"

lemma limiter_okD:
  assumes "limiter_ok l"
  shows "list_ok (rl_recency l)" "map_ok (rl_buckets l)"
    "indexes id (elems (rl_recency l)) (rate_index l)"
    "params_ok l" "int (length (rl_buckets l)) \<le> rl_maxBuckets l"
  using assms by (simp_all add: limiter_ok_def)

lemma limiter_ok_bucket:
  assumes "limiter_ok l" "map_of (rl_buckets l) k = Some b"
  obtains e where "bucket_ok (rl_burst l) b" "rb_rateElement b = Some e" "(e, k) \<in> set (elems (rl_recency l))"
proof -
  from assms have b: "bucket_ok (rl_burst l) b" by (simp add: limiter_ok_def)
  then obtain e where e: "rb_rateElement b = Some e" by (auto simp: bucket_ok_def)
  with assms(2) have "rate_index l k = Some e" by (simp add: rate_index_def)
  with limiter_okD(3) [OF assms(1)] have "(e, k) \<in> set (elems (rl_recency l))"
    by (auto dest: indexesD)
  with b e show ?thesis by (rule that)
qed

lemma params_New:
  "rl_burst (NewRateLimiter rpm burst) \<le> 2 ^ 53 \<Longrightarrow> params_ok (NewRateLimiter rpm burst)"
proof -
  assume le: "rl_burst (NewRateLimiter rpm burst) \<le> 2 ^ 53"
  have one: "1 \<le> f64_of_int n" if "0 < n" for n
    using that fl_mono [of 1 "of_int n"] by (simp add: f64_of_int_def)
  have "0 \<le> f64_of_int (if rpm \<le> 0 then 60 else rpm) / 60"
    using one [of "if rpm \<le> 0 then 60 else rpm"] by (simp only: zero_le_divide_iff split: if_splits) auto
  then have "0 \<le> rl_rate (NewRateLimiter rpm burst)"
    by (simp add: NewRateLimiter_def Let_def fl_nonneg del: zero_le_divide_iff)
  moreover have "1 \<le> rl_burst (NewRateLimiter rpm burst)"
    using one by (simp add: NewRateLimiter_def Let_def)
  moreover have "is_f64 (rl_burst (NewRateLimiter rpm burst))"
    by (simp add: NewRateLimiter_def Let_def f64_of_int_def)
  ultimately show ?thesis using le
    by (simp add: params_ok_def NewRateLimiter_def Let_def defaultLimiterMaxBuckets_def
        defaultLimiterBucketTTL_def duration_defs)
qed

lemma limiter_ok_New:
  "rl_burst (NewRateLimiter rpm burst) \<le> 2 ^ 53 \<Longrightarrow> limiter_ok (NewRateLimiter rpm burst)"
proof -
  assume "rl_burst (NewRateLimiter rpm burst) \<le> 2 ^ 53"
  then have p: "params_ok (NewRateLimiter rpm burst)" by (rule params_New)
  moreover have "rl_buckets (NewRateLimiter rpm burst) = []"
    "rl_recency (NewRateLimiter rpm burst) = new_list"
    by (simp_all add: NewRateLimiter_def Let_def)
  ultimately show ?thesis
    by (auto simp: limiter_ok_def rate_index_def indexes_def new_list_def list_ok_def params_ok_def)
qed

subsection \<open>Removing buckets\<close>

lemma removeBucket_fields [simp]:
  "rl_rate (removeBucketLocked k b l) = rl_rate l"
  "rl_burst (removeBucketLocked k b l) = rl_burst l"
  "rl_maxBuckets (removeBucketLocked k b l) = rl_maxBuckets l"
  "rl_ttl (removeBucketLocked k b l) = rl_ttl l"
  "rl_lastPrune (removeBucketLocked k b l) = rl_lastPrune l"
  "rl_buckets (removeBucketLocked k b l) = AList.delete k (rl_buckets l)"
  by (simp_all add: removeBucketLocked_def Let_def split: option.splits)

lemma removeBucket_ok:
  assumes ok: "limiter_ok l" and b: "map_of (rl_buckets l) k = Some b"
  shows "limiter_ok (removeBucketLocked k (Some b) l)"
proof -
  note okD = limiter_okD [OF ok]
  obtain e where e: "rb_rateElement b = Some e" "(e, k) \<in> set (elems (rl_recency l))"
    using limiter_ok_bucket [OF ok b] by blast
  let ?l = "removeBucketLocked k (Some b) l"
  have r: "rl_recency ?l = Remove e (rl_recency l)" by (simp add: removeBucketLocked_def e)
  have "rate_index ?l = (rate_index l)(k := None)" by (auto simp: rate_index_def)
  then have "indexes id (elems (rl_recency ?l)) (rate_index ?l)"
    using front_list.indexes_remove [OF okD(1,3) e(2)] by (simp add: r)
  with ok okD length_delete_le [of k "rl_buckets l"] show ?thesis
    unfolding limiter_ok_def params_ok_def by (auto simp: r go_intros)
qed

lemma limiter_ok_lastPrune [simp]: "limiter_ok (l\<lparr>rl_lastPrune := t\<rparr>) = limiter_ok l"
  by (simp add: limiter_ok_def params_ok_def rate_index_def)

text \<open>What the sweep removes: exactly the buckets it finds stale.\<close>

lemma prune_fold:
  fixes now :: gotime
  assumes "limiter_ok l" "map_ok ps" "\<And>k b. (k, b) \<in> set ps \<Longrightarrow> map_of (rl_buckets l) k = Some b"
  defines "f \<equiv> (\<lambda>(key, b) l. if rl_ttl l < time_sub now (rb_last b)
                                then removeBucketLocked key (Some b) l else l)"
  shows "limiter_ok (fold f ps l) \<and>
     rl_rate (fold f ps l) = rl_rate l \<and> rl_burst (fold f ps l) = rl_burst l \<and>
     rl_maxBuckets (fold f ps l) = rl_maxBuckets l \<and> rl_ttl (fold f ps l) = rl_ttl l \<and>
     map_of (rl_buckets (fold f ps l)) =
       (\<lambda>k. case map_of ps k of
              Some b \<Rightarrow> (if rl_ttl l < time_sub now (rb_last b) then None else Some b)
            | None \<Rightarrow> map_of (rl_buckets l) k) \<and>
     length (rl_buckets (fold f ps l)) \<le> length (rl_buckets l)"
  using assms(1-3)
proof (induction ps arbitrary: l)
  case Nil
  then show ?case by simp
next
  case (Cons p ps)
  obtain k b where p: "p = (k, b)" by (cases p)
  have k: "map_of (rl_buckets l) k = Some b" using Cons.prems p by simp
  have kps: "k \<notin> fst ` set ps" and mps: "map_ok ps" using Cons.prems p by (simp_all add: map_ok_def)
  let ?l = "f p l"
  have ok: "limiter_ok ?l" using Cons.prems(1) removeBucket_ok [OF _ k] by (simp add: f_def p)
  have "map_of (rl_buckets ?l) k' = Some b'" if "(k', b') \<in> set ps" for k' b'
  proof -
    have "k' \<noteq> k" using kps that by force
    moreover have "map_of (rl_buckets l) k' = Some b'" using Cons.prems that by simp
    ultimately show ?thesis by (simp add: f_def p)
  qed
  note IH = Cons.IH [OF ok mps this]
  have kn: "map_of ps k = None" using kps by (simp add: map_of_eq_None_iff)
  have L: "rl_rate ?l = rl_rate l" "rl_burst ?l = rl_burst l" "rl_maxBuckets ?l = rl_maxBuckets l"
    "rl_ttl ?l = rl_ttl l" "length (rl_buckets ?l) \<le> length (rl_buckets l)"
    "map_of (rl_buckets ?l) = (if rl_ttl l < time_sub now (rb_last b)
       then (map_of (rl_buckets l))(k := None) else map_of (rl_buckets l))"
    using length_delete_le [of k "rl_buckets l"] by (simp_all add: f_def p)
  have F: "fold f (p # ps) l = fold f ps ?l" by simp
  have "map_of (rl_buckets (fold f ps ?l)) k' =
      (case map_of (p # ps) k' of
         Some b \<Rightarrow> (if rl_ttl l < time_sub now (rb_last b) then None else Some b)
       | None \<Rightarrow> map_of (rl_buckets l) k')" for k'
    using IH k kn unfolding L by (cases "k' = k") (auto simp: p split: option.splits)
  with IH L show ?case unfolding F by (auto simp: fun_eq_iff)
qed

lemma pruneLocked_props:
  assumes "limiter_ok l"
  shows "limiter_ok (pruneLocked now l) \<and>
     rl_rate (pruneLocked now l) = rl_rate l \<and> rl_burst (pruneLocked now l) = rl_burst l \<and>
     rl_maxBuckets (pruneLocked now l) = rl_maxBuckets l \<and> rl_ttl (pruneLocked now l) = rl_ttl l \<and>
     (\<forall>k. map_of (rl_buckets (pruneLocked now l)) k \<noteq> map_of (rl_buckets l) k \<longrightarrow>
        map_of (rl_buckets (pruneLocked now l)) k = None \<and>
        (\<exists>b. map_of (rl_buckets l) k = Some b \<and> rl_ttl l < time_sub now (rb_last b)))"
proof (cases "rl_ttl l \<le> 0 \<or> time_sub now (rl_lastPrune l) < Minute")
  case True
  with assms show ?thesis by (simp add: pruneLocked_def)
next
  case False
  have "map_of (rl_buckets l) k = Some b" if "(k, b) \<in> set (rl_buckets l)" for k b
    using that limiter_okD(2) [OF assms] by (simp add: map_ok_def)
  from prune_fold [OF assms limiter_okD(2) [OF assms] this] False show ?thesis
    by (auto simp: pruneLocked_def split: option.splits)
qed

lemma ensureCapacity_props:
  assumes "limiter_ok l"
  shows "limiter_ok (ensureCapacityLocked now l) \<and>
     rl_rate (ensureCapacityLocked now l) = rl_rate l \<and> rl_burst (ensureCapacityLocked now l) = rl_burst l \<and>
     rl_maxBuckets (ensureCapacityLocked now l) = rl_maxBuckets l \<and>
     rl_ttl (ensureCapacityLocked now l) = rl_ttl l \<and>
     int (length (rl_buckets (ensureCapacityLocked now l))) < rl_maxBuckets l \<and>
     (int (length (rl_buckets l)) < rl_maxBuckets l \<longrightarrow> ensureCapacityLocked now l = l) \<and>
     (map_of (rl_buckets (ensureCapacityLocked now l)) k = map_of (rl_buckets l) k \<or>
      map_of (rl_buckets (ensureCapacityLocked now l)) k = None)"
proof (cases "int (length (rl_buckets l)) < rl_maxBuckets l")
  case True
  with assms show ?thesis by (simp add: ensureCapacityLocked_def)
next
  case False
  note okD = limiter_okD [OF assms]
  have len: "int (length (rl_buckets l)) = rl_maxBuckets l" "0 < rl_maxBuckets l"
    using False okD(4,5) by (auto simp: params_ok_def)
  then obtain p ps where "rl_buckets l = p # ps" by (cases "rl_buckets l") auto
  then have "map_of (rl_buckets l) (fst p) = Some (snd p)" by simp
  with limiter_ok_bucket [OF assms] have "elems (rl_recency l) \<noteq> []" by (metis empty_iff list.set(1))
  then obtain e k1 where bk: "Back (rl_recency l) = Some (e, k1)"
    by (cases "last (elems (rl_recency l))") (auto simp: Back_def)
  then have "(e, k1) \<in> set (elems (rl_recency l))" by (rule Back_mem)
  with indexes_mem [OF okD(3), of e k1] have "rate_index l k1 = Some e" by simp
  then obtain b1 where b1: "map_of (rl_buckets l) k1 = Some b1"
    by (auto simp: rate_index_def bind_eq_Some_conv)
  let ?l = "removeBucketLocked k1 (Some b1) l"
  have e: "ensureCapacityLocked now l = ?l\<lparr>rl_lastPrune := now\<rparr>"
    using False len by (simp add: ensureCapacityLocked_def bk b1)
  have "Suc (length (rl_buckets ?l)) = length (rl_buckets l)"
    using length_delete [OF okD(2), of k1] b1 by simp
  with removeBucket_ok [OF assms b1] len show ?thesis by (auto simp: e False)
qed

subsection \<open>What a call does\<close>

definition bucket_params :: "rateLimiter \<Rightarrow> rateLimiter \<Rightarrow> bool" where
  "bucket_params l' l = (rl_rate l' = rl_rate l \<and> rl_burst l' = rl_burst l \<and>
     rl_maxBuckets l' = rl_maxBuckets l \<and> rl_ttl l' = rl_ttl l)"

lemma limiter_ok_store:
  assumes ok: "limiter_ok l" and b: "bucket_ok (rl_burst l) b" "rb_rateElement b = Some e"
    and r: "list_ok r" "indexes id (elems r) ((rate_index l)(key \<mapsto> e))"
    and len: "int (length (AList.update key b (rl_buckets l))) \<le> rl_maxBuckets l"
  shows "limiter_ok (l\<lparr>rl_recency := r, rl_buckets := AList.update key b (rl_buckets l)\<rparr>)"
proof -
  let ?l = "l\<lparr>rl_recency := r, rl_buckets := AList.update key b (rl_buckets l)\<rparr>"
  have "rate_index ?l = (rate_index l)(key \<mapsto> e)" using b by (auto simp: rate_index_def)
  with ok b r len limiter_okD [OF ok] show ?thesis
    unfolding limiter_ok_def by (auto simp: params_ok_def go_intros)
qed

lemma new_bucket_tokens: "params_ok l \<Longrightarrow> fl (rl_burst l - 1) = rl_burst l - 1"
  using fl_minus_int [of "rl_burst l" 1] by (simp add: params_ok_def)

lemma allowAt_new:
  assumes ok: "limiter_ok l" and none: "map_of (rl_buckets (pruneLocked now l)) (rate_key key) = None"
  defines "l' \<equiv> snd (allowAt now key l)"
  shows "fst (allowAt now key l) \<and> limiter_ok l' \<and> bucket_params l' l \<and>
    (\<exists>b. map_of (rl_buckets l') (rate_key key) = Some b \<and> rb_tokens b = rl_burst l - 1 \<and> rb_last b = now) \<and>
    (int (length (rl_buckets (pruneLocked now l))) < rl_maxBuckets l \<longrightarrow>
       (\<forall>k. k \<noteq> rate_key key \<longrightarrow>
          map_of (rl_buckets l') k = map_of (rl_buckets (pruneLocked now l)) k))"
proof -
  let ?p = "pruneLocked now l" and ?k = "rate_key key"
  have p: "limiter_ok ?p" "bucket_params ?p l"
    using pruneLocked_props [OF ok] by (simp_all add: bucket_params_def)
  define c where "c = ensureCapacityLocked now ?p"
  have c: "limiter_ok c" "bucket_params c l" "int (length (rl_buckets c)) < rl_maxBuckets c"
    "map_of (rl_buckets c) ?k = None" "int (length (rl_buckets ?p)) < rl_maxBuckets l \<longrightarrow> c = ?p"
    using ensureCapacity_props [OF p(1), of now ?k] p(2) none by (auto simp: c_def bucket_params_def)
  note okD = limiter_okD [OF c(1)]
  define b where "b = \<lparr>rb_tokens = fl (rl_burst c - 1), rb_last = now,
    rb_rateElement = Some (fst (PushFront ?k (rl_recency c)))\<rparr>"
  define c' where "c' = c\<lparr>rl_recency := snd (PushFront ?k (rl_recency c)),
    rl_buckets := AList.update ?k b (rl_buckets c)\<rparr>"
  have a: "allowAt now key l = (True, c')"
    using none by (simp add: allowAt_def Let_def c_def c'_def b_def split_beta)
  have bt: "rb_tokens b = rl_burst c - 1"
    using new_bucket_tokens [OF okD(4)] by (simp add: b_def)
  then have b: "bucket_ok (rl_burst c) b"
    using okD(4) new_bucket_tokens [OF okD(4)] by (simp add: bucket_ok_def params_ok_def b_def is_f64_def)
  have "rate_index c ?k = None" using c(4) by (simp add: rate_index_def)
  then have ix: "indexes id (elems (snd (PushFront ?k (rl_recency c))))
      ((rate_index c)(?k \<mapsto> fst (PushFront ?k (rl_recency c))))"
    using front_list.indexes_push [OF okD(1,3), of ?k] by simp
  have "limiter_ok c'" unfolding c'_def
    using c(3,4) okD(1) ix by (intro limiter_ok_store [OF c(1) b]) (auto simp: b_def length_update go_intros)
  moreover have "bucket_params c' l" using c(2) by (simp add: bucket_params_def c'_def)
  moreover have "rl_burst c = rl_burst l" using c(2) by (simp add: bucket_params_def)
  ultimately show ?thesis using bt c(5) by (auto simp: l'_def a c'_def) (simp_all add: b_def)
qed

text \<open>A call leaves the bucket of another key alone, or drops it.\<close>

lemma prune_others:
  "limiter_ok l \<Longrightarrow> map_of (rl_buckets (pruneLocked now l)) k = map_of (rl_buckets l) k \<or>
    map_of (rl_buckets (pruneLocked now l)) k = None"
  using pruneLocked_props [of l now] by metis

lemma allowAt_others:
  assumes ok: "limiter_ok l" and k: "k \<noteq> rate_key key"
  shows "map_of (rl_buckets (snd (allowAt now key l))) k = map_of (rl_buckets l) k \<or>
    map_of (rl_buckets (snd (allowAt now key l))) k = None"
proof (cases "map_of (rl_buckets (pruneLocked now l)) (rate_key key)")
  case None
  have "limiter_ok (pruneLocked now l)" using pruneLocked_props [OF ok] by simp
  from ensureCapacity_props [OF this, of now k] prune_others [OF ok, of now k] k None
  show ?thesis by (auto simp: allowAt_def Let_def split_beta)
next
  case (Some b)
  with prune_others [OF ok, of now k] k show ?thesis
    by (auto simp: allowAt_def Let_def split_beta)
qed

lemma bucket_refill:
  assumes ok: "limiter_ok l" and b: "map_of (rl_buckets l) k = Some b"
  shows "0 \<le> fst (refill (rl_rate l) (rl_burst l) now (rb_tokens b, rb_last b)) \<and>
    fst (refill (rl_rate l) (rl_burst l) now (rb_tokens b, rb_last b)) \<le> rl_burst l \<and>
    is_f64 (fst (refill (rl_rate l) (rl_burst l) now (rb_tokens b, rb_last b)))"
  using assms by (intro refill_bounds) (auto simp: limiter_ok_def params_ok_def bucket_ok_def)

lemma allowAt_old:
  assumes ok: "limiter_ok l" and some: "map_of (rl_buckets (pruneLocked now l)) (rate_key key) = Some b"
    and r: "refill (rl_rate l) (rl_burst l) now (rb_tokens b, rb_last b) = (t, s)"
  defines "l' \<equiv> snd (allowAt now key l)"
  shows "fst (allowAt now key l) = (1 \<le> t) \<and> limiter_ok l' \<and> bucket_params l' l \<and>
    (\<exists>b'. map_of (rl_buckets l') (rate_key key) = Some b' \<and> rb_last b' = s \<and>
          rb_tokens b' = (if 1 \<le> t then t - 1 else t)) \<and>
    (\<forall>k. k \<noteq> rate_key key \<longrightarrow>
       map_of (rl_buckets l') k = map_of (rl_buckets (pruneLocked now l)) k)"
proof -
  let ?k = "rate_key key"
  define c where "c = pruneLocked now l"
  have c: "limiter_ok c" "bucket_params c l"
    using pruneLocked_props [OF ok] by (simp_all add: bucket_params_def c_def)
  have cb: "map_of (rl_buckets c) ?k = Some b" using some by (simp add: c_def)
  note okD = limiter_okD [OF c(1)]
  obtain e where e: "bucket_ok (rl_burst c) b" "rb_rateElement b = Some e"
    "(e, ?k) \<in> set (elems (rl_recency c))"
    using limiter_ok_bucket [OF c(1) cb] by blast
  have rc: "refill (rl_rate c) (rl_burst c) now (rb_tokens b, rb_last b) = (t, s)"
    using r c(2) by (simp add: bucket_params_def)
  have t: "0 \<le> t" "t \<le> rl_burst c" "is_f64 t" using bucket_refill [OF c(1) cb, of now] rc by auto
  have t1: "fl (t - 1) = t - 1" if "1 \<le> t"
    using that t okD(4) fl_minus_int [of t 1] by (simp add: params_ok_def)
  define b' where "b' = b\<lparr>rb_tokens := (if 1 \<le> t then fl (t - 1) else t), rb_last := s\<rparr>"
  define c' where "c' = c\<lparr>rl_recency := MoveToFront e (rl_recency c),
    rl_buckets := AList.update ?k b' (rl_buckets c)\<rparr>"
  have a: "allowAt now key l = (1 \<le> t, c')"
    using cb rc e(2) by (simp add: allowAt_def Let_def c_def c'_def b'_def split_beta)
  have b': "bucket_ok (rl_burst c) b'" "rb_rateElement b' = Some e"
    using t t1 e by (auto simp: bucket_ok_def b'_def is_f64_def)
  have "rate_index c ?k = Some e" using cb e by (simp add: rate_index_def)
  then have ix: "indexes id (elems (MoveToFront e (rl_recency c))) ((rate_index c)(?k \<mapsto> e))"
    using front_list.indexes_touch [OF okD(1,3), of e] by (simp add: fun_upd_idem)
  have "limiter_ok c'" unfolding c'_def
    using okD(1,5) ix cb by (intro limiter_ok_store [OF c(1) b']) (auto simp: length_update go_intros)
  moreover have "bucket_params c' l" using c(2) by (simp add: bucket_params_def c'_def)
  ultimately show ?thesis using t1 by (simp add: l'_def a c'_def) (simp add: b'_def c_def)
qed

lemma allowAt_ok:
  assumes "limiter_ok l"
  shows "limiter_ok (snd (allowAt now key l)) \<and> bucket_params (snd (allowAt now key l)) l"
proof (cases "map_of (rl_buckets (pruneLocked now l)) (rate_key key)")
  case None
  with allowAt_new [OF assms] show ?thesis by simp
next
  case (Some b)
  from allowAt_old [OF assms Some prod.collapse [symmetric]] show ?thesis by simp
qed

interpretation limiter_inv: preserving "\<lambda>call l. snd (allowAt (fst call) (snd call) l)" limiter_ok
  by unfold_locales (simp add: allowAt_ok)

lemma allow_run_ok: "limiter_ok l \<Longrightarrow> limiter_ok (snd (allow_run cs l))"
  by (induction cs arbitrary: l) (auto simp: split_beta allowAt_ok)

subsection \<open>The limiter as a \<open>keyed_limiter\<close>\<close>

definition rl_view :: "rateLimiter \<Rightarrow> string \<Rightarrow> (rat \<times> gotime) option" where
  "rl_view l k = map_option (\<lambda>b. (rb_tokens b, rb_last b)) (map_of (rl_buckets l) k)"

definition rl_call :: "gotime \<times> string \<Rightarrow> rateLimiter \<Rightarrow> rat \<times> rateLimiter" where
  "rl_call c l = (of_bool (fst (allowAt (fst c) (snd c) l)), snd (allowAt (fst c) (snd c) l))"

lemma prune_fresh:
  assumes "limiter_ok l" "\<And>b. map_of (rl_buckets l) k = Some b \<Longrightarrow> time_sub now (rb_last b) \<le> rl_ttl l"
  shows "map_of (rl_buckets (pruneLocked now l)) k = map_of (rl_buckets l) k"
  using pruneLocked_props [OF assms(1), of now] assms(2) by (metis not_le)

lemma rl_call_others:
  assumes ok: "limiter_ok l" and k: "k \<noteq> rate_key key"
    and fresh: "\<And>k b. map_of (rl_buckets l) k = Some b \<Longrightarrow> time_sub now (rb_last b) \<le> rl_ttl l"
    and room: "map_of (rl_buckets l) (rate_key key) \<noteq> None \<or>
      int (card (dom (map_of (rl_buckets l)))) < rl_maxBuckets l"
  shows "map_of (rl_buckets (snd (allowAt now key l))) k = map_of (rl_buckets l) k"
proof -
  have P: "map_of (rl_buckets (pruneLocked now l)) = map_of (rl_buckets l)"
    using prune_fresh [OF ok] fresh by blast
  show ?thesis
  proof (cases "map_of (rl_buckets l) (rate_key key)")
    case None
    then have n: "map_of (rl_buckets (pruneLocked now l)) (rate_key key) = None" by (simp add: P)
    have "map_ok (rl_buckets (pruneLocked now l))"
      using pruneLocked_props [OF ok] by (simp add: limiter_ok_def)
    then have "length (rl_buckets (pruneLocked now l)) = card (dom (map_of (rl_buckets l)))"
      using P length_dom by fastforce
    with room None have "int (length (rl_buckets (pruneLocked now l))) < rl_maxBuckets l" by simp
    with allowAt_new [OF ok n] k P show ?thesis by simp
  next
    case (Some b)
    then have n: "map_of (rl_buckets (pruneLocked now l)) (rate_key key) = Some b" by (simp add: P)
    from allowAt_old [OF ok n prod.collapse [symmetric]] k P show ?thesis by simp
  qed
qed

interpretation rl: keyed_limiter limiter_ok rl_view rl_rate rl_burst rl_maxBuckets rl_ttl
  rl_call "\<lambda>c. rate_key (snd c)" fst
proof unfold_locales
  fix l e
  assume ok: "limiter_ok l"
  show "limiter_ok (snd (rl_call e l))" using allowAt_ok [OF ok] by (simp add: rl_call_def)
  show "rl_rate (snd (rl_call e l)) = rl_rate l \<and> rl_burst (snd (rl_call e l)) = rl_burst l \<and>
      rl_maxBuckets (snd (rl_call e l)) = rl_maxBuckets l \<and> rl_ttl (snd (rl_call e l)) = rl_ttl l"
    using allowAt_ok [OF ok, of "fst e" "snd e"] by (simp add: rl_call_def bucket_params_def)
  show "0 \<le> rl_rate l \<and> 0 \<le> rl_burst l \<and> 0 \<le> rl_ttl l"
    using ok by (simp add: limiter_ok_def params_ok_def)
  show "0 \<le> t \<and> t \<le> rl_burst l" if "rl_view l k = Some (t, s)" for k t s
    using ok that by (auto simp: limiter_ok_def bucket_ok_def rl_view_def)
  show "rl_view (snd (rl_call e l)) k = rl_view l k"
    if k: "k \<noteq> rate_key (snd e)"
      and fresh: "\<And>k t s. rl_view l k = Some (t, s) \<Longrightarrow> time_sub (fst e) s \<le> rl_ttl l"
      and room: "rl_view l (rate_key (snd e)) \<noteq> None \<or> int (card (dom (rl_view l))) < rl_maxBuckets l" for k
  proof -
    have "dom (rl_view l) = dom (map_of (rl_buckets l))" by (auto simp: rl_view_def)
    moreover have "time_sub (fst e) (rb_last b) \<le> rl_ttl l" if b: "map_of (rl_buckets l) k' = Some b" for k' b
      by (rule fresh [of k' "rb_tokens b"]) (simp add: rl_view_def b)
    ultimately have "map_of (rl_buckets (snd (allowAt (fst e) (snd e) l))) k = map_of (rl_buckets l) k"
      using room by (intro rl_call_others [OF ok k]) (auto simp: rl_view_def)
    then show ?thesis by (simp add: rl_view_def rl_call_def)
  qed
  show "rl_view (snd (rl_call e l)) (rate_key (snd e)) = Some (t' - fst (rl_call e l), s')"
    if view: "rl_view l (rate_key (snd e)) = Some (t, s)" and "time_sub (fst e) s \<le> rl_ttl l"
      "refill (rl_rate l) (rl_burst l) (fst e) (t, s) = (t', s')" for t s t' s'
  proof -
    obtain b where b: "map_of (rl_buckets l) (rate_key (snd e)) = Some b" "t = rb_tokens b" "s = rb_last b"
      using view by (auto simp: rl_view_def)
    have "map_of (rl_buckets (pruneLocked (fst e) l)) (rate_key (snd e)) = Some b"
      using prune_fresh [OF ok, of "rate_key (snd e)" "fst e"] that(2) b by simp
    from allowAt_old [OF ok this] that(3) b show ?thesis by (auto simp: rl_view_def rl_call_def)
  qed
  show "rl_view (snd (rl_call e l)) (rate_key (snd e)) = Some (rl_burst l - fst (rl_call e l), fst e)"
    if "rl_view l (rate_key (snd e)) = None"
  proof -
    have "map_of (rl_buckets (pruneLocked (fst e) l)) (rate_key (snd e)) = None"
      using prune_others [OF ok, of "fst e" "rate_key (snd e)"] that by (auto simp: rl_view_def)
    from allowAt_new [OF ok this] show ?thesis by (auto simp: rl_view_def rl_call_def)
  qed
qed

lemma rl_granted: "rl.granted k cs l = of_nat (grants k cs l)"
proof (induction cs arbitrary: l)
  case (Cons c cs)
  have "grants k (c # cs) l = of_bool (fst (allowAt (fst c) (snd c) l) \<and> rate_key (snd c) = k)
      + grants k cs (snd (allowAt (fst c) (snd c) l))"
    by (simp add: grants_def split_beta)
  moreover have "rl.step k c l = (of_bool (fst (allowAt (fst c) (snd c) l) \<and> rate_key (snd c) = k),
      snd (allowAt (fst c) (snd c) l))"
    by (simp add: rl.step_def rl_call_def)
  ultimately show ?case using Cons by simp
qed (simp add: grants_def)

subsection \<open>What a key is not refused\<close>

lemma refill_ge:
  assumes "0 \<le> rate" "is_f64 tokens" "tokens \<le> burst"
  shows "tokens \<le> fst (refill rate burst now (tokens, since))"
proof -
  have "tokens \<le> fl (tokens + fl (Seconds (time_sub now since) * rate))" if "0 < Seconds (time_sub now since)"
  proof -
    have "0 \<le> fl (Seconds (time_sub now since) * rate)" using that assms by (intro fl_nonneg) auto
    then have "fl tokens \<le> fl (tokens + fl (Seconds (time_sub now since) * rate))"
      by (intro fl_mono) simp
    with assms show ?thesis by (simp add: is_f64_def)
  qed
  with assms show ?thesis by (auto simp: refill_def Let_def)
qed

definition rl_level :: "string \<Rightarrow> rateLimiter \<Rightarrow> rat" where
  "rl_level k l = (case map_of (rl_buckets l) k of None \<Rightarrow> rl_burst l | Some b \<Rightarrow> rb_tokens b)"

definition calls_for :: "string \<Rightarrow> (gotime \<times> string) list \<Rightarrow> nat" where
  "calls_for k cs = length (filter (\<lambda>c. rate_key (snd c) = k) cs)"

lemma rl_level_le: "limiter_ok l \<Longrightarrow> rl_level k l \<le> rl_burst l"
  by (auto simp: rl_level_def limiter_ok_def bucket_ok_def split: option.splits)

lemma rl_level_prune: "limiter_ok l \<Longrightarrow> rl_level k l \<le> rl_level k (pruneLocked now l)"
  using prune_others [of l now k] pruneLocked_props [of l now] rl_level_le [of l k]
  by (auto simp: rl_level_def split: option.splits)

lemma allowAt_level:
  fixes now :: gotime
  assumes ok: "limiter_ok l" and one: "rate_key key = k \<Longrightarrow> 1 \<le> rl_level k l"
  defines "l' \<equiv> snd (allowAt now key l)"
  shows "(rate_key key = k \<longrightarrow> fst (allowAt now key l)) \<and>
    rl_level k l - of_bool (rate_key key = k) \<le> rl_level k l'"
proof (cases "rate_key key = k")
  case False
  with allowAt_others [OF ok, of k key now] allowAt_ok [OF ok, of now key] rl_level_le [OF ok, of k]
  show ?thesis by (auto simp: l'_def rl_level_def bucket_params_def split: option.splits)
next
  case True
  note lp = rl_level_prune [OF ok, of k now]
  show ?thesis
  proof (cases "map_of (rl_buckets (pruneLocked now l)) k")
    case None
    with allowAt_new [OF ok, of now key] True rl_level_le [OF ok, of k] show ?thesis
      by (auto simp: l'_def rl_level_def)
  next
    case (Some b)
    obtain t s where r: "refill (rl_rate l) (rl_burst l) now (rb_tokens b, rb_last b) = (t, s)"
      by fastforce
    have pok: "limiter_ok (pruneLocked now l)" "rl_burst (pruneLocked now l) = rl_burst l"
      using pruneLocked_props [OF ok] by auto
    have "rb_tokens b \<le> t"
      using refill_ge [of "rl_rate l" "rb_tokens b" "rl_burst l" now "rb_last b"] r ok pok Some
      by (auto simp: limiter_ok_def params_ok_def bucket_ok_def)
    moreover have "rl_level k (pruneLocked now l) = rb_tokens b" by (simp add: rl_level_def Some)
    ultimately have t: "1 \<le> t" "rl_level k l \<le> t" using one [OF True] lp by linarith+
    with allowAt_old [OF ok, of now key b t s] r Some True show ?thesis
      by (auto simp: l'_def rl_level_def)
  qed
qed

lemma grants_all:
  "limiter_ok l \<Longrightarrow> of_nat (calls_for k cs) \<le> rl_level k l \<Longrightarrow> grants k cs l = calls_for k cs"
proof (induction cs arbitrary: l)
  case (Cons c cs)
  let ?a = "allowAt (fst c) (snd c) l"
  have one: "rate_key (snd c) = k \<Longrightarrow> 1 \<le> rl_level k l"
    using Cons.prems(2) by (auto simp: calls_for_def)
  from allowAt_level [OF Cons.prems(1) one, where now = "fst c"]
  have "(rate_key (snd c) = k \<longrightarrow> fst ?a)"
    "rl_level k l - of_bool (rate_key (snd c) = k) \<le> rl_level k (snd ?a)" by auto
  moreover have "of_nat (calls_for k cs) \<le> rl_level k (snd ?a)"
    using Cons.prems(2) calculation(2) by (auto simp: calls_for_def split: if_splits)
  moreover have "limiter_ok (snd ?a)" using allowAt_ok Cons.prems(1) by blast
  ultimately show ?case
    using Cons.IH [of "snd ?a"] by (auto simp: grants_def calls_for_def split_beta)
qed (simp add: grants_def calls_for_def)

subsection \<open>Properties\<close>

text \<open>
  Over any sequence of calls, the limiter keeps its map and its recency list in
  agreement (every bucket has its list element and every list element its bucket), holds no
  more than \<open>rl_maxBuckets\<close> buckets, and keeps the tokens of every bucket between zero and
  the burst. The burst must be an integer that a \<open>float64\<close> represents exactly.
\<close>

theorem rate_limiter_invariant:
  assumes "rl_burst (NewRateLimiter rpm burst) \<le> 2 ^ 53"
  shows "limiter_ok (snd (allow_run cs (NewRateLimiter rpm burst)))"
  using allow_run_ok [OF limiter_ok_New [OF assms]] .

theorem rate_limiter_invariant_witness:
  "limiter_ok (snd (allow_run [(5, ''a''), (6, []), (7, ''a'')] (NewRateLimiter 60 2)))"
  by (rule rate_limiter_invariant) code_simp



text \<open>
  No key gets less than its burst: if a new limiter is called no more often for a key
  than the burst allows, every one of these calls is granted, whatever the times of the
  calls, whatever other keys ask for, and whatever buckets are swept or evicted meanwhile.
\<close>

theorem rate_limit_burst:
  assumes "rl_burst (NewRateLimiter rpm burst) \<le> 2 ^ 53"
    and "of_nat (calls_for k cs) \<le> rl_burst (NewRateLimiter rpm burst)"
  shows "grants k cs (NewRateLimiter rpm burst) = calls_for k cs"
proof -
  have "rl_level k (NewRateLimiter rpm burst) = rl_burst (NewRateLimiter rpm burst)"
    by (simp add: rl_level_def NewRateLimiter_def Let_def)
  with grants_all [OF limiter_ok_New [OF assms(1)], of k cs] assms(2) show ?thesis by simp
qed

theorem rate_limit_burst_witness:
  "grants ''a'' [(5, ''a''), (5, ''b''), (5, ''a'')] (NewRateLimiter 60 2) = 2"
proof -
  have "calls_for ''a'' [(5, ''a''), (5, ''b''), (5, ''a'')] = 2" by (simp add: calls_for_def rate_key_def)
  moreover have "rl_burst (NewRateLimiter 60 2) = 2" by code_simp
  ultimately show ?thesis
    using rate_limit_burst [of 60 2 "''a''" "[(5, ''a''), (5, ''b''), (5, ''a'')]"] by simp
qed

text \<open>
  Sweeping a bucket forgives what it owes: when the bucket of a key has been unused for
  longer than the time to live and a sweep is due, the key is granted a whole burst again,
  however few tokens the elapsed time has earned. The instance has one request a minute and
  a burst of twenty: after ten minutes of rest, which earn ten tokens, an empty bucket
  grants twenty calls.
\<close>

theorem sweep_resets_bucket:
  assumes "limiter_ok l" "map_of (rl_buckets l) (rate_key key) = Some b"
    and "rl_ttl l < time_sub now (rb_last b)" "Minute \<le> time_sub now (rl_lastPrune l)"
    and "of_nat (calls_for (rate_key key) ((now, key) # cs)) \<le> rl_burst l"
  shows "grants (rate_key key) ((now, key) # cs) l = calls_for (rate_key key) ((now, key) # cs)"
proof -
  let ?p = "pruneLocked now l"
  have ttl: "0 < rl_ttl l" using assms(1) by (simp add: limiter_ok_def params_ok_def)
  have "map_of (rl_buckets ?p) (rate_key key) = None"
  proof -
    have "map_of (rl_buckets l) k = Some b" if "(k, b) \<in> set (rl_buckets l)" for k b
      using that limiter_okD(2) [OF assms(1)] by (simp add: map_ok_def)
    from prune_fold [OF assms(1) limiter_okD(2) [OF assms(1)] this, of now] ttl assms(2-4)
    show ?thesis by (simp add: pruneLocked_def)
  qed
  moreover have "limiter_ok ?p" "rl_burst ?p = rl_burst l" using pruneLocked_props [OF assms(1)] by auto
  ultimately have "grants (rate_key key) ((now, key) # cs) ?p = calls_for (rate_key key) ((now, key) # cs)"
    using assms(5) by (intro grants_all) (simp_all add: rl_level_def)
  moreover have "pruneLocked now ?p = ?p"
    using ttl assms(4) by (simp add: pruneLocked_def Minute_def Second_def)
  then have "allowAt now key ?p = allowAt now key l" by (simp add: allowAt_def)
  ultimately show ?thesis by (simp add: grants_def)
qed

definition drained :: rateLimiter where
  "drained = (NewRateLimiter 1 20)\<lparr>
     rl_buckets := [(''a'', \<lparr>rb_tokens = 0, rb_last = 0, rb_rateElement = Some 0\<rparr>)],
     rl_recency := \<lparr>elems = [(0, ''a'')], next_elem = 1\<rparr>\<rparr>"

theorem sweep_resets_bucket_witness:
  "grants ''a'' ((10 * Minute + 1, ''a'') # replicate 19 (10 * Minute + 1, ''a'')) drained = 20 \<and>
   rl_rate drained * (of_int (10 * Minute + 1) / 1000000000) < 11"
proof
  have "params_ok (NewRateLimiter 1 20)" by (rule params_New) code_simp
  moreover have b: "rl_burst (NewRateLimiter 1 20) = 20" by code_simp
  ultimately have ok: "limiter_ok drained"
    by (auto simp: limiter_ok_def drained_def params_ok_def bucket_ok_def list_ok_def map_ok_def
        rate_index_def indexes_def is_f64_def NewRateLimiter_def Let_def defaultLimiterMaxBuckets_def)
  have "calls_for ''a'' ((10 * Minute + 1, ''a'') # replicate 19 (10 * Minute + 1, ''a'')) = 20"
    by (simp add: calls_for_def rate_key_def)
  then show "grants ''a'' ((10 * Minute + 1, ''a'') # replicate 19 (10 * Minute + 1, ''a'')) drained = 20"
    using sweep_resets_bucket [OF ok, of "''a''" "\<lparr>rb_tokens = 0, rb_last = 0, rb_rateElement = Some 0\<rparr>"
        "10 * Minute + 1" "replicate 19 (10 * Minute + 1, ''a'')"] b
    by (simp add: rate_key_def drained_def NewRateLimiter_def Let_def time_sub_def
        defaultLimiterBucketTTL_def duration_defs)
  show "rl_rate drained * (of_int (10 * Minute + 1) / 1000000000) < 11" by code_simp
qed

end
