(* ===== verification/RequestQueue.thy ===== *)
theory RequestQueue
  imports Prelude
begin

text \<open>
  The request queue of \<^verbatim>\<open>internal/traffic/limiter.go\<close> (\<open>Queue\<close>): a semaphore of
  \<open>maxConcurrent\<close> slots and a bounded number of callers that wait for one. Goroutines that
  call \<^verbatim>\<open>Acquire\<close> at the same time interleave at the points where the code gives up
  the processor: the non-blocking send, the two sections under the mutex, the select and the
  deferred decrement. Each point is an operation on the queue, and \<open>qstep\<close> lets any of the
  callers do its next one.

  The buffered channel is the number of its elements. The timer and the context are left
  open: a waiting caller may time out or be cancelled in any state.
\<close>

record queue =
  q_sem :: nat
  q_cap :: nat
  q_maxQueued :: int
  q_timeout :: duration
  q_waiting :: int

datatype queue_error = ErrQueueFull | ErrQueueWait | CtxErr

definition NewQueue :: "int \<Rightarrow> int \<Rightarrow> duration \<Rightarrow> queue" where
  "NewQueue maxConcurrent maxQueued timeout =
     \<lparr>q_sem = 0, q_cap = nat (if maxConcurrent \<le> 0 then 1 else maxConcurrent),
      q_maxQueued = (if maxQueued < 0 then 0 else maxQueued),
      q_timeout = (if timeout \<le> 0 then 5 * Second else timeout), q_waiting = 0\<rparr>"

text \<open>The send on the semaphore, when there is room; \<open>None\<close> is the default branch.\<close>

definition sem_send :: "queue \<Rightarrow> queue option" where
  "sem_send q = (if q_sem q < q_cap q then Some (q\<lparr>q_sem := Suc (q_sem q)\<rparr>) else None)"

text \<open>The section that enters the queue or refuses.\<close>

definition enqueue :: "queue \<Rightarrow> queue_error + queue" where
  "enqueue q = (if q_maxQueued q \<le> q_waiting q then Inl ErrQueueFull
                else Inr (q\<lparr>q_waiting := q_waiting q + 1\<rparr>))"

text \<open>The deferred section.\<close>

definition dequeue :: "queue \<Rightarrow> queue" where
  "dequeue q = q\<lparr>q_waiting := q_waiting q - 1\<rparr>"

definition release :: "queue \<Rightarrow> queue" where
  "release q = (if 0 < q_sem q then q\<lparr>q_sem := q_sem q - 1\<rparr> else q)"

subsection \<open>Callers\<close>

text \<open>
  Where a caller is: before its first send, between the default branch and the mutex, in
  the select, after the select with the deferred section to run (with a slot or with an
  error), returned with a slot, returned with an error, or after \<^verbatim>\<open>release\<close>.
\<close>

datatype caller =
    Start
  | NoSlot
  | Waiting
  | Leaving "queue_error option"
  | Holding
  | Refused queue_error
  | Finished

text \<open>The next step of a caller, as a function of what its select picks.\<close>

datatype pick = PickSlot | PickDone | PickTimer

fun Acquire_step :: "pick \<Rightarrow> caller \<Rightarrow> queue \<Rightarrow> (caller \<times> queue) option" where
  "Acquire_step p Start q =
     (case sem_send q of Some q' \<Rightarrow> Some (Holding, q') | None \<Rightarrow> Some (NoSlot, q))"
| "Acquire_step p NoSlot q =
     (case enqueue q of Inl e \<Rightarrow> Some (Refused e, q) | Inr q' \<Rightarrow> Some (Waiting, q'))"
| "Acquire_step p Waiting q =
     (case p of
        PickSlot \<Rightarrow> map_option (\<lambda>q'. (Leaving None, q')) (sem_send q)
      | PickDone \<Rightarrow> Some (Leaving (Some CtxErr), q)
      | PickTimer \<Rightarrow> Some (Leaving (Some ErrQueueWait), q))"
| "Acquire_step p (Leaving r) q =
     Some (case r of None \<Rightarrow> Holding | Some e \<Rightarrow> Refused e, dequeue q)"
| "Acquire_step p Holding q = Some (Finished, release q)"
| "Acquire_step p (Refused e) q = None"
| "Acquire_step p Finished q = None"

inductive qstep :: "queue \<times> caller list \<Rightarrow> queue \<times> caller list \<Rightarrow> bool" where
  spawn: "qstep (q, cs) (q, cs @ [Start])"
| move: "i < length cs \<Longrightarrow> Acquire_step p (cs ! i) q = Some (c, q') \<Longrightarrow> qstep (q, cs) (q', cs[i := c])"

inductive_cases qstepE: "qstep (q, cs) s"

text \<open>Callers that hold a slot, and callers that count as waiting.\<close>

fun holds_slot :: "caller \<Rightarrow> bool" where
  "holds_slot Holding = True"
| "holds_slot (Leaving None) = True"
| "holds_slot _ = False"

fun counted_waiting :: "caller \<Rightarrow> bool" where
  "counted_waiting Waiting = True"
| "counted_waiting (Leaving _) = True"
| "counted_waiting _ = False"

definition tally :: "(caller \<Rightarrow> bool) \<Rightarrow> caller list \<Rightarrow> int" where
  "tally P cs = int (length (filter P cs))"

lemma tally_append [simp]: "tally P (cs @ ds) = tally P cs + tally P ds"
  by (simp add: tally_def)

lemma tally_update:
  "i < length cs \<Longrightarrow> tally P (cs[i := c]) = tally P cs - of_bool (P (cs ! i)) + of_bool (P c)"
proof (induction cs arbitrary: i)
  case (Cons a cs)
  then show ?case by (cases i) (auto simp: tally_def)
qed simp

lemma tally_nonneg [simp]: "0 \<le> tally P cs"
  by (simp add: tally_def)

lemma tally_pos: "i < length cs \<Longrightarrow> P (cs ! i) \<Longrightarrow> 0 < tally P cs"
  by (auto simp: tally_def length_greater_0_conv filter_empty_conv)

definition queue_ok :: "queue \<times> caller list \<Rightarrow> bool" where
  "queue_ok s = (let (q, cs) = s in
     int (q_sem q) = tally holds_slot cs \<and> q_sem q \<le> q_cap q \<and> 0 < q_cap q \<and>
     q_waiting q = tally counted_waiting cs \<and> q_waiting q \<le> q_maxQueued q)"

lemma queue_ok_New: "queue_ok (NewQueue maxConcurrent maxQueued timeout, [])"
  by (simp add: queue_ok_def NewQueue_def tally_def)

lemma Acquire_step_ok:
  assumes "queue_ok (q, cs)" "i < length cs" "Acquire_step p (cs ! i) q = Some (c, q')"
  shows "queue_ok (q', cs[i := c])"
proof (cases "cs ! i")
  case Start
  with assms show ?thesis
    by (auto simp: queue_ok_def tally_update sem_send_def split: option.splits if_splits)
next
  case NoSlot
  with assms show ?thesis
    by (auto simp: queue_ok_def tally_update enqueue_def split: if_splits)
next
  case Waiting
  with assms show ?thesis
    by (auto simp: queue_ok_def tally_update sem_send_def split: pick.splits if_splits)
next
  case (Leaving r)
  with assms show ?thesis
    by (cases r) (auto simp: queue_ok_def tally_update dequeue_def)
next
  case Holding
  with assms tally_pos [of i cs holds_slot] show ?thesis
    by (auto simp: queue_ok_def tally_update release_def split: if_splits)
qed (use assms in auto)

lemma qstep_ok: "qstep s s' \<Longrightarrow> queue_ok s \<Longrightarrow> queue_ok s'"
proof (induction rule: qstep.induct)
  case (spawn q cs)
  then show ?case by (simp add: queue_ok_def tally_def)
next
  case (move i cs p q c q')
  then show ?case by (intro Acquire_step_ok)
qed

lemma qsteps_ok: "qstep\<^sup>*\<^sup>* s s' \<Longrightarrow> queue_ok s \<Longrightarrow> queue_ok s'"
  by (induction rule: rtranclp_induct) (auto intro: qstep_ok)

lemma qstep_bounds: "qstep s s' \<Longrightarrow> q_cap (fst s') = q_cap (fst s) \<and> q_maxQueued (fst s') = q_maxQueued (fst s)"
proof (induction rule: qstep.induct)
  case (move i cs p q c q')
  then show ?case
    by (cases "(p, cs ! i, q)" rule: Acquire_step.cases)
      (auto simp: sem_send_def enqueue_def dequeue_def release_def split: option.splits if_splits sum.splits pick.splits)
qed simp

lemma qsteps_bounds: "qstep\<^sup>*\<^sup>* s s' \<Longrightarrow> q_cap (fst s') = q_cap (fst s) \<and> q_maxQueued (fst s') = q_maxQueued (fst s)"
  by (induction rule: rtranclp_induct) (auto dest: qstep_bounds)

subsection \<open>Properties\<close>

text \<open>
  C8: In every reachable state of any number of concurrent callers, at most
  \<open>maxConcurrent\<close> of them hold a slot, at most \<open>maxQueued\<close> wait, and the semaphore and the
  waiting counter count exactly these callers: no slot leaks on a timeout, a cancellation
  or a refusal.
\<close>

theorem queue_bounds:
  assumes "qstep\<^sup>*\<^sup>* (NewQueue maxConcurrent maxQueued timeout, []) (q, cs)"
  shows "tally holds_slot cs = int (q_sem q) \<and> tally holds_slot cs \<le> max 1 maxConcurrent \<and>
         tally counted_waiting cs = q_waiting q \<and> tally counted_waiting cs \<le> max 0 maxQueued"
  using qsteps_ok [OF assms queue_ok_New] qsteps_bounds [OF assms]
  by (auto simp: queue_ok_def NewQueue_def split: if_splits)

text \<open>Two callers and one slot: the second waits, and takes the slot when the first releases it.\<close>

lemma two_callers:
  "qstep\<^sup>*\<^sup>* (NewQueue 1 1 5, []) (\<lparr>q_sem = 1, q_cap = 1, q_maxQueued = 1, q_timeout = 5, q_waiting = 1\<rparr>,
     [Finished, Leaving None])"
proof -
  let ?q = "\<lambda>s w. \<lparr>q_sem = s, q_cap = 1, q_maxQueued = 1, q_timeout = 5, q_waiting = w\<rparr>"
  note step = rtranclp.rtrancl_into_rtrancl [of qstep]
  have "qstep\<^sup>*\<^sup>* (NewQueue 1 1 5, []) (?q 0 0, [Start, Start])"
    using step [OF step [OF rtranclp.rtrancl_refl qstep.spawn] qstep.spawn, of "NewQueue 1 1 5" "[]"]
    by (simp add: NewQueue_def)
  then have "qstep\<^sup>*\<^sup>* (NewQueue 1 1 5, []) (?q 1 0, [Holding, Start])"
    using step qstep.move [of 0 "[Start, Start]" PickSlot "?q 0 0" Holding "?q 1 0"]
    by (fastforce simp: sem_send_def)
  then have "qstep\<^sup>*\<^sup>* (NewQueue 1 1 5, []) (?q 1 0, [Holding, NoSlot])"
    using step qstep.move [of 1 "[Holding, Start]" PickSlot "?q 1 0" NoSlot "?q 1 0"]
    by (fastforce simp: sem_send_def)
  then have "qstep\<^sup>*\<^sup>* (NewQueue 1 1 5, []) (?q 1 1, [Holding, Waiting])"
    using step qstep.move [of 1 "[Holding, NoSlot]" PickSlot "?q 1 0" Waiting "?q 1 1"]
    by (fastforce simp: enqueue_def)
  then have "qstep\<^sup>*\<^sup>* (NewQueue 1 1 5, []) (?q 0 1, [Finished, Waiting])"
    using step qstep.move [of 0 "[Holding, Waiting]" PickSlot "?q 1 1" Finished "?q 0 1"]
    by (fastforce simp: release_def)
  then show ?thesis
    using step qstep.move [of 1 "[Finished, Waiting]" PickSlot "?q 0 1" "Leaving None" "?q 1 1"]
    by (fastforce simp: sem_send_def)
qed

theorem queue_bounds_witness:
  "tally holds_slot [Finished, Leaving None] \<le> (1::int) \<and> tally counted_waiting [Finished, Leaving None] \<le> (1::int)"
  using queue_bounds [OF two_callers] by simp

text \<open>
  No waiting caller is stuck: in every reachable state, a caller that has not returned
  can take a step, and while it waits one of the others holds the slots it waits for, or a
  slot is free and the caller can take it.
\<close>

theorem queue_progress:
  assumes "qstep\<^sup>*\<^sup>* (NewQueue maxConcurrent maxQueued timeout, []) (q, cs)"
    and "i < length cs" "\<forall>e. cs ! i \<noteq> Refused e" "cs ! i \<noteq> Finished"
  shows "(\<exists>p c q'. Acquire_step p (cs ! i) q = Some (c, q')) \<and>
    (cs ! i = Waiting \<longrightarrow>
       (\<exists>q'. Acquire_step PickSlot (cs ! i) q = Some (Leaving None, q')) \<or>
       (\<exists>j < length cs. j \<noteq> i \<and> holds_slot (cs ! j)))"
proof
  show "\<exists>p c q'. Acquire_step p (cs ! i) q = Some (c, q')"
    using assms(3,4) by (cases "cs ! i") (auto split: option.splits sum.splits pick.splits intro: exI [of _ PickDone])
  show "cs ! i = Waiting \<longrightarrow>
       (\<exists>q'. Acquire_step PickSlot (cs ! i) q = Some (Leaving None, q')) \<or>
       (\<exists>j < length cs. j \<noteq> i \<and> holds_slot (cs ! j))"
  proof (intro impI)
    assume w: "cs ! i = Waiting"
    have ok: "queue_ok (q, cs)" using qsteps_ok [OF assms(1) queue_ok_New] .
    show "(\<exists>q'. Acquire_step PickSlot (cs ! i) q = Some (Leaving None, q')) \<or>
       (\<exists>j < length cs. j \<noteq> i \<and> holds_slot (cs ! j))"
    proof (cases "q_sem q < q_cap q")
      case True
      with w show ?thesis by (simp add: sem_send_def)
    next
      case False
      with ok have "0 < tally holds_slot cs" by (simp add: queue_ok_def)
      then have "\<exists>c \<in> set cs. holds_slot c" by (auto simp: tally_def filter_empty_conv)
      then obtain j where "j < length cs" "holds_slot (cs ! j)" by (metis in_set_conv_nth)
      with w show ?thesis by auto
    qed
  qed
qed

theorem queue_progress_witness:
  "\<exists>p c q'. Acquire_step p (Leaving None)
     \<lparr>q_sem = 1, q_cap = 1, q_maxQueued = 1, q_timeout = 5, q_waiting = 1\<rparr> = Some (c, q')"
  using queue_progress [OF two_callers, of 1] by simp

text \<open>
  A caller is refused with \<^verbatim>\<open>ErrQueueFull\<close> exactly when it comes to the queue
  while \<open>maxQueued\<close> others are waiting.
\<close>

theorem queue_full_exact:
  assumes "qstep\<^sup>*\<^sup>* (NewQueue maxConcurrent maxQueued timeout, []) (q, cs)" "cs ! i = NoSlot"
  shows "Acquire_step p (cs ! i) q = Some (Refused ErrQueueFull, q) \<longleftrightarrow>
         tally counted_waiting cs = max 0 maxQueued"
  using qsteps_ok [OF assms(1) queue_ok_New] qsteps_bounds [OF assms(1)] assms(2)
  by (auto simp: queue_ok_def NewQueue_def enqueue_def intro: antisym split: if_splits)

text \<open>One slot and no queue: the second caller finds the slot taken.\<close>

lemma no_room:
  "qstep\<^sup>*\<^sup>* (NewQueue 1 0 5, []) (\<lparr>q_sem = 1, q_cap = 1, q_maxQueued = 0, q_timeout = 5, q_waiting = 0\<rparr>,
     [Holding, NoSlot])"
proof -
  let ?q = "\<lambda>s. \<lparr>q_sem = s, q_cap = 1, q_maxQueued = 0, q_timeout = 5, q_waiting = 0\<rparr>"
  note step = rtranclp.rtrancl_into_rtrancl [of qstep]
  have "qstep\<^sup>*\<^sup>* (NewQueue 1 0 5, []) (?q 0, [Start, Start])"
    using step [OF step [OF rtranclp.rtrancl_refl qstep.spawn] qstep.spawn, of "NewQueue 1 0 5" "[]"]
    by (simp add: NewQueue_def)
  then have "qstep\<^sup>*\<^sup>* (NewQueue 1 0 5, []) (?q 1, [Holding, Start])"
    using step qstep.move [of 0 "[Start, Start]" PickSlot "?q 0" Holding "?q 1"]
    by (fastforce simp: sem_send_def)
  then show ?thesis
    using step qstep.move [of 1 "[Holding, Start]" PickSlot "?q 1" NoSlot "?q 1"]
    by (fastforce simp: sem_send_def)
qed

theorem queue_full_exact_witness:
  "Acquire_step PickSlot NoSlot \<lparr>q_sem = 1, q_cap = 1, q_maxQueued = 0, q_timeout = 5, q_waiting = 0\<rparr>
    = Some (Refused ErrQueueFull, \<lparr>q_sem = 1, q_cap = 1, q_maxQueued = 0, q_timeout = 5, q_waiting = 0\<rparr>)"
  using queue_full_exact [OF no_room, of 1 PickSlot] by (simp add: tally_def)

end
