(* ===== verification/Bandwidth.thy ===== *)
theory Bandwidth
  imports TokenBucket
begin

text \<open>
  The bandwidth limiter of \<^verbatim>\<open>internal/traffic/bandwidth.go\<close>: a token bucket of bytes
  per key. \<open>reserve\<close> takes the tokens or says how long to wait; \<open>waitChunk\<close> retries until
  they are taken or the context is done; \<open>Wait\<close> splits a transfer into chunks no larger than
  the burst. The clock and the select are an input: each attempt reads a time, and after an
  attempt that has to wait either the timer fires or the context is done.
\<close>

subsection \<open>The limiter\<close>

record bwBucket =
  bk_tokens :: rat
  bk_last :: gotime

record bandwidthLimiter =
  bl_rate :: rat
  bl_burst :: rat
  bl_buckets :: "(string, bwBucket) gomap"
  bl_maxBuckets :: int
  bl_ttl :: duration
  bl_lastPrune :: gotime

definition NewBandwidthLimiter :: "int \<Rightarrow> int \<Rightarrow> bandwidthLimiter" where
  "NewBandwidthLimiter bytesPerSecond burstBytes =
     (let bps = (if bytesPerSecond \<le> 0 then 1048576 else bytesPerSecond);
          b = (if burstBytes \<le> 0 then bps else burstBytes)
      in \<lparr>bl_rate = f64_of_int bps, bl_burst = f64_of_int b, bl_buckets = [],
          bl_maxBuckets = 10000, bl_ttl = 10 * Minute, bl_lastPrune = 0\<rparr>)"

definition bw_pruneLocked :: "gotime \<Rightarrow> bandwidthLimiter \<Rightarrow> bandwidthLimiter" where
  "bw_pruneLocked now l =
     (if bl_ttl l \<le> 0 \<or> time_sub now (bl_lastPrune l) < Minute then l
      else l\<lparr>bl_buckets := filter (\<lambda>(key, b). \<not> bl_ttl l < time_sub now (bk_last b)) (bl_buckets l),
             bl_lastPrune := now\<rparr>)"

text \<open>The scan for the bucket refilled least recently; the first of several.\<close>

definition bw_oldest :: "(string, bwBucket) gomap \<Rightarrow> string \<times> gotime" where
  "bw_oldest m = fold (\<lambda>(key, b) (oldestKey, oldestTime).
     if oldestKey = [] \<or> bk_last b < oldestTime then (key, bk_last b) else (oldestKey, oldestTime)) m ([], 0)"

definition bw_ensureCapacityLocked :: "gotime \<Rightarrow> bandwidthLimiter \<Rightarrow> bandwidthLimiter" where
  "bw_ensureCapacityLocked now l =
     (if bl_maxBuckets l \<le> 0 \<or> int (length (bl_buckets l)) < bl_maxBuckets l then l
      else (let (oldestKey, _) = bw_oldest (bl_buckets l)
            in if oldestKey \<noteq> [] then l\<lparr>bl_buckets := AList.delete oldestKey (bl_buckets l)\<rparr> else l)
           \<lparr>bl_lastPrune := now\<rparr>)"

text \<open>
  \<^verbatim>\<open>time.Duration\<close> of a float: truncation, and the smallest 64-bit integer for a value
  out of range, as the compiler's amd64 conversion yields.
\<close>

definition duration_of_f64 :: "rat \<Rightarrow> duration" where
  "duration_of_f64 x =
     (let n = (if 0 \<le> x then \<lfloor>x\<rfloor> else \<lceil>x\<rceil>) in if - (2 ^ 63) \<le> n \<and> n < 2 ^ 63 then n else - (2 ^ 63))"

definition reserve :: "gotime \<Rightarrow> string \<Rightarrow> int \<Rightarrow> bandwidthLimiter \<Rightarrow> duration \<times> bandwidthLimiter" where
  "reserve now key n l0 =
     (let l1 = bw_pruneLocked now l0;
          (b, l2) = (case map_of (bl_buckets l1) key of
                       Some b \<Rightarrow> (b, l1)
                     | None \<Rightarrow> (\<lparr>bk_tokens = bl_burst l1, bk_last = now\<rparr>, bw_ensureCapacityLocked now l1));
          (t, since) = refill (bl_rate l2) (bl_burst l2) now (bk_tokens b, bk_last b);
          need = f64_of_int n;
          store = (\<lambda>t. l2\<lparr>bl_buckets := AList.update key \<lparr>bk_tokens = t, bk_last = since\<rparr> (bl_buckets l2)\<rparr>)
      in if need \<le> t then (0, store (fl (t - need)))
         else (int64 (duration_of_f64 (fl (fl (fl (need - t) / bl_rate l2) * 1000000000)) + Millisecond), store t))"

text \<open>
  The attempts of a chunk: the time each reads, and whether the context is done before the
  timer fires. \<open>None\<close>: the attempts listed are used up and the chunk still waits.
\<close>

type_synonym attempts = "(gotime \<times> bool) list"

datatype wait_error = ContextDone

fun waitChunk :: "attempts \<Rightarrow> string \<Rightarrow> int \<Rightarrow> bandwidthLimiter \<Rightarrow>
    (wait_error option \<times> attempts \<times> bandwidthLimiter) option" where
  "waitChunk [] key n l = None"
| "waitChunk ((now, cancelled) # env) key n l =
     (let (wait, l') = reserve now key n l
      in if wait \<le> 0 then Some (None, env, l')
         else if cancelled then Some (Some ContextDone, env, l')
         else waitChunk env key n l')"

text \<open>The loop over the chunks; each uses an attempt, so the list of attempts bounds it.\<close>

function wait_loop :: "attempts \<Rightarrow> string \<Rightarrow> int \<Rightarrow> bandwidthLimiter \<Rightarrow>
    (wait_error option \<times> attempts \<times> bandwidthLimiter) option" where
  "wait_loop env key remaining l =
     (if remaining \<le> 0 then Some (None, env, l)
      else let chunk = (if \<lfloor>bl_burst l\<rfloor> < remaining then \<lfloor>bl_burst l\<rfloor> else remaining)
           in case waitChunk env key chunk l of
                None \<Rightarrow> None
              | Some (Some e, env', l') \<Rightarrow> Some (Some e, env', l')
              | Some (None, env', l') \<Rightarrow>
                  if length env' < length env then wait_loop env' key (remaining - chunk) l' else None)"
  by pat_completeness auto
termination by (relation "measure (\<lambda>(env, key, remaining, l). length env)") auto

declare wait_loop.simps [simp del]

definition wait_key :: "string \<Rightarrow> string" where
  "wait_key key = (if key = [] then ''global'' else key)"

definition Wait :: "attempts \<Rightarrow> string \<Rightarrow> int \<Rightarrow> bandwidthLimiter \<Rightarrow>
    (wait_error option \<times> attempts \<times> bandwidthLimiter) option" where
  "Wait env key n l =
     (if n \<le> 0 then Some (None, env, l)
      else wait_loop env (wait_key key) n l)"

lemma waitChunk_uses:
  "waitChunk env key n l = Some (r, env', l') \<Longrightarrow> length env' < length env"
proof (induction env arbitrary: l)
  case (Cons a env)
  obtain now cancelled where a: "a = (now, cancelled)" by (cases a)
  obtain w m where r: "reserve now key n l = (w, m)" by fastforce
  with Cons a show ?case by (fastforce split: if_splits)
qed simp

text \<open>So the guard on the length of the attempts is always true.\<close>

lemma wait_loop_eq:
  "wait_loop env key remaining l =
     (if remaining \<le> 0 then Some (None, env, l)
      else let chunk = (if \<lfloor>bl_burst l\<rfloor> < remaining then \<lfloor>bl_burst l\<rfloor> else remaining)
           in case waitChunk env key chunk l of
                None \<Rightarrow> None
              | Some (Some e, env', l') \<Rightarrow> Some (Some e, env', l')
              | Some (None, env', l') \<Rightarrow> wait_loop env' key (remaining - chunk) l')"
  by (subst wait_loop.simps) (auto simp: Let_def dest: waitChunk_uses split: option.splits)

subsection \<open>Invariant\<close>

text \<open>
  The burst must be an integer a \<open>float64\<close> represents, and no transfer of a burst may take
  longer than nine billion seconds: beyond that a duration overflows.
\<close>

definition bw_params_ok :: "bandwidthLimiter \<Rightarrow> bool" where
  "bw_params_ok l = (1 \<le> bl_rate l \<and> 1 \<le> bl_burst l \<and> bl_burst l \<le> 2 ^ 53 \<and>
     bl_burst l \<le> 9000000000 * bl_rate l \<and> is_f64 (bl_burst l) \<and>
     0 < bl_maxBuckets l \<and> 0 < bl_ttl l)"

definition bw_bucket_ok :: "rat \<Rightarrow> bwBucket \<Rightarrow> bool" where
  "bw_bucket_ok burst b = (0 \<le> bk_tokens b \<and> bk_tokens b \<le> burst \<and> is_f64 (bk_tokens b))"

definition bw_ok :: "bandwidthLimiter \<Rightarrow> bool" where
  "bw_ok l = (bw_params_ok l \<and> map_ok (bl_buckets l) \<and> map_of (bl_buckets l) [] = None \<and>
     int (length (bl_buckets l)) \<le> bl_maxBuckets l \<and>
     (\<forall>k b. map_of (bl_buckets l) k = Some b \<longrightarrow> bw_bucket_ok (bl_burst l) b))"

definition bw_same :: "bandwidthLimiter \<Rightarrow> bandwidthLimiter \<Rightarrow> bool" where
  "bw_same l' l = (bl_rate l' = bl_rate l \<and> bl_burst l' = bl_burst l \<and>
     bl_maxBuckets l' = bl_maxBuckets l \<and> bl_ttl l' = bl_ttl l)"

lemma bw_same_refl [simp]: "bw_same l l"
  by (simp add: bw_same_def)

definition bw_sane :: "bandwidthLimiter \<Rightarrow> bool" where
  "bw_sane l = (bl_burst l \<le> 2 ^ 53 \<and> bl_burst l \<le> 9000000000 * bl_rate l)"

lemma bw_ok_New: "bw_sane (NewBandwidthLimiter bps b) \<Longrightarrow> bw_ok (NewBandwidthLimiter bps b)"
proof -
  have "1 \<le> f64_of_int n" if "0 < n" for n
    using that fl_mono [of 1 "of_int n"] by (simp add: f64_of_int_def)
  then show "bw_sane (NewBandwidthLimiter bps b) \<Longrightarrow> bw_ok (NewBandwidthLimiter bps b)"
    by (auto simp: bw_sane_def bw_ok_def bw_params_ok_def NewBandwidthLimiter_def Let_def duration_defs f64_of_int_def)
qed

lemma map_of_filter_snd:
  "map_ok m \<Longrightarrow> map_of (filter (\<lambda>(k, v). P v) m) k =
     (case map_of m k of None \<Rightarrow> None | Some v \<Rightarrow> if P v then Some v else None)"
  by (induction m) (auto simp: map_ok_def map_of_eq_None_iff image_iff split: option.splits dest: map_of_SomeD)

lemma bw_prune_props:
  assumes "bw_ok l"
  shows "bw_ok (bw_pruneLocked now l) \<and> bw_same (bw_pruneLocked now l) l \<and>
    (\<forall>k. map_of (bl_buckets (bw_pruneLocked now l)) k \<noteq> map_of (bl_buckets l) k \<longrightarrow>
       map_of (bl_buckets (bw_pruneLocked now l)) k = None \<and>
       (\<exists>b. map_of (bl_buckets l) k = Some b \<and> bl_ttl l < time_sub now (bk_last b)))"
proof -
  let ?f = "filter (\<lambda>(key, b). \<not> bl_ttl l < time_sub now (bk_last b)) (bl_buckets l)"
  have m: "map_ok (bl_buckets l)" using assms by (simp add: bw_ok_def)
  then have "map_ok ?f" by (simp add: map_ok_def distinct_map_filter)
  moreover have "map_of ?f k = (case map_of (bl_buckets l) k of None \<Rightarrow> None
      | Some b \<Rightarrow> if \<not> bl_ttl l < time_sub now (bk_last b) then Some b else None)" for k
    by (rule map_of_filter_snd [OF m])
  moreover have "int (length ?f) \<le> int (length (bl_buckets l))" by simp
  then have "bw_ok l \<Longrightarrow> int (length ?f) \<le> bl_maxBuckets l" by (simp only: bw_ok_def) linarith
  ultimately show ?thesis using assms
    by (auto simp: bw_pruneLocked_def bw_ok_def bw_params_ok_def bw_same_def split: option.splits if_splits)
qed

lemma bw_oldest_mem:
  assumes "map_of m [] = None" "m \<noteq> []"
  shows "fst (bw_oldest m) \<in> fst ` set m \<and> (\<forall>(k, b) \<in> set m. snd (bw_oldest m) \<le> bk_last b)"
  using assms
proof (induction m rule: rev_induct)
  case (snoc p m)
  obtain k b where p: "p = (k, b)" by (cases p)
  have k: "k \<noteq> []" and m: "map_of m [] = None" using snoc.prems p by (auto simp: map_of_eq_None_iff)
  have step: "bw_oldest (m @ [p]) = (case bw_oldest m of (ok, ot) \<Rightarrow>
      if ok = [] \<or> bk_last b < ot then (k, bk_last b) else (ok, ot))"
    by (simp add: bw_oldest_def p split_beta)
  show ?case
  proof (cases "m = []")
    case True
    then show ?thesis by (simp add: step p) (simp add: bw_oldest_def)
  next
    case False
    obtain a t where o: "bw_oldest m = (a, t)" by fastforce
    from False snoc.IH m o have IH: "a \<in> fst ` set m" "\<And>k b. (k, b) \<in> set m \<Longrightarrow> t \<le> bk_last b"
      by auto
    then have "a \<noteq> []" using m by (metis map_of_eq_None_iff)
    then have "bw_oldest (m @ [p]) = (if bk_last b < t then (k, bk_last b) else (a, t))"
      by (simp add: step o)
    with IH show ?thesis by (auto simp: p intro: order_trans less_imp_le dest!: IH(2))
  qed
qed simp

lemma bw_ensure_props:
  assumes ok: "bw_ok l"
  shows "bw_ok (bw_ensureCapacityLocked now l) \<and> bw_same (bw_ensureCapacityLocked now l) l \<and>
    int (length (bl_buckets (bw_ensureCapacityLocked now l))) < bl_maxBuckets l \<and>
    (int (length (bl_buckets l)) < bl_maxBuckets l \<longrightarrow> bw_ensureCapacityLocked now l = l) \<and>
    (map_of (bl_buckets (bw_ensureCapacityLocked now l)) k = map_of (bl_buckets l) k \<or>
     map_of (bl_buckets (bw_ensureCapacityLocked now l)) k = None)"
proof (cases "int (length (bl_buckets l)) < bl_maxBuckets l")
  case True
  with ok show ?thesis by (simp add: bw_ensureCapacityLocked_def)
next
  case False
  have len: "int (length (bl_buckets l)) = bl_maxBuckets l" "0 < bl_maxBuckets l"
    and m: "map_ok (bl_buckets l)" "map_of (bl_buckets l) [] = None"
    using ok False by (auto simp: bw_ok_def bw_params_ok_def)
  then have "bl_buckets l \<noteq> []" by auto
  obtain ok' ot where o: "bw_oldest (bl_buckets l) = (ok', ot)" by fastforce
  with bw_oldest_mem [OF m(2) \<open>bl_buckets l \<noteq> []\<close>] have k: "ok' \<in> fst ` set (bl_buckets l)" by simp
  then have "ok' \<noteq> []" "map_of (bl_buckets l) ok' \<noteq> None" using m(2) by (metis map_of_eq_None_iff)+
  with length_delete [OF m(1)] have "Suc (length (AList.delete ok' (bl_buckets l))) = length (bl_buckets l)"
    by blast
  with ok len \<open>ok' \<noteq> []\<close> False show ?thesis
    by (auto simp: bw_ensureCapacityLocked_def o bw_ok_def bw_params_ok_def bw_same_def go_intros)
qed

subsection \<open>What a reservation does\<close>

text \<open>The bucket a reservation works on, and the limiter it stores it in.\<close>

definition bw_bucket :: "gotime \<Rightarrow> string \<Rightarrow> bandwidthLimiter \<Rightarrow> bwBucket" where
  "bw_bucket now key l = (case map_of (bl_buckets (bw_pruneLocked now l)) key of
     Some b \<Rightarrow> b | None \<Rightarrow> \<lparr>bk_tokens = bl_burst l, bk_last = now\<rparr>)"

definition bw_host :: "gotime \<Rightarrow> string \<Rightarrow> bandwidthLimiter \<Rightarrow> bandwidthLimiter" where
  "bw_host now key l = (case map_of (bl_buckets (bw_pruneLocked now l)) key of
     Some b \<Rightarrow> bw_pruneLocked now l | None \<Rightarrow> bw_ensureCapacityLocked now (bw_pruneLocked now l))"

definition bw_wait :: "rat \<Rightarrow> rat \<Rightarrow> duration" where
  "bw_wait missing rate = int64 (duration_of_f64 (fl (fl (fl missing / rate) * 1000000000)) + Millisecond)"

lemma bw_host_props:
  assumes ok: "bw_ok l"
  shows "bw_ok (bw_host now key l) \<and> bw_same (bw_host now key l) l \<and>
    (map_of (bl_buckets (bw_host now key l)) k = map_of (bl_buckets l) k \<or>
     map_of (bl_buckets (bw_host now key l)) k = None) \<and>
    (map_of (bl_buckets (bw_host now key l)) key = None \<longrightarrow>
       int (length (bl_buckets (bw_host now key l))) < bl_maxBuckets l)"
proof -
  let ?p = "bw_pruneLocked now l"
  have p: "bw_ok ?p" "bw_same ?p l" "\<And>k. map_of (bl_buckets ?p) k = map_of (bl_buckets l) k \<or>
      map_of (bl_buckets ?p) k = None"
    using bw_prune_props [OF ok, of now] by metis+
  show ?thesis
  proof (cases "map_of (bl_buckets ?p) key")
    case None
    with p(1,2) bw_ensure_props [OF p(1), of now k] p(3) [of k] show ?thesis
      by (auto simp: bw_host_def bw_same_def)
  next
    case (Some b)
    with p(1,2) p(3) [of k] show ?thesis by (simp add: bw_host_def)
  qed
qed

lemma bw_bucket_ok:
  assumes "bw_ok l"
  shows "bw_bucket_ok (bl_burst l) (bw_bucket now key l)"
  using bw_prune_props [OF assms, of now] assms
  by (auto simp: bw_bucket_def bw_ok_def bw_params_ok_def bw_same_def bw_bucket_ok_def split: option.splits)

lemma reserve_eq:
  assumes ok: "bw_ok l"
    and r: "refill (bl_rate l) (bl_burst l) now (bk_tokens (bw_bucket now key l), bk_last (bw_bucket now key l)) = (t, s)"
  shows "reserve now key n l =
    (let store = (\<lambda>t. (bw_host now key l)\<lparr>bl_buckets :=
           AList.update key \<lparr>bk_tokens = t, bk_last = s\<rparr> (bl_buckets (bw_host now key l))\<rparr>)
     in if f64_of_int n \<le> t then (0, store (fl (t - f64_of_int n)))
        else (bw_wait (f64_of_int n - t) (bl_rate l), store t))"
proof -
  have p: "bw_same (bw_pruneLocked now l) l" using bw_prune_props [OF ok] by simp
  have e: "bw_same (bw_ensureCapacityLocked now (bw_pruneLocked now l)) l"
    using bw_ensure_props [of "bw_pruneLocked now l" now] bw_prune_props [OF ok, of now]
    by (simp add: bw_same_def)
  show ?thesis
  proof (cases "map_of (bl_buckets (bw_pruneLocked now l)) key")
    case None
    with r p e show ?thesis
      by (simp add: reserve_def bw_bucket_def bw_host_def bw_wait_def bw_same_def Let_def)
  next
    case (Some b)
    with r p e show ?thesis
      by (simp add: reserve_def bw_bucket_def bw_host_def bw_wait_def bw_same_def Let_def)
  qed
qed

text \<open>The wait is positive and at least as long as the missing tokens need.\<close>

lemma bw_wait_bounds:
  assumes "1 \<le> rate" "0 < missing" "missing \<le> 9000000000 * rate"
  shows "of_int (bw_wait missing rate) > missing / rate * 1000000000 * (1 - ulp) ^ 3 + 999999 \<and>
         0 < bw_wait missing rate \<and> bw_wait missing rate < 2 ^ 63"
proof -
  have u: "0 < 1 - ulp" "0 < 1 + ulp" by (simp_all add: ulp_def)
  let ?a = "fl missing" and ?b = "fl (fl missing / rate)"
  let ?c = "fl (fl (fl missing / rate) * 1000000000)"
  have r: "0 < rate" using assms(1) by linarith
  have a: "missing * (1 - ulp) \<le> ?a" "?a \<le> missing * (1 + ulp)"
    using fl_down fl_up assms(2) by simp_all
  have a0: "0 \<le> ?a / rate" using fl_nonneg [of missing] assms by simp
  have b: "missing / rate * (1 - ulp) ^ 2 \<le> ?b" "?b \<le> missing / rate * (1 + ulp) ^ 2"
  proof -
    have "missing / rate * (1 - ulp) \<le> ?a / rate" "?a / rate \<le> missing / rate * (1 + ulp)"
      using a r by (simp_all add: divide_right_mono less_imp_le)
    then have "missing / rate * (1 - ulp) * (1 - ulp) \<le> ?a / rate * (1 - ulp)"
      "?a / rate * (1 + ulp) \<le> missing / rate * (1 + ulp) * (1 + ulp)"
      using u by (simp_all only: mult_right_mono less_imp_le)
    then show "missing / rate * (1 - ulp) ^ 2 \<le> ?b" "?b \<le> missing / rate * (1 + ulp) ^ 2"
      using fl_down [OF a0] fl_up [OF a0] by (simp_all only: power2_eq_square mult.assoc)
  qed
  have b0: "0 \<le> ?b * 1000000000" using fl_nonneg [OF a0] by simp
  have c: "missing / rate * 1000000000 * (1 - ulp) ^ 3 \<le> ?c"
    "?c \<le> missing / rate * 1000000000 * (1 + ulp) ^ 3"
  proof -
    have "missing / rate * (1 - ulp) ^ 2 * (1000000000 * (1 - ulp)) \<le> ?b * (1000000000 * (1 - ulp))"
      "?b * (1000000000 * (1 + ulp)) \<le> missing / rate * (1 + ulp) ^ 2 * (1000000000 * (1 + ulp))"
      using b u by (intro mult_right_mono; simp)+
    then show "missing / rate * 1000000000 * (1 - ulp) ^ 3 \<le> ?c"
      "?c \<le> missing / rate * 1000000000 * (1 + ulp) ^ 3"
      using fl_down [OF b0] fl_up [OF b0]
      by (simp_all add: power2_eq_square power3_eq_cube mult.assoc mult.left_commute)
  qed
  have "missing / rate \<le> 9000000000" using assms r by (simp add: pos_divide_le_eq)
  then have "missing / rate * 1000000000 * (1 + ulp) ^ 3 \<le> 9000000000 * 1000000000 * (1 + ulp) ^ 3"
    using u by (intro mult_right_mono) auto
  also have "\<dots> \<le> 9100000000000000000" by (simp add: ulp_def power3_eq_cube)
  finally have c2: "?c \<le> 9100000000000000000" using c(2) by linarith
  have c0: "0 \<le> ?c" using fl_nonneg [OF b0] .
  have f: "of_int \<lfloor>?c\<rfloor> \<le> ?c" "?c < of_int \<lfloor>?c\<rfloor> + 1" by linarith+
  then have "of_int \<lfloor>?c\<rfloor> \<le> (9100000000000000000 :: rat)" using c2 by linarith
  then have fi: "\<lfloor>?c\<rfloor> \<le> 9100000000000000000" "0 \<le> \<lfloor>?c\<rfloor>" using c0 by (simp_all add: floor_le_iff)
  then have w: "bw_wait missing rate = \<lfloor>?c\<rfloor> + 1000000"
    using c0 by (simp add: bw_wait_def duration_of_f64_def Let_def Millisecond_def int64_id)
  with f c fi show ?thesis by simp
qed

text \<open>A reservation of no more than the burst: taken when the tokens suffice, refused else.\<close>

lemma reserve_cases:
  assumes ok: "bw_ok l" and key: "key \<noteq> []" and n: "1 \<le> n" "of_int n \<le> bl_burst l"
    and r: "refill (bl_rate l) (bl_burst l) now (bk_tokens (bw_bucket now key l), bk_last (bw_bucket now key l)) = (t, s)"
  defines "l' \<equiv> snd (reserve now key n l)" and "w \<equiv> fst (reserve now key n l)"
  shows "(w \<le> 0 \<longleftrightarrow> of_int n \<le> t) \<and> (0 < w \<longrightarrow> w = bw_wait (of_int n - t) (bl_rate l)) \<and>
    bw_ok l' \<and> bw_same l' l \<and> 0 \<le> t \<and> t \<le> bl_burst l \<and> is_f64 t \<and>
    map_of (bl_buckets l') = (map_of (bl_buckets (bw_host now key l)))
      (key \<mapsto> \<lparr>bk_tokens = (if of_int n \<le> t then t - of_int n else t), bk_last = s\<rparr>)"
proof -
  let ?h = "bw_host now key l" and ?b = "bw_bucket now key l"
  have pr: "1 \<le> bl_rate l" "bl_burst l \<le> 2 ^ 53" "bl_burst l \<le> 9000000000 * bl_rate l" "is_f64 (bl_burst l)"
    using ok by (auto simp: bw_ok_def bw_params_ok_def)
  have h: "bw_ok ?h" "bw_same ?h l" "map_of (bl_buckets ?h) key = None \<longrightarrow>
      int (length (bl_buckets ?h)) < bl_maxBuckets l"
    using bw_host_props [OF ok] by auto
  have "bw_bucket_ok (bl_burst l) ?b" by (rule bw_bucket_ok [OF ok])
  then have t: "0 \<le> t" "t \<le> bl_burst l" "is_f64 t"
    using refill_bounds [of "bl_rate l" "bk_tokens ?b" "bl_burst l" now "bk_last ?b"] pr r
    by (auto simp: bw_bucket_ok_def)
  have fn: "f64_of_int n = of_int n"
  proof -
    have "(of_int n :: rat) \<le> of_int (2 ^ 53)" using n pr by simp
    then have "n \<le> 2 ^ 53" by (simp only: of_int_le_iff)
    then show ?thesis using n by (simp add: f64_of_int_def fl_of_int)
  qed
  have ft: "fl (t - of_int n) = t - of_int n" if "of_int n \<le> t"
    using that t n pr by (intro fl_minus_int) auto
  have wp: "0 < bw_wait (of_int n - t) (bl_rate l)" if "\<not> of_int n \<le> t"
    using that t n pr by (intro conjunct1 [OF conjunct2 [OF bw_wait_bounds]]) auto
  define x where "x = (if of_int n \<le> t then t - of_int n else t)"
  define store where "store = ?h\<lparr>bl_buckets := AList.update key \<lparr>bk_tokens = x, bk_last = s\<rparr> (bl_buckets ?h)\<rparr>"
  have res: "reserve now key n l = ((if of_int n \<le> t then 0 else bw_wait (of_int n - t) (bl_rate l)), store)"
    using ft by (simp add: reserve_eq [OF ok r] fn Let_def store_def x_def)
  have "bw_bucket_ok (bl_burst l) \<lparr>bk_tokens = x, bk_last = s\<rparr>"
    using t ft n by (auto simp: bw_bucket_ok_def is_f64_def x_def)
  moreover have "int (length (AList.update key \<lparr>bk_tokens = x, bk_last = s\<rparr> (bl_buckets ?h))) \<le> bl_maxBuckets l"
    using h by (auto simp: length_update bw_ok_def bw_same_def)
  ultimately have "bw_ok store \<and> bw_same store l"
    using h key by (auto simp: store_def bw_ok_def bw_same_def bw_params_ok_def go_intros)
  then show ?thesis using t wp by (auto simp: l'_def w_def res) (auto simp: store_def x_def)
qed

subsection \<open>The limiter as a \<open>keyed_limiter\<close>\<close>

text \<open>A reservation is a time, a key and a number of bytes, at least one and at most the burst.\<close>

type_synonym reservation = "gotime \<times> string \<times> int"

definition bw_chunk :: "int \<Rightarrow> bandwidthLimiter \<Rightarrow> int" where
  "bw_chunk n l = max 1 (min n \<lfloor>bl_burst l\<rfloor>)"

definition bw_call :: "reservation \<Rightarrow> bandwidthLimiter \<Rightarrow> rat \<times> bandwidthLimiter" where
  "bw_call c l = (let (now, key, n) = c; (w, l') = reserve now (wait_key key) (bw_chunk n l) l
                  in (if w \<le> 0 then of_int (bw_chunk n l) else 0, l'))"

definition bw_view :: "bandwidthLimiter \<Rightarrow> string \<Rightarrow> (rat \<times> gotime) option" where
  "bw_view l k = map_option (\<lambda>b. (bk_tokens b, bk_last b)) (map_of (bl_buckets l) k)"

lemma wait_key_ne [simp]: "wait_key key \<noteq> []"
  by (simp add: wait_key_def)

lemma bw_chunk_bounds: "bw_ok l \<Longrightarrow> 1 \<le> bw_chunk n l \<and> of_int (bw_chunk n l) \<le> bl_burst l"
proof -
  assume "bw_ok l"
  then have b: "1 \<le> bl_burst l" by (simp add: bw_ok_def bw_params_ok_def)
  then have "1 \<le> \<lfloor>bl_burst l\<rfloor>" by (simp add: le_floor_iff)
  then have "bw_chunk n l \<le> \<lfloor>bl_burst l\<rfloor>" by (simp add: bw_chunk_def)
  then have "of_int (bw_chunk n l) \<le> (of_int \<lfloor>bl_burst l\<rfloor> :: rat)" by (simp only: of_int_le_iff)
  moreover have "of_int \<lfloor>bl_burst l\<rfloor> \<le> bl_burst l" by simp
  ultimately have "of_int (bw_chunk n l) \<le> bl_burst l" by linarith
  moreover have "1 \<le> bw_chunk n l" by (simp add: bw_chunk_def)
  ultimately show ?thesis by simp
qed

lemma bw_call_spec:
  fixes n :: int
  assumes ok: "bw_ok l"
    and r: "refill (bl_rate l) (bl_burst l) now (bk_tokens (bw_bucket now (wait_key key) l),
      bk_last (bw_bucket now (wait_key key) l)) = (t, s)"
  defines "c \<equiv> bw_call (now, key, n) l"
  shows "bw_ok (snd c) \<and> bw_same (snd c) l \<and> bw_view (snd c) (wait_key key) = Some (t - fst c, s) \<and>
    (\<forall>k. k \<noteq> wait_key key \<longrightarrow>
       map_of (bl_buckets (snd c)) k = map_of (bl_buckets (bw_host now (wait_key key) l)) k)"
proof -
  have "1 \<le> bw_chunk n l" "of_int (bw_chunk n l) \<le> bl_burst l"
    using bw_chunk_bounds [OF ok] by auto
  from reserve_cases [OF ok wait_key_ne this r] show ?thesis
    by (auto simp: c_def bw_call_def split_beta bw_view_def)
qed

lemma bw_prune_fresh:
  assumes "bw_ok l" "\<And>t s. bw_view l k = Some (t, s) \<Longrightarrow> time_sub now s \<le> bl_ttl l"
  shows "map_of (bl_buckets (bw_pruneLocked now l)) k = map_of (bl_buckets l) k"
proof (rule ccontr)
  assume "map_of (bl_buckets (bw_pruneLocked now l)) k \<noteq> map_of (bl_buckets l) k"
  then obtain b where "map_of (bl_buckets l) k = Some b" "bl_ttl l < time_sub now (bk_last b)"
    using bw_prune_props [OF assms(1), of now] by blast
  with assms(2) [of "bk_tokens b" "bk_last b"] show False by (simp add: bw_view_def)
qed

primrec bw_granted :: "string \<Rightarrow> reservation list \<Rightarrow> bandwidthLimiter \<Rightarrow> rat" where
  "bw_granted k [] l = 0"
| "bw_granted k (c # cs) l =
     (if wait_key (fst (snd c)) = k then fst (bw_call c l) else 0) + bw_granted k cs (snd (bw_call c l))"

interpretation bw: keyed_limiter bw_ok bw_view bl_rate bl_burst bl_maxBuckets bl_ttl
  bw_call "\<lambda>c. wait_key (fst (snd c))" fst
proof unfold_locales
  fix l and e :: reservation
  obtain now key n where e: "e = (now, key, n)" by (cases e) auto
  let ?k = "wait_key key"
  assume ok: "bw_ok l"
  note spec = bw_call_spec [OF ok prod.collapse [symmetric], of now key n]
  show "bw_ok (snd (bw_call e l))" using spec by (simp add: e)
  show "bl_rate (snd (bw_call e l)) = bl_rate l \<and> bl_burst (snd (bw_call e l)) = bl_burst l \<and>
      bl_maxBuckets (snd (bw_call e l)) = bl_maxBuckets l \<and> bl_ttl (snd (bw_call e l)) = bl_ttl l"
    using spec by (simp add: e bw_same_def)
  show "0 \<le> bl_rate l \<and> 0 \<le> bl_burst l \<and> 0 \<le> bl_ttl l"
    using ok by (simp add: bw_ok_def bw_params_ok_def)
  show "0 \<le> t \<and> t \<le> bl_burst l" if "bw_view l k = Some (t, s)" for k t s
    using ok that by (auto simp: bw_ok_def bw_bucket_ok_def bw_view_def)
  show "bw_view (snd (bw_call e l)) k = bw_view l k"
    if k: "k \<noteq> wait_key (fst (snd e))"
      and fresh: "\<And>k t s. bw_view l k = Some (t, s) \<Longrightarrow> time_sub (fst e) s \<le> bl_ttl l"
      and room: "bw_view l (wait_key (fst (snd e))) \<noteq> None \<or> int (card (dom (bw_view l))) < bl_maxBuckets l" for k
  proof -
    have P: "map_of (bl_buckets (bw_pruneLocked now l)) k = map_of (bl_buckets l) k" for k
      using fresh e by (intro bw_prune_fresh [OF ok]) auto
    have p: "bw_ok (bw_pruneLocked now l)" "bw_same (bw_pruneLocked now l) l"
      using bw_prune_props [OF ok] by auto
    have "dom (bw_view l) = dom (map_of (bl_buckets (bw_pruneLocked now l)))"
      by (auto simp: bw_view_def P)
    then have "card (dom (bw_view l)) = length (bl_buckets (bw_pruneLocked now l))"
      using p by (simp add: length_dom bw_ok_def)
    then have "bw_host now ?k l = bw_pruneLocked now l"
      using room e p bw_ensure_props [OF p(1), of now]
      by (auto simp: bw_host_def bw_view_def bw_same_def P split: option.splits)
    with spec k e P show ?thesis by (simp add: bw_view_def)
  qed
  show "bw_view (snd (bw_call e l)) (wait_key (fst (snd e))) = Some (t' - fst (bw_call e l), s')"
    if view: "bw_view l (wait_key (fst (snd e))) = Some (t, s)" and fresh: "time_sub (fst e) s \<le> bl_ttl l"
      and r: "refill (bl_rate l) (bl_burst l) (fst e) (t, s) = (t', s')" for t s t' s'
  proof -
    have "map_of (bl_buckets (bw_pruneLocked now l)) ?k = map_of (bl_buckets l) ?k"
      using view fresh e by (intro bw_prune_fresh [OF ok]) auto
    then have "bk_tokens (bw_bucket now ?k l) = t" "bk_last (bw_bucket now ?k l) = s"
      using view e by (auto simp: bw_bucket_def bw_view_def)
    with bw_call_spec [OF ok, of now key t' s' n] r e show ?thesis by simp
  qed
  show "bw_view (snd (bw_call e l)) (wait_key (fst (snd e))) = Some (bl_burst l - fst (bw_call e l), fst e)"
    if view: "bw_view l (wait_key (fst (snd e))) = None"
  proof -
    have "map_of (bl_buckets (bw_pruneLocked now l)) ?k = map_of (bl_buckets l) ?k"
      using view e by (intro bw_prune_fresh [OF ok]) auto
    then have "bw_bucket now ?k l = \<lparr>bk_tokens = bl_burst l, bk_last = now\<rparr>"
      using view e by (auto simp: bw_bucket_def bw_view_def)
    with bw_call_spec [OF ok, of now key "bl_burst l" now n] e show ?thesis by (simp add: refill_def)
  qed
qed

lemma bw_granted_eq: "bw.granted k cs l = bw_granted k cs l"
  by (induction cs arbitrary: l) (simp_all add: bw.step_def)

subsection \<open>Waiting is enough\<close>

lemma Seconds_ge:
  assumes "0 \<le> d"
  shows "of_int d / 1000000000 * (1 - ulp) ^ 3 \<le> Seconds d"
proof -
  let ?s = "d div Second" and ?n = "d mod Second"
  have S: "Seconds d = fl (f64_of_int ?s + fl (f64_of_int ?n / 1000000000))"
    using assms by (cases "d = 0") (simp_all add: Seconds_def Let_def minus_div_mult_eq_mod f64_of_int_def [of 0])
  have s: "0 \<le> ?s" and n: "0 \<le> ?n" using assms by (simp_all add: Second_def pos_imp_zdiv_nonneg_iff)
  have u: "0 \<le> 1 - ulp" "1 - ulp \<le> 1" by (simp_all add: ulp_def)
  have fs: "0 \<le> f64_of_int ?s" "of_int ?s * (1 - ulp) \<le> f64_of_int ?s"
    using s fl_nonneg fl_down [of "of_int ?s"] by (simp_all add: f64_of_int_def)
  have fn: "0 \<le> f64_of_int ?n / 1000000000" "of_int ?n / 1000000000 * (1 - ulp) \<le> f64_of_int ?n / 1000000000"
    using n fl_nonneg fl_down [of "of_int ?n"] by (simp_all add: f64_of_int_def)
  have "of_int ?n / 1000000000 * (1 - ulp) * (1 - ulp) \<le> fl (f64_of_int ?n / 1000000000)"
    using fl_down [OF fn(1)] mult_right_mono [OF fn(2) u(1)] by linarith
  moreover have "of_int ?s * (1 - ulp) * (1 - ulp) \<le> f64_of_int ?s"
  proof -
    have "of_int ?s * (1 - ulp) * (1 - ulp) \<le> of_int ?s * (1 - ulp) * 1"
      using s u by (intro mult_left_mono) (auto intro!: mult_nonneg_nonneg)
    with fs(2) show ?thesis by simp
  qed
  ultimately have "(of_int ?s + of_int ?n / 1000000000) * (1 - ulp) * (1 - ulp)
      \<le> f64_of_int ?s + fl (f64_of_int ?n / 1000000000)"
    by (simp add: distrib_right)
  moreover have "of_int ?s + of_int ?n / 1000000000 = (of_int d / 1000000000 :: rat)"
  proof -
    have "d = ?s * 1000000000 + ?n" by (simp add: Second_def)
    then have "(of_int d :: rat) = of_int ?s * 1000000000 + of_int ?n"
      by (metis of_int_add of_int_mult of_int_numeral)
    then show ?thesis by simp
  qed
  ultimately have le: "of_int d / 1000000000 * (1 - ulp) * (1 - ulp)
      \<le> f64_of_int ?s + fl (f64_of_int ?n / 1000000000)" by simp
  have nn: "0 \<le> f64_of_int ?s + fl (f64_of_int ?n / 1000000000)"
    using fs(1) fl_nonneg [OF fn(1)] by linarith
  have "of_int d / 1000000000 * (1 - ulp) * (1 - ulp) * (1 - ulp) \<le> Seconds d"
    unfolding S using fl_down [OF nn] mult_right_mono [OF le u(1)] by linarith
  then show ?thesis by (simp add: power3_eq_cube mult.assoc)
qed

lemma wait_algebra: "(q * v ^ 7 + c * v ^ 4) * r = (q * v ^ 3 + c) * v ^ 3 * r * (v :: rat)"
  by (simp add: algebra_simps power_numeral_reduce)

text \<open>
  The tokens that accrue over the announced wait cover what was missing: the millisecond
  added outweighs the rounding of the seven float operations and of the conversion.
\<close>

lemma wait_accrues:
  assumes r: "1 \<le> rate" and m: "0 < missing" "missing \<le> 9000000000 * rate"
    and d: "bw_wait missing rate \<le> d"
  shows "missing \<le> fl (Seconds d * rate)"
proof -
  let ?v = "1 - ulp" and ?q = "missing / rate"
  have v: "0 < ?v" by (simp add: ulp_def)
  have w: "?q * 1000000000 * ?v ^ 3 + 999999 < of_int (bw_wait missing rate)" "0 < bw_wait missing rate"
    using bw_wait_bounds [OF r m] by auto
  have "(of_int (bw_wait missing rate) :: rat) \<le> of_int d" using d by (simp only: of_int_le_iff)
  then have wd: "?q * 1000000000 * ?v ^ 3 + 999999 \<le> of_int d" and d0: "0 \<le> d" using w d by linarith+
  have "(?q * 1000000000 * ?v ^ 3 + 999999) / 1000000000 \<le> of_int d / 1000000000"
    using wd by (rule divide_right_mono) simp
  then have "?q * ?v ^ 3 + 999999 / 1000000000 \<le> of_int d / 1000000000"
    by (simp add: add_divide_distrib)
  then have "(?q * ?v ^ 3 + 999999 / 1000000000) * ?v ^ 3 \<le> of_int d / 1000000000 * ?v ^ 3"
    using v by (intro mult_right_mono) auto
  with Seconds_ge [OF d0] have s: "(?q * ?v ^ 3 + 999999 / 1000000000) * ?v ^ 3 \<le> Seconds d" by linarith
  have sr: "(?q * ?v ^ 3 + 999999 / 1000000000) * ?v ^ 3 * rate * ?v \<le> Seconds d * rate * ?v"
    using s r v by (intro mult_right_mono) auto
  have q: "0 < ?q" "?q \<le> 9000000000" using m r by (auto simp: pos_divide_le_eq)
  have "?q * (1 - ?v ^ 7) \<le> 9000000000 * (1 - ?v ^ 7)"
    using q by (intro mult_right_mono) (auto simp: ulp_def intro!: power_le_one)
  also have "\<dots> \<le> 999999 / 1000000000 * ?v ^ 4" by (simp add: ulp_def power_divide)
  finally have "?q - ?q * ?v ^ 7 \<le> 999999 / 1000000000 * ?v ^ 4"
    by (simp only: right_diff_distrib mult_1_right)
  then have "?q \<le> ?q * ?v ^ 7 + 999999 / 1000000000 * ?v ^ 4" by linarith
  then have "?q * rate \<le> (?q * ?v ^ 7 + 999999 / 1000000000 * ?v ^ 4) * rate"
    using r by (intro mult_right_mono) auto
  also have "\<dots> = (?q * ?v ^ 3 + 999999 / 1000000000) * ?v ^ 3 * rate * ?v"
    by (rule wait_algebra)
  finally have "?q * rate \<le> Seconds d * rate * ?v" using sr by (rule order_trans)
  moreover have "?q * rate = missing" using r by simp
  ultimately have "missing \<le> Seconds d * rate * ?v" by simp
  moreover have "0 \<le> Seconds d * rate" using Seconds_nonneg [OF d0] r by simp
  ultimately show ?thesis using fl_down by fastforce
qed

lemma reserve_again:
  assumes ok: "bw_ok l" and key: "key \<noteq> []" and n: "1 \<le> n" "of_int n \<le> bl_burst l"
    and past: "\<And>b. map_of (bl_buckets l) key = Some b \<Longrightarrow> bk_last b \<le> t1"
    and first: "reserve t1 key n l = (w, l1)" "0 < w"
    and later: "t1 + w \<le> t2" "t2 - t1 < 2 ^ 63"
  shows "fst (reserve t2 key n l1) = 0"
proof -
  let ?b = "bw_bucket t1 key l"
  have pr: "1 \<le> bl_rate l" "bl_burst l \<le> 2 ^ 53" "bl_burst l \<le> 9000000000 * bl_rate l"
    using ok by (auto simp: bw_ok_def bw_params_ok_def)
  have fn: "fl (of_int n) = of_int n"
  proof -
    have "(of_int n :: rat) \<le> of_int (2 ^ 53)" using n pr by simp
    then have "n \<le> 2 ^ 53" by (simp only: of_int_le_iff)
    with n show ?thesis by (intro fl_of_int) simp
  qed
  obtain t s where r: "refill (bl_rate l) (bl_burst l) t1 (bk_tokens ?b, bk_last ?b) = (t, s)" by fastforce
  from reserve_cases [OF ok key n r] first
  have t: "t < of_int n" "w = bw_wait (of_int n - t) (bl_rate l)" "bw_ok l1" "bw_same l1 l" "0 \<le> t"
    and b1: "map_of (bl_buckets l1) key = Some \<lparr>bk_tokens = t, bk_last = s\<rparr>" by auto
  have "bk_last ?b \<le> t1"
    using past bw_prune_props [OF ok, of t1] by (force simp: bw_bucket_def split: option.splits)
  then have s: "s = t1" using refill_last [of "bk_last ?b" t1] r by (metis snd_conv)
  let ?c = "bw_bucket t2 key l1"
  have n1: "of_int n \<le> bl_burst l1" using t n by (simp add: bw_same_def)
  have c: "?c = \<lparr>bk_tokens = bl_burst l1, bk_last = t2\<rparr> \<or> ?c = \<lparr>bk_tokens = t, bk_last = t1\<rparr>"
  proof (cases "map_of (bl_buckets (bw_pruneLocked t2 l1)) key")
    case (Some b)
    then have "map_of (bl_buckets l1) key = Some b"
      using bw_prune_props [OF t(3), of t2] by (metis option.distinct(1))
    with Some b1 s show ?thesis by (simp add: bw_bucket_def)
  qed (simp add: bw_bucket_def)
  obtain t' s' where r': "refill (bl_rate l1) (bl_burst l1) t2 (bk_tokens ?c, bk_last ?c) = (t', s')" by fastforce
  have "of_int n \<le> t'"
    using c
  proof
    assume "?c = \<lparr>bk_tokens = bl_burst l1, bk_last = t2\<rparr>"
    with r' n1 show ?thesis by (simp add: refill_def)
  next
    assume c: "?c = \<lparr>bk_tokens = t, bk_last = t1\<rparr>"
    have m: "0 < of_int n - t" "of_int n - t \<le> 9000000000 * bl_rate l" using t n pr by linarith+
    have w0: "0 < w" using first by simp
    have sub: "time_sub t2 t1 = t2 - t1" using later w0 by (intro time_sub_exact) simp
    have "of_int n - t \<le> fl (Seconds (t2 - t1) * bl_rate l)"
      using later t(2) by (intro wait_accrues [OF pr(1) m]) simp
    then have "fl (of_int n) \<le> fl (t + fl (Seconds (t2 - t1) * bl_rate l))" by (intro fl_mono) linarith
    moreover have "0 < Seconds (t2 - t1)" using later w0 by (intro Seconds_pos_iff) simp
    ultimately show ?thesis using r' c sub n1 t(4) fn
      by (auto simp: refill_def Let_def bw_same_def split: if_splits)
  qed
  with fn show ?thesis by (simp add: reserve_eq [OF t(3) r'] f64_of_int_def Let_def)
qed

subsection \<open>Properties\<close>

text \<open>
  No key gets more than its bandwidth: within a window no longer than the time to live
  of a bucket, and for no more keys than the limiter has room for, the bytes granted for a
  key are at most the burst plus the rate times the length of the window, up to rounding.
\<close>

theorem bandwidth_bound:
  assumes "bw_sane (NewBandwidthLimiter bps b)"
    and "\<forall>c \<in> set cs. t0 \<le> fst c \<and> fst c \<le> t1"
    and "t0 \<le> t1" "t1 - t0 \<le> 10 * Minute"
    and "int (card ((\<lambda>c. wait_key (fst (snd c))) ` set cs)) \<le> 10000"
  defines "l \<equiv> NewBandwidthLimiter bps b"
  shows "bw_granted k cs l \<le> bl_burst l
           + bl_rate l * (of_int (t1 - t0) / 1000000000) * (1 + 1 / 2 ^ 53) ^ 5
           + of_nat (length cs) * bl_burst l / 2 ^ 53"
proof -
  have "bw_ok l" unfolding l_def by (rule bw_ok_New) fact
  moreover have "bw_view l = Map.empty" "bl_maxBuckets l = 10000" "bl_ttl l = 10 * Minute"
    by (auto simp: l_def NewBandwidthLimiter_def Let_def bw_view_def)
  ultimately show ?thesis
    using bw.granted_bound [of l cs t0 t1 k] assms(2-5) by (simp add: bw_granted_eq)
qed

theorem bandwidth_bound_witness:
  "bw_granted ''a'' [(5, ''a'', 100), (1000000005, ''a'', 50)] (NewBandwidthLimiter 100 100)
     \<le> bl_burst (NewBandwidthLimiter 100 100)
       + bl_rate (NewBandwidthLimiter 100 100) * (of_int (1000000005 - 5) / 1000000000) * (1 + 1 / 2 ^ 53) ^ 5
       + of_nat (length [(5::int, ''a'', 100::int), (1000000005, ''a'', 50)])
         * bl_burst (NewBandwidthLimiter 100 100) / 2 ^ 53"
  by (rule bandwidth_bound) (code_simp, simp_all add: wait_key_def duration_defs card_insert_if)



end
