(* ===== verification/Health.thy ===== *)
theory Health
  imports GoUrl GoMap
begin

text \<open>
  The health worker of \<^verbatim>\<open>internal/health/worker.go\<close>: three maps (the registered
  targets, whether each has been probed, the last result), the replacement of the targets
  by \<open>Sync\<close>, the probes and the recording of their results. A probe cycle works on a
  snapshot of the targets while \<open>Sync\<close> may replace them, so results may come for targets
  that are gone or have changed; \<open>hstep\<close> interleaves the two. The network is a parameter:
  \<open>get\<close> is the status of a request, \<open>dial\<close> whether a connection is accepted.

  The worker refines one map from URLs to a target and a verdict.
\<close>

record target =
  tg_URL :: string
  tg_HealthCheck :: string

record worker =
  hw_healthy :: "string \<rightharpoonup> bool"
  hw_checked :: "string \<rightharpoonup> bool"
  hw_targets :: "(string, target) gomap"
  hw_interval :: duration
  hw_timeout :: duration
  hw_path :: string

definition NewWorker :: "duration \<Rightarrow> duration \<Rightarrow> string \<Rightarrow> worker" where
  "NewWorker interval timeout path =
     \<lparr>hw_healthy = Map.empty, hw_checked = Map.empty, hw_targets = [],
      hw_interval = (if interval \<le> 0 then 10 * Second else interval),
      hw_timeout = (if timeout \<le> 0 then 3 * Second else timeout),
      hw_path = (if path = [] then ''/'' else path)\<rparr>"

definition norm_check :: "string \<Rightarrow> string" where
  "norm_check c = (let check = ToLower (TrimSpace c) in if check = [] then ''http'' else check)"

definition next_targets :: "target list \<Rightarrow> (string, target) gomap" where
  "next_targets ts = fold (\<lambda>t m. if tg_URL t = [] then m
     else AList.update (tg_URL t) \<lparr>tg_URL = tg_URL t, tg_HealthCheck = norm_check (tg_HealthCheck t)\<rparr> m) ts []"

definition Sync :: "target list \<Rightarrow> worker \<Rightarrow> worker" where
  "Sync ts w =
     (let nxt = next_targets ts;
          gone = filter (\<lambda>u. map_of nxt u = None) (map fst (hw_targets w));
          w1 = fold (\<lambda>u w. w\<lparr>hw_healthy := (hw_healthy w)(u := None),
                             hw_checked := (hw_checked w)(u := None)\<rparr>) gone w;
          new = filter (\<lambda>u. map_of (hw_targets w) u = None) (map fst nxt);
          w2 = fold (\<lambda>u w. w\<lparr>hw_healthy := (hw_healthy w)(u \<mapsto> True),
                             hw_checked := (hw_checked w)(u \<mapsto> False)\<rparr>) new w1
      in w2\<lparr>hw_targets := nxt\<rparr>)"

definition map_flag :: "(string \<rightharpoonup> bool) \<Rightarrow> string \<Rightarrow> bool" where
  "map_flag m u = (m u = Some True)"

definition IsHealthy :: "worker \<Rightarrow> string \<Rightarrow> bool" where
  "IsHealthy w u =
     (if map_of (hw_targets w) u = None then True
      else if \<not> map_flag (hw_checked w) u then True
      else map_flag (hw_healthy w) u)"

definition HealthyTargets :: "worker \<Rightarrow> string list \<Rightarrow> string list" where
  "HealthyTargets w urls = foldl (\<lambda>out u. if IsHealthy w u then out @ [u] else out) [] urls"

definition recordProbe :: "target \<Rightarrow> bool \<Rightarrow> worker \<Rightarrow> worker" where
  "recordProbe t healthy w =
     (case map_of (hw_targets w) (tg_URL t) of
        None \<Rightarrow> w
      | Some current \<Rightarrow>
          if current \<noteq> t then w
          else w\<lparr>hw_healthy := (hw_healthy w)(tg_URL t \<mapsto> healthy),
                 hw_checked := (hw_checked w)(tg_URL t \<mapsto> True)\<rparr>)"

subsection \<open>Probes\<close>

definition checkHTTP :: "(url \<Rightarrow> int option) \<Rightarrow> worker \<Rightarrow> string \<Rightarrow> bool" where
  "checkHTTP get w rawURL =
     (case Parse rawURL of
        None \<Rightarrow> False
      | Some u \<Rightarrow>
          (case get (u\<lparr>url_Path := hw_path w, url_RawQuery := [], url_Fragment := []\<rparr>) of
             None \<Rightarrow> False
           | Some status \<Rightarrow> status < 500))"

definition tcp_host :: "url \<Rightarrow> string" where
  "tcp_host u =
     (let host = (if url_Host u = [] then url_Path u else url_Host u)
      in if Contains host '':'' then host
         else if ToLower (url_Scheme u) = ''https'' then host @ '':443'' else host @ '':80'')"

definition checkTCP :: "(string \<Rightarrow> bool) \<Rightarrow> string \<Rightarrow> bool" where
  "checkTCP dial rawURL = (case Parse rawURL of None \<Rightarrow> False | Some u \<Rightarrow> dial (tcp_host u))"

definition probe :: "(url \<Rightarrow> int option) \<Rightarrow> (string \<Rightarrow> bool) \<Rightarrow> worker \<Rightarrow> target \<Rightarrow> bool" where
  "probe get dial w t = (if ToLower (tg_HealthCheck t) = ''tcp'' then checkTCP dial (tg_URL t)
                         else checkHTTP get w (tg_URL t))"

subsection \<open>Probe cycles and replacements of the targets, interleaved\<close>

text \<open>
  A cycle takes the targets registered when it starts; its workers finish the probes in any
  order. Only one cycle runs at a time.
\<close>

inductive hstep ::
  "(url \<Rightarrow> int option) \<Rightarrow> (string \<Rightarrow> bool) \<Rightarrow> worker \<times> target list \<Rightarrow> worker \<times> target list \<Rightarrow> bool"
  for get dial where
  sync: "hstep get dial (w, jobs) (Sync ts w, jobs)"
| start: "hstep get dial (w, []) (w, map snd (hw_targets w))"
| finish: "t \<in> set jobs \<Longrightarrow> hstep get dial (w, jobs) (recordProbe t (probe get dial w t) w, remove1 t jobs)"


subsection \<open>The abstract worker\<close>

datatype verdict = Unprobed | Up | Down

type_synonym health_map = "string \<rightharpoonup> target \<times> verdict"

definition abs_worker :: "worker \<Rightarrow> health_map" where
  "abs_worker w u = map_option (\<lambda>t. (t, if \<not> map_flag (hw_checked w) u then Unprobed
     else if map_flag (hw_healthy w) u then Up else Down)) (map_of (hw_targets w) u)"

text \<open>The last of the targets registered for a URL counts.\<close>

definition registered :: "target list \<Rightarrow> string \<rightharpoonup> target" where
  "registered ts u = map_option (\<lambda>t. \<lparr>tg_URL = u, tg_HealthCheck = norm_check (tg_HealthCheck t)\<rparr>)
     (find (\<lambda>t. tg_URL t = u \<and> u \<noteq> []) (rev ts))"

definition spec_sync :: "target list \<Rightarrow> health_map \<Rightarrow> health_map" where
  "spec_sync ts m u = map_option (\<lambda>t. (t, case m u of None \<Rightarrow> Unprobed | Some (_, v) \<Rightarrow> v)) (registered ts u)"

definition spec_record :: "target \<Rightarrow> bool \<Rightarrow> health_map \<Rightarrow> health_map" where
  "spec_record t b m = (case m (tg_URL t) of
     Some (t', v) \<Rightarrow> if t' = t then m(tg_URL t \<mapsto> (t, if b then Up else Down)) else m
   | None \<Rightarrow> m)"

definition spec_healthy :: "health_map \<Rightarrow> string \<Rightarrow> bool" where
  "spec_healthy m u = (case m u of Some (_, Down) \<Rightarrow> False | _ \<Rightarrow> True)"

definition worker_ok :: "worker \<Rightarrow> bool" where
  "worker_ok w = (map_ok (hw_targets w) \<and>
     (\<forall>u. hw_healthy w u = None \<longleftrightarrow> map_of (hw_targets w) u = None) \<and>
     (\<forall>u. hw_checked w u = None \<longleftrightarrow> map_of (hw_targets w) u = None) \<and>
     (\<forall>u t. map_of (hw_targets w) u = Some t \<longrightarrow> tg_URL t = u))"

lemma worker_ok_New: "worker_ok (NewWorker interval timeout path)"
  by (simp add: worker_ok_def NewWorker_def)

lemma next_targets_snoc: "next_targets (ts @ [t]) = (if tg_URL t = [] then next_targets ts
    else AList.update (tg_URL t) \<lparr>tg_URL = tg_URL t, tg_HealthCheck = norm_check (tg_HealthCheck t)\<rparr> (next_targets ts))"
  by (simp add: next_targets_def)

lemma next_targets_props: "map_ok (next_targets ts) \<and> map_of (next_targets ts) = registered ts"
proof (induction ts rule: rev_induct)
  case Nil
  then show ?case by (auto simp: next_targets_def registered_def)
next
  case (snoc t ts)
  then show ?case by (auto simp: next_targets_snoc registered_def go_intros fun_eq_iff)
qed

lemma fold_forget:
  "fold (\<lambda>u w. w\<lparr>hw_healthy := (hw_healthy w)(u := None), hw_checked := (hw_checked w)(u := None)\<rparr>) us w
   = w\<lparr>hw_healthy := (\<lambda>u. if u \<in> set us then None else hw_healthy w u),
       hw_checked := (\<lambda>u. if u \<in> set us then None else hw_checked w u)\<rparr>"
  by (induction us arbitrary: w) (auto simp: fun_eq_iff)

lemma fold_register:
  "fold (\<lambda>u w. w\<lparr>hw_healthy := (hw_healthy w)(u \<mapsto> a), hw_checked := (hw_checked w)(u \<mapsto> b)\<rparr>) us w
   = w\<lparr>hw_healthy := (\<lambda>u. if u \<in> set us then Some a else hw_healthy w u),
       hw_checked := (\<lambda>u. if u \<in> set us then Some b else hw_checked w u)\<rparr>"
  by (induction us arbitrary: w) (auto simp: fun_eq_iff)

lemma mem_keys: "u \<in> fst ` set m \<longleftrightarrow> map_of m u \<noteq> None"
  by (simp add: map_of_eq_None_iff)

lemma Sync_eq:
  "Sync ts w = w\<lparr>
     hw_healthy := (\<lambda>u. if registered ts u \<noteq> None \<and> map_of (hw_targets w) u = None then Some True
        else if registered ts u = None \<and> map_of (hw_targets w) u \<noteq> None then None else hw_healthy w u),
     hw_checked := (\<lambda>u. if registered ts u \<noteq> None \<and> map_of (hw_targets w) u = None then Some False
        else if registered ts u = None \<and> map_of (hw_targets w) u \<noteq> None then None else hw_checked w u),
     hw_targets := next_targets ts\<rparr>"
proof -
  have gone: "u \<in> set (filter (\<lambda>u. map_of (next_targets ts) u = None) (map fst (hw_targets w))) \<longleftrightarrow>
      registered ts u = None \<and> map_of (hw_targets w) u \<noteq> None" for u
    by (simp add: next_targets_props mem_keys conj_commute del: not_None_eq)
  have new: "u \<in> set (filter (\<lambda>u. map_of (hw_targets w) u = None) (map fst (next_targets ts))) \<longleftrightarrow>
      registered ts u \<noteq> None \<and> map_of (hw_targets w) u = None" for u
    by (simp add: next_targets_props mem_keys conj_commute del: not_None_eq)
  show ?thesis
    unfolding Sync_def Let_def fold_forget fold_register gone new by (simp cong: if_cong)
qed

lemma registered_URL: "registered ts u = Some t \<Longrightarrow> tg_URL t = u"
  by (auto simp: registered_def)

lemma worker_ok_Sync: "worker_ok w \<Longrightarrow> worker_ok (Sync ts w)"
  by (auto simp: worker_ok_def Sync_eq next_targets_props registered_URL)

lemma worker_ok_record: "worker_ok w \<Longrightarrow> worker_ok (recordProbe t b w)"
  by (cases "map_of (hw_targets w) (tg_URL t)") (simp_all add: worker_ok_def recordProbe_def)

lemma abs_Sync: "worker_ok w \<Longrightarrow> abs_worker (Sync ts w) = spec_sync ts (abs_worker w)"
  by (rule ext) (auto simp: abs_worker_def spec_sync_def Sync_eq next_targets_props map_flag_def
      worker_ok_def split: option.splits)

lemma abs_record: "abs_worker (recordProbe t b w) = spec_record t b (abs_worker w)"
  by (rule ext) (auto simp: abs_worker_def spec_record_def recordProbe_def map_flag_def split: option.splits)

lemma IsHealthy_spec: "IsHealthy w u = spec_healthy (abs_worker w) u"
  by (auto simp: IsHealthy_def spec_healthy_def abs_worker_def split: option.splits)

lemma hstep_ok: "hstep get dial s s' \<Longrightarrow> worker_ok (fst s) \<Longrightarrow> worker_ok (fst s')"
  by (induction rule: hstep.induct) (auto simp: worker_ok_Sync worker_ok_record)

lemma hsteps_ok: "(hstep get dial)\<^sup>*\<^sup>* s s' \<Longrightarrow> worker_ok (fst s) \<Longrightarrow> worker_ok (fst s')"
  by (induction rule: rtranclp_induct) (auto intro: hstep_ok)

lemma HealthyTargets_filter: "HealthyTargets w urls = filter (IsHealthy w) urls"
proof -
  have "foldl (\<lambda>out u. if IsHealthy w u then out @ [u] else out) acc urls = acc @ filter (IsHealthy w) urls" for acc
    by (induction urls arbitrary: acc) auto
  then show ?thesis by (simp add: HealthyTargets_def)
qed

subsection \<open>Histories\<close>

text \<open>The operations that change the worker, as they come one after the other under its lock.\<close>

datatype hact = ASync "target list" | ARecord target bool

fun health_act :: "hact \<Rightarrow> worker \<Rightarrow> worker" where
  "health_act (ASync ts) w = Sync ts w"
| "health_act (ARecord t b) w = recordProbe t b w"

fun spec_act :: "hact \<Rightarrow> health_map \<Rightarrow> health_map" where
  "spec_act (ASync ts) m = spec_sync ts m"
| "spec_act (ARecord t b) m = spec_record t b m"

lemma health_act_ok: "worker_ok w \<Longrightarrow> worker_ok (health_act a w)"
  by (cases a) (simp_all add: worker_ok_Sync worker_ok_record)

interpretation health_inv: preserving health_act worker_ok
  by unfold_locales (rule health_act_ok)

lemma health_run_refines:
  "worker_ok w \<Longrightarrow> worker_ok (fold health_act acts w) \<and>
   abs_worker (fold health_act acts w) = fold spec_act acts (abs_worker w)"
proof (induction acts arbitrary: w)
  case (Cons a acts)
  have "abs_worker (health_act a w) = spec_act a (abs_worker w)"
    using Cons.prems by (cases a) (simp_all add: abs_Sync abs_record)
  with Cons health_act_ok show ?case by simp
qed simp

lemma abs_New: "abs_worker (NewWorker interval timeout path) = Map.empty"
  by (rule ext) (simp add: abs_worker_def NewWorker_def)

text \<open>Where the verdict \<open>Down\<close> comes from.\<close>

lemma down_justified:
  "fold spec_act acts Map.empty u = Some (t, Down) \<Longrightarrow>
   \<exists>a t' b v. acts = a @ ARecord t' False # b \<and> tg_URL t' = u \<and>
     fold spec_act a Map.empty u = Some (t', v) \<and> (\<forall>ts. ASync ts \<in> set b \<longrightarrow> registered ts u \<noteq> None)"
proof (induction acts arbitrary: t rule: rev_induct)
  case (snoc x acts)
  let ?m = "fold spec_act acts Map.empty"
  have extend: "\<exists>a t' b v. acts @ [x] = a @ ARecord t' False # b \<and> tg_URL t' = u \<and>
      fold spec_act a Map.empty u = Some (t', v) \<and> (\<forall>ts. ASync ts \<in> set b \<longrightarrow> registered ts u \<noteq> None)"
    if m: "?m u = Some (t0, Down)" and x: "\<And>ts. x = ASync ts \<Longrightarrow> registered ts u \<noteq> None" for t0
  proof -
    obtain a t' b v where "acts = a @ ARecord t' False # b" "tg_URL t' = u"
      "fold spec_act a Map.empty u = Some (t', v)" "\<forall>ts. ASync ts \<in> set b \<longrightarrow> registered ts u \<noteq> None"
      using snoc.IH [OF m] by blast
    with x show ?thesis by (intro exI [of _ a] exI [of _ t'] exI [of _ "b @ [x]"] exI [of _ v]) auto
  qed
  show ?case
  proof (cases x)
    case (ASync ts)
    with snoc.prems obtain t0 where "?m u = Some (t0, Down)" "registered ts u \<noteq> None"
      by (auto simp: spec_sync_def split: option.splits)
    with extend ASync show ?thesis by auto
  next
    case (ARecord t1 b1)
    show ?thesis
    proof (cases "tg_URL t1 = u \<and> (\<exists>v. ?m u = Some (t1, v))")
      case True
      then obtain v where v: "?m u = Some (t1, v)" "tg_URL t1 = u" by blast
      with snoc.prems ARecord have "\<not> b1" by (auto simp: spec_record_def split: if_splits)
      with v ARecord show ?thesis
        by (intro exI [of _ acts] exI [of _ t1] exI [of _ "[]"] exI [of _ v]) auto
    next
      case False
      with snoc.prems ARecord have "?m u = Some (t, Down)"
        by (auto simp: spec_record_def split: option.splits if_splits)
      with extend ARecord show ?thesis by auto
    qed
  qed
qed simp

text \<open>Every interleaving of probe cycles and replacements is a history, with the probes' own results.\<close>

lemma health_act_path: "hw_path (health_act a w) = hw_path w"
  by (cases a) (simp_all add: Sync_eq recordProbe_def split: option.splits)

lemma hsteps_history:
  "(hstep get dial)\<^sup>*\<^sup>* (w0, []) s \<Longrightarrow>
   \<exists>acts. fst s = fold health_act acts w0 \<and> hw_path (fst s) = hw_path w0 \<and>
     (\<forall>t b. ARecord t b \<in> set acts \<longrightarrow> b = probe get dial w0 t)"
proof (induction rule: rtranclp_induct)
  case base
  show ?case by (rule exI [of _ "[]"]) simp
next
  case (step s s')
  then obtain acts where IH: "fst s = fold health_act acts w0" "hw_path (fst s) = hw_path w0"
    "\<forall>t b. ARecord t b \<in> set acts \<longrightarrow> b = probe get dial w0 t" by blast
  have pp: "probe get dial (fst s) t = probe get dial w0 t" for t
    unfolding probe_def checkHTTP_def IH(2) ..
  from step.hyps(2) show ?case
  proof (cases rule: hstep.cases)
    case (sync w jobs ts)
    with IH health_act_path [of "ASync ts" w] show ?thesis by (intro exI [of _ "acts @ [ASync ts]"]) auto
  next
    case (start w)
    with IH show ?thesis by (intro exI [of _ acts]) auto
  next
    case (finish t jobs w)
    with IH pp health_act_path [of "ARecord t (probe get dial w t)" w] show ?thesis
      by (intro exI [of _ "acts @ [ARecord t (probe get dial w t)]"]) auto
  qed
qed

subsection \<open>Properties\<close>

text \<open>
  C10: The three maps of the worker, updated by any sequence of replacements of the targets
  and recorded probes, answer as one map from URLs to a target and a verdict does: a target
  that is registered anew has no verdict, one that stays keeps its verdict, one that goes
  loses it, and a result counts only for the target as it is registered now.
\<close>

theorem health_refines:
  "IsHealthy (fold health_act acts (NewWorker interval timeout path)) u =
   spec_healthy (fold spec_act acts Map.empty) u"
  using health_run_refines [OF worker_ok_New] by (simp add: IsHealthy_spec abs_New)

text \<open>
  No target is taken out of service without cause: in every interleaving of probe cycles
  and replacements of the targets, if the worker reports a URL as unhealthy, then it is
  registered, and a probe of a target registered for it has failed.
\<close>

theorem unhealthy_has_cause:
  assumes "(hstep get dial)\<^sup>*\<^sup>* (NewWorker interval timeout path, []) (w, jobs)" "\<not> IsHealthy w u"
  shows "map_of (hw_targets w) u \<noteq> None \<and>
    (\<exists>t. tg_URL t = u \<and> \<not> probe get dial (NewWorker interval timeout path) t)"
proof -
  let ?w = "NewWorker interval timeout path"
  have ab: "abs_worker (fold health_act as ?w) = fold spec_act as Map.empty" for as
    using health_run_refines [OF worker_ok_New, of as] by (simp add: abs_New)
  from hsteps_history [OF assms(1)] obtain acts where
    acts: "w = fold health_act acts ?w" "\<forall>t b. ARecord t b \<in> set acts \<longrightarrow> b = probe get dial ?w t" by auto
  from assms(2) obtain t where "fold spec_act acts Map.empty u = Some (t, Down)"
    by (auto simp: IsHealthy_spec acts(1) ab spec_healthy_def split: option.splits verdict.splits)
  from down_justified [OF this] acts(2) have "\<exists>t. tg_URL t = u \<and> \<not> probe get dial ?w t"
    by (metis in_set_conv_decomp)
  moreover have "map_of (hw_targets w) u \<noteq> None" using assms(2) by (auto simp: IsHealthy_def split: if_splits)
  ultimately show ?thesis by blast
qed

theorem unhealthy_has_cause_witness:
  "\<exists>t. tg_URL t = ''u'' \<and> \<not> probe (\<lambda>u. None) (\<lambda>h. False) (NewWorker 0 0 []) t"
proof -
  let ?w = "NewWorker 0 0 []" and ?h = "hstep (\<lambda>u. None) (\<lambda>h. False)"
  let ?t = "\<lparr>tg_URL = ''u'', tg_HealthCheck = ''http''\<rparr>"
  let ?v = "Sync [\<lparr>tg_URL = ''u'', tg_HealthCheck = []\<rparr>] ?w"
  note step = rtranclp.rtrancl_into_rtrancl [of ?h]
  have j: "map snd (hw_targets ?v) = [?t]" by code_simp
  have "?h\<^sup>*\<^sup>* (?w, []) (?v, map snd (hw_targets ?v))"
    by (rule step [OF step [OF rtranclp.rtrancl_refl hstep.sync] hstep.start])
  then have "?h\<^sup>*\<^sup>* (?w, []) (?v, [?t])" by (simp only: j)
  then have "?h\<^sup>*\<^sup>* (?w, []) (recordProbe ?t (probe (\<lambda>u. None) (\<lambda>h. False) ?v ?t) ?v, remove1 ?t [?t])"
    by (rule step) (rule hstep.finish, simp)
  moreover have "\<not> IsHealthy (recordProbe ?t (probe (\<lambda>u. None) (\<lambda>h. False) ?v ?t) ?v) ''u''" by code_simp
  ultimately show ?thesis using unhealthy_has_cause by blast
qed

end
