(* ===== verification/Balancer.thy ===== *)
theory Balancer
  imports Health
begin

text \<open>
  The load balancer and the proxy handler of \<^verbatim>\<open>internal/balancer/balancer.go\<close>: the
  round robin over healthy targets (\<open>Pick\<close>), the cache of reverse proxies (\<open>proxyFor\<close>), the
  response writer that holds back an upstream's error so that another upstream can be tried
  (\<open>streamWriter\<close>), and the failover loop (\<open>Serve\<close>).

  The reverse proxy of \<^verbatim>\<open>net/http/httputil\<close> and the upstreams behind it are a
  parameter: for the \<open>n\<close>-th attempt and a target, the calls it makes on the response writer
  and the error it reports. The health worker may change between attempts, so it is given
  per attempt, too.
\<close>

subsection \<open>Round robin\<close>

type_synonym balancer = "string \<Rightarrow> 64 word"

definition New_balancer :: balancer where
  "New_balancer = (\<lambda>_. 0)"

definition Pick :: "worker \<Rightarrow> string \<Rightarrow> string list \<Rightarrow> balancer \<Rightarrow> (string \<times> balancer) option" where
  "Pick w routeKey targets rr =
     (let healthy = HealthyTargets w targets
      in if healthy = [] then None
         else (let idx = rr routeKey
               in Some (healthy ! (unat idx mod length healthy), rr(routeKey := idx + 1))))"

definition HealthyAlternatives :: "worker \<Rightarrow> string list \<Rightarrow> string \<Rightarrow> string list" where
  "HealthyAlternatives w targets exclude = filter (\<lambda>t. t \<noteq> exclude) (HealthyTargets w targets)"

text \<open>The targets a run of picks chooses; \<open>None\<close> where a pick finds no healthy target.\<close>

primrec picks :: "nat \<Rightarrow> worker \<Rightarrow> string \<Rightarrow> string list \<Rightarrow> balancer \<Rightarrow> string option list \<times> balancer" where
  "picks 0 w k ts rr = ([], rr)"
| "picks (Suc n) w k ts rr =
     (case Pick w k ts rr of
        None \<Rightarrow> (let (ps, rr') = picks n w k ts rr in (None # ps, rr'))
      | Some (t, rr1) \<Rightarrow> (let (ps, rr') = picks n w k ts rr1 in (Some t # ps, rr')))"

lemma Pick_Some:
  "Pick w k ts rr = Some (t, rr') \<Longrightarrow> t \<in> set ts \<and> IsHealthy w t \<and> rr' = rr(k := rr k + 1)"
  by (auto simp: Pick_def Let_def HealthyTargets_filter split: if_splits)
    (metis (mono_tags, lifting) length_greater_0_conv mem_Collect_eq mod_less_divisor nth_mem set_filter)+

lemma Pick_None: "Pick w k ts rr = None \<longleftrightarrow> (\<forall>t \<in> set ts. \<not> IsHealthy w t)"
  by (auto simp: Pick_def Let_def HealthyTargets_filter filter_empty_conv)

lemma picks_eq:
  assumes "HealthyTargets w ts = hs" "hs \<noteq> []" "unat (rr k) + n \<le> 2 ^ 64"
  shows "fst (picks n w k ts rr) = map (\<lambda>i. Some (hs ! ((unat (rr k) + i) mod length hs))) [0..<n]"
  using assms(3)
proof (induction n arbitrary: rr)
  case (Suc n)
  define rr1 where "rr1 = rr(k := rr k + 1)"
  have p: "Pick w k ts rr = Some (hs ! (unat (rr k) mod length hs), rr1)"
    using assms(1,2) by (simp add: Pick_def Let_def rr1_def)
  show ?case
  proof (cases n)
    case 0
    with p show ?thesis by (simp add: split_beta)
  next
    case (Suc m)
    have "unat (rr k) < 2 ^ 64 - 1" using Suc.prems Suc by simp
    then have u: "unat (rr1 k) = Suc (unat (rr k))"
      by (simp add: unat_word_ariths rr1_def)
    with Suc.prems have "unat (rr1 k) + n \<le> 2 ^ 64" by simp
    from Suc.IH [of rr1, OF this] have "fst (picks n w k ts rr1) =
        map (\<lambda>i. Some (hs ! ((unat (rr k) + Suc i) mod length hs))) [0..<n]"
      by (simp add: u)
    moreover have "[0..<Suc n] = 0 # map Suc [0..<n]" by (simp add: map_Suc_upt upt_conv_Cons del: upt_Suc)
    ultimately show ?thesis using p by (simp add: split_beta comp_def del: upt_Suc)
  qed
qed simp

subsection \<open>The response writers\<close>

text \<open>
  The client's side, an \<^verbatim>\<open>http.ResponseWriter\<close>: a status from 100 to 199 other than 101
  is sent at once and does not end the header; the first other one fixes the status and the
  header; a write without a status sends 200.
\<close>

record client =
  cl_header :: header
  cl_info :: "int list"
  cl_sent :: "(int \<times> header) option"
  cl_body :: string

definition new_client :: client where
  "new_client = \<lparr>cl_header = Map.empty, cl_info = [], cl_sent = None, cl_body = []\<rparr>"

definition client_WriteHeader :: "int \<Rightarrow> client \<Rightarrow> client" where
  "client_WriteHeader code c =
     (if cl_sent c \<noteq> None then c
      else if 100 \<le> code \<and> code \<le> 199 \<and> code \<noteq> 101 then c\<lparr>cl_info := cl_info c @ [code]\<rparr>
      else c\<lparr>cl_sent := Some (code, cl_header c)\<rparr>)"

definition client_Write :: "string \<Rightarrow> client \<Rightarrow> client" where
  "client_Write p c = (let c' = (if cl_sent c = None then client_WriteHeader 200 c else c)
                       in c'\<lparr>cl_body := cl_body c' @ p\<rparr>)"

text \<open>Adding every value of one header to another; the keys are canonical.\<close>

definition add_header :: "header \<Rightarrow> header \<Rightarrow> header" where
  "add_header src dst = (\<lambda>k. case src k of
     None \<Rightarrow> dst k
   | Some vs \<Rightarrow> if vs = [] then dst k else Some ((case dst k of None \<Rightarrow> [] | Some us \<Rightarrow> us) @ vs))"

record streamWriter =
  sw_w :: client
  sw_header :: header
  sw_status :: int
  sw_wroteHdr :: bool
  sw_retry :: bool
  sw_buf :: string
  sw_bufferLimit :: int

definition new_streamWriter :: "client \<Rightarrow> streamWriter" where
  "new_streamWriter w = \<lparr>sw_w = w, sw_header = Map.empty, sw_status = 0, sw_wroteHdr = False,
     sw_retry = False, sw_buf = [], sw_bufferLimit = 1048576\<rparr>"

definition sw_WriteHeader :: "int \<Rightarrow> streamWriter \<Rightarrow> streamWriter" where
  "sw_WriteHeader code s =
     (if sw_wroteHdr s then s
      else (let s1 = s\<lparr>sw_wroteHdr := True, sw_status := code\<rparr>
            in if StatusInternalServerError \<le> code then s1\<lparr>sw_retry := True\<rparr>
               else s1\<lparr>sw_w := client_WriteHeader code
                 ((sw_w s1)\<lparr>cl_header := add_header (sw_header s1) (cl_header (sw_w s1))\<rparr>)\<rparr>))"

definition flushRetryTo :: "streamWriter \<Rightarrow> streamWriter" where
  "flushRetryTo s =
     (let w1 = (sw_w s)\<lparr>cl_header := add_header (sw_header s) (cl_header (sw_w s))\<rparr>;
          w2 = client_Write (sw_buf s) (client_WriteHeader (sw_status s) w1)
      in s\<lparr>sw_w := w2, sw_buf := []\<rparr>)"

definition sw_Write :: "string \<Rightarrow> streamWriter \<Rightarrow> streamWriter" where
  "sw_Write p s0 =
     (let s = (if sw_wroteHdr s0 then s0 else sw_WriteHeader StatusOK s0)
      in if sw_retry s then
           (if 0 < sw_bufferLimit s \<and> sw_bufferLimit s < int (length (sw_buf s)) + int (length p) then
              (let s1 = (flushRetryTo s)\<lparr>sw_retry := False\<rparr>
               in s1\<lparr>sw_w := client_Write p (sw_w s1)\<rparr>)
            else s\<lparr>sw_buf := sw_buf s @ p\<rparr>)
         else s\<lparr>sw_w := client_Write p (sw_w s)\<rparr>)"

text \<open>What a reverse proxy does on a response writer: set the header map, write a status, write, flush.\<close>

datatype wcall = CHeader header | CStatus int | CWrite string | CFlush

fun sw_call :: "wcall \<Rightarrow> streamWriter \<Rightarrow> streamWriter" where
  "sw_call (CHeader h) s = s\<lparr>sw_header := h\<rparr>"
| "sw_call (CStatus code) s = sw_WriteHeader code s"
| "sw_call (CWrite p) s = sw_Write p s"
| "sw_call CFlush s = s"

subsection \<open>The proxy cache\<close>

definition maxProxyCacheEntries :: nat where "maxProxyCacheEntries = 1024"

type_synonym proxy_cache = "(string, url) gomap"

text \<open>
  A cached reverse proxy is the parsed target it was made for. Which entry is evicted is
  left open by the source, which takes the first of a map; here it is the first pair.
\<close>

definition proxyFor :: "string \<Rightarrow> proxy_cache \<Rightarrow> (url \<times> proxy_cache) option" where
  "proxyFor targetURL cache =
     (case Parse targetURL of
        None \<Rightarrow> None
      | Some parsed \<Rightarrow>
          (case map_of cache targetURL of
             Some proxy \<Rightarrow> Some (proxy, cache)
           | None \<Rightarrow>
               (let cache' = (if maxProxyCacheEntries \<le> length cache then tl cache else cache)
                in Some (parsed, AList.update targetURL parsed cache'))))"

definition proxy_cache_ok :: "proxy_cache \<Rightarrow> bool" where
  "proxy_cache_ok c = (map_ok c \<and> length c \<le> maxProxyCacheEntries \<and>
     (\<forall>k u. map_of c k = Some u \<longrightarrow> Parse k = Some u))"

lemma proxyFor_ok:
  assumes ok: "proxy_cache_ok c" and p: "proxyFor t c = Some (u, c')"
  shows "proxy_cache_ok c' \<and> Parse t = Some u"
proof (cases "map_of c t")
  case (Some proxy)
  with assms show ?thesis by (auto simp: proxyFor_def proxy_cache_ok_def split: option.splits)
next
  case None
  from p None obtain parsed where u: "Parse t = Some parsed" by (auto simp: proxyFor_def split: option.splits)
  define d where "d = (if maxProxyCacheEntries \<le> length c then tl c else c)"
  have c': "u = parsed" "c' = AList.update t parsed d"
    using p None u by (auto simp: proxyFor_def Let_def d_def split: if_splits)
  have d: "map_ok d" "length d < maxProxyCacheEntries"
    "\<And>k v. map_of d k = Some v \<Longrightarrow> Parse k = Some v"
  proof -
    have m: "map_ok c" "length c \<le> maxProxyCacheEntries" "\<And>k v. (k, v) \<in> set c \<Longrightarrow> Parse k = Some v"
      using ok by (auto simp: proxy_cache_ok_def map_ok_def)
    have sub: "set d \<subseteq> set c" by (cases c) (auto simp: d_def)
    show "map_ok d" using m by (cases c) (auto simp: d_def map_ok_def)
    show "length d < maxProxyCacheEntries" using m by (auto simp: d_def maxProxyCacheEntries_def)
    show "Parse k = Some v" if "map_of d k = Some v" for k v
      using m(3) sub that by (blast dest: map_of_SomeD)
  qed
  then show ?thesis using u
    by (auto simp: c' proxy_cache_ok_def length_update go_intros split: if_splits)
qed

lemma proxyFor_parses: "Parse t \<noteq> None \<Longrightarrow> \<exists>u c'. proxyFor t c = Some (u, c')"
  by (cases "map_of c t") (auto simp: proxyFor_def Let_def)

subsection \<open>Failover\<close>

definition isFailoverSafeMethod :: "string \<Rightarrow> bool" where
  "isFailoverSafeMethod m = (m \<in> set [''GET'', ''HEAD'', ''OPTIONS'', ''TRACE''])"

definition requestHasBody :: "request \<Rightarrow> bool" where
  "requestHasBody r = (if \<not> req_HasBody r then False
                       else req_ContentLength r \<noteq> 0 \<or> req_TransferEncoding r \<noteq> [])"

definition retryOnFailure :: "request \<Rightarrow> bool" where
  "retryOnFailure r = (isFailoverSafeMethod (req_Method r) \<and> \<not> requestHasBody r)"

text \<open>What the director sets on the outgoing request after the one of the reverse proxy.\<close>

definition director :: "url \<Rightarrow> request \<Rightarrow> request \<Rightarrow> request" where
  "director parsed r out =
     (let o1 = out\<lparr>req_Host := url_Host parsed\<rparr>;
          o2 = (if req_Host r \<noteq> [] then o1\<lparr>req_Header := hdr_set ''X-Forwarded-Host'' (req_Host r) (req_Header o1)\<rparr>
                else o1)
      in o2\<lparr>req_Header := hdr_set ''X-Forwarded-Proto'' (if req_TLS r then ''https'' else ''http'') (req_Header o2)\<rparr>)"

datatype serve_error = ErrNoHealthyTargets | ErrTarget string | ErrUpstream string | ErrStatus int

text \<open>
  The n-th attempt, and the target: the calls on the response writer and the error given to
  the error handler.
\<close>

type_synonym upstreams = "nat \<Rightarrow> string \<Rightarrow> wcall list \<times> string option"

record serve_state =
  ss_tried :: "string list"
  ss_lastErr :: "serve_error option"
  ss_client :: client
  ss_rr :: balancer
  ss_cache :: proxy_cache
  ss_contacted :: "string list"

datatype outcome = Return "serve_error option" | Continue

text \<open>One round of the loop, after the candidate has been picked.\<close>

definition serve_attempt :: "upstreams \<Rightarrow> bool \<Rightarrow> string \<Rightarrow> serve_state \<Rightarrow> outcome \<times> serve_state" where
  "serve_attempt up retryOk t st =
     (case proxyFor t (ss_cache st) of
        None \<Rightarrow> (if retryOk then Continue else Return (Some (ErrTarget t)), st\<lparr>ss_lastErr := Some (ErrTarget t)\<rparr>)
      | Some (_, cache) \<Rightarrow>
          (let (calls, err) = up (length (ss_contacted st)) t;
               out = fold sw_call calls (new_streamWriter (ss_client st));
               st1 = st\<lparr>ss_cache := cache, ss_client := sw_w out, ss_contacted := ss_contacted st @ [t]\<rparr>
           in case err of
                Some e \<Rightarrow> (if retryOk then Continue else Return (Some (ErrUpstream e)),
                           st1\<lparr>ss_lastErr := Some (ErrUpstream e)\<rparr>)
              | None \<Rightarrow>
                  if sw_retry out then
                    (if \<not> retryOk then
                       (Return None, st1\<lparr>ss_lastErr := Some (ErrStatus (sw_status out)), ss_client := sw_w (flushRetryTo out)\<rparr>)
                     else (Continue, st1\<lparr>ss_lastErr := Some (ErrStatus (sw_status out))\<rparr>))
                  else (Return None, st1)))"

definition finish :: "serve_state \<Rightarrow> serve_error option \<times> serve_state" where
  "finish st = (case ss_lastErr st of Some e \<Rightarrow> (Some e, st) | None \<Rightarrow> (Some ErrNoHealthyTargets, st))"

definition untried :: "string list \<Rightarrow> serve_state \<Rightarrow> string list" where
  "untried targets st = filter (\<lambda>t. t \<notin> set (ss_tried st)) targets"

lemma serve_attempt_tried: "ss_tried (snd (serve_attempt up retryOk t st)) = ss_tried st"
  by (auto simp: serve_attempt_def Let_def split_beta split: option.splits)

lemma serve_attempt_step: "(x, st') = serve_attempt up retryOk t st \<Longrightarrow> ss_tried st' = ss_tried st"
  by (metis serve_attempt_tried snd_conv)

text \<open>
  The loop. \<open>hw\<close> is the health worker at each pick. A target is picked among those not
  tried yet, so the loop ends.
\<close>

function serve_loop :: "(nat \<Rightarrow> worker) \<Rightarrow> upstreams \<Rightarrow> bool \<Rightarrow> string \<Rightarrow> string list \<Rightarrow> serve_state
    \<Rightarrow> serve_error option \<times> serve_state" where
  "serve_loop hw up retryOk routeKey targets st =
     (if \<not> length (ss_tried st) < length targets then finish st
      else if untried targets st = [] then finish st
      else (case Pick (hw (length (ss_tried st))) routeKey (untried targets st) (ss_rr st) of
              None \<Rightarrow> (Some ErrNoHealthyTargets, st)
            | Some (t, rr) \<Rightarrow>
                (case serve_attempt up retryOk t (st\<lparr>ss_tried := ss_tried st @ [t], ss_rr := rr\<rparr>) of
                   (Return r, st') \<Rightarrow> (r, st')
                 | (Continue, st') \<Rightarrow> serve_loop hw up retryOk routeKey targets st')))"
  by pat_completeness auto
termination
  by (relation "measure (\<lambda>(hw, up, retryOk, routeKey, targets, st). length targets - length (ss_tried st))")
    (auto dest!: serve_attempt_step)

declare serve_loop.simps [simp del]

definition Serve :: "(nat \<Rightarrow> worker) \<Rightarrow> upstreams \<Rightarrow> request \<Rightarrow> string \<Rightarrow> string list \<Rightarrow> balancer \<Rightarrow> proxy_cache
    \<Rightarrow> client \<Rightarrow> serve_error option \<times> serve_state" where
  "Serve hw up r routeKey targets rr cache w =
     (let st = \<lparr>ss_tried = [], ss_lastErr = None, ss_client = w, ss_rr = rr, ss_cache = cache, ss_contacted = []\<rparr>
      in if targets = [] then (Some ErrNoHealthyTargets, st)
         else serve_loop hw up (retryOnFailure r) routeKey targets st)"

subsection \<open>What a run of attempts is\<close>

definition picked :: "string \<Rightarrow> balancer \<Rightarrow> serve_state \<Rightarrow> serve_state" where
  "picked t rr st = st\<lparr>ss_tried := ss_tried st @ [t], ss_rr := rr\<rparr>"

lemma serve_loop_unfold:
  "serve_loop hw up retryOk k targets st =
     (if \<not> length (ss_tried st) < length targets \<or> untried targets st = [] then finish st
      else (case Pick (hw (length (ss_tried st))) k (untried targets st) (ss_rr st) of
              None \<Rightarrow> (Some ErrNoHealthyTargets, st)
            | Some (t, rr) \<Rightarrow>
                (case serve_attempt up retryOk t (picked t rr st) of
                   (Return r, st') \<Rightarrow> (r, st')
                 | (Continue, st') \<Rightarrow> serve_loop hw up retryOk k targets st')))"
  unfolding picked_def by (subst serve_loop.simps) simp

lemma serve_loop_cases:
  obtains (stop) "serve_loop hw up retryOk k targets st = finish st"
      "\<not> length (ss_tried st) < length targets \<or> untried targets st = []"
  | (unhealthy) "serve_loop hw up retryOk k targets st = (Some ErrNoHealthyTargets, st)"
      "Pick (hw (length (ss_tried st))) k (untried targets st) (ss_rr st) = None"
  | (return) t rr r st' where "Pick (hw (length (ss_tried st))) k (untried targets st) (ss_rr st) = Some (t, rr)"
      "serve_attempt up retryOk t (picked t rr st) = (Return r, st')"
      "serve_loop hw up retryOk k targets st = (r, st')"
  | (again) t rr st' where "Pick (hw (length (ss_tried st))) k (untried targets st) (ss_rr st) = Some (t, rr)"
      "serve_attempt up retryOk t (picked t rr st) = (Continue, st')"
      "serve_loop hw up retryOk k targets st = serve_loop hw up retryOk k targets st'"
      "length (ss_tried st) < length targets"
proof (cases "\<not> length (ss_tried st) < length targets \<or> untried targets st = []")
  case True
  then show ?thesis using stop by (simp add: serve_loop_unfold)
next
  case False
  show ?thesis
  proof (cases "Pick (hw (length (ss_tried st))) k (untried targets st) (ss_rr st)")
    case None
    with False unhealthy show ?thesis by (simp add: serve_loop_unfold)
  next
    case (Some p)
    obtain t rr where p: "p = (t, rr)" by (cases p)
    obtain x st' where a: "serve_attempt up retryOk t (picked t rr st) = (x, st')" by fastforce
    show ?thesis
    proof (cases x)
      case (Return r)
      with False Some p a return show ?thesis by (simp add: serve_loop_unfold [of hw up retryOk k targets st])
    next
      case Continue
      with False Some p a again show ?thesis by (simp add: serve_loop_unfold [of hw up retryOk k targets st])
    qed
  qed
qed

text \<open>An invariant of the attempts is an invariant of the loop.\<close>

lemma serve_loop_invariant:
  assumes step: "\<And>st t rr. I st \<Longrightarrow>
      Pick (hw (length (ss_tried st))) k (untried targets st) (ss_rr st) = Some (t, rr) \<Longrightarrow>
      I (snd (serve_attempt up retryOk t (picked t rr st)))"
  shows "I st \<Longrightarrow> I (snd (serve_loop hw up retryOk k targets st))"
proof (induction "length targets - length (ss_tried st)" arbitrary: st rule: less_induct)
  case less
  show ?case
  proof (cases rule: serve_loop_cases [of hw up retryOk k targets st])
    case stop
    with less show ?thesis by (simp add: finish_def split: option.splits)
  next
    case unhealthy
    with less show ?thesis by simp
  next
    case (return t rr r st')
    with step [OF less.prems return(1)] show ?thesis by simp
  next
    case (again t rr st')
    have "ss_tried st' = ss_tried st @ [t]" using serve_attempt_step [OF again(2) [symmetric]] by (simp add: picked_def)
    with less again step [OF less.prems again(1)] show ?thesis by simp
  qed
qed

lemma finish_state [simp]: "snd (finish st) = st"
  by (simp add: finish_def split: option.splits)

definition attempts_ok :: "(nat \<Rightarrow> worker) \<Rightarrow> string list \<Rightarrow> serve_state \<Rightarrow> bool" where
  "attempts_ok hw targets st = (distinct (ss_tried st) \<and> set (ss_tried st) \<subseteq> set targets \<and>
     distinct (ss_contacted st) \<and> set (ss_contacted st) \<subseteq> set (ss_tried st) \<and>
     (\<forall>i < length (ss_tried st). IsHealthy (hw i) (ss_tried st ! i)))"

lemma contacted_attempt:
  "ss_contacted (snd (serve_attempt up retryOk t st)) =
     (if proxyFor t (ss_cache st) = None then ss_contacted st else ss_contacted st @ [t])"
  by (auto simp: serve_attempt_def Let_def split_beta split: option.splits)

lemma attempts_ok_step:
  assumes ok: "attempts_ok hw targets st"
    and p: "Pick (hw (length (ss_tried st))) k (untried targets st) (ss_rr st) = Some (t, rr)"
  shows "attempts_ok hw targets (snd (serve_attempt up retryOk t (picked t rr st)))"
proof -
  have t: "t \<in> set (untried targets st)" "IsHealthy (hw (length (ss_tried st))) t"
    using Pick_Some [OF p] by auto
  have c: "ss_contacted (snd (serve_attempt up retryOk t (picked t rr st))) \<in> {ss_contacted st, ss_contacted st @ [t]}"
    by (simp add: contacted_attempt picked_def)
  have "ss_tried (snd (serve_attempt up retryOk t (picked t rr st))) = ss_tried st @ [t]"
    by (simp add: serve_attempt_tried picked_def)
  with ok t c show ?thesis by (auto simp: attempts_ok_def untried_def nth_append less_Suc_eq)
qed

lemma no_retry_returns: "\<exists>r st'. serve_attempt up False t st = (Return r, st')"
  by (auto simp: serve_attempt_def Let_def split_beta split: option.splits)

subsection \<open>What the client sees\<close>

text \<open>
  A complete response of an upstream, the calls the reverse proxy makes for it, and the
  client that has received it.
\<close>

record response =
  rs_header :: header
  rs_status :: int
  rs_chunks :: "string list"

definition calls_of :: "response \<Rightarrow> wcall list" where
  "calls_of rs = [CHeader (rs_header rs), CStatus (rs_status rs)] @
     concat (map (\<lambda>p. [CWrite p, CFlush]) (rs_chunks rs))"

definition deliver :: "response \<Rightarrow> client \<Rightarrow> client" where
  "deliver rs c = (let h = add_header (rs_header rs) (cl_header c)
     in c\<lparr>cl_header := h, cl_sent := Some (rs_status rs, h), cl_body := cl_body c @ concat (rs_chunks rs)\<rparr>)"

text \<open>
  What is relied on of the reverse proxy: an attempt either reports an error and has
  written nothing, or copies one complete response with a final status.
\<close>

definition proxy_contract :: "upstreams \<Rightarrow> bool" where
  "proxy_contract up = (\<forall>n t. (\<exists>e. up n t = ([], Some e)) \<or>
     (\<exists>rs. up n t = (calls_of rs, None) \<and> 200 \<le> rs_status rs))"

definition started :: "response \<Rightarrow> client \<Rightarrow> client" where
  "started rs c = (let h = add_header (rs_header rs) (cl_header c)
     in c\<lparr>cl_header := h, cl_sent := Some (rs_status rs, h)\<rparr>)"

lemma client_Write_sent: "cl_sent c \<noteq> None \<Longrightarrow> client_Write p c = c\<lparr>cl_body := cl_body c @ p\<rparr>"
  by (auto simp: client_Write_def Let_def)

lemma committed_chunks:
  "cl_sent (sw_w s) \<noteq> None \<Longrightarrow> sw_wroteHdr s \<Longrightarrow> \<not> sw_retry s \<Longrightarrow>
   fold sw_call (concat (map (\<lambda>p. [CWrite p, CFlush]) ps)) s =
   s\<lparr>sw_w := (sw_w s)\<lparr>cl_body := cl_body (sw_w s) @ concat ps\<rparr>\<rparr>"
proof (induction ps arbitrary: s)
  case (Cons p ps)
  have "sw_Write p s = s\<lparr>sw_w := (sw_w s)\<lparr>cl_body := cl_body (sw_w s) @ p\<rparr>\<rparr>"
    using Cons.prems by (simp add: sw_Write_def client_Write_sent)
  with Cons show ?case by simp
qed simp

lemma flush_started:
  "cl_sent (sw_w s) = None \<Longrightarrow> 200 \<le> sw_status s \<Longrightarrow> sw_header s = rs_header rs \<Longrightarrow> sw_status s = rs_status rs \<Longrightarrow>
   flushRetryTo s = s\<lparr>sw_w := (started rs (sw_w s))\<lparr>cl_body := cl_body (sw_w s) @ sw_buf s\<rparr>, sw_buf := []\<rparr>"
  by (simp add: flushRetryTo_def client_WriteHeader_def client_Write_def started_def Let_def)

text \<open>While a response of an upstream in error is held back, nothing of it reaches the client.\<close>

lemma held_chunks:
  assumes "sw_retry s" "sw_wroteHdr s" "cl_sent (sw_w s) = None" "200 \<le> sw_status s"
    "sw_header s = rs_header rs" "sw_status s = rs_status rs"
  defines "out \<equiv> \<lambda>ps. fold sw_call (concat (map (\<lambda>p. [CWrite p, CFlush]) ps)) s"
  shows "(if sw_retry (out ps)
          then out ps = s\<lparr>sw_buf := sw_buf s @ concat ps\<rparr>
          else sw_w (out ps) = (started rs (sw_w s))\<lparr>cl_body := cl_body (sw_w s) @ sw_buf s @ concat ps\<rparr>)"
  using assms(1-6) unfolding out_def
proof (induction ps arbitrary: s)
  case (Cons p ps)
  show ?case
  proof (cases "0 < sw_bufferLimit s \<and> sw_bufferLimit s < int (length (sw_buf s)) + int (length p)")
    case True
    let ?s = "sw_Write p s"
    have w: "?s = s\<lparr>sw_w := (started rs (sw_w s))\<lparr>cl_body := cl_body (sw_w s) @ sw_buf s @ p\<rparr>,
        sw_buf := [], sw_retry := False\<rparr>"
      using Cons.prems True
      by (simp add: sw_Write_def Let_def flush_started) (simp add: client_Write_def started_def Let_def)
    have "cl_sent (sw_w ?s) \<noteq> None" "sw_wroteHdr ?s" "\<not> sw_retry ?s"
      using Cons.prems by (simp_all add: w started_def Let_def)
    then show ?thesis by (simp add: committed_chunks) (simp add: w)
  next
    case False
    then have "sw_Write p s = s\<lparr>sw_buf := sw_buf s @ p\<rparr>"
      using Cons.prems by (auto simp: sw_Write_def Let_def)
    with Cons.IH [of "s\<lparr>sw_buf := sw_buf s @ p\<rparr>"] Cons.prems show ?thesis by (simp cong: if_cong)
  qed
qed simp

lemma calls_of_fold:
  "fold sw_call (calls_of rs) s = fold sw_call (concat (map (\<lambda>p. [CWrite p, CFlush]) (rs_chunks rs)))
     (sw_WriteHeader (rs_status rs) (s\<lparr>sw_header := rs_header rs\<rparr>))"
  by (simp add: calls_of_def)

lemma stream_response:
  assumes c: "cl_sent c = None" and st: "200 \<le> rs_status rs"
  defines "out \<equiv> fold sw_call (calls_of rs) (new_streamWriter c)"
  shows "(sw_retry out \<longrightarrow> sw_w out = c \<and> sw_w (flushRetryTo out) = deliver rs c \<and> 500 \<le> rs_status rs) \<and>
         (\<not> sw_retry out \<longrightarrow> sw_w out = deliver rs c)"
proof -
  define s where "s = sw_WriteHeader (rs_status rs) ((new_streamWriter c)\<lparr>sw_header := rs_header rs\<rparr>)"
  have o: "out = fold sw_call (concat (map (\<lambda>p. [CWrite p, CFlush]) (rs_chunks rs))) s"
    by (simp add: out_def calls_of_fold s_def)
  show ?thesis
  proof (cases "StatusInternalServerError \<le> rs_status rs")
    case False
    then have s: "s = (new_streamWriter c)\<lparr>sw_header := rs_header rs, sw_wroteHdr := True,
        sw_status := rs_status rs, sw_w := started rs c\<rparr>"
      using c st
      by (simp add: s_def new_streamWriter_def sw_WriteHeader_def client_WriteHeader_def started_def Let_def)
    have "out = s\<lparr>sw_w := (sw_w s)\<lparr>cl_body := cl_body (sw_w s) @ concat (rs_chunks rs)\<rparr>\<rparr>"
      unfolding o by (rule committed_chunks) (simp_all add: s started_def Let_def new_streamWriter_def)
    then show ?thesis by (simp add: s deliver_def started_def Let_def new_streamWriter_def)
  next
    case True
    then have s: "s = (new_streamWriter c)\<lparr>sw_header := rs_header rs, sw_wroteHdr := True,
        sw_status := rs_status rs, sw_retry := True\<rparr>"
      by (simp add: s_def new_streamWriter_def sw_WriteHeader_def Let_def)
    have h: "if sw_retry out then out = s\<lparr>sw_buf := sw_buf s @ concat (rs_chunks rs)\<rparr>
        else sw_w out = (started rs (sw_w s))\<lparr>cl_body := cl_body (sw_w s) @ sw_buf s @ concat (rs_chunks rs)\<rparr>"
      unfolding o by (rule held_chunks) (use c st in \<open>simp_all add: s new_streamWriter_def\<close>)
    show ?thesis
    proof (cases "sw_retry out")
      case retry: True
      with h have o: "out = (new_streamWriter c)\<lparr>sw_header := rs_header rs, sw_wroteHdr := True,
          sw_status := rs_status rs, sw_retry := True, sw_buf := concat (rs_chunks rs)\<rparr>"
        by (simp add: s new_streamWriter_def)
      then have "flushRetryTo out = out\<lparr>sw_w := (started rs (sw_w out))\<lparr>cl_body := cl_body (sw_w out) @ sw_buf out\<rparr>, sw_buf := []\<rparr>"
        using c st by (intro flush_started) (simp_all add: new_streamWriter_def)
      with o True show ?thesis
        by (simp add: deliver_def started_def Let_def new_streamWriter_def StatusInternalServerError_def)
    next
      case False
      with h show ?thesis by (simp add: s deliver_def started_def Let_def new_streamWriter_def)
    qed
  qed
qed

text \<open>The client has received one complete response, of one attempt at the target.\<close>

definition answered :: "upstreams \<Rightarrow> string \<Rightarrow> client \<Rightarrow> client \<Rightarrow> bool" where
  "answered up t c c' = (\<exists>n rs. up n t = (calls_of rs, None) \<and> c' = deliver rs c)"

text \<open>One attempt, seen from the client.\<close>

lemma attempt_client:
  assumes up: "proxy_contract up" and c: "cl_sent (ss_client st) = None"
    and a: "serve_attempt up retryOk t st = (x, st')"
  shows "case x of
      Continue \<Rightarrow> retryOk \<and> ss_client st' = ss_client st \<and> ss_lastErr st' \<noteq> None
    | Return (Some e) \<Rightarrow> \<not> retryOk \<and> ss_client st' = ss_client st
    | Return None \<Rightarrow> ss_contacted st' = ss_contacted st @ [t] \<and> answered up t (ss_client st) (ss_client st')"
proof (cases "proxyFor t (ss_cache st)")
  case None
  with a show ?thesis by (auto simp: serve_attempt_def)
next
  case (Some p)
  let ?n = "length (ss_contacted st)"
  from up consider (err) e where "up ?n t = ([], Some e)"
    | (resp) rs where "up ?n t = (calls_of rs, None)" "200 \<le> rs_status rs"
    unfolding proxy_contract_def by blast
  then show ?thesis
  proof cases
    case err
    with a Some show ?thesis by (auto simp: serve_attempt_def Let_def split_beta new_streamWriter_def)
  next
    case resp
    define out where "out = fold sw_call (calls_of rs) (new_streamWriter (ss_client st))"
    obtain u cache where p: "p = (u, cache)" by (cases p)
    define st1 where "st1 = st\<lparr>ss_cache := cache, ss_client := sw_w out, ss_contacted := ss_contacted st @ [t]\<rparr>"
    have e: "serve_attempt up retryOk t st =
        (if sw_retry out then
           (if \<not> retryOk then (Return None, st1\<lparr>ss_lastErr := Some (ErrStatus (sw_status out)), ss_client := sw_w (flushRetryTo out)\<rparr>)
            else (Continue, st1\<lparr>ss_lastErr := Some (ErrStatus (sw_status out))\<rparr>))
         else (Return None, st1))"
      using Some p resp(1) by (simp add: serve_attempt_def Let_def out_def st1_def)
    have "(sw_retry out \<longrightarrow> sw_w out = ss_client st \<and> sw_w (flushRetryTo out) = deliver rs (ss_client st)) \<and>
        (\<not> sw_retry out \<longrightarrow> sw_w out = deliver rs (ss_client st))"
      using stream_response [OF c resp(2)] by (simp add: out_def)
    moreover have "answered up t (ss_client st) (deliver rs (ss_client st))"
      using resp(1) by (auto simp: answered_def)
    ultimately show ?thesis using a unfolding e st1_def by (auto split: if_splits)
  qed
qed

lemma loop_client:
  assumes up: "proxy_contract up"
  shows "cl_sent (ss_client st) = None \<Longrightarrow> serve_loop hw up retryOk k targets st = (res, st') \<Longrightarrow>
    (case res of
       Some e \<Rightarrow> ss_client st' = ss_client st
     | None \<Rightarrow> ss_contacted st' \<noteq> [] \<and> answered up (last (ss_contacted st')) (ss_client st) (ss_client st'))"
proof (induction "length targets - length (ss_tried st)" arbitrary: st rule: less_induct)
  case less
  show ?case
  proof (cases rule: serve_loop_cases [of hw up retryOk k targets st])
    case stop
    with less.prems show ?thesis by (auto simp: finish_def split: option.splits)
  next
    case unhealthy
    with less.prems show ?thesis by auto
  next
    case (return t rr r st2)
    have c: "ss_client (picked t rr st) = ss_client st" by (simp add: picked_def)
    with less.prems have "cl_sent (ss_client (picked t rr st)) = None" by simp
    from attempt_client [OF up this return(2)] less.prems return(3) c show ?thesis
      by (auto split: option.splits)
  next
    case (again t rr st2)
    have c: "ss_client (picked t rr st) = ss_client st" by (simp add: picked_def)
    with less.prems have "cl_sent (ss_client (picked t rr st)) = None" by simp
    from attempt_client [OF up this again(2)] c have c2: "ss_client st2 = ss_client st" by simp
    have "ss_tried st2 = ss_tried st @ [t]" using serve_attempt_step [OF again(2) [symmetric]] by (simp add: picked_def)
    then have "length targets - length (ss_tried st2) < length targets - length (ss_tried st)"
      using again(4) by simp
    from less.hyps [OF this] less.prems again(3) c2 show ?thesis by (simp split: option.splits)
  qed
qed

text \<open>
  With a healthy target that answers, and a request that may be repeated, the loop ends with
  a response.
\<close>

lemma loop_succeeds:
  assumes up: "proxy_contract up"
    and t: "t \<in> set targets" "IsHealthy w t" "Parse t \<noteq> None"
    and good: "\<And>n. \<exists>rs. up n t = (calls_of rs, None) \<and> 200 \<le> rs_status rs \<and> rs_status rs < 500"
  shows "cl_sent (ss_client st) = None \<Longrightarrow> attempts_ok (\<lambda>_. w) targets st \<Longrightarrow> t \<notin> set (ss_tried st) \<Longrightarrow>
    fst (serve_loop (\<lambda>_. w) up True k targets st) = None"
proof (induction "length targets - length (ss_tried st)" arbitrary: st rule: less_induct)
  case less
  have un: "t \<in> set (untried targets st)" using t less.prems by (simp add: untried_def)
  have "set (ss_tried st) \<subset> set targets" using less.prems t by (auto simp: attempts_ok_def)
  then have "card (set (ss_tried st)) < card (set targets)" by (simp add: psubset_card_mono)
  moreover have "card (set (ss_tried st)) = length (ss_tried st)"
    using less.prems by (simp add: attempts_ok_def distinct_card)
  ultimately have len: "length (ss_tried st) < length targets" using card_length [of targets] by linarith
  show ?case
  proof (cases rule: serve_loop_cases [of "\<lambda>_. w" up True k targets st])
    case stop
    with un len show ?thesis by auto
  next
    case unhealthy
    with un t show ?thesis by (auto simp: Pick_None)
  next
    case (return t' rr r st2)
    have "cl_sent (ss_client (picked t' rr st)) = None" using less.prems by (simp add: picked_def)
    from attempt_client [OF up this return(2)] return(3) show ?thesis by (auto split: option.splits)
  next
    case (again t' rr st2)
    have pc: "ss_client (picked t' rr st) = ss_client st" by (simp add: picked_def)
    then have cp: "cl_sent (ss_client (picked t' rr st)) = None" using less.prems by simp
    have c2: "ss_client st2 = ss_client st" using attempt_client [OF up cp again(2)] pc by simp
    have tr: "ss_tried st2 = ss_tried st @ [t']" using serve_attempt_step [OF again(2) [symmetric]] by (simp add: picked_def)
    have ok: "attempts_ok (\<lambda>_. w) targets st2"
      using attempts_ok_step [OF less.prems(2) again(1), of up True] again(2) by simp
    have "t' \<noteq> t"
    proof
      assume [simp]: "t' = t"
      obtain u cache where p: "proxyFor t (ss_cache (picked t rr st)) = Some (u, cache)"
        using t(3) proxyFor_parses by blast
      obtain rs where rs: "up (length (ss_contacted (picked t rr st))) t = (calls_of rs, None)"
        "200 \<le> rs_status rs" "rs_status rs < 500" using good by blast
      from stream_response [OF _ rs(2), of "ss_client (picked t rr st)"] cp rs(3)
      have "\<not> sw_retry (fold sw_call (calls_of rs) (new_streamWriter (ss_client (picked t rr st))))" by auto
      with p rs again(2) show False by (simp add: serve_attempt_def Let_def)
    qed
    then have "t \<notin> set (ss_tried st2)" using tr less.prems by simp
    with less.hyps [of st2] less.prems c2 ok tr len again(3) show ?thesis by simp
  qed
qed

subsection \<open>Fairness\<close>

lemma rotate_nth: "map (\<lambda>i. hs ! ((a + i) mod length hs)) [0..<length hs] = rotate a hs"
  by (rule nth_equalityI) (simp_all add: nth_rotate)

lemma count_distinct: "distinct xs \<Longrightarrow> x \<in> set xs \<Longrightarrow> count_list xs x = 1"
  by (induction xs) auto

lemma count_rounds:
  assumes "distinct hs" "h \<in> set hs"
  shows "count_list (map (\<lambda>i. hs ! ((a + i) mod length hs)) [0..<m * length hs]) h = m"
proof (induction m)
  case (Suc m)
  let ?n = "length hs" and ?f = "\<lambda>i. hs ! ((a + i) mod length hs)"
  have "[m * ?n..<m * ?n + ?n] = map (\<lambda>i. m * ?n + i) [0..<?n]"
    using map_add_upt [of "m * ?n" ?n] by (simp add: add.commute)
  then have "[0..<Suc m * ?n] = [0..<m * ?n] @ map (\<lambda>i. m * ?n + i) [0..<?n]"
    using upt_add_eq_append [of 0 "m * ?n" ?n] by (simp add: add.commute)
  then have "map ?f [0..<Suc m * ?n] = map ?f [0..<m * ?n] @ map (\<lambda>i. ?f (m * ?n + i)) [0..<?n]"
    by simp
  moreover have "?f (m * ?n + i) = ?f i" for i
  proof -
    have "a + (m * ?n + i) = (a + i) + m * ?n" by simp
    then show ?thesis by (metis mod_mult_self1)
  qed
  ultimately have "map ?f [0..<Suc m * ?n] = map ?f [0..<m * ?n] @ rotate a hs"
    by (simp add: rotate_nth)
  moreover have "count_list (rotate a hs) h = 1"
    using assms by (simp add: count_distinct)
  ultimately show ?case using Suc by simp
qed simp

lemma count_list_Some: "count_list (map Some xs) (Some x) = count_list xs x"
  by (induction xs) auto

subsection \<open>Properties\<close>

text \<open>
  Round robin is fair: while the healthy targets of a route stay the same, distinct, and
  the 64-bit counter does not wrap, any number of full rounds chooses each of them equally
  often, from whatever position the counter is at.
\<close>

theorem round_robin_fair:
  assumes "distinct (HealthyTargets w ts)" "t \<in> set (HealthyTargets w ts)"
    and "unat (rr k) + m * length (HealthyTargets w ts) \<le> 2 ^ 64"
  shows "count_list (fst (picks (m * length (HealthyTargets w ts)) w k ts rr)) (Some t) = m"
proof -
  let ?hs = "HealthyTargets w ts"
  have ne: "?hs \<noteq> []" using assms(2) by auto
  have "fst (picks (m * length ?hs) w k ts rr)
      = map Some (map (\<lambda>i. ?hs ! ((unat (rr k) + i) mod length ?hs)) [0..<m * length ?hs])"
    using picks_eq [where rr = rr and k = k, OF refl ne assms(3)] by (simp add: comp_def)
  then show ?thesis by (simp only: count_list_Some count_rounds [OF assms(1,2)])
qed

theorem round_robin_fair_witness:
  "count_list (fst (picks (2 * 3) (NewWorker 0 0 []) ''r'' [''a'', ''b'', ''c''] ((\<lambda>_. 0)(''r'' := 7)))) (Some ''b'') = 2"
proof -
  have "HealthyTargets (NewWorker 0 0 []) [''a'', ''b'', ''c''] = [''a'', ''b'', ''c'']" by code_simp
  with round_robin_fair [of "NewWorker 0 0 []" "[''a'', ''b'', ''c'']" "''b''" "(\<lambda>_. 0)(''r'' := 7)" "''r''" 2]
  show ?thesis by simp
qed

text \<open>
  What one request can do to the upstreams: it contacts each target at most once, only
  targets of the route, and only targets that the health worker reported healthy when they
  were picked; a request that may not be repeated contacts at most one.
\<close>

theorem serve_contacts:
  assumes "Serve hw up r k targets rr cache w = (res, st)"
  shows "distinct (ss_contacted st) \<and> set (ss_contacted st) \<subseteq> set targets \<and>
    (\<forall>t \<in> set (ss_contacted st). \<exists>i < length targets. IsHealthy (hw i) t) \<and>
    (retryOnFailure r \<or> length (ss_contacted st) \<le> 1)"
proof -
  define st0 where "st0 = \<lparr>ss_tried = [], ss_lastErr = None, ss_client = w, ss_rr = rr, ss_cache = cache,
    ss_contacted = []\<rparr>"
  have run: "targets = [] \<and> st = st0 \<or> serve_loop hw up (retryOnFailure r) k targets st0 = (res, st)"
    using assms by (auto simp: Serve_def Let_def st0_def split: if_splits)
  have ok0: "attempts_ok hw targets st0" by (simp add: attempts_ok_def st0_def)
  have ok: "attempts_ok hw targets st"
  proof -
    have "attempts_ok hw targets (snd (serve_loop hw up (retryOnFailure r) k targets st0))"
      by (rule serve_loop_invariant [where I = "attempts_ok hw targets", OF _ ok0]) (rule attempts_ok_step)
    with run ok0 show ?thesis by auto
  qed
  have len: "length (ss_tried st) \<le> length targets"
    using ok by (metis attempts_ok_def card_length card_mono distinct_card finite_set le_trans)
  have "\<exists>i < length targets. IsHealthy (hw i) t" if "t \<in> set (ss_contacted st)" for t
  proof -
    from that ok have "t \<in> set (ss_tried st)" by (auto simp: attempts_ok_def)
    then obtain i where "i < length (ss_tried st)" "ss_tried st ! i = t" by (metis in_set_conv_nth)
    with ok len show ?thesis by (auto simp: attempts_ok_def intro: exI [of _ i])
  qed
  moreover have "length (ss_contacted st) \<le> 1" if "\<not> retryOnFailure r"
    using run
  proof
    assume l: "serve_loop hw up (retryOnFailure r) k targets st0 = (res, st)"
    show ?thesis
    proof (cases rule: serve_loop_cases [of hw up "retryOnFailure r" k targets st0])
      case (return t rr' x st')
      with l contacted_attempt [of up "retryOnFailure r" t "picked t rr' st0"] show ?thesis
        by (auto simp: picked_def st0_def split: if_splits)
    next
      case (again t rr' st')
      with that no_retry_returns [of up t "picked t rr' st0"] show ?thesis by auto
    qed (use l in \<open>auto simp: st0_def finish_def\<close>)
  qed (simp add: st0_def)
  ultimately show ?thesis using ok by (auto simp: attempts_ok_def)
qed

definition sample_request :: "string \<Rightarrow> request" where
  "sample_request m = plain_request m Map.empty []"

theorem serve_contacts_witness:
  "length (ss_contacted (snd (Serve (\<lambda>_. NewWorker 0 0 []) (\<lambda>n t. ([], Some ''down'')) (sample_request ''POST'') ''r''
     [''http://a'', ''http://b''] New_balancer [] new_client))) \<le> 1"
  using serve_contacts [OF prod.collapse [symmetric], of "\<lambda>_. NewWorker 0 0 []" "\<lambda>n t. ([], Some ''down'')"
      "sample_request ''POST''" "''r''" "[''http://a'', ''http://b'']" New_balancer "[]" new_client]
  by (simp add: retryOnFailure_def isFailoverSafeMethod_def sample_request_def plain_request_def)


definition sample_upstreams :: upstreams where
  "sample_upstreams = (\<lambda>n t. (calls_of \<lparr>rs_header = Map.empty,
     rs_status = (if t = ''http://a'' then 500 else 200), rs_chunks = [t]\<rparr>, None))"

lemma sample_contract: "proxy_contract sample_upstreams"
  by (auto simp: proxy_contract_def sample_upstreams_def intro!: exI)

definition sample_run :: "serve_error option \<times> serve_state" where
  "sample_run = Serve (\<lambda>_. NewWorker 0 0 []) sample_upstreams (sample_request ''GET'') ''r''
     [''http://a'', ''http://b''] New_balancer [] new_client"




text \<open>
  An informational response breaks the stream writer: when the upstream sends 103 (Early
  Hints) before its response, the writer takes it for the final header, and the client gets
  200 without the header of the response, whatever the upstream's status was, a server
  error included.
\<close>

theorem early_hints_lost:
  fixes hints h :: header and code :: int and p :: string
  assumes "cl_sent c = None"
  defines "out \<equiv> fold sw_call [CHeader hints, CStatus 103, CHeader h, CStatus code, CWrite p] (new_streamWriter c)"
  shows "\<not> sw_retry out \<and> cl_sent (sw_w out) = Some (200, add_header hints (cl_header c)) \<and>
    cl_body (sw_w out) = cl_body c @ p"
  using assms(1)
  by (simp add: out_def new_streamWriter_def sw_WriteHeader_def sw_Write_def client_WriteHeader_def
      client_Write_def Let_def StatusInternalServerError_def)

theorem early_hints_lost_witness:
  "cl_sent (sw_w (fold sw_call [CHeader Map.empty, CStatus 103, CHeader Map.empty, CStatus 404, CWrite ''x'']
     (new_streamWriter new_client))) = Some (200, add_header Map.empty Map.empty)"
  using early_hints_lost [of new_client "Map.empty" "Map.empty" 404 "''x''"] by (simp add: new_client_def)

end
