(* ===== verification/ClientIP.thy ===== *)
theory ClientIP
  imports Netip
begin

text \<open>
  The client address resolver of \<^verbatim>\<open>internal/clientip/resolver.go\<close>: the trusted
  prefixes (\<open>New\<close>), the parsers of the \<open>Forwarded\<close> and \<open>X-Forwarded-For\<close> headers, and the
  choice of the client's address (\<open>ClientIP\<close>). An error value is \<open>None\<close>: what the code
  does with an error never depends on which one it is.
\<close>

subsection \<open>Text\<close>

definition trimOWS :: "string \<Rightarrow> string" where
  "trimOWS v = Trim v [CHR '' '', CHR 0x09]"

definition isToken :: "string \<Rightarrow> bool" where
  "isToken v = (v \<noteq> [] \<and> list_all is_tchar v)"

definition header_ctl :: "char \<Rightarrow> bool" where
  "header_ctl c = (((of_char c :: nat) < 32 \<and> c \<noteq> CHR 0x09) \<or> (of_char c :: nat) = 127)"

definition containsInvalidHeaderControl :: "string \<Rightarrow> bool" where
  "containsInvalidHeaderControl v = list_ex header_ctl v"

definition headerSize :: "string list \<Rightarrow> nat" where
  "headerSize vs = sum_list (map length vs)"

definition maxForwardedHeaderBytes :: nat where "maxForwardedHeaderBytes = 8192"
definition maxForwardedAddresses :: nat where "maxForwardedAddresses = 64"

definition parseAddress :: "string \<Rightarrow> addr option" where
  "parseAddress raw =
     (let value = trimOWS raw
      in if value = [] then None
         else case ParseAddr value of
           Some a \<Rightarrow> if Zone a = [] then Some (Unmap a) else None
         | None \<Rightarrow>
             (case ParseAddrPort value of
                Some (a, p) \<Rightarrow> if Zone a = [] then Some (Unmap a) else None
              | None \<Rightarrow>
                  if 2 < length value \<and> hd value = CHR ''['' \<and> last value = CHR '']'' then
                    (case ParseAddr (butlast (tl value)) of
                       Some a \<Rightarrow> if Zone a = [] then Some (Unmap a) else None
                     | None \<Rightarrow> None)
                  else None))"

subsection \<open>Trusted proxies\<close>

type_synonym resolver = "prefix_net list"

definition parseTrustedPrefix :: "string \<Rightarrow> prefix_net option" where
  "parseTrustedPrefix raw =
     (let value = TrimSpace raw
      in if value = [] then None
         else if Contains value ''/'' then
           (case ParsePrefix value of
              None \<Rightarrow> None
            | Some p \<Rightarrow>
                if Zone (pf_addr p) \<noteq> [] then None
                else if Is4In6 (pf_addr p) then
                  (if pf_bits p < 96 then None
                   else Some (Masked \<lparr>pf_addr = Unmap (pf_addr p), pf_bits = pf_bits p - 96\<rparr>))
                else Some (Masked p))
         else (case ParseAddr value of
                 None \<Rightarrow> None
               | Some a \<Rightarrow> if Zone a \<noteq> [] then None
                           else Some \<lparr>pf_addr = Unmap a, pf_bits = BitLen (Unmap a)\<rparr>))"

fun New_resolver :: "string list \<Rightarrow> resolver \<Rightarrow> resolver option" where
  "New_resolver [] trusted = Some trusted"
| "New_resolver (raw # rs) trusted =
     (case parseTrustedPrefix raw of
        None \<Rightarrow> None
      | Some p \<Rightarrow> New_resolver rs (if p \<in> set trusted then trusted else trusted @ [p]))"

definition New :: "string list \<Rightarrow> resolver option" where
  "New trustedProxies = New_resolver trustedProxies []"

definition isTrusted :: "resolver \<Rightarrow> addr \<Rightarrow> bool" where
  "isTrusted r a = list_ex (\<lambda>p. prefix_contains p (Unmap a)) r"

subsection \<open>\<open>X-Forwarded-For\<close>\<close>

text \<open>Parse the elements in order, at most \<open>maxForwardedAddresses\<close>.\<close>

fun add_addresses :: "(string \<Rightarrow> addr option) \<Rightarrow> string list \<Rightarrow> addr list \<Rightarrow> addr list option" where
  "add_addresses parse [] chain = Some chain"
| "add_addresses parse (raw # rs) chain =
     (if maxForwardedAddresses \<le> length chain then None
      else case parse raw of
        None \<Rightarrow> None
      | Some a \<Rightarrow> add_addresses parse rs (chain @ [a]))"

fun xff_values :: "string list \<Rightarrow> addr list \<Rightarrow> addr list option" where
  "xff_values [] chain = Some chain"
| "xff_values (v # vs) chain =
     (if containsInvalidHeaderControl v then None
      else case add_addresses parseAddress (Split v (CHR '','')) chain of
        None \<Rightarrow> None
      | Some chain' \<Rightarrow> xff_values vs chain')"

definition parseXForwardedFor :: "string list \<Rightarrow> addr list option" where
  "parseXForwardedFor values =
     (if maxForwardedHeaderBytes < headerSize values then None
      else case xff_values values [] of
        None \<Rightarrow> None
      | Some chain \<Rightarrow> if chain = [] then None else Some chain)"

subsection \<open>\<open>Forwarded\<close>\<close>

text \<open>
  The scan of \<open>splitOutsideQuotes\<close>: whether it is inside quotes, whether the last byte was
  an escaping backslash there, the bytes of the current part (reversed) and the parts.
\<close>

fun split_quotes :: "char \<Rightarrow> bool \<Rightarrow> bool \<Rightarrow> string \<Rightarrow> string list \<Rightarrow> string \<Rightarrow> string list option" where
  "split_quotes d quoted escaped cur parts [] =
     (if quoted \<or> escaped then None
      else let part = trimOWS (rev cur) in if part = [] then None else Some (parts @ [part]))"
| "split_quotes d quoted escaped cur parts (c # s) =
     (if header_ctl c then None
      else if c = CHR 0x5C then split_quotes d quoted (if quoted then \<not> escaped else escaped) (c # cur) parts s
      else if c = CHR 0x22 then split_quotes d (if escaped then quoted else \<not> quoted) False (c # cur) parts s
      else if c = d \<and> \<not> quoted then
        (let part = trimOWS (rev cur) in if part = [] then None else split_quotes d quoted False [] (parts @ [part]) s)
      else split_quotes d quoted False (c # cur) parts s)"

definition splitOutsideQuotes :: "string \<Rightarrow> char \<Rightarrow> string list option" where
  "splitOutsideQuotes v d = (if trimOWS v = [] then None else split_quotes d False False [] [] v)"

fun decode_quoted :: "string \<Rightarrow> string option" where
  "decode_quoted [] = Some []"
| "decode_quoted (c # s) =
     (if c = CHR 0x5C then
        (case s of
           [] \<Rightarrow> None
         | e # r \<Rightarrow> if (of_char e :: nat) < 32 \<or> (of_char e :: nat) = 127 then None
                    else map_option (\<lambda>t. e # t) (decode_quoted r))
      else if (of_char c :: nat) < 32 \<or> (of_char c :: nat) = 127 \<or> c = CHR 0x22 then None
      else map_option (\<lambda>t. c # t) (decode_quoted s))"

definition decodeForwardedValue :: "string \<Rightarrow> string option" where
  "decodeForwardedValue v =
     (if v = [] then None
      else if hd v \<noteq> CHR 0x22 then (if isToken v then Some v else None)
      else if length v < 2 \<or> last v \<noteq> CHR 0x22 then None
      else decode_quoted (butlast (tl v)))"

text \<open>The parameters of an element: the names seen and the value of \<open>for\<close>.\<close>

fun forwarded_params :: "string list \<Rightarrow> string list \<Rightarrow> string \<Rightarrow> string option" where
  "forwarded_params [] seen forValue = Some forValue"
| "forwarded_params (p # ps) seen forValue =
     (let (n, v, found) = Cut (trimOWS p) (CHR ''='');
          name = ToLower (trimOWS n);
          value = trimOWS v
      in if \<not> found \<or> \<not> isToken name \<or> value = [] then None
         else if name \<in> set seen then None
         else case decodeForwardedValue value of
           None \<Rightarrow> None
         | Some decoded \<Rightarrow>
             forwarded_params ps (name # seen) (if name = ''for'' then decoded else forValue))"

definition forwardedForAddress :: "string \<Rightarrow> addr option" where
  "forwardedForAddress element =
     (case splitOutsideQuotes element (CHR '';'') of
        None \<Rightarrow> None
      | Some ps \<Rightarrow>
          (case forwarded_params ps [] [] of
             None \<Rightarrow> None
           | Some v \<Rightarrow> if v = [] then None else parseAddress v))"

fun forwarded_values :: "string list \<Rightarrow> addr list \<Rightarrow> addr list option" where
  "forwarded_values [] chain = Some chain"
| "forwarded_values (v # vs) chain =
     (case splitOutsideQuotes v (CHR '','') of
        None \<Rightarrow> None
      | Some es \<Rightarrow>
          (case add_addresses forwardedForAddress es chain of
             None \<Rightarrow> None
           | Some chain' \<Rightarrow> forwarded_values vs chain'))"

definition parseForwarded :: "string list \<Rightarrow> addr list option" where
  "parseForwarded values =
     (if maxForwardedHeaderBytes < headerSize values then None
      else case forwarded_values values [] of
        None \<Rightarrow> None
      | Some chain \<Rightarrow> if chain = [] then None else Some chain)"

subsection \<open>The client's address\<close>

text \<open>\<open>sameChain\<close> compares element by element.\<close>

fun sameChain :: "addr list \<Rightarrow> addr list \<Rightarrow> bool" where
  "sameChain [] [] = True"
| "sameChain (a # as) (b # bs) = (a = b \<and> sameChain as bs)"
| "sameChain _ _ = False"

text \<open>
  The chain of a request that has forwarding headers; \<open>None\<close> when a header is malformed or
  the two contradict each other.
\<close>

definition forwarded_chain :: "string list \<Rightarrow> string list \<Rightarrow> addr list option" where
  "forwarded_chain forwardedValues xffValues =
     (let chain = (if forwardedValues = [] then Some None
                   else map_option Some (parseForwarded forwardedValues))
      in case chain of
           None \<Rightarrow> None
         | Some fwd \<Rightarrow>
             if xffValues = [] then fwd
             else (case parseXForwardedFor xffValues of
                     None \<Rightarrow> None
                   | Some xff \<Rightarrow>
                       (case fwd of
                          Some c \<Rightarrow> if sameChain c xff then Some xff else None
                        | None \<Rightarrow> Some xff)))"

definition ClientIP :: "resolver option \<Rightarrow> request \<Rightarrow> string" where
  "ClientIP r req =
     (case parseAddress (req_RemoteAddr req) of
        None \<Rightarrow> TrimSpace (req_RemoteAddr req)
      | Some peer \<Rightarrow>
          (let peerText = addr_string peer;
               forwardedValues = hdr_values (req_Header req) ''Forwarded'';
               xffValues = hdr_values (req_Header req) ''X-Forwarded-For''
           in case r of
                None \<Rightarrow> peerText
              | Some trusted \<Rightarrow>
                  if \<not> isTrusted trusted peer then peerText
                  else if forwardedValues = [] \<and> xffValues = [] then peerText
                  else (case forwarded_chain forwardedValues xffValues of
                          None \<Rightarrow> peerText
                        | Some chain \<Rightarrow>
                            (case find (\<lambda>a. \<not> isTrusted trusted a) (rev chain) of
                               None \<Rightarrow> peerText
                             | Some a \<Rightarrow> addr_string a))))"

subsection \<open>Facts\<close>

lemma sameChain_eq: "sameChain a b \<longleftrightarrow> a = b"
  by (induction a b rule: sameChain.induct) auto

lemma find_rev_split:
  "find P (rev xs) = Some x \<Longrightarrow> \<exists>a b. xs = a @ x # b \<and> P x \<and> (\<forall>y \<in> set b. \<not> P y)"
proof (induction xs rule: rev_induct)
  case (snoc z xs)
  show ?case
  proof (cases "P z")
    case True
    with snoc.prems show ?thesis by (intro exI [of _ xs] exI [of _ "[]"]) simp
  next
    case False
    with snoc obtain a b where "xs = a @ x # b" "P x" "\<forall>y \<in> set b. \<not> P y" by auto
    with False show ?thesis by (intro exI [of _ a] exI [of _ "b @ [z]"]) auto
  qed
qed simp

lemma find_rev_append: "find P (rev (a @ b)) = (case find P (rev b) of Some x \<Rightarrow> Some x | None \<Rightarrow> find P (rev a))"
proof -
  have "find P (xs @ ys) = (case find P xs of Some x \<Rightarrow> Some x | None \<Rightarrow> find P ys)" for xs ys
    by (induction xs) auto
  then show ?thesis by simp
qed

lemma Split_sep: "Split (a @ d # b) d = Split a d @ Split b d"
proof (induction a)
  case (Cons c a)
  obtain p ps where "Split a d = p # ps" using Split_ne by (cases "Split a d") auto
  with Cons show ?case by auto
qed simp

lemma add_addresses_append:
  "add_addresses parse (as @ bs) chain =
     (case add_addresses parse as chain of None \<Rightarrow> None | Some c \<Rightarrow> add_addresses parse bs c)"
  by (induction as arbitrary: chain) (auto split: option.splits)

text \<open>What is read does not depend on what was read before, but for the limit on its length.\<close>

lemma add_addresses_prefix:
  "add_addresses parse bs c = Some d \<Longrightarrow> \<exists>e. d = c @ e \<and> (\<forall>c' e'. add_addresses parse bs c' = Some e' \<longrightarrow> e' = c' @ e)"
proof (induction bs arbitrary: c)
  case (Cons b bs)
  then obtain a where a: "parse b = Some a" "add_addresses parse bs (c @ [a]) = Some d"
    by (auto split: if_splits option.splits)
  from Cons.IH [OF a(2)] obtain e where e: "d = (c @ [a]) @ e"
    "\<forall>c' e'. add_addresses parse bs c' = Some e' \<longrightarrow> e' = c' @ e" by blast
  have "e' = c' @ a # e" if "add_addresses parse (b # bs) c' = Some e'" for c' e'
  proof -
    from that a(1) have "add_addresses parse bs (c' @ [a]) = Some e'" by (auto split: if_splits)
    with e(2) have "e' = (c' @ [a]) @ e" by blast
    then show ?thesis by simp
  qed
  with e(1) show ?case by (intro exI [of _ "a # e"]) simp
qed simp

text \<open>The address the forwarding headers establish behind a trusted peer.\<close>

definition header_client :: "resolver \<Rightarrow> string list \<Rightarrow> string list \<Rightarrow> addr option" where
  "header_client r fwd xff =
     (if fwd = [] \<and> xff = [] then None
      else Option.bind (forwarded_chain fwd xff) (\<lambda>chain. find (\<lambda>a. \<not> isTrusted r a) (rev chain)))"

lemma ClientIP_peer:
  assumes "parseAddress (req_RemoteAddr req) = Some peer"
  shows "ClientIP (Some r) req =
    (if isTrusted r peer
     then (case header_client r (hdr_values (req_Header req) ''Forwarded'') (hdr_values (req_Header req) ''X-Forwarded-For'') of
             None \<Rightarrow> addr_string peer | Some a \<Rightarrow> addr_string a)
     else addr_string peer)"
  unfolding ClientIP_def header_client_def assms option.case Let_def
  by (cases "forwarded_chain (hdr_values (req_Header req) ''Forwarded'') (hdr_values (req_Header req) ''X-Forwarded-For'')") simp_all

lemma forwarded_chain_xff: "forwarded_chain [] xff = (if xff = [] then None else parseXForwardedFor xff)"
  by (simp add: forwarded_chain_def split: option.splits)

lemma parseXForwardedFor_one:
  "parseXForwardedFor [v] = Some chain \<Longrightarrow> add_addresses parseAddress (Split v (CHR '','')) [] = Some chain"
  by (simp add: parseXForwardedFor_def split: option.splits if_splits)

subsection \<open>Properties\<close>

text \<open>
  A peer that is not a trusted proxy cannot choose its address: whatever forwarding
  headers its request carries, the resolver answers with the address of the socket. This
  holds for every peer when no proxy is trusted.
\<close>

theorem untrusted_peer_headers_ignored:
  assumes "parseAddress (req_RemoteAddr req) = Some peer"
    and "r = None \<or> \<not> isTrusted (the r) peer"
  shows "ClientIP r req = addr_string peer"
  using assms by (auto simp: ClientIP_def Let_def split: option.splits)

theorem untrusted_peer_headers_ignored_witness:
  "ClientIP (New [''10.0.0.0/8''])
     (plain_request ''GET'' [''X-Forwarded-For'' \<mapsto> [''1.2.3.4'']] ''192.0.2.7:4711'') = ''192.0.2.7''"
proof -
  have p: "parseAddress ''192.0.2.7:4711'' = Some (V4 0xC0000207)" by code_simp
  have n: "New [''10.0.0.0/8''] = Some [\<lparr>pf_addr = V4 0x0A000000, pf_bits = 8\<rparr>]" by code_simp
  have "\<not> isTrusted [\<lparr>pf_addr = V4 0x0A000000, pf_bits = 8\<rparr>] (V4 0xC0000207)" by code_simp
  moreover have "addr_string (V4 0xC0000207) = ''192.0.2.7''" by code_simp
  ultimately show ?thesis unfolding n
    by (subst untrusted_peer_headers_ignored) (simp_all add: plain_request_def p)
qed

text \<open>A request through two trusted proxies.\<close>

definition proxied :: "string \<Rightarrow> request" where
  "proxied xff = plain_request ''GET'' (hdr_set ''X-Forwarded-For'' xff Map.empty) ''10.0.0.1:80''"

definition proxies :: resolver where
  "proxies = [\<lparr>pf_addr = V4 0x0A000000, pf_bits = 8\<rparr>]"

lemma proxied_peer: "parseAddress (req_RemoteAddr (proxied xff)) = Some (V4 0x0A000001)"
proof -
  have "parseAddress ''10.0.0.1:80'' = Some (V4 0x0A000001)" by code_simp
  then show ?thesis by (simp add: proxied_def plain_request_def)
qed

lemma proxied_client: "ClientIP (Some proxies) (proxied ''203.0.113.9, 10.0.0.2'') = ''203.0.113.9''"
  by code_simp

text \<open>
  C7: What the resolver believes: an answer other than the address of the socket is the
  rightmost address of the forwarding chain that is not a trusted proxy, and every hop after
  it, the peer included, is trusted.
\<close>

theorem client_is_rightmost_untrusted:
  assumes "parseAddress (req_RemoteAddr req) = Some peer" "ClientIP (Some r) req \<noteq> addr_string peer"
  shows "isTrusted r peer \<and>
    (\<exists>before client after.
       forwarded_chain (hdr_values (req_Header req) ''Forwarded'') (hdr_values (req_Header req) ''X-Forwarded-For'')
         = Some (before @ client # after) \<and>
       \<not> isTrusted r client \<and> (\<forall>a \<in> set after. isTrusted r a) \<and>
       ClientIP (Some r) req = addr_string client)"
proof -
  let ?f = "hdr_values (req_Header req) ''Forwarded''" and ?x = "hdr_values (req_Header req) ''X-Forwarded-For''"
  from assms(2) obtain a where a: "isTrusted r peer" "header_client r ?f ?x = Some a" "ClientIP (Some r) req = addr_string a"
    unfolding ClientIP_peer [OF assms(1)] by (cases "header_client r ?f ?x") (auto split: if_splits)
  then obtain chain where c: "forwarded_chain ?f ?x = Some chain" "find (\<lambda>a. \<not> isTrusted r a) (rev chain) = Some a"
    by (auto simp: header_client_def bind_eq_Some_conv split: if_splits)
  from find_rev_split [OF c(2)] c(1) a(1,3) show ?thesis by auto
qed

theorem client_is_rightmost_untrusted_witness:
  "\<exists>before client after. forwarded_chain [] [''203.0.113.9, 10.0.0.2''] = Some (before @ client # after) \<and>
     \<not> isTrusted proxies client \<and> addr_string client = ''203.0.113.9''"
proof -
  have v: "hdr_values (req_Header (proxied ''203.0.113.9, 10.0.0.2'')) ''Forwarded'' = []"
    "hdr_values (req_Header (proxied ''203.0.113.9, 10.0.0.2'')) ''X-Forwarded-For'' = [''203.0.113.9, 10.0.0.2'']"
    by code_simp+
  have "addr_string (V4 0x0A000001) = ''10.0.0.1''" by code_simp
  then have "ClientIP (Some proxies) (proxied ''203.0.113.9, 10.0.0.2'') \<noteq> addr_string (V4 0x0A000001)"
    by (simp add: proxied_client)
  from client_is_rightmost_untrusted [OF proxied_peer this] show ?thesis
    unfolding v proxied_client by metis
qed

text \<open>
  A client cannot hide behind addresses it invents: addresses put in front of those the
  proxies have appended to \<open>X-Forwarded-For\<close> leave the answer as it was, provided the
  appended ones establish an untrusted client, or, when they are malformed or too many, make
  the resolver fall back to the address of the socket.
\<close>

theorem forged_prefix_harmless:
  fixes junk :: string
  assumes "parseAddress (req_RemoteAddr req) = Some peer"
    and "hdr_values (req_Header req) ''Forwarded'' = []"
    and "hdr_values (req_Header req) ''X-Forwarded-For'' = [honest]"
    and "ClientIP (Some r) req \<noteq> addr_string peer"
  defines "forged \<equiv> req\<lparr>req_Header := hdr_set ''X-Forwarded-For'' (junk @ CHR '','' # honest) (req_Header req)\<rparr>"
  shows "ClientIP (Some r) forged \<in> {ClientIP (Some r) req, addr_string peer}"
proof -
  have keys: "canonical_key ''Forwarded'' \<noteq> canonical_key ''X-Forwarded-For''" by code_simp
  have vals: "hdr_values (req_Header forged) ''Forwarded'' = []"
    "hdr_values (req_Header forged) ''X-Forwarded-For'' = [junk @ CHR '','' # honest]"
    using assms(2) keys by (simp_all add: forged_def hdr_values_set)
  have remote: "req_RemoteAddr forged = req_RemoteAddr req" by (simp add: forged_def)
  let ?as = "Split junk (CHR '','')" and ?bs = "Split honest (CHR '','')"
  from assms(4) obtain a where a: "isTrusted r peer" "header_client r [] [honest] = Some a"
    "ClientIP (Some r) req = addr_string a"
    unfolding ClientIP_peer [OF assms(1)] assms(2,3)
    by (cases "header_client r [] [honest]") (auto split: if_splits)
  then obtain chain where honest: "parseXForwardedFor [honest] = Some chain"
    "find (\<lambda>a. \<not> isTrusted r a) (rev chain) = Some a"
    by (auto simp: header_client_def forwarded_chain_xff bind_eq_Some_conv split: if_splits)
  have c: "ClientIP (Some r) forged = (case header_client r [] [junk @ CHR '','' # honest] of
      None \<Rightarrow> addr_string peer | Some a \<Rightarrow> addr_string a)"
    using ClientIP_peer [of forged peer r] a(1) assms(1) by (simp add: remote vals)
  show ?thesis
  proof (cases "parseXForwardedFor [junk @ CHR '','' # honest]")
    case None
    then show ?thesis by (simp add: c header_client_def forwarded_chain_xff)
  next
    case (Some all)
    then have "add_addresses parseAddress (?as @ ?bs) [] = Some all"
      using parseXForwardedFor_one [OF Some] by (simp add: Split_sep)
    then obtain mid where mid: "add_addresses parseAddress ?bs mid = Some all"
      by (auto simp: add_addresses_append split: option.splits)
    from add_addresses_prefix [OF parseXForwardedFor_one [OF honest(1)]] mid have all: "all = mid @ chain" by auto
    have "header_client r [] [junk @ CHR '','' # honest] = Some a"
      by (simp add: header_client_def forwarded_chain_xff Some all find_rev_append honest(2) del: rev_append)
    with c a(3) show ?thesis by simp
  qed
qed

theorem forged_prefix_harmless_witness:
  "ClientIP (Some proxies) (proxied ''6.6.6.6,203.0.113.9, 10.0.0.2'') \<in> {''203.0.113.9'', ''10.0.0.1''}"
proof -
  let ?r = "proxied ''203.0.113.9, 10.0.0.2''"
  have v: "hdr_values (req_Header ?r) ''Forwarded'' = []"
    "hdr_values (req_Header ?r) ''X-Forwarded-For'' = [''203.0.113.9, 10.0.0.2'']" by code_simp+
  have p: "addr_string (V4 0x0A000001) = ''10.0.0.1''" by code_simp
  have "?r\<lparr>req_Header := hdr_set ''X-Forwarded-For'' (''6.6.6.6'' @ CHR '','' # ''203.0.113.9, 10.0.0.2'') (req_Header ?r)\<rparr>
      = proxied ''6.6.6.6,203.0.113.9, 10.0.0.2''"
    by (simp add: proxied_def plain_request_def hdr_set_def)
  then show ?thesis
    using forged_prefix_harmless [OF proxied_peer v, of proxies "''6.6.6.6''"] by (simp add: p proxied_client)
qed

end
