(* ===== verification/GoCrypto.thy ===== *)
theory GoCrypto
  imports GoStrings
begin

unbundle bit_operations_syntax

text \<open>
  The two encodings of byte strings the program takes from Go's library: SHA-256
  (\<^verbatim>\<open>crypto/sha256\<close>, FIPS 180-4) on 32-bit words, and base64 in its standard and its
  unpadded URL alphabets (\<^verbatim>\<open>encoding/base64\<close>). A byte is a character.
\<close>

subsection \<open>SHA-256\<close>

type_synonym w32 = "32 word"

definition rotr :: "nat \<Rightarrow> w32 \<Rightarrow> w32" where
  "rotr n x = drop_bit n x OR push_bit (32 - n) x"

text \<open>
  The constants of FIPS 180-4 by their definition: 32 bits of the fractional parts of the cube
  roots and the square roots of the first primes.
\<close>

fun int_root :: "nat \<Rightarrow> nat \<Rightarrow> nat \<Rightarrow> nat \<Rightarrow> nat" where
  "int_root k n 0 acc = acc"
| "int_root k n (Suc b) acc = (let x = acc + 2 ^ b in int_root k n b (if x ^ k \<le> n then x else acc))"

definition small_primes :: "nat list" where
  "small_primes = filter (\<lambda>n. list_all (\<lambda>d. n mod d \<noteq> 0) [2..<n]) [2..<312]"

definition sha_K :: "nat list" where
  "sha_K = map (\<lambda>p. int_root 3 (p * 2 ^ 96) 36 0 mod 2 ^ 32) small_primes"

definition sha_H :: "w32 list" where
  "sha_H = map (\<lambda>p. of_nat (int_root 2 (p * 2 ^ 64) 36 0)) (take 8 small_primes)"

text \<open>The padded message, as the words of its 64-byte blocks.\<close>

definition be_bytes :: "nat \<Rightarrow> nat \<Rightarrow> nat list" where
  "be_bytes k n = map (\<lambda>i. n div 256 ^ (k - 1 - i) mod 256) [0..<k]"

definition sha_pad :: "string \<Rightarrow> nat list" where
  "sha_pad m =
     (let l = length m in
      map of_char m @ [128] @ replicate ((119 - l mod 64) mod 64) 0 @ be_bytes 8 (8 * l mod 2 ^ 64))"

fun be_words :: "nat list \<Rightarrow> w32 list" where
  "be_words (a # b # c # d # s) = of_nat (((a * 256 + b) * 256 + c) * 256 + d) # be_words s"
| "be_words _ = []"

text \<open>The message schedule, latest word first.\<close>

definition sha_extend :: "w32 list \<Rightarrow> w32 list" where
  "sha_extend ws =
     (let x = ws ! 14; y = ws ! 1;
          s0 = rotr 7 x XOR rotr 18 x XOR drop_bit 3 x;
          s1 = rotr 17 y XOR rotr 19 y XOR drop_bit 10 y
      in (ws ! 15 + s0 + ws ! 6 + s1) # ws)"

fun sha_round :: "w32 \<times> w32 \<Rightarrow> w32 list \<Rightarrow> w32 list" where
  "sha_round (k, w) [a, b, c, d, e, f, g, h] =
     (let s1 = rotr 6 e XOR rotr 11 e XOR rotr 25 e;
          ch = (e AND f) XOR (NOT e AND g);
          t1 = h + s1 + ch + k + w;
          s0 = rotr 2 a XOR rotr 13 a XOR rotr 22 a;
          maj = (a AND b) XOR (a AND c) XOR (b AND c)
      in [t1 + (s0 + maj), a, b, c, d + t1, e, f, g])"
| "sha_round _ st = st"

definition sha_compress :: "w32 list \<Rightarrow> w32 list \<Rightarrow> w32 list" where
  "sha_compress block st =
     (let ws = rev ((sha_extend ^^ 48) (rev block))
      in map2 (+) st (fold sha_round (zip (map of_nat sha_K) ws) st))"

function sha_blocks :: "w32 list \<Rightarrow> w32 list \<Rightarrow> w32 list" where
  "sha_blocks ws st = (if ws = [] then st else sha_blocks (drop 16 ws) (sha_compress (take 16 ws) st))"
  by auto
termination by (relation "measure (\<lambda>(ws, st). length ws)") auto

declare sha_blocks.simps [simp del]

definition Sum256 :: "string \<Rightarrow> w32 list" where
  "Sum256 m = sha_blocks (be_words (sha_pad m)) sha_H"

subsection \<open>Base64\<close>

definition b64_url :: "nat \<Rightarrow> char" where
  "b64_url n = ''ABCDEFGHIJKLMNOPQRSTUVWXYZabcdefghijklmnopqrstuvwxyz0123456789-_'' ! (n mod 64)"

fun RawURLEncode :: "string \<Rightarrow> string" where
  "RawURLEncode [] = []"
| "RawURLEncode [a] =
     (let n = of_char a * 65536 in [b64_url (n div 262144), b64_url (n div 4096)])"
| "RawURLEncode [a, b] =
     (let n = of_char a * 65536 + of_char b * 256
      in [b64_url (n div 262144), b64_url (n div 4096), b64_url (n div 64)])"
| "RawURLEncode (a # b # c # s) =
     (let n = of_char a * 65536 + of_char b * 256 + of_char c
      in b64_url (n div 262144) # b64_url (n div 4096) # b64_url (n div 64) # b64_url n # RawURLEncode s)"

lemma length_RawURLEncode: "length (RawURLEncode s) = (4 * length s + 2) div 3"
  by (induction s rule: RawURLEncode.induct) (auto simp: Let_def)

end
