(* ===== verification/Challenge.thy ===== *)
theory Challenge
  imports GoList GoMap GoCrypto
begin

text \<open>
  The challenge store (\<^verbatim>\<open>internal/challenge/challenge.go\<close>): challenges by their
  identifier and verified bindings by their hash, each kept in a map and in a list with the
  oldest at the front. An entry is pointed to by the map and by the list; its identity is
  that of its list element, so the maps take a key to an element.

  The random bytes an operation draws are arguments, and so is the time it reads. The loops
  that evict and that sweep are partial functions: \<open>None\<close> is a call that does not return.
\<close>

subsection \<open>State\<close>

definition ChallengeNone :: string where "ChallengeNone = ''none''"
definition ChallengeText :: string where "ChallengeText = ''text''"
definition ChallengeClick :: string where "ChallengeClick = ''click''"
definition ChallengeSlider :: string where "ChallengeSlider = ''slider''"

lemmas challenge_type_defs = ChallengeNone_def ChallengeText_def ChallengeClick_def ChallengeSlider_def

record challenge =
  ch_ID :: string
  ch_Type :: string
  ch_Answer :: string
  ch_CreatedAt :: gotime
  ch_ExpiresAt :: gotime
  ch_IP :: string
  ch_UserAgent :: string
  ch_Suspicion :: int

type_synonym bindingKey = "w32 list"

record challengeEntry =
  ce_challenge :: challenge
  ce_binding :: bindingKey
  ce_failedAttempts :: int

record verifiedEntry =
  ve_binding :: bindingKey
  ve_expiresAt :: gotime

record cstore =
  cs_challenges :: "(string, nat) gomap"
  cs_challengeOrder :: "challengeEntry golist"
  cs_verified :: "(bindingKey, nat) gomap"
  cs_verifiedOrder :: "verifiedEntry golist"
  cs_maxChallenges :: int
  cs_maxVerified :: int
  cs_maxFailedAttempts :: int
  cs_challengeTTL :: duration
  cs_verificationTTL :: duration

record storeConfig =
  sc_maxChallenges :: int
  sc_maxVerified :: int
  sc_maxFailedAttempts :: int
  sc_challengeTTL :: duration
  sc_verificationTTL :: duration

definition newStore :: "storeConfig \<Rightarrow> cstore" where
  "newStore c =
     \<lparr>cs_challenges = [], cs_challengeOrder = new_list, cs_verified = [], cs_verifiedOrder = new_list,
      cs_maxChallenges = (if sc_maxChallenges c \<le> 0 then 4096 else sc_maxChallenges c),
      cs_maxVerified = (if sc_maxVerified c \<le> 0 then 4096 else sc_maxVerified c),
      cs_maxFailedAttempts = (if sc_maxFailedAttempts c \<le> 0 then 5 else sc_maxFailedAttempts c),
      cs_challengeTTL = (if sc_challengeTTL c \<le> 0 then 5 * Minute else sc_challengeTTL c),
      cs_verificationTTL = (if sc_verificationTTL c \<le> 0 then Hour else sc_verificationTTL c)\<rparr>"

definition Challenge_NewStore :: cstore where
  "Challenge_NewStore = newStore \<lparr>sc_maxChallenges = 0, sc_maxVerified = 0, sc_maxFailedAttempts = 0,
     sc_challengeTTL = 0, sc_verificationTTL = 0\<rparr>"

subsection \<open>Suspicion\<close>

definition bot_words :: "string list" where
  "bot_words = [''bot'', ''crawler'', ''spider'', ''scraper'', ''curl'', ''wget'', ''python'', ''go-http-client'', ''java'']"

definition CalculateSuspicion :: "string \<Rightarrow> string \<Rightarrow> int" where
  "CalculateSuspicion userAgent ip =
     (let ua = ToLower userAgent;
          s0 = (if list_ex (Contains ua) bot_words then 30 else 0);
          s1 = (if userAgent = [] \<or> length userAgent < 10 then s0 + 25 else s0);
          s2 = (if \<not> Contains ua ''mozilla'' \<and> \<not> Contains ua ''chrome'' \<and> \<not> Contains ua ''safari'' then s1 + 15 else s1);
          s3 = (if 10 < Count ua (CHR '';'') \<or> 300 < length ua then s2 + 10 else s2)
      in if 100 < s3 then 100 else s3)"

definition DetermineChallengeType :: "int \<Rightarrow> string" where
  "DetermineChallengeType suspicion =
     (if suspicion < 30 then ChallengeNone
      else if suspicion < 60 then ChallengeText
      else if suspicion < 80 then ChallengeClick
      else ChallengeSlider)"

subsection \<open>Identifiers and answers\<close>

definition GenerateID :: "string \<Rightarrow> string" where
  "GenerateID b = RawURLEncode b"

definition makeBindingKey :: "string \<Rightarrow> bindingKey" where
  "makeBindingKey binding = Sum256 binding"

definition boundedClone :: "string \<Rightarrow> nat \<Rightarrow> string" where
  "boundedClone value limit = (if limit < length value then take limit value else value)"

definition answer_words :: "string list" where
  "answer_words = [''sunrise'', ''mountain'', ''ocean'', ''forest'', ''desert'', ''river'', ''cloud'', ''thunder'']"

definition generateTextAnswer :: "char \<Rightarrow> string" where
  "generateTextAnswer b = answer_words ! (of_char b mod length answer_words)"

definition generateClickAnswer :: "char \<times> char \<times> char \<Rightarrow> string" where
  "generateClickAnswer bs =
     (let (a, b, c) = bs;
          seen = fold (\<lambda>v seen. seen[of_char v mod 9 := True]) [a, b, c] (replicate 9 False)
      in Join (map (\<lambda>i. [digit_char i]) (filter (\<lambda>i. seen ! i) [0..<9])) '','')"

definition generateSliderAnswer :: "char \<Rightarrow> string" where
  "generateSliderAnswer b = (let pos = 20 + of_char b mod 60 in [digit_char (pos div 10)])"

text \<open>The random bytes of one call: those of the identifiers, in order, and of the answer.\<close>

record randomness =
  rnd_ids :: "string list"
  rnd_answer :: "char \<times> char \<times> char"

definition challenge_answer :: "string \<Rightarrow> char \<times> char \<times> char \<Rightarrow> string" where
  "challenge_answer ty b =
     (if ty = ChallengeText then generateTextAnswer (fst b)
      else if ty = ChallengeClick then generateClickAnswer b
      else if ty = ChallengeSlider then generateSliderAnswer (fst b)
      else [])"

subsection \<open>Removal and sweeping\<close>

definition removeChallengeLocked :: "nat \<Rightarrow> cstore \<Rightarrow> cstore" where
  "removeChallengeLocked e s =
     (case Value (cs_challengeOrder s) e of
        None \<Rightarrow> s
      | Some entry \<Rightarrow>
          if map_of (cs_challenges s) (ch_ID (ce_challenge entry)) \<noteq> Some e then s
          else s\<lparr>cs_challenges := AList.delete (ch_ID (ce_challenge entry)) (cs_challenges s),
                 cs_challengeOrder := Remove e (cs_challengeOrder s)\<rparr>)"

definition removeVerifiedLocked :: "nat \<Rightarrow> cstore \<Rightarrow> cstore" where
  "removeVerifiedLocked e s =
     (case Value (cs_verifiedOrder s) e of
        None \<Rightarrow> s
      | Some entry \<Rightarrow>
          if map_of (cs_verified s) (ve_binding entry) \<noteq> Some e then s
          else s\<lparr>cs_verified := AList.delete (ve_binding entry) (cs_verified s),
                 cs_verifiedOrder := Remove e (cs_verifiedOrder s)\<rparr>)"

definition removeOldestChallengeLocked :: "cstore \<Rightarrow> cstore" where
  "removeOldestChallengeLocked s =
     (case Front (cs_challengeOrder s) of None \<Rightarrow> s | Some (e, _) \<Rightarrow> removeChallengeLocked e s)"

definition removeOldestVerifiedLocked :: "cstore \<Rightarrow> cstore" where
  "removeOldestVerifiedLocked s =
     (case Front (cs_verifiedOrder s) of None \<Rightarrow> s | Some (e, _) \<Rightarrow> removeVerifiedLocked e s)"

partial_function (option) sweep_challenges :: "gotime \<Rightarrow> cstore \<Rightarrow> cstore option" where
  "sweep_challenges now s =
     (case Front (cs_challengeOrder s) of
        None \<Rightarrow> Some s
      | Some (e, entry) \<Rightarrow>
          if now < ch_ExpiresAt (ce_challenge entry) then Some s
          else sweep_challenges now (removeChallengeLocked e s))"

partial_function (option) sweep_verified :: "gotime \<Rightarrow> cstore \<Rightarrow> cstore option" where
  "sweep_verified now s =
     (case Front (cs_verifiedOrder s) of
        None \<Rightarrow> Some s
      | Some (e, entry) \<Rightarrow>
          if now < ve_expiresAt entry then Some s
          else sweep_verified now (removeVerifiedLocked e s))"

definition cleanupExpiredLocked :: "gotime \<Rightarrow> cstore \<Rightarrow> cstore option" where
  "cleanupExpiredLocked now s = Option.bind (sweep_challenges now s) (sweep_verified now)"

partial_function (option) evict_challenges :: "cstore \<Rightarrow> cstore option" where
  "evict_challenges s =
     (if int (length (cs_challenges s)) \<ge> cs_maxChallenges s
      then evict_challenges (removeOldestChallengeLocked s) else Some s)"

partial_function (option) evict_verified :: "cstore \<Rightarrow> cstore option" where
  "evict_verified s =
     (if int (length (cs_verified s)) \<ge> cs_maxVerified s
      then evict_verified (removeOldestVerifiedLocked s) else Some s)"

subsection \<open>Operations\<close>

text \<open>The first unused identifier; \<open>None\<close> while all those drawn are in use.\<close>

fun fresh_id :: "(string, nat) gomap \<Rightarrow> string list \<Rightarrow> string option" where
  "fresh_id m [] = None"
| "fresh_id m (b # bs) = (if map_of m (GenerateID b) = None then Some (GenerateID b) else fresh_id m bs)"

definition Create :: "gotime \<Rightarrow> randomness \<Rightarrow> string \<Rightarrow> string \<Rightarrow> int \<Rightarrow> string \<Rightarrow> cstore
    \<Rightarrow> (challenge \<times> cstore) option" where
  "Create now rnd ip userAgent suspicion ty s0 =
     Option.bind (cleanupExpiredLocked now s0) (\<lambda>s1.
     Option.bind (evict_challenges s1) (\<lambda>s.
     Option.bind (fresh_id (cs_challenges s) (rnd_ids rnd)) (\<lambda>i.
       (let c = \<lparr>ch_ID = i, ch_Type = boundedClone ty 32, ch_Answer = challenge_answer ty (rnd_answer rnd),
                 ch_CreatedAt = now, ch_ExpiresAt = now + cs_challengeTTL s, ch_IP = boundedClone ip 256,
                 ch_UserAgent = boundedClone userAgent 512, ch_Suspicion = suspicion\<rparr>;
            entry = \<lparr>ce_challenge = c, ce_binding = makeBindingKey ip, ce_failedAttempts = 0\<rparr>;
            (e, l) = PushBack entry (cs_challengeOrder s)
        in Some (c, s\<lparr>cs_challengeOrder := l, cs_challenges := AList.update i e (cs_challenges s)\<rparr>)))))"

text \<open>Reading an entry of the map: the element and its value.\<close>

definition lookup_challenge :: "string \<Rightarrow> cstore \<Rightarrow> (nat \<times> challengeEntry) option" where
  "lookup_challenge i s =
     (case map_of (cs_challenges s) i of
        None \<Rightarrow> None
      | Some e \<Rightarrow> map_option (\<lambda>entry. (e, entry)) (Value (cs_challengeOrder s) e))"

definition lookup_verified :: "bindingKey \<Rightarrow> cstore \<Rightarrow> (nat \<times> verifiedEntry) option" where
  "lookup_verified b s =
     (case map_of (cs_verified s) b of
        None \<Rightarrow> None
      | Some e \<Rightarrow> map_option (\<lambda>entry. (e, entry)) (Value (cs_verifiedOrder s) e))"

definition Get :: "gotime \<Rightarrow> string \<Rightarrow> cstore \<Rightarrow> (challenge option \<times> cstore) option" where
  "Get now i s =
     (if length i \<noteq> 22 then Some (None, s)
      else (case lookup_challenge i s of
              None \<Rightarrow> Some (None, s)
            | Some (_, entry) \<Rightarrow>
                if now < ch_ExpiresAt (ce_challenge entry) then Some (Some (ce_challenge entry), s)
                else Option.bind (cleanupExpiredLocked now s) (\<lambda>s'.
                       Some (map_option (\<lambda>(_, entry). ce_challenge entry) (lookup_challenge i s'), s'))))"

definition recordFailureLocked :: "nat \<Rightarrow> challengeEntry \<Rightarrow> cstore \<Rightarrow> cstore" where
  "recordFailureLocked e entry s =
     (let entry' = entry\<lparr>ce_failedAttempts := ce_failedAttempts entry + 1\<rparr>;
          s' = s\<lparr>cs_challengeOrder := SetValue e entry' (cs_challengeOrder s)\<rparr>
      in if ce_failedAttempts entry' \<ge> cs_maxFailedAttempts s' then removeChallengeLocked e s' else s')"

definition markVerifiedLocked :: "bindingKey \<Rightarrow> gotime \<Rightarrow> cstore \<Rightarrow> cstore option" where
  "markVerifiedLocked b now s =
     (let expiresAt = now + cs_verificationTTL s
      in case lookup_verified b s of
           Some (e, entry) \<Rightarrow>
             Some (s\<lparr>cs_verifiedOrder :=
               MoveToBack e (SetValue e (entry\<lparr>ve_expiresAt := expiresAt\<rparr>) (cs_verifiedOrder s))\<rparr>)
         | None \<Rightarrow>
             Option.bind (evict_verified s) (\<lambda>s.
               (let (e, l) = PushBack \<lparr>ve_binding = b, ve_expiresAt = expiresAt\<rparr> (cs_verifiedOrder s)
                in Some (s\<lparr>cs_verifiedOrder := l, cs_verified := AList.update b e (cs_verified s)\<rparr>))))"

definition answer_correct :: "challenge \<Rightarrow> string \<Rightarrow> bool" where
  "answer_correct c answer =
     (if ch_Type c = ChallengeText then EqualFold (TrimSpace answer) (TrimSpace (ch_Answer c))
      else if ch_Type c = ChallengeClick \<or> ch_Type c = ChallengeSlider then answer = ch_Answer c
      else False)"

definition Verify :: "gotime \<Rightarrow> string \<Rightarrow> string \<Rightarrow> string \<Rightarrow> cstore \<Rightarrow> (bool \<times> cstore) option" where
  "Verify now i answer ip s0 =
     (let binding = makeBindingKey ip in
      Option.bind (cleanupExpiredLocked now s0) (\<lambda>s.
        if length i \<noteq> 22 then Some (False, s)
        else (case lookup_challenge i s of
                None \<Rightarrow> Some (False, s)
              | Some (e, entry) \<Rightarrow>
                  if ce_binding entry \<noteq> binding then Some (False, s)
                  else if 256 < length answer then Some (False, recordFailureLocked e entry s)
                  else if \<not> answer_correct (ce_challenge entry) answer then Some (False, recordFailureLocked e entry s)
                  else map_option (\<lambda>s'. (True, s')) (markVerifiedLocked binding now (removeChallengeLocked e s)))))"

definition IsVerified :: "gotime \<Rightarrow> string \<Rightarrow> cstore \<Rightarrow> (bool \<times> cstore) option" where
  "IsVerified now ip s =
     (let binding = makeBindingKey ip in
      case lookup_verified binding s of
        None \<Rightarrow> Some (False, s)
      | Some (_, entry) \<Rightarrow>
          if now < ve_expiresAt entry then Some (True, s)
          else Option.bind (cleanupExpiredLocked now s) (\<lambda>s'.
                 Some (case lookup_verified binding s' of
                         None \<Rightarrow> False
                       | Some (_, entry') \<Rightarrow> now < ve_expiresAt entry', s')))"

subsection \<open>A map and a list that index each other\<close>

definition ix_ok :: "('v \<Rightarrow> 'k) \<Rightarrow> ('k, nat) gomap \<Rightarrow> 'v golist \<Rightarrow> bool" where
  "ix_ok keyof m l = (list_ok l \<and> map_ok m \<and> indexes keyof (elems l) (map_of m))"

lemma ix_mem: "ix_ok keyof m l \<Longrightarrow> (e, v) \<in> set (elems l) \<Longrightarrow> map_of m (keyof v) = Some e"
  by (auto simp: ix_ok_def dest: indexes_mem)

lemma ix_key: "ix_ok keyof m l \<Longrightarrow> map_of m k = Some e \<Longrightarrow> \<exists>v. (e, v) \<in> set (elems l) \<and> keyof v = k"
  by (auto simp: ix_ok_def dest: indexesD)

lemma ix_Value: "ix_ok keyof m l \<Longrightarrow> Value l e = Some v \<longleftrightarrow> (e, v) \<in> set (elems l)"
  by (simp add: ix_ok_def Value_iff)

lemma ix_distinct: "ix_ok keyof m l \<Longrightarrow> distinct (map keyof (map snd (elems l)))"
  using indexes_distinct_keys [of keyof "elems l" "map_of m"] by (simp add: ix_ok_def list_ok_def comp_def)

lemma ix_length: "ix_ok keyof m l \<Longrightarrow> length m = length (elems l)"
  using indexes_card [of keyof "elems l" "map_of m"] by (simp add: ix_ok_def list_ok_def length_dom)

lemma ix_None: "ix_ok keyof m l \<Longrightarrow> map_of m k = None \<longleftrightarrow> k \<notin> keyof ` snd ` set (elems l)"
  using ix_key [of keyof m l k] ix_mem [of keyof m l] by (cases "map_of m k") force+

lemma ix_new [simp]: "ix_ok keyof [] new_list"
  by (simp add: ix_ok_def new_list_def list_ok_def)

lemma ix_remove:
  assumes "ix_ok keyof m l" "(e, v) \<in> set (elems l)"
  shows "ix_ok keyof (AList.delete (keyof v) m) (Remove e l)"
    and "map snd (elems (Remove e l)) = filter (\<lambda>w. keyof w \<noteq> keyof v) (map snd (elems l))"
proof -
  have l: "list_ok l" "map_ok m" "indexes keyof (elems l) (map_of m)" using assms(1) by (auto simp: ix_ok_def)
  then show "ix_ok keyof (AList.delete (keyof v) m) (Remove e l)"
    using back_list.indexes_remove [OF l(1) l(3) assms(2)] by (simp add: ix_ok_def go_intros)
  show "map snd (elems (Remove e l)) = filter (\<lambda>w. keyof w \<noteq> keyof v) (map snd (elems l))"
    using indexes_filter [OF l(3) assms(2)] l(1) by (simp add: Remove_def list_ok_def)
qed

lemma ix_remove_front:
  assumes "ix_ok keyof m l" "elems l = (e, v) # ps"
  shows "map snd (elems (Remove e l)) = map snd ps"
proof -
  have d: "distinct (map fst (elems l))" using assms(1) by (simp add: ix_ok_def list_ok_def)
  have "fst p \<noteq> e" if "p \<in> set ps" for p
    using d that imageI [of p "set ps" fst] by (auto simp: assms(2))
  then have "filter (\<lambda>p. fst p \<noteq> e) ps = ps" by (simp add: filter_id_conv)
  then show ?thesis by (simp add: Remove_def assms(2))
qed

lemma ix_push:
  assumes "ix_ok keyof m l" "map_of m (keyof v) = None"
  shows "ix_ok keyof (AList.update (keyof v) (fst (PushBack v l)) m) (snd (PushBack v l))"
    and "map snd (elems (snd (PushBack v l))) = map snd (elems l) @ [v]"
  using back_list.indexes_push [of l keyof "map_of m" v] assms
  by (auto simp: ix_ok_def go_intros elems_PushBack)

lemma ix_set:
  assumes "ix_ok keyof m l" "(e, old) \<in> set (elems l)" "keyof new = keyof old"
  shows "ix_ok keyof m (SetValue e new l)"
    and "map snd (elems (SetValue e new l)) = map (\<lambda>w. if keyof w = keyof old then new else w) (map snd (elems l))"
    and "(e, new) \<in> set (elems (SetValue e new l))"
proof -
  have l: "list_ok l" "indexes keyof (elems l) (map_of m)" "distinct (map fst (elems l))"
    using assms(1) by (auto simp: ix_ok_def list_ok_def)
  have s: "set (elems (SetValue e new l)) = insert (e, new) {p \<in> set (elems l). fst p \<noteq> e}"
    using assms(2) by (force simp: SetValue_def)
  show "(e, new) \<in> set (elems (SetValue e new l))" by (simp add: s)
  show "ix_ok keyof m (SetValue e new l)"
    using assms(1) indexes_replace [OF l(2,3) assms(2,3) s] by (simp add: ix_ok_def go_intros)
  have "fst p = e \<longleftrightarrow> keyof (snd p) = keyof old" if "p \<in> set (elems l)" for p
    using that assms(2) ix_mem [OF assms(1)] by (metis eq_key_imp_eq_value l(3) option.inject prod.collapse)
  then show "map snd (elems (SetValue e new l)) = map (\<lambda>w. if keyof w = keyof old then new else w) (map snd (elems l))"
    by (simp add: SetValue_def)
qed

lemma ix_move:
  assumes "ix_ok keyof m l" "(e, v) \<in> set (elems l)"
  shows "ix_ok keyof m (MoveToBack e l)"
    and "map snd (elems (MoveToBack e l)) = filter (\<lambda>w. keyof w \<noteq> keyof v) (map snd (elems l)) @ [v]"
proof -
  have l: "list_ok l" "indexes keyof (elems l) (map_of m)" "distinct (map fst (elems l))"
    using assms(1) by (auto simp: ix_ok_def list_ok_def)
  show "ix_ok keyof m (MoveToBack e l)"
    using assms(1) back_list.indexes_touch [OF l(1,2)] by (simp add: ix_ok_def go_intros)
  show "map snd (elems (MoveToBack e l)) = filter (\<lambda>w. keyof w \<noteq> keyof v) (map snd (elems l)) @ [v]"
    using indexes_filter [OF l(2) assms(2) l(3)] filter_eq_fst [OF l(3) assms(2)] by (simp add: MoveToBack_def)
qed

subsection \<open>Invariant and view\<close>

abbreviation cid :: "challengeEntry \<Rightarrow> string" where "cid w \<equiv> ch_ID (ce_challenge w)"

definition cs_ok :: "cstore \<Rightarrow> bool" where
  "cs_ok s = (ix_ok cid (cs_challenges s) (cs_challengeOrder s) \<and>
     ix_ok ve_binding (cs_verified s) (cs_verifiedOrder s) \<and>
     1 \<le> cs_maxChallenges s \<and> 1 \<le> cs_maxVerified s \<and> 1 \<le> cs_maxFailedAttempts s \<and>
     0 < cs_challengeTTL s \<and> 0 < cs_verificationTTL s \<and>
     int (length (elems (cs_challengeOrder s))) \<le> cs_maxChallenges s \<and>
     int (length (elems (cs_verifiedOrder s))) \<le> cs_maxVerified s \<and>
     (\<forall>w \<in> snd ` set (elems (cs_challengeOrder s)).
        0 \<le> ce_failedAttempts w \<and> ce_failedAttempts w < cs_maxFailedAttempts s))"

text \<open>What a store holds, oldest first, and the parameters that never change.\<close>

type_synonym cview = "challengeEntry list \<times> verifiedEntry list"

definition view :: "cstore \<Rightarrow> cview" where
  "view s = (map snd (elems (cs_challengeOrder s)), map snd (elems (cs_verifiedOrder s)))"

definition limits :: "cstore \<Rightarrow> storeConfig" where
  "limits s = \<lparr>sc_maxChallenges = cs_maxChallenges s, sc_maxVerified = cs_maxVerified s,
     sc_maxFailedAttempts = cs_maxFailedAttempts s, sc_challengeTTL = cs_challengeTTL s,
     sc_verificationTTL = cs_verificationTTL s\<rparr>"

lemma limits_eq_iff: "limits s = limits t \<longleftrightarrow> cs_maxChallenges s = cs_maxChallenges t \<and>
    cs_maxVerified s = cs_maxVerified t \<and> cs_maxFailedAttempts s = cs_maxFailedAttempts t \<and>
    cs_challengeTTL s = cs_challengeTTL t \<and> cs_verificationTTL s = cs_verificationTTL t"
  by (simp add: limits_def)

lemma newStore_ok: "cs_ok (newStore c)"
  by (auto simp: cs_ok_def newStore_def new_list_def duration_defs ix_new [unfolded new_list_def])

lemma newStore_view: "view (newStore c) = ([], [])"
  by (simp add: view_def newStore_def new_list_def)

lemma removeChallenge_ok:
  assumes "cs_ok s" "(e, w) \<in> set (elems (cs_challengeOrder s))"
  shows "cs_ok (removeChallengeLocked e s)" "limits (removeChallengeLocked e s) = limits s"
    "view (removeChallengeLocked e s) = (filter (\<lambda>x. cid x \<noteq> cid w) (fst (view s)), snd (view s))"
    "cs_verified (removeChallengeLocked e s) = cs_verified s"
    "cs_verifiedOrder (removeChallengeLocked e s) = cs_verifiedOrder s"
proof -
  have ix: "ix_ok cid (cs_challenges s) (cs_challengeOrder s)" using assms(1) by (simp add: cs_ok_def)
  have eq: "removeChallengeLocked e s = s\<lparr>cs_challenges := AList.delete (cid w) (cs_challenges s),
      cs_challengeOrder := Remove e (cs_challengeOrder s)\<rparr>"
    using ix_mem [OF ix assms(2)] assms(2) by (simp add: removeChallengeLocked_def iffD2 [OF ix_Value [OF ix]])
  have sub: "set (elems (Remove e (cs_challengeOrder s))) \<subseteq> set (elems (cs_challengeOrder s))"
    by (auto simp: Remove_def)
  have len: "length (elems (Remove e (cs_challengeOrder s))) \<le> length (elems (cs_challengeOrder s))"
    by (simp add: Remove_def)
  show "cs_ok (removeChallengeLocked e s)"
    using assms(1) ix_remove(1) [OF ix assms(2)] sub len unfolding eq cs_ok_def by auto
  show "view (removeChallengeLocked e s) = (filter (\<lambda>x. cid x \<noteq> cid w) (fst (view s)), snd (view s))"
    using ix_remove(2) [OF ix assms(2)] by (simp add: eq view_def)
qed (auto simp: removeChallengeLocked_def limits_def split: option.splits)

lemma removeVerified_ok:
  assumes "cs_ok s" "(e, w) \<in> set (elems (cs_verifiedOrder s))"
  shows "cs_ok (removeVerifiedLocked e s)" "limits (removeVerifiedLocked e s) = limits s"
    "view (removeVerifiedLocked e s) = (fst (view s), filter (\<lambda>x. ve_binding x \<noteq> ve_binding w) (snd (view s)))"
proof -
  have ix: "ix_ok ve_binding (cs_verified s) (cs_verifiedOrder s)" using assms(1) by (simp add: cs_ok_def)
  have eq: "removeVerifiedLocked e s = s\<lparr>cs_verified := AList.delete (ve_binding w) (cs_verified s),
      cs_verifiedOrder := Remove e (cs_verifiedOrder s)\<rparr>"
    using ix_mem [OF ix assms(2)] assms(2) by (simp add: removeVerifiedLocked_def iffD2 [OF ix_Value [OF ix]])
  have len: "length (elems (Remove e (cs_verifiedOrder s))) \<le> length (elems (cs_verifiedOrder s))"
    by (simp add: Remove_def)
  show "cs_ok (removeVerifiedLocked e s)"
    using assms(1) ix_remove(1) [OF ix assms(2)] len unfolding eq cs_ok_def by auto
  show "view (removeVerifiedLocked e s) = (fst (view s), filter (\<lambda>x. ve_binding x \<noteq> ve_binding w) (snd (view s)))"
    using ix_remove(2) [OF ix assms(2)] by (simp add: eq view_def)
qed (auto simp: removeVerifiedLocked_def limits_def split: option.splits)

subsection \<open>The abstract store\<close>

text \<open>
  What the store promises, on the two lists alone: expired entries leave from the front,
  room is made by dropping the oldest, an entry is found by its key.
\<close>

definition v_clean :: "gotime \<Rightarrow> cview \<Rightarrow> cview" where
  "v_clean now v = (dropWhile (\<lambda>w. \<not> now < ch_ExpiresAt (ce_challenge w)) (fst v),
     dropWhile (\<lambda>w. \<not> now < ve_expiresAt w) (snd v))"

definition v_room :: "int \<Rightarrow> 'v list \<Rightarrow> 'v list" where
  "v_room n xs = drop (length xs + 1 - nat n) xs"

definition v_find :: "string \<Rightarrow> cview \<Rightarrow> challengeEntry option" where
  "v_find i v = find (\<lambda>w. cid w = i) (fst v)"

definition v_verified :: "bindingKey \<Rightarrow> cview \<Rightarrow> verifiedEntry option" where
  "v_verified b v = find (\<lambda>w. ve_binding w = b) (snd v)"

definition v_drop :: "string \<Rightarrow> cview \<Rightarrow> cview" where
  "v_drop i v = (filter (\<lambda>w. cid w \<noteq> i) (fst v), snd v)"

definition v_fail :: "storeConfig \<Rightarrow> challengeEntry \<Rightarrow> cview \<Rightarrow> cview" where
  "v_fail L w v =
     (if ce_failedAttempts w + 1 \<ge> sc_maxFailedAttempts L then v_drop (cid w) v
      else (map (\<lambda>x. if cid x = cid w then w\<lparr>ce_failedAttempts := ce_failedAttempts w + 1\<rparr> else x) (fst v), snd v))"

definition v_mark :: "storeConfig \<Rightarrow> bindingKey \<Rightarrow> gotime \<Rightarrow> cview \<Rightarrow> cview" where
  "v_mark L b now v =
     (let new = \<lparr>ve_binding = b, ve_expiresAt = now + sc_verificationTTL L\<rparr>
      in if v_verified b v = None then (fst v, v_room (sc_maxVerified L) (snd v) @ [new])
         else (fst v, filter (\<lambda>x. ve_binding x \<noteq> b) (snd v) @ [new]))"

definition spec_Create :: "storeConfig \<Rightarrow> gotime \<Rightarrow> randomness \<Rightarrow> string \<Rightarrow> string \<Rightarrow> int \<Rightarrow> string \<Rightarrow> cview
    \<Rightarrow> (challenge \<times> cview) option" where
  "spec_Create L now rnd ip userAgent suspicion ty v0 =
     (let v = v_clean now v0; cs = v_room (sc_maxChallenges L) (fst v)
      in case find (\<lambda>i. i \<notin> cid ` set cs) (map GenerateID (rnd_ids rnd)) of
           None \<Rightarrow> None
         | Some i \<Rightarrow>
             (let c = \<lparr>ch_ID = i, ch_Type = boundedClone ty 32, ch_Answer = challenge_answer ty (rnd_answer rnd),
                       ch_CreatedAt = now, ch_ExpiresAt = now + sc_challengeTTL L, ch_IP = boundedClone ip 256,
                       ch_UserAgent = boundedClone userAgent 512, ch_Suspicion = suspicion\<rparr>
              in Some (c, cs @ [\<lparr>ce_challenge = c, ce_binding = makeBindingKey ip, ce_failedAttempts = 0\<rparr>], snd v)))"

definition spec_Get :: "gotime \<Rightarrow> string \<Rightarrow> cview \<Rightarrow> challenge option \<times> cview" where
  "spec_Get now i v =
     (if length i \<noteq> 22 then (None, v)
      else (case v_find i v of
              None \<Rightarrow> (None, v)
            | Some w \<Rightarrow>
                if now < ch_ExpiresAt (ce_challenge w) then (Some (ce_challenge w), v)
                else (map_option ce_challenge (v_find i (v_clean now v)), v_clean now v)))"

definition spec_Verify :: "storeConfig \<Rightarrow> gotime \<Rightarrow> string \<Rightarrow> string \<Rightarrow> string \<Rightarrow> cview \<Rightarrow> bool \<times> cview" where
  "spec_Verify L now i answer ip v0 =
     (let v = v_clean now v0; b = makeBindingKey ip
      in case (if length i = 22 then v_find i v else None) of
           None \<Rightarrow> (False, v)
         | Some w \<Rightarrow>
             if ce_binding w \<noteq> b then (False, v)
             else if length answer \<le> 256 \<and> answer_correct (ce_challenge w) answer
               then (True, v_mark L b now (v_drop i v))
             else (False, v_fail L w v))"

definition spec_IsVerified :: "gotime \<Rightarrow> string \<Rightarrow> cview \<Rightarrow> bool \<times> cview" where
  "spec_IsVerified now ip v =
     (case v_verified (makeBindingKey ip) v of
        None \<Rightarrow> (False, v)
      | Some w \<Rightarrow>
          if now < ve_expiresAt w then (True, v)
          else (case v_verified (makeBindingKey ip) (v_clean now v) of None \<Rightarrow> False | Some w' \<Rightarrow> now < ve_expiresAt w',
                v_clean now v))"

subsection \<open>The loops return\<close>

lemma filter_head: "distinct (map f (w # r)) \<Longrightarrow> filter (\<lambda>x. f x \<noteq> f w) (w # r) = r"
  by (auto simp: filter_id_conv image_iff)

lemma view_ids: "cs_ok s \<Longrightarrow> distinct (map cid (fst (view s))) \<and> distinct (map ve_binding (snd (view s)))"
  by (auto simp: cs_ok_def view_def dest: ix_distinct)

lemma length_view: "length (fst (view s)) = length (elems (cs_challengeOrder s))"
  "length (snd (view s)) = length (elems (cs_verifiedOrder s))"
  by (simp_all add: view_def)

lemma remove_front_challenge:
  assumes "cs_ok s" "Front (cs_challengeOrder s) = Some (e, w)"
  shows "cs_ok (removeChallengeLocked e s) \<and> limits (removeChallengeLocked e s) = limits s \<and>
    fst (view s) = w # fst (view (removeChallengeLocked e s)) \<and> snd (view (removeChallengeLocked e s)) = snd (view s)"
proof -
  obtain ps where ps: "elems (cs_challengeOrder s) = (e, w) # ps"
    using assms(2) by (auto simp: Front_def split: list.splits)
  then have mem: "(e, w) \<in> set (elems (cs_challengeOrder s))" by simp
  have v: "fst (view s) = w # map snd ps" by (simp add: view_def ps)
  have "filter (\<lambda>x. cid x \<noteq> cid w) (fst (view s)) = map snd ps"
    using filter_head [of cid w "map snd ps"] view_ids [OF assms(1)] by (simp add: v)
  then show ?thesis using removeChallenge_ok [OF assms(1) mem] v by simp
qed

lemma remove_front_verified:
  assumes "cs_ok s" "Front (cs_verifiedOrder s) = Some (e, w)"
  shows "cs_ok (removeVerifiedLocked e s) \<and> limits (removeVerifiedLocked e s) = limits s \<and>
    snd (view s) = w # snd (view (removeVerifiedLocked e s)) \<and> fst (view (removeVerifiedLocked e s)) = fst (view s)"
proof -
  obtain ps where ps: "elems (cs_verifiedOrder s) = (e, w) # ps"
    using assms(2) by (auto simp: Front_def split: list.splits)
  then have mem: "(e, w) \<in> set (elems (cs_verifiedOrder s))" by simp
  have v: "snd (view s) = w # map snd ps" by (simp add: view_def ps)
  have "filter (\<lambda>x. ve_binding x \<noteq> ve_binding w) (snd (view s)) = map snd ps"
    using filter_head [of ve_binding w "map snd ps"] view_ids [OF assms(1)] by (simp add: v)
  then show ?thesis using removeVerified_ok [OF assms(1) mem] v by simp
qed

lemma Front_None_view: "Front (cs_challengeOrder s) = None \<longleftrightarrow> fst (view s) = []"
  "Front (cs_verifiedOrder s) = None \<longleftrightarrow> snd (view s) = []"
  by (auto simp: Front_def view_def split: list.splits)

lemma Front_Some_view: "Front (cs_challengeOrder s) = Some (e, w) \<Longrightarrow> \<exists>r. fst (view s) = w # r"
  "Front (cs_verifiedOrder s) = Some (e, x) \<Longrightarrow> \<exists>r. snd (view s) = x # r"
  by (auto simp: Front_def view_def split: list.splits)

lemma sweep_challenges_ok:
  "cs_ok s \<Longrightarrow> \<exists>s'. sweep_challenges now s = Some s' \<and> cs_ok s' \<and> limits s' = limits s \<and>
     view s' = (fst (v_clean now (view s)), snd (view s))"
proof (induction "length (fst (view s))" arbitrary: s)
  case 0
  then have "Front (cs_challengeOrder s) = None" using Front_None_view(1) [of s] by simp
  with 0 show ?case by (subst sweep_challenges.simps) (simp add: v_clean_def prod_eq_iff)
next
  case (Suc n)
  then obtain e w where f: "Front (cs_challengeOrder s) = Some (e, w)"
    by (metis Front_None_view(1) length_0_conv nat.distinct(1) option.exhaust prod.exhaust)
  let ?t = "removeChallengeLocked e s"
  note r = remove_front_challenge [OF Suc.prems f]
  show ?case
  proof (cases "now < ch_ExpiresAt (ce_challenge w)")
    case True
    then show ?thesis
      using r Suc.prems by (subst sweep_challenges.simps) (simp add: f v_clean_def prod_eq_iff)
  next
    case False
    have "n = length (fst (view ?t))" using Suc.hyps(2) r by simp
    from Suc.hyps(1) [OF this] r obtain s' where "sweep_challenges now ?t = Some s'" "cs_ok s'" "limits s' = limits s"
      "view s' = (fst (v_clean now (view ?t)), snd (view s))" by auto
    with False r show ?thesis by (subst sweep_challenges.simps) (simp add: f v_clean_def)
  qed
qed

lemma sweep_verified_ok:
  "cs_ok s \<Longrightarrow> \<exists>s'. sweep_verified now s = Some s' \<and> cs_ok s' \<and> limits s' = limits s \<and>
     view s' = (fst (view s), snd (v_clean now (view s)))"
proof (induction "length (snd (view s))" arbitrary: s)
  case 0
  then have "Front (cs_verifiedOrder s) = None" using Front_None_view(2) [of s] by simp
  with 0 show ?case by (subst sweep_verified.simps) (simp add: v_clean_def prod_eq_iff)
next
  case (Suc n)
  then obtain e w where f: "Front (cs_verifiedOrder s) = Some (e, w)"
    by (metis Front_None_view(2) length_0_conv nat.distinct(1) option.exhaust prod.exhaust)
  let ?t = "removeVerifiedLocked e s"
  note r = remove_front_verified [OF Suc.prems f]
  show ?case
  proof (cases "now < ve_expiresAt w")
    case True
    then show ?thesis
      using r Suc.prems by (subst sweep_verified.simps) (simp add: f v_clean_def prod_eq_iff)
  next
    case False
    have "n = length (snd (view ?t))" using Suc.hyps(2) r by simp
    from Suc.hyps(1) [OF this] r obtain s' where "sweep_verified now ?t = Some s'" "cs_ok s'" "limits s' = limits s"
      "view s' = (fst (view s), snd (v_clean now (view ?t)))" by auto
    with False r show ?thesis by (subst sweep_verified.simps) (simp add: f v_clean_def)
  qed
qed

lemma cleanup_ok:
  assumes "cs_ok s"
  shows "\<exists>s'. cleanupExpiredLocked now s = Some s' \<and> cs_ok s' \<and> limits s' = limits s \<and> view s' = v_clean now (view s)"
proof -
  obtain s1 where 1: "sweep_challenges now s = Some s1" "cs_ok s1" "limits s1 = limits s"
      "view s1 = (fst (v_clean now (view s)), snd (view s))"
    using sweep_challenges_ok [OF assms] by blast
  obtain s2 where "sweep_verified now s1 = Some s2" "cs_ok s2" "limits s2 = limits s1"
      "view s2 = (fst (view s1), snd (v_clean now (view s1)))"
    using sweep_verified_ok [OF 1(2)] by blast
  with 1 show ?thesis by (simp add: cleanupExpiredLocked_def v_clean_def)
qed

lemma drop_head_room: "nat n \<le> length (w # r) \<Longrightarrow> 1 \<le> n \<Longrightarrow> v_room n (w # r) = v_room n r"
proof -
  assume "nat n \<le> length (w # r)" "1 \<le> n"
  then have "length (w # r) + 1 - nat n = Suc (length r + 1 - nat n)" by simp
  then show ?thesis unfolding v_room_def by (simp only: drop_Suc_Cons)
qed

lemma evict_challenges_ok:
  "cs_ok s \<Longrightarrow> \<exists>s'. evict_challenges s = Some s' \<and> cs_ok s' \<and> limits s' = limits s \<and>
     view s' = (v_room (cs_maxChallenges s) (fst (view s)), snd (view s)) \<and>
     int (length (fst (view s'))) < cs_maxChallenges s"
proof (induction "length (fst (view s))" arbitrary: s)
  case 0
  then have "length (cs_challenges s) = 0" "1 \<le> cs_maxChallenges s"
    by (auto simp: cs_ok_def length_view dest: ix_length)
  with 0 show ?case by (subst evict_challenges.simps) (simp add: v_room_def prod_eq_iff)
next
  case (Suc n)
  then have len: "length (cs_challenges s) = Suc n" and m: "1 \<le> cs_maxChallenges s"
    by (auto simp: cs_ok_def length_view dest: ix_length)
  obtain e w where f: "Front (cs_challengeOrder s) = Some (e, w)"
    using Suc.hyps(2) by (metis Front_None_view(1) length_0_conv nat.distinct(1) option.exhaust prod.exhaust)
  let ?t = "removeOldestChallengeLocked s"
  have r: "cs_ok ?t" "limits ?t = limits s" "fst (view s) = w # fst (view ?t)" "snd (view ?t) = snd (view s)"
    using remove_front_challenge [OF Suc.prems f] by (auto simp: removeOldestChallengeLocked_def f)
  show ?case
  proof (cases "int (Suc n) < cs_maxChallenges s")
    case True
    then have "length (fst (view s)) + 1 - nat (cs_maxChallenges s) = 0" using Suc.hyps(2) by simp
    with True show ?thesis
      using Suc.prems Suc.hyps(2) by (subst evict_challenges.simps) (auto simp: len v_room_def prod_eq_iff)
  next
    case False
    have "n = length (fst (view ?t))" using Suc.hyps(2) r(3) by simp
    from Suc.hyps(1) [OF this r(1)] r(2,4) obtain s' where "evict_challenges ?t = Some s'" "cs_ok s'" "limits s' = limits s"
      "view s' = (v_room (cs_maxChallenges s) (fst (view ?t)), snd (view s))" "int (length (fst (view s'))) < cs_maxChallenges s"
      by (auto simp: limits_eq_iff)
    moreover have "v_room (cs_maxChallenges s) (fst (view s)) = v_room (cs_maxChallenges s) (fst (view ?t))"
      unfolding r(3) using False Suc.hyps(2) r(3) m by (intro drop_head_room) auto
    ultimately show ?thesis using False by (subst evict_challenges.simps) (simp add: len)
  qed
qed

lemma evict_verified_ok:
  "cs_ok s \<Longrightarrow> \<exists>s'. evict_verified s = Some s' \<and> cs_ok s' \<and> limits s' = limits s \<and>
     view s' = (fst (view s), v_room (cs_maxVerified s) (snd (view s))) \<and>
     int (length (snd (view s'))) < cs_maxVerified s"
proof (induction "length (snd (view s))" arbitrary: s)
  case 0
  then have "length (cs_verified s) = 0" "1 \<le> cs_maxVerified s"
    by (auto simp: cs_ok_def length_view dest: ix_length)
  with 0 show ?case by (subst evict_verified.simps) (simp add: v_room_def prod_eq_iff)
next
  case (Suc n)
  then have len: "length (cs_verified s) = Suc n" and m: "1 \<le> cs_maxVerified s"
    by (auto simp: cs_ok_def length_view dest: ix_length)
  obtain e w where f: "Front (cs_verifiedOrder s) = Some (e, w)"
    using Suc.hyps(2) by (metis Front_None_view(2) length_0_conv nat.distinct(1) option.exhaust prod.exhaust)
  let ?t = "removeOldestVerifiedLocked s"
  have r: "cs_ok ?t" "limits ?t = limits s" "snd (view s) = w # snd (view ?t)" "fst (view ?t) = fst (view s)"
    using remove_front_verified [OF Suc.prems f] by (auto simp: removeOldestVerifiedLocked_def f)
  show ?case
  proof (cases "int (Suc n) < cs_maxVerified s")
    case True
    then have "length (snd (view s)) + 1 - nat (cs_maxVerified s) = 0" using Suc.hyps(2) by simp
    with True show ?thesis
      using Suc.prems Suc.hyps(2) by (subst evict_verified.simps) (auto simp: len v_room_def prod_eq_iff)
  next
    case False
    have "n = length (snd (view ?t))" using Suc.hyps(2) r(3) by simp
    from Suc.hyps(1) [OF this r(1)] r(2,4) obtain s' where "evict_verified ?t = Some s'" "cs_ok s'" "limits s' = limits s"
      "view s' = (fst (view s), v_room (cs_maxVerified s) (snd (view ?t)))" "int (length (snd (view s'))) < cs_maxVerified s"
      by (auto simp: limits_eq_iff)
    moreover have "v_room (cs_maxVerified s) (snd (view s)) = v_room (cs_maxVerified s) (snd (view ?t))"
      unfolding r(3) using False Suc.hyps(2) r(3) m by (intro drop_head_room) auto
    ultimately show ?thesis using False by (subst evict_verified.simps) (simp add: len)
  qed
qed

subsection \<open>The operations implement the abstract store\<close>

lemma find_eq_Some_mem: "find P xs = Some x \<Longrightarrow> x \<in> set xs \<and> P x"
  by (rule find_someD)

lemma find_key: "distinct (map f xs) \<Longrightarrow> x \<in> set xs \<Longrightarrow> find (\<lambda>y. f y = f x) xs = Some x"
  by (induction xs) (auto simp: image_iff)

lemma lookup_challenge_mem:
  assumes "cs_ok s" "lookup_challenge i s = Some (e, w)"
  shows "(e, w) \<in> set (elems (cs_challengeOrder s)) \<and> cid w = i"
proof -
  have ix: "ix_ok cid (cs_challenges s) (cs_challengeOrder s)" using assms(1) by (simp add: cs_ok_def)
  from assms(2) have m: "map_of (cs_challenges s) i = Some e" and v: "Value (cs_challengeOrder s) e = Some w"
    by (auto simp: lookup_challenge_def split: option.splits)
  from v have mem: "(e, w) \<in> set (elems (cs_challengeOrder s))" by (simp add: ix_Value [OF ix])
  obtain v where "(e, v) \<in> set (elems (cs_challengeOrder s))" "cid v = i" using ix_key [OF ix m] by auto
  with mem v show ?thesis by (metis ix ix_Value option.inject)
qed

lemma lookup_challenge_view:
  assumes "cs_ok s"
  shows "v_find i (view s) = map_option snd (lookup_challenge i s)"
proof (cases "lookup_challenge i s")
  case None
  have ix: "ix_ok cid (cs_challenges s) (cs_challengeOrder s)" using assms by (simp add: cs_ok_def)
  have "map_of (cs_challenges s) i = None"
  proof (rule ccontr)
    assume "map_of (cs_challenges s) i \<noteq> None"
    then obtain e where e: "map_of (cs_challenges s) i = Some e" by auto
    with ix_key [OF ix] obtain v where "(e, v) \<in> set (elems (cs_challengeOrder s))" by blast
    with e None show False by (simp add: lookup_challenge_def ix_Value [OF ix, symmetric])
  qed
  then show ?thesis
    using None by (auto simp: v_find_def view_def find_none_iff ix_None [OF ix])
next
  case (Some p)
  then obtain e w where p: "lookup_challenge i s = Some (e, w)" by (cases p) auto
  from lookup_challenge_mem [OF assms p] have "w \<in> set (fst (view s))" "cid w = i" by (force simp: view_def)+
  then have "v_find i (view s) = Some w"
    using find_key [of cid "fst (view s)" w] view_ids [OF assms] by (simp add: v_find_def)
  with p show ?thesis by simp
qed

lemma lookup_verified_mem:
  assumes "cs_ok s" "lookup_verified b s = Some (e, w)"
  shows "(e, w) \<in> set (elems (cs_verifiedOrder s)) \<and> ve_binding w = b"
proof -
  have ix: "ix_ok ve_binding (cs_verified s) (cs_verifiedOrder s)" using assms(1) by (simp add: cs_ok_def)
  from assms(2) have m: "map_of (cs_verified s) b = Some e" and v: "Value (cs_verifiedOrder s) e = Some w"
    by (auto simp: lookup_verified_def split: option.splits)
  from v have mem: "(e, w) \<in> set (elems (cs_verifiedOrder s))" by (simp add: ix_Value [OF ix])
  obtain v where "(e, v) \<in> set (elems (cs_verifiedOrder s))" "ve_binding v = b" using ix_key [OF ix m] by auto
  with mem v show ?thesis by (metis ix ix_Value option.inject)
qed

lemma lookup_verified_view:
  assumes "cs_ok s"
  shows "v_verified b (view s) = map_option snd (lookup_verified b s)"
proof (cases "lookup_verified b s")
  case None
  have ix: "ix_ok ve_binding (cs_verified s) (cs_verifiedOrder s)" using assms by (simp add: cs_ok_def)
  have "map_of (cs_verified s) b = None"
  proof (rule ccontr)
    assume "map_of (cs_verified s) b \<noteq> None"
    then obtain e where e: "map_of (cs_verified s) b = Some e" by auto
    with ix_key [OF ix] obtain v where "(e, v) \<in> set (elems (cs_verifiedOrder s))" by blast
    with e None show False by (simp add: lookup_verified_def ix_Value [OF ix, symmetric])
  qed
  then show ?thesis
    using None by (auto simp: v_verified_def view_def find_none_iff ix_None [OF ix])
next
  case (Some p)
  then obtain e w where p: "lookup_verified b s = Some (e, w)" by (cases p) auto
  from lookup_verified_mem [OF assms p] have "w \<in> set (snd (view s))" "ve_binding w = b" by (force simp: view_def)+
  then have "v_verified b (view s) = Some w"
    using find_key [of ve_binding "snd (view s)" w] view_ids [OF assms] by (simp add: v_verified_def)
  with p show ?thesis by simp
qed

lemma fresh_id_find: "fresh_id m bs = find (\<lambda>i. map_of m i = None) (map GenerateID bs)"
  by (induction bs) auto

lemma Create_refines:
  assumes "cs_ok s"
  shows "case spec_Create (limits s) now rnd ip ua susp ty (view s) of
      None \<Rightarrow> Create now rnd ip ua susp ty s = None
    | Some (c, v) \<Rightarrow> \<exists>s'. Create now rnd ip ua susp ty s = Some (c, s') \<and> cs_ok s' \<and> limits s' = limits s \<and> view s' = v"
proof -
  obtain s1 where 1: "cleanupExpiredLocked now s = Some s1" "cs_ok s1" "limits s1 = limits s" "view s1 = v_clean now (view s)"
    using cleanup_ok [OF assms] by blast
  obtain s2 where 2: "evict_challenges s1 = Some s2" "cs_ok s2" "limits s2 = limits s"
      "view s2 = (v_room (cs_maxChallenges s1) (fst (view s1)), snd (view s1))"
      "int (length (fst (view s2))) < cs_maxChallenges s1"
    using evict_challenges_ok [OF 1(2)] 1(3) by auto
  have ix: "ix_ok cid (cs_challenges s2) (cs_challengeOrder s2)" using 2(2) by (simp add: cs_ok_def)
  have max: "cs_maxChallenges s1 = sc_maxChallenges (limits s)" "cs_maxChallenges s2 = sc_maxChallenges (limits s)"
    "cs_challengeTTL s2 = sc_challengeTTL (limits s)"
    using 1(3) 2(3) by (auto simp: limits_def)
  let ?cs = "v_room (sc_maxChallenges (limits s)) (fst (v_clean now (view s)))"
  have "fst (view s2) = ?cs" using 2(4) 1(4) by (simp add: max)
  then have cs: "map snd (elems (cs_challengeOrder s2)) = ?cs" by (simp add: view_def)
  have free: "map_of (cs_challenges s2) i = None \<longleftrightarrow> i \<notin> cid ` set ?cs" for i
    unfolding ix_None [OF ix] cs [symmetric] by simp
  have fresh: "fresh_id (cs_challenges s2) (rnd_ids rnd) = find (\<lambda>i. i \<notin> cid ` set ?cs) (map GenerateID (rnd_ids rnd))"
    by (simp add: fresh_id_find free)
  show ?thesis
  proof (cases "find (\<lambda>i. i \<notin> cid ` set ?cs) (map GenerateID (rnd_ids rnd))")
    case None
    then show ?thesis by (simp add: spec_Create_def Let_def Create_def 1(1) 2(1) fresh)
  next
    case (Some i)
    define c where "c = \<lparr>ch_ID = i, ch_Type = boundedClone ty 32, ch_Answer = challenge_answer ty (rnd_answer rnd),
      ch_CreatedAt = now, ch_ExpiresAt = now + cs_challengeTTL s2, ch_IP = boundedClone ip 256,
      ch_UserAgent = boundedClone ua 512, ch_Suspicion = susp\<rparr>"
    define w where "w = \<lparr>ce_challenge = c, ce_binding = makeBindingKey ip, ce_failedAttempts = 0\<rparr>"
    let ?l = "PushBack w (cs_challengeOrder s2)"
    let ?s = "s2\<lparr>cs_challengeOrder := snd ?l, cs_challenges := AList.update i (fst ?l) (cs_challenges s2)\<rparr>"
    have cidw: "cid w = i" by (simp add: w_def c_def)
    have "map_of (cs_challenges s2) (cid w) = None"
      using find_someD [OF Some] by (simp add: free cidw)
    from ix_push [OF ix this] have p: "ix_ok cid (cs_challenges ?s) (cs_challengeOrder ?s)"
      "map snd (elems (cs_challengeOrder ?s)) = ?cs @ [w]" by (simp_all add: cidw cs)
    have w0: "ce_failedAttempts w = 0" by (simp add: w_def)
    have "cs_ok ?s"
      using 2(2,5) p(1) w0 unfolding cs_ok_def max by (auto simp: elems_PushBack length_view max)
    moreover have "view ?s = (?cs @ [w], snd (v_clean now (view s)))"
      using p(2) arg_cong [OF 2(4), of snd] 1(4) by (simp add: view_def [of ?s]) (simp add: view_def)
    moreover have "Create now rnd ip ua susp ty s = Some (c, ?s)"
      by (simp add: Create_def 1(1) 2(1) fresh Some c_def w_def split_beta Let_def)
    moreover have "spec_Create (limits s) now rnd ip ua susp ty (view s) = Some (c, ?cs @ [w], snd (v_clean now (view s)))"
      by (simp add: spec_Create_def Let_def Some c_def w_def max(3))
    moreover have "limits ?s = limits s" using 2(3) by (simp add: limits_eq_iff)
    ultimately show ?thesis by simp
  qed
qed

lemma Get_refines:
  assumes "cs_ok s"
  shows "\<exists>s'. Get now i s = Some (fst (spec_Get now i (view s)), s') \<and> cs_ok s' \<and> limits s' = limits s \<and>
    view s' = snd (spec_Get now i (view s))"
proof -
  obtain s' where c: "cleanupExpiredLocked now s = Some s'" "cs_ok s'" "limits s' = limits s" "view s' = v_clean now (view s)"
    using cleanup_ok [OF assms] by blast
  show ?thesis
    using assms c lookup_challenge_view [OF assms, of i] lookup_challenge_view [OF c(2), of i]
    by (auto simp: Get_def spec_Get_def case_prod_unfold option.map_comp comp_def split: option.splits)
qed

lemma IsVerified_refines:
  assumes "cs_ok s"
  shows "\<exists>s'. IsVerified now ip s = Some (fst (spec_IsVerified now ip (view s)), s') \<and> cs_ok s' \<and> limits s' = limits s \<and>
    view s' = snd (spec_IsVerified now ip (view s))"
proof -
  obtain s' where c: "cleanupExpiredLocked now s = Some s'" "cs_ok s'" "limits s' = limits s" "view s' = v_clean now (view s)"
    using cleanup_ok [OF assms] by blast
  show ?thesis
    using assms c lookup_verified_view [OF assms, of "makeBindingKey ip"] lookup_verified_view [OF c(2), of "makeBindingKey ip"]
    by (auto simp: IsVerified_def spec_IsVerified_def Let_def split: option.splits)
qed

lemma removeChallenge_drop:
  assumes "cs_ok s" "lookup_challenge i s = Some (e, w)"
  shows "cs_ok (removeChallengeLocked e s)" "limits (removeChallengeLocked e s) = limits s"
    "view (removeChallengeLocked e s) = v_drop i (view s)"
  using removeChallenge_ok [OF assms(1)] lookup_challenge_mem [OF assms] by (auto simp: v_drop_def)

lemma recordFailure_refines:
  assumes "cs_ok s" "lookup_challenge i s = Some (e, w)"
  shows "cs_ok (recordFailureLocked e w s)" "limits (recordFailureLocked e w s) = limits s"
    "view (recordFailureLocked e w s) = v_fail (limits s) w (view s)"
proof -
  let ?w = "w\<lparr>ce_failedAttempts := ce_failedAttempts w + 1\<rparr>"
  let ?s = "s\<lparr>cs_challengeOrder := SetValue e ?w (cs_challengeOrder s)\<rparr>"
  have ix: "ix_ok cid (cs_challenges s) (cs_challengeOrder s)" using assms(1) by (simp add: cs_ok_def)
  have mem: "(e, w) \<in> set (elems (cs_challengeOrder s))" "cid w = i" using lookup_challenge_mem [OF assms] by auto
  note set = ix_set [OF ix mem(1), of ?w, simplified]
  have lim: "sc_maxFailedAttempts (limits s) = cs_maxFailedAttempts s" by (simp add: limits_def)
  have vs: "view ?s = (map (\<lambda>x. if cid x = cid w then ?w else x) (fst (view s)), snd (view s))"
    using set(2) by (simp add: view_def)
  have len: "length (elems (SetValue e ?w (cs_challengeOrder s))) = length (elems (cs_challengeOrder s))"
    by (simp add: SetValue_def)
  have vals: "x = ?w \<or> x \<in> snd ` set (elems (cs_challengeOrder s))" if "x \<in> snd ` set (elems (SetValue e ?w (cs_challengeOrder s)))" for x
    using that by (force simp: SetValue_def split: if_splits)
  have fw: "0 \<le> ce_failedAttempts w" using assms(1) mem(1) by (force simp: cs_ok_def)
  show lims: "limits (recordFailureLocked e w s) = limits s"
    by (auto simp: recordFailureLocked_def Let_def limits_def removeChallengeLocked_def split: option.splits)
  show "cs_ok (recordFailureLocked e w s)" "view (recordFailureLocked e w s) = v_fail (limits s) w (view s)"
  proof (atomize (full), cases "ce_failedAttempts w + 1 \<ge> cs_maxFailedAttempts s")
    case True
    let ?r = "removeChallengeLocked e ?s"
    have eq: "?r = s\<lparr>cs_challengeOrder := Remove e (SetValue e ?w (cs_challengeOrder s)),
        cs_challenges := AList.delete (cid w) (cs_challenges s)\<rparr>"
      using set(3) ix_mem [OF ix mem(1)] by (simp add: removeChallengeLocked_def iffD2 [OF ix_Value [OF set(1)]])
    have rr: "Remove e (SetValue e ?w (cs_challengeOrder s)) = Remove e (cs_challengeOrder s)"
    proof -
      have "map (\<lambda>p. if fst p = e then (e, ?w) else p) (filter (\<lambda>p. fst p \<noteq> e) xs) = filter (\<lambda>p. fst p \<noteq> e) xs" for xs
        by (rule map_idI) auto
      moreover have "(\<lambda>p. fst (if fst p = e then (e, ?w) else p) \<noteq> e) = (\<lambda>p. fst p \<noteq> e)"
        by (auto simp: fun_eq_iff)
      ultimately show ?thesis by (simp add: Remove_def SetValue_def filter_map comp_def)
    qed
    have "?r = removeChallengeLocked e s"
      unfolding eq rr using ix_mem [OF ix mem(1)] mem(1) by (simp add: removeChallengeLocked_def iffD2 [OF ix_Value [OF ix]])
    then have "recordFailureLocked e w s = removeChallengeLocked e s"
      using True by (simp add: recordFailureLocked_def Let_def)
    then show "cs_ok (recordFailureLocked e w s) \<and> view (recordFailureLocked e w s) = v_fail (limits s) w (view s)"
      using removeChallenge_drop [OF assms] True mem(2) by (simp add: v_fail_def lim)
  next
    case False
    then have eq: "recordFailureLocked e w s = ?s" by (simp add: recordFailureLocked_def Let_def)
    have "cs_ok ?s"
      using assms(1) set(1) len False fw vals unfolding cs_ok_def by fastforce
    then show "cs_ok (recordFailureLocked e w s) \<and> view (recordFailureLocked e w s) = v_fail (limits s) w (view s)"
      using False by (simp add: eq vs v_fail_def lim)
  qed
qed

lemma markVerified_refines:
  assumes "cs_ok s"
  shows "\<exists>s'. markVerifiedLocked b now s = Some s' \<and> cs_ok s' \<and> limits s' = limits s \<and>
    view s' = v_mark (limits s) b now (view s)"
proof (cases "lookup_verified b s")
  case None
  obtain t where t: "evict_verified s = Some t" "cs_ok t" "limits t = limits s"
      "view t = (fst (view s), v_room (cs_maxVerified s) (snd (view s)))" "int (length (snd (view t))) < cs_maxVerified s"
    using evict_verified_ok [OF assms] by blast
  let ?w = "\<lparr>ve_binding = b, ve_expiresAt = now + cs_verificationTTL s\<rparr>"
  let ?l = "PushBack ?w (cs_verifiedOrder t)"
  let ?t = "t\<lparr>cs_verifiedOrder := snd ?l, cs_verified := AList.update b (fst ?l) (cs_verified t)\<rparr>"
  have ix: "ix_ok ve_binding (cs_verified t) (cs_verifiedOrder t)" using t(2) by (simp add: cs_ok_def)
  have "b \<notin> ve_binding ` set (snd (view s))"
    using None lookup_verified_view [OF assms, of b] by (auto simp: v_verified_def find_none_iff)
  then have "b \<notin> ve_binding ` set (snd (view t))" using t(4) by (auto simp: v_room_def dest: in_set_dropD)
  then have "map_of (cs_verified t) (ve_binding ?w) = None" by (auto simp: ix_None [OF ix] view_def)
  from ix_push [OF ix this] have p: "ix_ok ve_binding (cs_verified ?t) (cs_verifiedOrder ?t)"
    "map snd (elems (cs_verifiedOrder ?t)) = snd (view t) @ [?w]" by (simp_all add: view_def)
  have m: "cs_maxVerified t = cs_maxVerified s" using t(3) by (simp add: limits_eq_iff)
  have "cs_ok ?t" using t(2,5) p(1) m unfolding cs_ok_def by (simp add: elems_PushBack length_view)
  moreover have "view ?t = v_mark (limits s) b now (view s)"
    using p(2) t(4) None lookup_verified_view [OF assms, of b]
    by (simp add: v_mark_def Let_def view_def [of ?t]) (simp add: view_def limits_def)
  moreover have "markVerifiedLocked b now s = Some ?t"
    by (simp add: markVerifiedLocked_def None t(1) split_beta Let_def)
  ultimately show ?thesis using t(3) by (simp add: limits_eq_iff)
next
  case (Some p)
  then obtain e w where l: "lookup_verified b s = Some (e, w)" by (cases p) auto
  have ix: "ix_ok ve_binding (cs_verified s) (cs_verifiedOrder s)" using assms by (simp add: cs_ok_def)
  have mem: "(e, w) \<in> set (elems (cs_verifiedOrder s))" "ve_binding w = b" using lookup_verified_mem [OF assms l] by auto
  let ?w = "w\<lparr>ve_expiresAt := now + cs_verificationTTL s\<rparr>"
  note set = ix_set [OF ix mem(1), of ?w, simplified]
  note mv = ix_move [OF set(1,3)]
  let ?t = "s\<lparr>cs_verifiedOrder := MoveToBack e (SetValue e ?w (cs_verifiedOrder s))\<rparr>"
  have wb: "?w = \<lparr>ve_binding = b, ve_expiresAt = now + cs_verificationTTL s\<rparr>" using mem(2) by (cases w) simp
  have "length (elems (MoveToBack e (SetValue e ?w (cs_verifiedOrder s)))) = length (elems (cs_verifiedOrder s))"
    using set(1) by (simp add: back_list.length_touch ix_ok_def) (simp add: SetValue_def)
  then have "cs_ok ?t" using assms mv(1) unfolding cs_ok_def by auto
  moreover have "filter (\<lambda>x. ve_binding x \<noteq> b) (map (\<lambda>x. if ve_binding x = b then ?w else x) xs) =
      filter (\<lambda>x. ve_binding x \<noteq> b) xs" for xs
    using mem(2) by (induction xs) auto
  then have "map snd (elems (cs_verifiedOrder ?t)) = filter (\<lambda>x. ve_binding x \<noteq> b) (map snd (elems (cs_verifiedOrder s))) @ [?w]"
    using mv(2) ix_set(2) [OF ix mem(1), of ?w] mem(2) by (simp del: map_map)
  then have "view ?t = v_mark (limits s) b now (view s)"
    using l lookup_verified_view [OF assms, of b]
    by (simp add: v_mark_def Let_def wb [symmetric] limits_def) (simp add: view_def)
  moreover have "markVerifiedLocked b now s = Some ?t"
    by (simp add: markVerifiedLocked_def l Let_def)
  ultimately show ?thesis by (auto simp: limits_def)
qed

lemma Verify_refines:
  assumes "cs_ok s"
  shows "\<exists>s'. Verify now i a ip s = Some (fst (spec_Verify (limits s) now i a ip (view s)), s') \<and> cs_ok s' \<and>
    limits s' = limits s \<and> view s' = snd (spec_Verify (limits s) now i a ip (view s))"
proof -
  obtain t where c: "cleanupExpiredLocked now s = Some t" "cs_ok t" "limits t = limits s" "view t = v_clean now (view s)"
    using cleanup_ok [OF assms] by blast
  note lv = lookup_challenge_view [OF c(2), of i]
  show ?thesis
  proof (cases "length i = 22 \<and> lookup_challenge i t \<noteq> None")
    case False
    then have "length i \<noteq> 22 \<or> lookup_challenge i t = None \<and> v_find i (v_clean now (view s)) = None"
      using False lv c(4) by (cases "lookup_challenge i t") auto
    then show ?thesis using c by (auto simp: Verify_def spec_Verify_def Let_def)
  next
    case True
    then obtain e w where l: "length i = 22" "lookup_challenge i t = Some (e, w)" by auto
    obtain t' where m: "markVerifiedLocked (makeBindingKey ip) now (removeChallengeLocked e t) = Some t'" "cs_ok t'"
        "limits t' = limits s" "view t' = v_mark (limits s) (makeBindingKey ip) now (v_drop i (view t))"
      using markVerified_refines [OF removeChallenge_drop(1) [OF c(2) l(2)]] removeChallenge_drop [OF c(2) l(2)] c(3) by metis
    note f = recordFailure_refines [OF c(2) l(2)]
    have v: "v_find i (v_clean now (view s)) = Some w" using lv l(2) c(4) by simp
    show ?thesis
      using c m f l(1) v by (auto simp: Verify_def spec_Verify_def Let_def l(2))
  qed
qed

end
