(* ===== verification/ChallengeSafety.thy ===== *)
theory ChallengeSafety
  imports Challenge
begin

text \<open>
  What the challenge store guarantees over any sequence of calls: it behaves as the abstract
  store of two lists, a binding counts as verified only after a challenge issued for it was
  answered, and a challenge can be tried only a bounded number of times.
\<close>

subsection \<open>Runs\<close>

datatype cop =
    OpCreate gotime randomness string string int string
  | OpGet gotime string
  | OpVerify gotime string string string
  | OpIsVerified gotime string

datatype cres = RChallenge challenge | RGet "challenge option" | RBool bool

fun op_time :: "cop \<Rightarrow> gotime" where
  "op_time (OpCreate t rnd ip ua susp ty) = t"
| "op_time (OpGet t i) = t"
| "op_time (OpVerify t i a ip) = t"
| "op_time (OpIsVerified t ip) = t"

fun chal_step :: "cop \<Rightarrow> cstore \<Rightarrow> (cres \<times> cstore) option" where
  "chal_step (OpCreate t rnd ip ua susp ty) s = map_option (apfst RChallenge) (Create t rnd ip ua susp ty s)"
| "chal_step (OpGet t i) s = map_option (apfst RGet) (Get t i s)"
| "chal_step (OpVerify t i a ip) s = map_option (apfst RBool) (Verify t i a ip s)"
| "chal_step (OpIsVerified t ip) s = map_option (apfst RBool) (IsVerified t ip s)"

fun chal_run :: "cop list \<Rightarrow> cstore \<Rightarrow> (cres list \<times> cstore) option" where
  "chal_run [] s = Some ([], s)"
| "chal_run (c # cs) s =
     Option.bind (chal_step c s) (\<lambda>(r, s'). map_option (apfst (Cons r)) (chal_run cs s'))"

fun spec_step :: "storeConfig \<Rightarrow> cop \<Rightarrow> cview \<Rightarrow> (cres \<times> cview) option" where
  "spec_step L (OpCreate t rnd ip ua susp ty) v = map_option (apfst RChallenge) (spec_Create L t rnd ip ua susp ty v)"
| "spec_step L (OpGet t i) v = Some (apfst RGet (spec_Get t i v))"
| "spec_step L (OpVerify t i a ip) v = Some (apfst RBool (spec_Verify L t i a ip v))"
| "spec_step L (OpIsVerified t ip) v = Some (apfst RBool (spec_IsVerified t ip v))"

fun spec_run :: "storeConfig \<Rightarrow> cop list \<Rightarrow> cview \<Rightarrow> (cres list \<times> cview) option" where
  "spec_run L [] v = Some ([], v)"
| "spec_run L (c # cs) v =
     Option.bind (spec_step L c v) (\<lambda>(r, v'). map_option (apfst (Cons r)) (spec_run L cs v'))"

lemma step_refines:
  assumes "cs_ok s"
  shows "case spec_step (limits s) c (view s) of
      None \<Rightarrow> chal_step c s = None
    | Some (r, v) \<Rightarrow> \<exists>s'. chal_step c s = Some (r, s') \<and> cs_ok s' \<and> limits s' = limits s \<and> view s' = v"
proof (cases c)
  case (OpCreate t rnd ip ua susp ty)
  with Create_refines [OF assms, of t rnd ip ua susp ty] show ?thesis
    by (cases "spec_Create (limits s) t rnd ip ua susp ty (view s)") (auto split: prod.splits)
next
  case (OpGet t i)
  with Get_refines [OF assms, of t i] show ?thesis by (auto simp: apfst_def map_prod_def split_beta)
next
  case (OpVerify t i a ip)
  with Verify_refines [OF assms, of t i a ip] show ?thesis by (auto simp: apfst_def map_prod_def split_beta)
next
  case (OpIsVerified t ip)
  with IsVerified_refines [OF assms, of t ip] show ?thesis by (auto simp: apfst_def map_prod_def split_beta)
qed

lemma run_refines:
  assumes "cs_ok s"
  shows "case spec_run (limits s) cs (view s) of
      None \<Rightarrow> chal_run cs s = None
    | Some (rs, v) \<Rightarrow> \<exists>s'. chal_run cs s = Some (rs, s') \<and> cs_ok s' \<and> limits s' = limits s \<and> view s' = v"
  using assms
proof (induction cs arbitrary: s)
  case (Cons c cs)
  note st = step_refines [OF Cons.prems, of c]
  show ?case
  proof (cases "spec_step (limits s) c (view s)")
    case None
    with st show ?thesis by simp
  next
    case (Some p)
    then obtain r v where p: "spec_step (limits s) c (view s) = Some (r, v)" by (cases p) auto
    with st obtain t where t: "chal_step c s = Some (r, t)" "cs_ok t" "limits t = limits s" "view t = v" by auto
    from Cons.IH [OF t(2)] p t show ?thesis by (auto split: option.splits)
  qed
qed auto

lemma chal_run_ok:
  assumes "chal_run cs s = Some (rs, s')" "cs_ok s"
  shows "cs_ok s' \<and> limits s' = limits s \<and> spec_run (limits s) cs (view s) = Some (rs, view s')"
  using run_refines [OF assms(2), of cs] assms(1) by (auto split: option.splits)

text \<open>
  C11: The store is the abstract store: over any sequence of calls, whatever the times they
  read and the random bytes they draw, the results are those of two lists, oldest first, from
  which expired entries leave at the front and in which an entry is found by its key; the
  store returns whenever the abstract store does, so none of its loops runs forever.
\<close>

theorem challenge_refines:
  "map_option (apsnd view) (chal_run ops (newStore c)) = spec_run (limits (newStore c)) ops ([], [])"
  using run_refines [OF newStore_ok [of c], of ops] by (auto simp: newStore_view split: option.splits)

subsection \<open>What the history of a run explains\<close>

type_synonym history = "(cop \<times> cres) set"

definition issued_for :: "history \<Rightarrow> bindingKey \<Rightarrow> challenge \<Rightarrow> bool" where
  "issued_for h b c \<longleftrightarrow>
     (\<exists>t rnd ip ua susp ty. (OpCreate t rnd ip ua susp ty, RChallenge c) \<in> h \<and> makeBindingKey ip = b)"

definition solved_at :: "history \<Rightarrow> bindingKey \<Rightarrow> gotime \<Rightarrow> bool" where
  "solved_at h b t \<longleftrightarrow>
     (\<exists>i a ip c. (OpVerify t i a ip, RBool True) \<in> h \<and> makeBindingKey ip = b \<and>
        issued_for h b c \<and> ch_ID c = i \<and> answer_correct c a)"

definition explained :: "storeConfig \<Rightarrow> history \<Rightarrow> cview \<Rightarrow> bool" where
  "explained L h v \<longleftrightarrow>
     (\<forall>w \<in> set (fst v). issued_for h (ce_binding w) (ce_challenge w)) \<and>
     (\<forall>x \<in> set (snd v). solved_at h (ve_binding x) (ve_expiresAt x - sc_verificationTTL L))"

lemma issued_mono: "issued_for h b c \<Longrightarrow> h \<subseteq> h' \<Longrightarrow> issued_for h' b c"
  unfolding issued_for_def by blast

lemma solved_mono: "solved_at h b t \<Longrightarrow> h \<subseteq> h' \<Longrightarrow> solved_at h' b t"
  unfolding solved_at_def using issued_mono by blast

lemma explained_sub:
  "explained L h v \<Longrightarrow> h \<subseteq> h' \<Longrightarrow> set (fst v') \<subseteq> set (fst v) \<Longrightarrow> set (snd v') \<subseteq> set (snd v) \<Longrightarrow> explained L h' v'"
  unfolding explained_def using issued_mono solved_mono by blast

lemma v_clean_sub: "set (fst (v_clean t v)) \<subseteq> set (fst v)" "set (snd (v_clean t v)) \<subseteq> set (snd v)"
  by (auto simp: v_clean_def dest: set_dropWhileD)

lemma explained_clean: "explained L h v \<Longrightarrow> h \<subseteq> h' \<Longrightarrow> explained L h' (v_clean t v)"
  by (erule explained_sub) (auto dest: subsetD [OF v_clean_sub(1)] subsetD [OF v_clean_sub(2)])

lemma v_find_mem: "v_find i v = Some w \<Longrightarrow> w \<in> set (fst v) \<and> cid w = i"
  unfolding v_find_def by (rule find_someD)

lemma v_verified_mem: "v_verified b v = Some w \<Longrightarrow> w \<in> set (snd v) \<and> ve_binding w = b"
  unfolding v_verified_def by (rule find_someD)

lemma explained_fail:
  assumes "explained L h v" "w \<in> set (fst v)"
  shows "explained L h (v_fail L w v)"
proof -
  have "issued_for h (ce_binding w) (ce_challenge w)" using assms by (simp add: explained_def)
  with assms(1) show ?thesis by (auto simp: explained_def v_fail_def v_drop_def)
qed

lemma set_v_room: "x \<in> set (v_room n xs) \<Longrightarrow> x \<in> set xs"
  unfolding v_room_def by (rule in_set_dropD)

lemma explained_add:
  assumes "explained L h v" "issued_for h (ce_binding w) (ce_challenge w)"
  shows "explained L h (v_room n (fst v) @ [w], snd v)"
proof -
  have "\<forall>x \<in> set (v_room n (fst v)). issued_for h (ce_binding x) (ce_challenge x)"
    using assms(1) set_v_room unfolding explained_def by metis
  with assms show ?thesis unfolding explained_def by simp
qed

lemma explained_mark:
  assumes "explained L h v" "solved_at h b now"
  shows "explained L h (v_mark L b now (v_drop i v))"
  using assms by (auto simp: explained_def v_mark_def v_drop_def Let_def dest: set_v_room)

lemma spec_Create_elim:
  assumes "spec_Create L t rnd ip ua susp ty v = Some (d, v')"
  obtains w where "v' = (v_room (sc_maxChallenges L) (fst (v_clean t v)) @ [w], snd (v_clean t v))"
    "ce_challenge w = d" "ce_binding w = makeBindingKey ip" "ce_failedAttempts w = 0"
    "ch_ID d \<notin> cid ` set (v_room (sc_maxChallenges L) (fst (v_clean t v)))" "ch_ID d \<in> GenerateID ` set (rnd_ids rnd)"
    "ch_ExpiresAt d = t + sc_challengeTTL L" "ch_Type d = boundedClone ty 32" "ch_Answer d = challenge_answer ty (rnd_answer rnd)"
proof (cases "find (\<lambda>i. i \<notin> cid ` set (v_room (sc_maxChallenges L) (fst (v_clean t v)))) (map GenerateID (rnd_ids rnd))")
  case None
  with assms show thesis by (simp add: spec_Create_def Let_def)
next
  case (Some i)
  have i: "i \<notin> cid ` set (v_room (sc_maxChallenges L) (fst (v_clean t v)))" "i \<in> GenerateID ` set (rnd_ids rnd)"
    using find_someD [OF Some] by auto
  from assms Some have d: "ch_ID d = i" "ch_ExpiresAt d = t + sc_challengeTTL L" "ch_Type d = boundedClone ty 32"
      "ch_Answer d = challenge_answer ty (rnd_answer rnd)"
    and v': "v' = (v_room (sc_maxChallenges L) (fst (v_clean t v)) @
      [\<lparr>ce_challenge = d, ce_binding = makeBindingKey ip, ce_failedAttempts = 0\<rparr>], snd (v_clean t v))"
    by (auto simp: spec_Create_def Let_def)
  from v' show thesis by (rule that) (simp_all add: d i)
qed

lemma explained_step:
  assumes "explained L h v" "spec_step L c v = Some (r, v')"
  shows "explained L (insert (c, r) h) v'"
proof -
  let ?h = "insert (c, r) h"
  have e1: "explained L ?h v" by (rule explained_sub [OF assms(1)]) auto
  have e2: "explained L ?h (v_clean t v)" for t by (rule explained_clean [OF assms(1)]) auto
  note e = e1 e2
  show ?thesis
  proof (cases c)
    case (OpCreate t rnd ip ua susp ty)
    with assms(2) obtain d where r: "r = RChallenge d" and cr: "spec_Create L t rnd ip ua susp ty v = Some (d, v')"
      by auto
    obtain w where v': "v' = (v_room (sc_maxChallenges L) (fst (v_clean t v)) @ [w], snd (v_clean t v))"
        and w: "ce_challenge w = d" "ce_binding w = makeBindingKey ip"
      by (rule spec_Create_elim [OF cr]) blast
    have "(OpCreate t rnd ip ua susp ty, RChallenge (ce_challenge w)) \<in> ?h" using OpCreate r w(1) by simp
    then have "issued_for ?h (ce_binding w) (ce_challenge w)"
      unfolding issued_for_def w(2) by (intro exI conjI) (assumption, rule refl)
    with e(2) [of t] show ?thesis unfolding v' by (rule explained_add)
  next
    case (OpGet t i)
    with assms(2) e show ?thesis by (auto simp: spec_Get_def split: if_splits option.splits)
  next
    case (OpIsVerified t ip)
    with assms(2) e show ?thesis by (auto simp: spec_IsVerified_def split: if_splits option.splits)
  next
    case (OpVerify t i a ip)
    let ?v = "v_clean t v" and ?b = "makeBindingKey ip"
    from assms(2) OpVerify have eq: "RBool (fst (spec_Verify L t i a ip v)) = r" "snd (spec_Verify L t i a ip v) = v'"
      by (cases "spec_Verify L t i a ip v"; simp)+
    show ?thesis
    proof (cases "if length i = 22 then v_find i ?v else None")
      case None
      then show ?thesis using eq e(2) [of t] by (simp add: spec_Verify_def Let_def)
    next
      case (Some w)
      then have w: "w \<in> set (fst ?v)" "cid w = i" using v_find_mem by (auto split: if_splits)
      have iss: "issued_for ?h (ce_binding w) (ce_challenge w)" using e(2) [of t] w(1) by (simp add: explained_def)
      show ?thesis
      proof (cases "ce_binding w = ?b \<and> length a \<le> 256 \<and> answer_correct (ce_challenge w) a")
        case True
        with Some eq have r: "r = RBool True" and v': "v' = v_mark L ?b t (v_drop i ?v)"
          by (auto simp: spec_Verify_def Let_def)
        have "(OpVerify t i a ip, RBool True) \<in> ?h" using OpVerify r by simp
        moreover have "issued_for ?h ?b (ce_challenge w)" "answer_correct (ce_challenge w) a" using iss True by simp_all
        ultimately have "solved_at ?h ?b t"
          unfolding solved_at_def using w(2) by (intro exI [of _ i] exI [of _ a] exI [of _ ip] exI [of _ "ce_challenge w"]) simp
        from explained_mark [OF e(2) this] show ?thesis by (simp add: v')
      next
        case False
        then have "v' = ?v \<or> v' = v_fail L w ?v" using eq Some by (auto simp: spec_Verify_def Let_def split: if_splits)
        with e(2) [of t] explained_fail [OF e(2) w(1)] show ?thesis by auto
      qed
    qed
  qed
qed

lemma explained_run:
  "spec_run L cs v = Some (rs, v') \<Longrightarrow> explained L h v \<Longrightarrow> explained L (h \<union> set (zip cs rs)) v'"
proof (induction cs arbitrary: v h rs)
  case (Cons c cs)
  then obtain r u rs' where s: "spec_step L c v = Some (r, u)" "spec_run L cs u = Some (rs', v')" "rs = r # rs'"
    by (auto simp: bind_eq_Some_conv)
  from Cons.IH [OF s(2) explained_step [OF Cons.prems(2) s(1)]] s(3) show ?case by simp
qed simp

text \<open>
  C12: Nobody is verified without an answer: whenever the store says that a binding is
  verified, a call of \<open>Verify\<close> for it has returned true less than the verification time
  ago, with the correct answer to a challenge that \<open>Create\<close> had issued for that binding. A
  binding is represented by its SHA-256 hash.
\<close>

theorem verified_needs_answer:
  assumes "chal_run ops (newStore cfg) = Some (rs, s)" "IsVerified now ip s = Some (True, s')"
  shows "\<exists>t i a ip1 c t0 rnd ip0 ua susp ty.
    (OpVerify t i a ip1, RBool True) \<in> set (zip ops rs) \<and> now < t + cs_verificationTTL s \<and>
    (OpCreate t0 rnd ip0 ua susp ty, RChallenge c) \<in> set (zip ops rs) \<and> ch_ID c = i \<and> answer_correct c a \<and>
    makeBindingKey ip1 = makeBindingKey ip \<and> makeBindingKey ip0 = makeBindingKey ip"
proof -
  let ?L = "limits (newStore cfg)" and ?b = "makeBindingKey ip"
  have ok: "cs_ok s" "limits s = ?L" and run: "spec_run ?L ops ([], []) = Some (rs, view s)"
    using chal_run_ok [OF assms(1) newStore_ok] by (simp_all add: newStore_view)
  have ex: "explained ?L (set (zip ops rs)) (view s)"
    using explained_run [OF run, of "{}"] by (simp add: explained_def)
  have "fst (spec_IsVerified now ip (view s))"
    using IsVerified_refines [OF ok(1), of now ip] assms(2) by auto
  then have "\<exists>w. (v_verified ?b (view s) = Some w \<or> v_verified ?b (v_clean now (view s)) = Some w) \<and> now < ve_expiresAt w"
    by (auto simp: spec_IsVerified_def split: option.splits if_splits)
  then obtain w where w: "w \<in> set (snd (view s))" "ve_binding w = ?b" "now < ve_expiresAt w"
    using v_verified_mem subsetD [OF v_clean_sub(2)] by meson
  have "sc_verificationTTL ?L = cs_verificationTTL s" using ok(2) by (simp add: limits_def)
  with ex w have "solved_at (set (zip ops rs)) ?b (ve_expiresAt w - cs_verificationTTL s)"
    unfolding explained_def by auto
  then obtain i a ip1 c where
    "(OpVerify (ve_expiresAt w - cs_verificationTTL s) i a ip1, RBool True) \<in> set (zip ops rs)"
    "makeBindingKey ip1 = ?b" "issued_for (set (zip ops rs)) ?b c" "ch_ID c = i" "answer_correct c a"
    unfolding solved_at_def by blast
  with w(3) show ?thesis unfolding issued_for_def by fastforce
qed

subsection \<open>A challenge can be tried a bounded number of times\<close>

fun tries :: "string \<Rightarrow> bindingKey \<Rightarrow> cop list \<Rightarrow> nat" where
  "tries i b [] = 0"
| "tries i b (OpVerify t j a ip # cs) = (if j = i \<and> makeBindingKey ip = b then 1 else 0) + tries i b cs"
| "tries i b (c # cs) = tries i b cs"

definition v_ok :: "cview \<Rightarrow> bool" where
  "v_ok v = distinct (map cid (fst v))"

lemma v_find_eq: "v_ok v \<Longrightarrow> v_find i v = Some w \<longleftrightarrow> w \<in> set (fst v) \<and> cid w = i"
  using find_key [of cid "fst v" w] v_find_mem [of i v w] by (auto simp: v_ok_def v_find_def)

lemma distinct_dropWhile: "distinct (map f xs) \<Longrightarrow> distinct (map f (dropWhile P xs))"
  by (induction xs) auto

lemma v_ok_clean: "v_ok v \<Longrightarrow> v_ok (v_clean t v)"
  by (simp add: v_ok_def v_clean_def distinct_dropWhile)

lemma v_find_clean: "v_ok v \<Longrightarrow> v_find i (v_clean t v) = Some w \<Longrightarrow> v_find i v = Some w"
  using v_find_mem [of i "v_clean t v" w] v_clean_sub(1) [of t v] by (auto simp: v_find_eq)

lemma v_find_fail:
  assumes "v_ok v" "w \<in> set (fst v)" "v_find i (v_fail L w v) = Some w'"
  shows "(if cid w = i then w' = w\<lparr>ce_failedAttempts := ce_failedAttempts w + 1\<rparr> \<and>
      ce_failedAttempts w + 1 < sc_maxFailedAttempts L else v_find i v = Some w')"
  using v_find_mem [OF assms(3)] assms(1,2)
  by (auto simp: v_fail_def v_drop_def v_find_eq split: if_splits dest: eq_key_imp_eq_value)

text \<open>What a try at one challenge does to another, and to the challenge itself.\<close>

lemma verify_other:
  assumes "v_ok v" "v_find i (snd (spec_Verify L t j a ip v)) = Some w'" "j \<noteq> i"
  shows "v_find i v = Some w'"
proof -
  let ?v = "v_clean t v" and ?b = "makeBindingKey ip" and ?v' = "snd (spec_Verify L t j a ip v)"
  have vok: "v_ok ?v" using assms(1) by (rule v_ok_clean)
  have "v_find i ?v = Some w'"
  proof (cases "if length j = 22 then v_find j ?v else None")
    case None
    then show ?thesis using assms(2) by (simp add: spec_Verify_def Let_def)
  next
    case (Some w)
    then have w: "w \<in> set (fst ?v)" "cid w = j" using v_find_mem by (auto split: if_splits)
    have "?v' \<in> {?v, v_fail L w ?v, v_mark L ?b t (v_drop j ?v)}"
      using Some by (auto simp: spec_Verify_def Let_def)
    moreover have "v_find i (v_mark L ?b t (v_drop j ?v)) = Some w' \<Longrightarrow> v_find i ?v = Some w'"
      using v_find_mem [of i "v_mark L ?b t (v_drop j ?v)" w'] by (auto simp: v_find_eq [OF vok] v_mark_def v_drop_def Let_def split: if_splits)
    ultimately show ?thesis using assms(2) v_find_fail [OF vok w(1), of i L w'] w(2) assms(3) by auto
  qed
  then show ?thesis by (rule v_find_clean [OF assms(1)])
qed

lemma verify_same:
  assumes "v_ok v" "v_find i (snd (spec_Verify L t i a ip v)) = Some w'" "length i = 22"
  shows "\<not> fst (spec_Verify L t i a ip v) \<and> (\<exists>w. v_find i v = Some w \<and>
    w' = (if ce_binding w = makeBindingKey ip then w\<lparr>ce_failedAttempts := ce_failedAttempts w + 1\<rparr> else w))"
proof -
  let ?v = "v_clean t v" and ?b = "makeBindingKey ip"
  have vok: "v_ok ?v" using assms(1) by (rule v_ok_clean)
  have "v_find i ?v \<noteq> None"
  proof
    assume n: "v_find i ?v = None"
    with assms(2,3) show False by (simp add: spec_Verify_def Let_def)
  qed
  then obtain w where w: "v_find i ?v = Some w" by auto
  then have wm: "w \<in> set (fst ?v)" "cid w = i" using v_find_mem by auto
  have drop: "v_find i (v_mark L ?b t (v_drop i ?v)) = None"
    by (auto simp: v_mark_def v_drop_def Let_def v_find_def find_none_iff)
  have eq: "spec_Verify L t i a ip v = (if ce_binding w \<noteq> ?b then (False, ?v)
      else if length a \<le> 256 \<and> answer_correct (ce_challenge w) a then (True, v_mark L ?b t (v_drop i ?v))
      else (False, v_fail L w ?v))"
    using assms(3) w by (simp add: spec_Verify_def Let_def)
  have "\<not> fst (spec_Verify L t i a ip v) \<and>
    w' = (if ce_binding w = ?b then w\<lparr>ce_failedAttempts := ce_failedAttempts w + 1\<rparr> else w)"
    using assms(2) w drop v_find_fail [OF vok wm(1), of i L w'] wm(2) unfolding eq by (auto split: if_splits)
  then show ?thesis using v_find_clean [OF assms(1) w] by blast
qed

lemma step_tries:
  assumes "v_ok v" "spec_step L c v = Some (r, v')" "v_find i v' = Some w'"
    "\<forall>d. r = RChallenge d \<longrightarrow> ch_ID d \<noteq> i" "length i = 22"
  shows "\<exists>w. v_find i v = Some w \<and> ce_challenge w' = ce_challenge w \<and> ce_binding w' = ce_binding w \<and>
    ce_failedAttempts w' = ce_failedAttempts w + int (tries i (ce_binding w) [c]) \<and>
    \<not> (\<exists>t a ip. c = OpVerify t i a ip \<and> r = RBool True)"
proof (cases c)
  case (OpCreate t rnd ip ua susp ty)
  with assms(2) obtain d where r: "r = RChallenge d" and cr: "spec_Create L t rnd ip ua susp ty v = Some (d, v')"
    by auto
  obtain w where "v' = (v_room (sc_maxChallenges L) (fst (v_clean t v)) @ [w], snd (v_clean t v))" "ce_challenge w = d"
    by (rule spec_Create_elim [OF cr]) blast
  with r v_find_mem [OF assms(3)] assms(4) have "w' \<in> set (fst (v_clean t v))" "cid w' = i"
    by (auto dest: set_v_room)
  with v_clean_sub(1) [of t v] assms(1) have "v_find i v = Some w'" by (auto simp: v_find_eq)
  with OpCreate show ?thesis by auto
next
  case (OpGet t j)
  then have "v' = v \<or> v' = v_clean t v" using assms(2) by (auto simp: spec_Get_def split: if_splits option.splits)
  then have "v_find i v = Some w'" using assms(3) v_find_clean [OF assms(1)] by blast
  with OpGet show ?thesis by auto
next
  case (OpIsVerified t ip)
  then have "v' = v \<or> v' = v_clean t v" using assms(2) by (auto simp: spec_IsVerified_def split: if_splits option.splits)
  then have "v_find i v = Some w'" using assms(3) v_find_clean [OF assms(1)] by blast
  with OpIsVerified show ?thesis by auto
next
  case (OpVerify t j a ip)
  from assms(2) OpVerify have r: "r = RBool (fst (spec_Verify L t j a ip v))" and v': "v' = snd (spec_Verify L t j a ip v)"
    by (cases "spec_Verify L t j a ip v"; simp)+
  show ?thesis
  proof (cases "j = i")
    case False
    with verify_other [OF assms(1) assms(3) [unfolded v']] OpVerify show ?thesis by auto
  next
    case True
    from verify_same [OF assms(1) assms(3) [unfolded v' True] assms(5)] obtain w where
      w: "v_find i v = Some w" "w' = (if ce_binding w = makeBindingKey ip then w\<lparr>ce_failedAttempts := ce_failedAttempts w + 1\<rparr> else w)"
        "r = RBool False" using r True by auto
    then show ?thesis using OpVerify True by (intro exI [of _ w]) auto
  qed
qed

lemma step_v_ok:
  assumes "cs_ok s" "chal_step c s = Some (r, s')"
  shows "cs_ok s' \<and> limits s' = limits s \<and> spec_step (limits s) c (view s) = Some (r, view s')"
  using step_refines [OF assms(1), of c] assms(2) by (auto split: option.splits)

lemma run_tries:
  assumes "cs_ok s" "chal_run cs s = Some (rs, s')" "v_find i (view s') = Some w'"
    "\<forall>d. RChallenge d \<in> set rs \<longrightarrow> ch_ID d \<noteq> i" "length i = 22"
  shows "\<exists>w. v_find i (view s) = Some w \<and> ce_binding w' = ce_binding w \<and>
    ce_failedAttempts w' = ce_failedAttempts w + int (tries i (ce_binding w) cs) \<and>
    \<not> (\<exists>t a ip. (OpVerify t i a ip, RBool True) \<in> set (zip cs rs))"
  using assms(1,2,4)
proof (induction cs arbitrary: s rs)
  case Nil
  then show ?case using assms(3) by simp
next
  case (Cons c cs)
  then obtain r t rs' where c: "chal_step c s = Some (r, t)" and run: "chal_run cs t = Some (rs', s')" and rs: "rs = r # rs'"
    by (auto simp: bind_eq_Some_conv)
  note t = step_v_ok [OF Cons.prems(1) c]
  have vok: "v_ok (view s)" using view_ids [OF Cons.prems(1)] by (simp add: v_ok_def)
  have ok: "cs_ok t" and no: "\<forall>d. RChallenge d \<in> set rs' \<longrightarrow> ch_ID d \<noteq> i" using t rs Cons.prems(3) by auto
  note IH = Cons.IH [OF ok run no]
  from IH obtain u where u: "v_find i (view t) = Some u" "ce_binding w' = ce_binding u"
      "ce_failedAttempts w' = ce_failedAttempts u + int (tries i (ce_binding u) cs)"
      "\<not> (\<exists>t a ip. (OpVerify t i a ip, RBool True) \<in> set (zip cs rs'))" by blast
  have new: "\<forall>d. r = RChallenge d \<longrightarrow> ch_ID d \<noteq> i" using Cons.prems(3) rs by auto
  have sp: "spec_step (limits s) c (view s) = Some (r, view t)" using t by simp
  from step_tries [OF vok sp u(1) new assms(5)] obtain w where w: "v_find i (view s) = Some w"
      "ce_binding u = ce_binding w" "ce_failedAttempts u = ce_failedAttempts w + int (tries i (ce_binding w) [c])"
      "\<not> (\<exists>t a ip. c = OpVerify t i a ip \<and> r = RBool True)" by blast
  have "tries i b (c # cs) = tries i b [c] + tries i b cs" for b by (cases c) simp_all
  then have "ce_failedAttempts w' = ce_failedAttempts w + int (tries i (ce_binding w) (c # cs))"
    using u(3) w(2,3) by simp
  moreover have "\<not> (\<exists>t a ip. (OpVerify t i a ip, RBool True) \<in> set (zip (c # cs) rs))"
    using u(4) w(4) by (simp add: rs) blast
  ultimately show ?case using u(2) w(1,2) by metis
qed

lemma Create_cases:
  assumes "cs_ok s" "Create t rnd ip ua susp ty s = Some (c, s')"
  shows "cs_ok s' \<and> limits s' = limits s \<and> spec_Create (limits s) t rnd ip ua susp ty (view s) = Some (c, view s')"
  using Create_refines [OF assms(1), of t rnd ip ua susp ty] assms(2) by (auto split: option.splits)

lemma Create_find:
  assumes "cs_ok s" "Create t rnd ip ua susp ty s = Some (c, s')"
  shows "\<exists>w. v_find (ch_ID c) (view s') = Some w \<and> ce_challenge w = c \<and> ce_binding w = makeBindingKey ip \<and>
    ce_failedAttempts w = 0"
proof -
  from Create_cases [OF assms] have s': "cs_ok s'" and sp: "spec_Create (limits s) t rnd ip ua susp ty (view s) = Some (c, view s')"
    by auto
  have vok: "v_ok (view s')" using view_ids [OF s'] by (simp add: v_ok_def)
  obtain w where v: "view s' = (v_room (sc_maxChallenges (limits s)) (fst (v_clean t (view s))) @ [w], snd (v_clean t (view s)))"
    and w: "ce_challenge w = c" "ce_binding w = makeBindingKey ip" "ce_failedAttempts w = 0"
    by (rule spec_Create_elim [OF sp]) blast
  from v have "w \<in> set (fst (view s'))" by simp
  with w have "v_find (ch_ID c) (view s') = Some w" by (simp add: v_find_eq [OF vok])
  with w show ?thesis by blast
qed

lemma Verify_absent:
  assumes "cs_ok s" "v_find i (view s) = None \<or> length i \<noteq> 22"
  shows "\<exists>s'. Verify t i a ip s = Some (False, s')"
proof -
  have vok: "v_ok (view s)" using view_ids [OF assms(1)] by (simp add: v_ok_def)
  have "(if length i = 22 then v_find i (v_clean t (view s)) else None) = None"
    using assms(2) v_find_clean [OF vok, of i t] by (cases "v_find i (v_clean t (view s))") auto
  then have "fst (spec_Verify (limits s) t i a ip (view s)) = False" by (simp add: spec_Verify_def Let_def)
  with Verify_refines [OF assms(1), of t i a ip] show ?thesis by auto
qed

text \<open>
  C13: A challenge cannot be brute-forced or reused: once a challenge has been tried for its
  binding as often as the store allows, with whatever answers, or has been answered
  correctly, no later answer to it is accepted, whatever calls for other challenges and
  bindings are made in between, unless its identifier is drawn again.
\<close>

theorem challenge_attempts:
  assumes "chal_run ops0 (newStore cfg) = Some (rs0, s)" "Create t0 rnd ip0 ua susp ty s = Some (c, s1)"
    and "chal_run ops s1 = Some (rs, s2)" "\<forall>d. RChallenge d \<in> set rs \<longrightarrow> ch_ID d \<noteq> ch_ID c"
    and "cs_maxFailedAttempts s \<le> int (tries (ch_ID c) (makeBindingKey ip0) ops) \<or>
      (\<exists>t a ip. (OpVerify t (ch_ID c) a ip, RBool True) \<in> set (zip ops rs))"
  shows "\<exists>s3. Verify t (ch_ID c) a ip s2 = Some (False, s3)"
proof -
  have s: "cs_ok s" using chal_run_ok [OF assms(1) newStore_ok] by simp
  have s1: "cs_ok s1" "limits s1 = limits s" using Create_cases [OF s assms(2)] by auto
  have s2: "cs_ok s2" "limits s2 = limits s" using chal_run_ok [OF assms(3) s1(1)] s1(2) by auto
  have "v_find (ch_ID c) (view s2) = None \<or> length (ch_ID c) \<noteq> 22"
  proof (rule ccontr)
    assume "\<not> ?thesis"
    then obtain w2 where w2: "v_find (ch_ID c) (view s2) = Some w2" and l: "length (ch_ID c) = 22" by auto
    from run_tries [OF s1(1) assms(3) w2 assms(4) l] Create_find [OF s assms(2)]
    have "ce_failedAttempts w2 = int (tries (ch_ID c) (makeBindingKey ip0) ops)"
      "\<not> (\<exists>t a ip. (OpVerify t (ch_ID c) a ip, RBool True) \<in> set (zip ops rs))" by auto
    moreover have "ce_failedAttempts w2 < cs_maxFailedAttempts s2"
      using v_find_mem [OF w2] s2(1) by (auto simp: cs_ok_def view_def)
    moreover have "cs_maxFailedAttempts s2 = cs_maxFailedAttempts s" using s2(2) by (simp add: limits_eq_iff)
    ultimately show False using assms(5) by auto
  qed
  from Verify_absent [OF s2(1) this] show ?thesis .
qed

lemma Join_digits_length: "length (Join (map (\<lambda>i. [digit_char i]) xs) '','') \<le> 2 * length xs"
proof (induction xs)
  case (Cons x xs)
  then show ?case by (cases xs) (simp_all add: Join_Cons)
qed simp

lemma challenge_answer_length: "length (challenge_answer ty b) \<le> 256"
proof -
  have "\<forall>w \<in> set answer_words. length w \<le> 256" by (simp add: answer_words_def)
  moreover have "generateTextAnswer c \<in> set answer_words" for c
    unfolding generateTextAnswer_def by (rule nth_mem) (simp add: answer_words_def)
  ultimately have "length (generateTextAnswer c) \<le> 256" for c by blast
  moreover have "length (Join (map (\<lambda>i. [digit_char i]) (filter P [0..<9])) '','') \<le> 256" for P
    using Join_digits_length [of "filter P [0..<9]"] length_filter_le [of P "[0..<9]"] by simp
  then have "length (generateClickAnswer b) \<le> 256"
    by (simp add: generateClickAnswer_def Let_def split_beta)
  ultimately show ?thesis by (simp add: challenge_answer_def generateSliderAnswer_def Let_def)
qed

text \<open>
  The right answer works: the answer of a challenge of one of the three kinds, given for
  its binding before it expires, is accepted, and from then on the binding is verified for
  the verification time.
\<close>

theorem challenge_accepts:
  assumes "chal_run ops (newStore cfg) = Some (rs, s)" "Create t0 rnd ip ua susp ty s = Some (c, s1)"
    and "ty \<in> {ChallengeText, ChallengeClick, ChallengeSlider}" "\<forall>b \<in> set (rnd_ids rnd). length b = 16"
    and "t1 < t0 + cs_challengeTTL s" "t2 < t1 + cs_verificationTTL s"
  shows "\<exists>s2 s3. Verify t1 (ch_ID c) (ch_Answer c) ip s1 = Some (True, s2) \<and> IsVerified t2 ip s2 = Some (True, s3)"
proof -
  have s: "cs_ok s" using chal_run_ok [OF assms(1) newStore_ok] by simp
  from Create_cases [OF s assms(2)] have s1: "cs_ok s1" "limits s1 = limits s"
    and sp: "spec_Create (limits s) t0 rnd ip ua susp ty (view s) = Some (c, view s1)" by auto
  obtain w where v1: "view s1 = (v_room (sc_maxChallenges (limits s)) (fst (v_clean t0 (view s))) @ [w], snd (v_clean t0 (view s)))"
    and w: "ce_challenge w = c" "ce_binding w = makeBindingKey ip"
    and c: "ch_ID c \<in> GenerateID ` set (rnd_ids rnd)" "ch_ExpiresAt c = t0 + sc_challengeTTL (limits s)"
      "ch_Type c = boundedClone ty 32" "ch_Answer c = challenge_answer ty (rnd_answer rnd)"
    by (rule spec_Create_elim [OF sp]) blast
  let ?v = "v_clean t1 (view s1)"
  have lim: "sc_challengeTTL (limits s) = cs_challengeTTL s" "sc_verificationTTL (limits s) = cs_verificationTTL s"
    by (simp_all add: limits_def)
  have len: "length (ch_ID c) = 22" using c(1) assms(4) by (auto simp: GenerateID_def length_RawURLEncode)
  have "w \<in> set (fst ?v)"
    using v1 assms(5) c(2) w(1) lim(1) by (auto simp: v_clean_def dropWhile_append)
  moreover have "v_ok (view s1)" using view_ids [OF s1(1)] by (simp add: v_ok_def)
  then have "v_ok ?v" by (rule v_ok_clean)
  ultimately have find: "v_find (ch_ID c) ?v = Some w" using w(1) by (simp add: v_find_eq)
  have ty: "ch_Type c = ty" using assms(3) c(3) by (auto simp: boundedClone_def challenge_type_defs)
  have ans: "answer_correct c (ch_Answer c)"
    using assms(3) ty by (auto simp: answer_correct_def)
  have short: "length (ch_Answer c) \<le> 256" using c(4) by (simp add: challenge_answer_length)
  have ver: "spec_Verify (limits s1) t1 (ch_ID c) (ch_Answer c) ip (view s1) =
      (True, v_mark (limits s) (makeBindingKey ip) t1 (v_drop (ch_ID c) ?v))"
    using find len ans short w s1(2) by (simp add: spec_Verify_def Let_def)
  obtain s2 where s2: "Verify t1 (ch_ID c) (ch_Answer c) ip s1 = Some (True, s2)" "cs_ok s2" "limits s2 = limits s"
      "view s2 = v_mark (limits s) (makeBindingKey ip) t1 (v_drop (ch_ID c) ?v)"
    using Verify_refines [OF s1(1), of t1 "ch_ID c" "ch_Answer c" ip] ver s1(2) by auto
  let ?x = "\<lparr>ve_binding = makeBindingKey ip, ve_expiresAt = t1 + cs_verificationTTL s\<rparr>"
  have "?x \<in> set (snd (view s2))" by (auto simp: s2(4) v_mark_def Let_def lim)
  then have "v_verified (makeBindingKey ip) (view s2) = Some ?x"
    using find_key [of ve_binding "snd (view s2)" ?x] view_ids [OF s2(2)] by (simp add: v_verified_def)
  then have "spec_IsVerified t2 ip (view s2) = (True, view s2)"
    using assms(6) by (simp add: spec_IsVerified_def)
  with IsVerified_refines [OF s2(2), of t2 ip] s2(1) show ?thesis by auto
qed

subsection \<open>Concrete runs\<close>

definition sample_rnd :: randomness where
  "sample_rnd = \<lparr>rnd_ids = [replicate 16 (CHR ''A'')], rnd_answer = (CHR 0x02, CHR 0x00, CHR 0x00)\<rparr>"

definition sample_id :: string where "sample_id = ''QUFBQUFBQUFBQUFBQUFBQQ''"

definition sample_config :: storeConfig where
  "sample_config = \<lparr>sc_maxChallenges = 0, sc_maxVerified = 0, sc_maxFailedAttempts = 0, sc_challengeTTL = 0,
     sc_verificationTTL = 0\<rparr>"

definition sample_challenge :: challenge where
  "sample_challenge = \<lparr>ch_ID = sample_id, ch_Type = ''text'', ch_Answer = ''ocean'', ch_CreatedAt = 0,
     ch_ExpiresAt = 300000000000, ch_IP = ''10.0.0.1'', ch_UserAgent = ''curl'', ch_Suspicion = 70\<rparr>"

definition sample_create :: cop where
  "sample_create = OpCreate 0 sample_rnd ''10.0.0.1'' ''curl'' 70 ''text''"

definition sample_verify :: cop where
  "sample_verify = OpVerify 1 sample_id '' Ocean'' ''10.0.0.1''"

lemma sample_gen: "GenerateID (replicate 16 (CHR ''A'')) = sample_id" "length sample_id = 22"
  by code_simp+

lemma sample_answer: "challenge_answer ''text'' (CHR 0x02, CHR 0x00, CHR 0x00) = ''ocean''"
  "boundedClone ''text'' 32 = ''text''" "boundedClone ''10.0.0.1'' 256 = ''10.0.0.1''"
  "boundedClone ''curl'' 512 = ''curl''" "answer_correct sample_challenge '' Ocean''"
  by code_simp+

lemma sample_limits: "limits (newStore sample_config) = \<lparr>sc_maxChallenges = 4096, sc_maxVerified = 4096,
    sc_maxFailedAttempts = 5, sc_challengeTTL = 300000000000, sc_verificationTTL = 3600000000000\<rparr>"
  by (simp add: limits_def newStore_def sample_config_def duration_defs)

lemma sample_spec_create:
  "spec_Create (limits (newStore sample_config)) 0 sample_rnd ''10.0.0.1'' ''curl'' 70 ''text'' ([], []) =
   Some (sample_challenge, [\<lparr>ce_challenge = sample_challenge, ce_binding = makeBindingKey ''10.0.0.1'', ce_failedAttempts = 0\<rparr>], [])"
  by (simp add: spec_Create_def v_clean_def v_room_def sample_rnd_def sample_gen sample_answer sample_limits sample_challenge_def Let_def)

lemma sample_spec_verify:
  "spec_Verify (limits (newStore sample_config)) 1 sample_id '' Ocean'' ''10.0.0.1''
     ([\<lparr>ce_challenge = sample_challenge, ce_binding = makeBindingKey ''10.0.0.1'', ce_failedAttempts = 0\<rparr>], []) =
   (True, [], [\<lparr>ve_binding = makeBindingKey ''10.0.0.1'', ve_expiresAt = 3600000000001\<rparr>])"
proof -
  have c: "cid \<lparr>ce_challenge = sample_challenge, ce_binding = b, ce_failedAttempts = n\<rparr> = sample_id"
    "ch_ExpiresAt sample_challenge = 300000000000" for b n
    by (simp_all add: sample_challenge_def)
  show ?thesis
    using c sample_answer(5)
    by (simp add: spec_Verify_def Let_def v_clean_def v_find_def sample_gen v_mark_def v_drop_def v_verified_def v_room_def sample_limits)
qed

lemma sample_runs:
  "\<exists>s1 s2. Create 0 sample_rnd ''10.0.0.1'' ''curl'' 70 ''text'' (newStore sample_config) = Some (sample_challenge, s1) \<and>
    chal_run [sample_verify] s1 = Some ([RBool True], s2) \<and>
    chal_run [sample_create, sample_verify] (newStore sample_config) = Some ([RChallenge sample_challenge, RBool True], s2) \<and>
    cs_ok s2 \<and> snd (view s2) = [\<lparr>ve_binding = makeBindingKey ''10.0.0.1'', ve_expiresAt = 3600000000001\<rparr>]"
proof -
  let ?s = "newStore sample_config"
  obtain s1 where 1: "Create 0 sample_rnd ''10.0.0.1'' ''curl'' 70 ''text'' ?s = Some (sample_challenge, s1)" "cs_ok s1"
      "limits s1 = limits ?s"
      "view s1 = ([\<lparr>ce_challenge = sample_challenge, ce_binding = makeBindingKey ''10.0.0.1'', ce_failedAttempts = 0\<rparr>], [])"
    using Create_refines [OF newStore_ok [of sample_config], of 0 sample_rnd "''10.0.0.1''" "''curl''" 70 "''text''"]
    by (auto simp: newStore_view sample_spec_create)
  obtain s2 where 2: "Verify 1 sample_id '' Ocean'' ''10.0.0.1'' s1 = Some (True, s2)" "cs_ok s2"
      "view s2 = ([], [\<lparr>ve_binding = makeBindingKey ''10.0.0.1'', ve_expiresAt = 3600000000001\<rparr>])"
    using Verify_refines [OF 1(2), of 1 sample_id "'' Ocean''" "''10.0.0.1''"] 1(3,4) by (auto simp: sample_spec_verify)
  from 1 2 show ?thesis by (simp add: sample_create_def sample_verify_def)
qed

theorem verified_needs_answer_witness:
  "\<exists>s. chal_run [sample_create, sample_verify] (newStore sample_config) = Some ([RChallenge sample_challenge, RBool True], s) \<and>
    (\<exists>t i a ip1 c. (OpVerify t i a ip1, RBool True) \<in> {(sample_create, RChallenge sample_challenge), (sample_verify, RBool True)} \<and>
      5 < t + cs_verificationTTL s \<and> answer_correct c a)"
proof -
  obtain s where s: "chal_run [sample_create, sample_verify] (newStore sample_config) = Some ([RChallenge sample_challenge, RBool True], s)"
      "cs_ok s" "snd (view s) = [\<lparr>ve_binding = makeBindingKey ''10.0.0.1'', ve_expiresAt = 3600000000001\<rparr>]"
    using sample_runs by blast
  have "fst (spec_IsVerified 5 ''10.0.0.1'' (view s))"
    by (simp add: spec_IsVerified_def v_verified_def s(3))
  then obtain s' where "IsVerified 5 ''10.0.0.1'' s = Some (True, s')"
    using IsVerified_refines [OF s(2), of 5 "''10.0.0.1''"] by auto
  from verified_needs_answer [OF s(1) this] s(1) show ?thesis by (simp del: chal_run.simps) blast
qed

theorem challenge_attempts_witness:
  "\<exists>s1 s2. Create 0 sample_rnd ''10.0.0.1'' ''curl'' 70 ''text'' (newStore sample_config) = Some (sample_challenge, s1) \<and>
    chal_run [sample_verify] s1 = Some ([RBool True], s2) \<and>
    (\<exists>s3. Verify 2 sample_id ''ocean'' ''10.0.0.1'' s2 = Some (False, s3))"
proof -
  obtain s1 s2 where s: "Create 0 sample_rnd ''10.0.0.1'' ''curl'' 70 ''text'' (newStore sample_config) = Some (sample_challenge, s1)"
      "chal_run [sample_verify] s1 = Some ([RBool True], s2)"
    using sample_runs by blast
  have start: "chal_run [] (newStore sample_config) = Some ([], newStore sample_config)" by simp
  have i: "ch_ID sample_challenge = sample_id" by (simp add: sample_challenge_def)
  have "\<exists>s3. Verify 2 (ch_ID sample_challenge) ''ocean'' ''10.0.0.1'' s2 = Some (False, s3)"
    by (rule challenge_attempts [OF start s]) (auto simp: sample_verify_def i)
  with s show ?thesis by (simp only: i) blast
qed

theorem challenge_accepts_witness:
  "\<exists>s1 s2 s3. Create 0 sample_rnd ''10.0.0.1'' ''curl'' 70 ''text'' (newStore sample_config) = Some (sample_challenge, s1) \<and>
    Verify 7 sample_id ''ocean'' ''10.0.0.1'' s1 = Some (True, s2) \<and> IsVerified 9 ''10.0.0.1'' s2 = Some (True, s3)"
proof -
  obtain s1 where s: "Create 0 sample_rnd ''10.0.0.1'' ''curl'' 70 ''text'' (newStore sample_config) = Some (sample_challenge, s1)"
    using sample_runs by blast
  have start: "chal_run [] (newStore sample_config) = Some ([], newStore sample_config)" by simp
  have i: "ch_ID sample_challenge = sample_id" "ch_Answer sample_challenge = ''ocean''" by (simp_all add: sample_challenge_def)
  have "\<exists>s2 s3. Verify 7 (ch_ID sample_challenge) (ch_Answer sample_challenge) ''10.0.0.1'' s1 = Some (True, s2) \<and>
      IsVerified 9 ''10.0.0.1'' s2 = Some (True, s3)"
    by (rule challenge_accepts [OF start s])
      (auto simp: challenge_type_defs sample_rnd_def newStore_def sample_config_def duration_defs)
  with s show ?thesis by (simp only: i) blast
qed

subsection \<open>Which challenge a client gets\<close>

lemma CalculateSuspicion_bounds: "0 \<le> CalculateSuspicion ua ip \<and> CalculateSuspicion ua ip \<le> 70"
proof -
  have "length (filter ((=) c) s) \<le> length s" for c and s :: string by simp
  have cnt: "Count s c \<le> length s" for s c by (induction s) auto
  have "\<not> (10 < Count (ToLower ua) (CHR '';'') \<or> 300 < length (ToLower ua))" if "length ua < 10"
    using that cnt [of "ToLower ua" "CHR '';''"] by simp
  then show ?thesis by (auto simp: CalculateSuspicion_def Let_def)
qed

text \<open>
  No client ever gets the slider: the suspicion of a request is between 0 and 70, whatever
  its user agent, so the challenge chosen for an error page is the text, the click or none.
\<close>

theorem slider_unreachable:
  "0 \<le> CalculateSuspicion ua ip \<and> DetermineChallengeType (CalculateSuspicion ua ip) \<noteq> ChallengeSlider"
  using CalculateSuspicion_bounds [of ua ip] by (auto simp: DetermineChallengeType_def challenge_type_defs)

end
