(* ===== verification/Database.thy ===== *)
theory Database
  imports GoStrings GoMap "HOL-Library.Product_Lexorder"
begin

text \<open>
  The SQLite store (\<^verbatim>\<open>internal/database/database.go\<close>). A table is the list of its rows
  in the order of their identifiers, with the identifier its AUTOINCREMENT column gives next;
  a statement is the function on the tables that its SQL text describes, and a violated
  UNIQUE constraint an error. A column that the queries read through COALESCE holds the empty
  string for NULL. Times are the whole seconds of SQLite's \<^verbatim>\<open>datetime\<close>. Failures of the
  engine itself (a full disk, a locked file) are not modelled.
\<close>

subsection \<open>Tables\<close>

record route_row =
  rr_id :: int
  rr_type :: string
  rr_domain :: string
  rr_path :: string
  rr_target :: string
  rr_cert :: string
  rr_key :: string
  rr_active :: int

record target_row =
  tr_id :: int
  tr_route :: int
  tr_url :: string
  tr_check :: string
  tr_sort :: int

record waf_row =
  wr_id :: int
  wr_name :: string
  wr_expression :: string
  wr_action :: string
  wr_priority :: int

record user_row =
  us_id :: int
  us_name :: string
  us_hash :: string
  us_email :: string
  us_zero_trust :: int

record proxy_row =
  pr_id :: int
  pr_user :: int
  pr_domain :: string
  pr_target :: string
  pr_cert :: string
  pr_active :: int

record session_row =
  se_user :: int
  se_token :: string
  se_expires :: int

record db =
  db_routes :: "route_row list"
  db_targets :: "target_row list"
  db_waf :: "waf_row list"
  db_users :: "user_row list"
  db_proxies :: "proxy_row list"
  db_settings :: "(string, string) gomap"
  db_sessions :: "session_row list"
  seq_routes :: int
  seq_targets :: int
  seq_waf :: int
  seq_users :: int
  seq_proxies :: int

definition empty_db :: db where
  "empty_db = \<lparr>db_routes = [], db_targets = [], db_waf = [], db_users = [], db_proxies = [], db_settings = [],
     db_sessions = [], seq_routes = 1, seq_targets = 1, seq_waf = 1, seq_users = 1, seq_proxies = 1\<rparr>"

datatype db_error = UniqueViolation | NoRows | BadBootstrap string | HashFailed

text \<open>\<^verbatim>\<open>datetime('now')\<close>: whole seconds.\<close>

definition now_sec :: "gotime \<Rightarrow> int" where
  "now_sec now = now div Second"

subsection \<open>Statements on single tables\<close>

definition insert_route :: "string \<Rightarrow> string \<Rightarrow> string \<Rightarrow> string \<Rightarrow> string \<Rightarrow> string \<Rightarrow> db \<Rightarrow> db" where
  "insert_route ty dm path target cert key d =
     d\<lparr>db_routes := db_routes d @ [\<lparr>rr_id = seq_routes d, rr_type = ty, rr_domain = dm, rr_path = path,
         rr_target = target, rr_cert = cert, rr_key = key, rr_active = 1\<rparr>],
       seq_routes := seq_routes d + 1\<rparr>"

definition insert_target :: "int \<Rightarrow> string \<Rightarrow> string \<Rightarrow> int \<Rightarrow> db \<Rightarrow> db_error + db" where
  "insert_target r url check n d =
     (if list_ex (\<lambda>t. tr_route t = r \<and> tr_url t = url) (db_targets d) then Inl UniqueViolation
      else Inr (d\<lparr>db_targets := db_targets d @ [\<lparr>tr_id = seq_targets d, tr_route = r, tr_url = url, tr_check = check, tr_sort = n\<rparr>],
                  seq_targets := seq_targets d + 1\<rparr>))"

definition insert_waf :: "string \<Rightarrow> string \<Rightarrow> string \<Rightarrow> int \<Rightarrow> db \<Rightarrow> db_error + db" where
  "insert_waf name expr action prio d =
     (if list_ex (\<lambda>r. wr_name r = name) (db_waf d) then Inl UniqueViolation
      else Inr (d\<lparr>db_waf := db_waf d @ [\<lparr>wr_id = seq_waf d, wr_name = name, wr_expression = expr, wr_action = action, wr_priority = prio\<rparr>],
                  seq_waf := seq_waf d + 1\<rparr>))"

definition insert_user :: "string \<Rightarrow> string \<Rightarrow> string \<Rightarrow> int \<Rightarrow> db \<Rightarrow> db_error + db" where
  "insert_user name hash email zt d =
     (if list_ex (\<lambda>u. us_name u = name) (db_users d) then Inl UniqueViolation
      else Inr (d\<lparr>db_users := db_users d @ [\<lparr>us_id = seq_users d, us_name = name, us_hash = hash, us_email = email, us_zero_trust = zt\<rparr>],
                  seq_users := seq_users d + 1\<rparr>))"

subsection \<open>Sessions and settings\<close>

definition PruneExpiredSessions :: "gotime \<Rightarrow> db \<Rightarrow> nat \<times> db" where
  "PruneExpiredSessions now d =
     (let keep = filter (\<lambda>s. \<not> se_expires s \<le> now_sec now) (db_sessions d)
      in (length (db_sessions d) - length keep, d\<lparr>db_sessions := keep\<rparr>))"

definition user_by_name :: "string \<Rightarrow> db \<Rightarrow> user_row option" where
  "user_by_name name d = find (\<lambda>u. us_name u = name) (db_users d)"

definition user_by_id :: "int \<Rightarrow> db \<Rightarrow> user_row option" where
  "user_by_id i d = find (\<lambda>u. us_id u = i) (db_users d)"

definition GetUserID :: "string \<Rightarrow> db \<Rightarrow> db_error + int" where
  "GetUserID name d = (case user_by_name name d of None \<Rightarrow> Inl NoRows | Some u \<Rightarrow> Inr (us_id u))"

definition IsZeroTrustEnabled :: "db \<Rightarrow> bool" where
  "IsZeroTrustEnabled d = (case map_of (db_settings d) ''enabled'' of None \<Rightarrow> True | Some v \<Rightarrow> v = ''true'')"

definition SetZeroTrustEnabled :: "bool \<Rightarrow> db \<Rightarrow> db" where
  "SetZeroTrustEnabled enabled d =
     d\<lparr>db_settings := AList.update ''enabled'' (if enabled then ''true'' else ''false'') (db_settings d)\<rparr>"

definition SetUserZeroTrustEnabled :: "int \<Rightarrow> int \<Rightarrow> db \<Rightarrow> db" where
  "SetUserZeroTrustEnabled userID enabled d =
     d\<lparr>db_users := map (\<lambda>u. if us_id u = userID then u\<lparr>us_zero_trust := enabled\<rparr> else u) (db_users d)\<rparr>"

definition GetUserZeroTrustStatus :: "int \<Rightarrow> db \<Rightarrow> db_error + bool" where
  "GetUserZeroTrustStatus userID d =
     (case user_by_id userID d of None \<Rightarrow> Inl NoRows | Some u \<Rightarrow> Inr (us_zero_trust u = 1))"

text \<open>
  The records of a user, by domain; SQLite compares text byte by byte, which is the order of
  the numbers of the bytes.
\<close>

definition text_key :: "string \<Rightarrow> nat list" where
  "text_key s = map of_char s"

fun text_le :: "nat list \<Rightarrow> nat list \<Rightarrow> bool" where
  "text_le [] _ = True"
| "text_le (_ # _) [] = False"
| "text_le (a # as) (b # bs) = (a < b \<or> a = b \<and> text_le as bs)"

fun insert_by :: "('a \<Rightarrow> nat list) \<Rightarrow> 'a \<Rightarrow> 'a list \<Rightarrow> 'a list" where
  "insert_by k x [] = [x]"
| "insert_by k x (y # ys) = (if text_le (k x) (k y) then x # y # ys else y # insert_by k x ys)"

definition order_by :: "('a \<Rightarrow> string) \<Rightarrow> 'a list \<Rightarrow> 'a list" where
  "order_by k xs = foldr (insert_by (text_key \<circ> k)) xs []"

record proxy_record =
  px_id :: int
  px_domain :: string
  px_target :: string
  px_has_cert :: bool
  px_active :: bool

definition GetUserProxyRecords :: "int \<Rightarrow> db \<Rightarrow> proxy_record list" where
  "GetUserProxyRecords userID d =
     map (\<lambda>p. \<lparr>px_id = pr_id p, px_domain = pr_domain p, px_target = pr_target p, px_has_cert = (pr_cert p \<noteq> []),
               px_active = (pr_active p = 1)\<rparr>)
       (order_by pr_domain (filter (\<lambda>p. pr_user p = userID \<and> pr_active p = 1) (db_proxies d)))"

definition ListAllDomains :: "db \<Rightarrow> (int \<times> string \<times> string \<times> bool) list" where
  "ListAllDomains d =
     map (\<lambda>r. (rr_id r, rr_domain r, rr_target r, rr_active r = 1))
       (order_by rr_domain (filter (\<lambda>r. rr_active r = 1) (db_routes d)))"

subsection \<open>Targets of a route\<close>

record route_target =
  rt_URL :: string
  rt_HealthCheck :: string

definition target_of_row :: "target_row \<Rightarrow> route_target" where
  "target_of_row t = \<lparr>rt_URL = tr_url t, rt_HealthCheck = (if tr_check t = [] then ''http'' else tr_check t)\<rparr>"

definition loadRouteTargets :: "db \<Rightarrow> int \<Rightarrow> route_target list" where
  "loadRouteTargets d routeID =
     map target_of_row (sort_key (\<lambda>t. (tr_sort t, tr_id t)) (filter (\<lambda>t. tr_route t = routeID) (db_targets d)))"

text \<open>
  \<^verbatim>\<open>setRouteTargets\<close>: the loop over the new targets, with their index; a target without
  URL is skipped but counted.
\<close>

definition norm_target_check :: "string \<Rightarrow> string" where
  "norm_target_check c = (let c' = ToLower (TrimSpace c) in if c' = [] then ''http'' else c')"

fun add_targets :: "int \<Rightarrow> int \<Rightarrow> route_target list \<Rightarrow> db \<Rightarrow> db_error + db" where
  "add_targets r i [] d = Inr d"
| "add_targets r i (t # ts) d =
     (if rt_URL t = [] then add_targets r (i + 1) ts d
      else (case insert_target r (rt_URL t) (norm_target_check (rt_HealthCheck t)) i d of
              Inl e \<Rightarrow> Inl e
            | Inr d' \<Rightarrow> add_targets r (i + 1) ts d'))"

definition setRouteTargets :: "int \<Rightarrow> route_target list \<Rightarrow> db \<Rightarrow> db_error + db" where
  "setRouteTargets routeID ts d =
     add_targets routeID 0 ts (d\<lparr>db_targets := filter (\<lambda>t. tr_route t \<noteq> routeID) (db_targets d)\<rparr>)"

text \<open>\<^verbatim>\<open>SetRouteTargets\<close> runs it in a transaction: an error leaves the tables as they were.\<close>

definition SetRouteTargets :: "int \<Rightarrow> route_target list \<Rightarrow> db \<Rightarrow> db_error option \<times> db" where
  "SetRouteTargets routeID ts d =
     (case setRouteTargets routeID ts d of Inl e \<Rightarrow> (Some e, d) | Inr d' \<Rightarrow> (None, d'))"

fun first_urls :: "route_target list \<Rightarrow> string set \<Rightarrow> route_target list" where
  "first_urls [] seen = []"
| "first_urls (t # ts) seen =
     (if rt_URL t \<in> seen then first_urls ts seen else t # first_urls ts (insert (rt_URL t) seen))"

definition ListAllRouteTargets :: "db \<Rightarrow> route_target list" where
  "ListAllRouteTargets d =
     first_urls (map target_of_row
       (sort_key tr_id (filter (\<lambda>t. list_ex (\<lambda>r. rr_id r = tr_route t \<and> rr_active r = 1) (db_routes d)) (db_targets d)))) {}"

subsection \<open>Start-up\<close>

text \<open>
  The rules \<^verbatim>\<open>seedDefaults\<close> inserts: name, expression, priority. The expressions
  are written with a tilde for a backslash and a caret for a quotation mark.
\<close>

definition raw_text :: "string \<Rightarrow> string" where
  "raw_text s = map (\<lambda>c. if c = CHR ''~'' then CHR 0x5C else if c = CHR ''^'' then CHR 0x22 else c) s"

definition default_rules :: "(string \<times> string \<times> int) list" where
  "default_rules = map (\<lambda>(n, x, p). (n, raw_text x, p))
     [(''Block Admin'', ''Path startsWith ^/admin^'', 10),
      (''Block SQL Injection (Path)'', ''Path matches ^.*(?i)(union~~s+select|waitfor~~s+delay|1=1|--|;).*$^'', 20),
      (''Block SQL Injection (Query)'', ''RawQuery matches ^(?i)(union~~s+select|waitfor~~s+delay|1=1|--|;)^'', 20),
      (''Block XSS (Path)'', ''Path matches ^(?i)(<script>|javascript:|onerror=)^'', 20),
      (''Block XSS (Query)'', ''RawQuery matches ^(?i)(<script>|javascript:|onerror=)^'', 20),
      (''Block Path Traversal'', ''Path matches ^(?:~~.~~./|~~.~~.~~~~)^'', 20),
      (''Block Path Traversal (Path Encoded)'', ''Path matches ^.*(?i)(%2e%2e%2f|%2e%2e%5c).*$^'', 20),
      (''Block Path Traversal (Query)'', ''RawQuery matches ^(?:~~.~~./|~~.~~.~~~~)^'', 20),
      (''Block Path Traversal (Query Encoded)'', ''RawQuery matches ^.*(?i)(%2e%2e%2f|%2e%2e%5c).*$^'', 20),
      (''Block SSRF Metadata & Localhost'', ''RawQuery matches ^(?i)(169~~.254~~.169~~.254|127~~.0~~.0~~.1|localhost)^'', 20)]"

text \<open>
  The bootstrap user: the two environment variables are arguments, as is bcrypt, which
  fails on passwords it cannot hash.
\<close>

definition seedBootstrapUser :: "(string \<Rightarrow> string option) \<Rightarrow> string \<Rightarrow> string \<Rightarrow> db \<Rightarrow> db_error + db" where
  "seedBootstrapUser hash envUser password d =
     (let username = TrimSpace envUser
      in if username = [] \<and> password = [] then Inr d
         else if username = [] \<or> password = [] then Inl (BadBootstrap ''both must be set'')
         else if length password < 12 then Inl (BadBootstrap ''must contain at least 12 characters'')
         else (case hash password of
                 None \<Rightarrow> Inl HashFailed
               | Some h \<Rightarrow> insert_user username h [] 1 d))"

text \<open>A rule that cannot be inserted is logged and skipped.\<close>

definition seed_rules :: "db \<Rightarrow> db" where
  "seed_rules d = fold (\<lambda>(n, x, p) d. case insert_waf n x ''BLOCK'' p d of Inl _ \<Rightarrow> d | Inr d' \<Rightarrow> d') default_rules d"

definition seedDefaults :: "(string \<Rightarrow> string option) \<Rightarrow> string \<Rightarrow> string \<Rightarrow> db \<Rightarrow> db_error + db" where
  "seedDefaults hash envUser password d =
     (let d1 = (if db_routes d = []
                then insert_route ''domain'' ''example.com'' [] ''http://example.com:8000'' [] [] d else d)
      in case (if db_users d1 = [] then seedBootstrapUser hash envUser password d1 else Inr d1) of
           Inl e \<Rightarrow> Inl e
         | Inr d2 \<Rightarrow> Inr (if db_waf d2 = [] then seed_rules d2 else d2))"

definition migrate_target :: "route_row \<Rightarrow> db \<Rightarrow> db" where
  "migrate_target r d =
     (if rr_target r = [] then d
      else (case insert_target (rr_id r) (rr_target r) ''http'' 0 d of Inl _ \<Rightarrow> d | Inr d' \<Rightarrow> d'))"

definition migrateRouteTargets :: "db \<Rightarrow> db" where
  "migrateRouteTargets d = fold migrate_target (db_routes d) d"

definition createTables :: "gotime \<Rightarrow> (string \<Rightarrow> string option) \<Rightarrow> string \<Rightarrow> string \<Rightarrow> db \<Rightarrow> db_error + db" where
  "createTables now hash envUser password d =
     (case seedDefaults hash envUser password d of
        Inl e \<Rightarrow> Inl e
      | Inr d1 \<Rightarrow> Inr (snd (PruneExpiredSessions now (migrateRouteTargets d1))))"

subsection \<open>Integrity\<close>

text \<open>
  The constraints of the tables: identifiers are unique and below the next one, and so are the
  columns declared UNIQUE.
\<close>

definition ids_ok :: "('a \<Rightarrow> int) \<Rightarrow> int \<Rightarrow> 'a list \<Rightarrow> bool" where
  "ids_ok f n xs = (distinct (map f xs) \<and> (\<forall>x \<in> set xs. f x < n))"

definition db_ok :: "db \<Rightarrow> bool" where
  "db_ok d = (ids_ok rr_id (seq_routes d) (db_routes d) \<and>
     distinct (map (\<lambda>r. (rr_type r, rr_domain r, rr_path r)) (db_routes d)) \<and>
     ids_ok tr_id (seq_targets d) (db_targets d) \<and>
     distinct (map (\<lambda>t. (tr_route t, tr_url t)) (db_targets d)) \<and>
     ids_ok wr_id (seq_waf d) (db_waf d) \<and> distinct (map wr_name (db_waf d)) \<and>
     ids_ok us_id (seq_users d) (db_users d) \<and> distinct (map us_name (db_users d)) \<and>
     ids_ok pr_id (seq_proxies d) (db_proxies d) \<and> distinct (map (\<lambda>p. (pr_user p, pr_domain p)) (db_proxies d)) \<and>
     distinct (map se_token (db_sessions d)) \<and> map_ok (db_settings d))"

lemma user_by_name_mem: "user_by_name n d = Some u \<Longrightarrow> u \<in> set (db_users d) \<and> us_name u = n"
  by (auto simp: user_by_name_def find_Some_iff)

lemma ids_ok_Nil [simp]: "ids_ok f n []"
  by (simp add: ids_ok_def)

lemma ids_ok_snoc: "ids_ok f n xs \<Longrightarrow> f x = n \<Longrightarrow> ids_ok f (n + 1) (xs @ [x])"
  by (auto simp: ids_ok_def)

lemma ids_ok_filter: "ids_ok f n xs \<Longrightarrow> ids_ok f n (filter P xs)"
  by (auto simp: ids_ok_def distinct_map_filter)

lemma distinct_filter_map: "distinct (map f xs) \<Longrightarrow> distinct (map f (filter P xs))"
  by (rule distinct_map_filter)

lemma empty_db_ok: "db_ok empty_db"
  by (simp add: db_ok_def empty_db_def)

lemma insert_target_ok: "insert_target r u c n d = Inr d' \<Longrightarrow> db_ok d \<Longrightarrow> db_ok d'"
  by (auto simp: insert_target_def db_ok_def ids_ok_snoc list_ex_iff split: if_splits)

lemma insert_waf_ok: "insert_waf n x a p d = Inr d' \<Longrightarrow> db_ok d \<Longrightarrow> db_ok d'"
  by (auto simp: insert_waf_def db_ok_def ids_ok_snoc list_ex_iff split: if_splits)

lemma insert_user_ok: "insert_user n h e z d = Inr d' \<Longrightarrow> db_ok d \<Longrightarrow> db_ok d'"
  by (auto simp: insert_user_def db_ok_def ids_ok_snoc list_ex_iff split: if_splits)

lemma insert_route_ok:
  assumes "db_ok d" "(ty, dm, path) \<notin> (\<lambda>r. (rr_type r, rr_domain r, rr_path r)) ` set (db_routes d)"
  shows "db_ok (insert_route ty dm path tg c k d)"
  using assms by (auto simp: insert_route_def db_ok_def ids_ok_snoc)

lemma Prune_ok: "db_ok d \<Longrightarrow> db_ok (snd (PruneExpiredSessions now d))"
  by (auto simp: PruneExpiredSessions_def Let_def db_ok_def distinct_map_filter)

lemma add_targets_ok: "add_targets r i ts d = Inr d' \<Longrightarrow> db_ok d \<Longrightarrow> db_ok d'"
  by (induction r i ts d rule: add_targets.induct) (auto split: if_splits sum.splits dest: insert_target_ok)

lemma setRouteTargets_ok: "setRouteTargets r ts d = Inr d' \<Longrightarrow> db_ok d \<Longrightarrow> db_ok d'"
  unfolding setRouteTargets_def
  by (erule add_targets_ok) (auto simp: db_ok_def ids_ok_filter distinct_map_filter)

end
