(* ===== verification/Routing.thy ===== *)
theory Routing
  imports Database "HOL-Library.Char_ord"
begin

text \<open>
  Finding the route of a request with queries (\<^verbatim>\<open>GetRouteTargets\<close> and the functions
  under it in \<^verbatim>\<open>internal/database/database.go\<close>): exact domains, then wildcard and
  regular-expression domains, then path prefixes.

  Two parameters: \<open>compile\<close> is \<^verbatim>\<open>regexp.Compile\<close> with \<^verbatim>\<open>MatchString\<close> of what it returns;
  \<open>pick\<close> is the row SQLite returns first when a LIMIT 1 leaves it a choice.
\<close>

type_synonym regexp = "string \<Rightarrow> (string \<Rightarrow> bool) option"
type_synonym picker = "route_row list \<Rightarrow> route_row"

subsection \<open>Lengths of texts\<close>

text \<open>
  \<^verbatim>\<open>utf8.RuneCountInString\<close>: the width of the first rune, 1 for an invalid byte.
\<close>

definition in_range :: "nat \<Rightarrow> nat \<Rightarrow> char \<Rightarrow> bool" where
  "in_range a b c = (a \<le> of_char c \<and> of_char c \<le> b)"

fun rune_width :: "string \<Rightarrow> nat" where
  "rune_width (a # b # c # d # s) =
     (if in_range 0xC2 0xDF a \<and> in_range 0x80 0xBF b then 2
      else if (in_range 0xE0 0xE0 a \<and> in_range 0xA0 0xBF b \<or> in_range 0xE1 0xEC a \<and> in_range 0x80 0xBF b \<or>
               in_range 0xED 0xED a \<and> in_range 0x80 0x9F b \<or> in_range 0xEE 0xEF a \<and> in_range 0x80 0xBF b)
              \<and> in_range 0x80 0xBF c then 3
      else if (in_range 0xF0 0xF0 a \<and> in_range 0x90 0xBF b \<or> in_range 0xF1 0xF3 a \<and> in_range 0x80 0xBF b \<or>
               in_range 0xF4 0xF4 a \<and> in_range 0x80 0x8F b) \<and> in_range 0x80 0xBF c \<and> in_range 0x80 0xBF d then 4
      else 1)"
| "rune_width [a, b, c] =
     (if in_range 0xC2 0xDF a \<and> in_range 0x80 0xBF b then 2
      else if (in_range 0xE0 0xE0 a \<and> in_range 0xA0 0xBF b \<or> in_range 0xE1 0xEC a \<and> in_range 0x80 0xBF b \<or>
               in_range 0xED 0xED a \<and> in_range 0x80 0x9F b \<or> in_range 0xEE 0xEF a \<and> in_range 0x80 0xBF b)
              \<and> in_range 0x80 0xBF c then 3
      else 1)"
| "rune_width [a, b] = (if in_range 0xC2 0xDF a \<and> in_range 0x80 0xBF b then 2 else 1)"
| "rune_width _ = 1"

lemma rune_width_pos: "0 < rune_width s"
  by (cases s rule: rune_width.cases) auto

function RuneCount :: "string \<Rightarrow> nat" where
  "RuneCount s = (if s = [] then 0 else Suc (RuneCount (drop (rune_width s) s)))"
  by auto
termination by (relation "measure length") (auto simp: rune_width_pos)

declare RuneCount.simps [simp del]

text \<open>SQLite's \<^verbatim>\<open>LENGTH\<close> and step to the next character: a lead byte takes the continuation bytes with it.\<close>

definition sql_skip :: "string \<Rightarrow> string" where
  "sql_skip s = (case s of [] \<Rightarrow> [] | c # t \<Rightarrow> if 0xC0 \<le> (of_char c :: nat) then dropWhile (in_range 0x80 0xBF) t else t)"

function sql_length :: "string \<Rightarrow> nat" where
  "sql_length s = (if s = [] then 0 else Suc (sql_length (sql_skip s)))"
  by auto
termination
  by (relation "measure length") (auto simp: sql_skip_def less_Suc_eq_le length_dropWhile_le split: list.splits)

declare sql_length.simps [simp del]

definition ascii :: "string \<Rightarrow> bool" where
  "ascii s = (\<forall>c \<in> set s. (of_char c :: nat) < 0x80)"

lemma RuneCount_ascii: "ascii s \<Longrightarrow> RuneCount s = length s"
proof (induction s)
  case Nil
  then show ?case by (simp add: RuneCount.simps)
next
  case (Cons c s)
  then have "rune_width (c # s) = 1"
    by (cases "c # s" rule: rune_width.cases) (auto simp: ascii_def in_range_def)
  with Cons show ?case by (subst RuneCount.simps) (simp add: ascii_def)
qed

lemma sql_length_ascii: "ascii s \<Longrightarrow> sql_length s = length s"
proof (induction s)
  case Nil
  then show ?case by (simp add: sql_length.simps)
next
  case (Cons c s)
  then show ?case by (subst sql_length.simps) (simp add: ascii_def sql_skip_def)
qed

subsection \<open>SQL comparisons\<close>

text \<open>\<^verbatim>\<open>COLLATE NOCASE\<close> and \<^verbatim>\<open>LIKE\<close> fold the 26 upper-case letters.\<close>

definition nocase_eq :: "string \<Rightarrow> string \<Rightarrow> bool" where
  "nocase_eq a b = (ToLower a = ToLower b)"

fun like :: "string \<Rightarrow> string \<Rightarrow> bool" where
  "like [] s = (s = [])"
| "like (c # p) s =
     (if c = CHR ''%'' then like p s \<or> (case s of [] \<Rightarrow> False | _ # t \<Rightarrow> like (c # p) t)
      else (case s of
              [] \<Rightarrow> False
            | d # t \<Rightarrow> if c = CHR ''_'' then like p (sql_skip s) else lower_char c = lower_char d \<and> like p t))"

lemma like_percent: "like ''%'' s"
proof (induction s)
  case (Cons c s)
  have "like ''%'' (c # s) = (like [] (c # s) \<or> like ''%'' s)" by simp
  with Cons show ?case by blast
qed simp

text \<open>A pattern without wildcards, followed by a percent sign, is a test for a prefix.\<close>

lemma like_prefix:
  assumes "CHR ''%'' \<notin> set p" "CHR ''_'' \<notin> set p"
  shows "like (p @ ''%'') s \<longleftrightarrow> prefix (ToLower p) (ToLower s)"
  using assms
proof (induction p arbitrary: s)
  case Nil
  have "like ([] @ ''%'') s" using like_percent [of s] by (simp only: append_Nil)
  then show ?case by (simp only: ToLower_Nil prefix_bot.bot_least simp_thms Nil_prefix)
next
  case (Cons c p)
  then show ?case by (cases s) (auto simp: ToLower_def)
qed

subsection \<open>Domains\<close>

definition normalizeDomain :: "string \<Rightarrow> string" where
  "normalizeDomain domain0 =
     (let domain = TrimSpace domain0;
          host = (case SplitHostPort domain of
                    Some (h, _) \<Rightarrow> h
                  | None \<Rightarrow> TrimPrefix (TrimSuffix domain '']'') ''['')
      in ToLower (TrimSuffix host ''.''))"

definition regexDomainMatch :: "regexp \<Rightarrow> string \<Rightarrow> string \<Rightarrow> bool" where
  "regexDomainMatch compile pattern domain =
     (case compile pattern of None \<Rightarrow> False | Some re \<Rightarrow> re domain)"

text \<open>The parts between the first and the last star, each found after the one before.\<close>

fun find_parts :: "string list \<Rightarrow> string \<Rightarrow> bool" where
  "find_parts [] s = True"
| "find_parts (p # ps) s =
     (if p = [] then find_parts ps s
      else (case Index s p of None \<Rightarrow> False | Some i \<Rightarrow> find_parts ps (drop (i + length p) s)))"

definition wildcardDomainMatch :: "string \<Rightarrow> string \<Rightarrow> bool" where
  "wildcardDomainMatch pattern domain =
     (let parts = Split pattern (CHR ''*'')
      in if length parts = 1 then pattern = domain
         else if hd parts \<noteq> [] \<and> \<not> HasPrefix domain (hd parts) then False
         else if last parts \<noteq> [] \<and> \<not> HasSuffix domain (last parts) then False
         else find_parts (butlast (tl parts)) (drop (length (hd parts)) domain))"

definition domainPatternMatches :: "regexp \<Rightarrow> string \<Rightarrow> string \<Rightarrow> string \<Rightarrow> bool" where
  "domainPatternMatches compile routeType0 pattern0 domain =
     (let pattern = ToLower (TrimSpace pattern0); routeType = ToLower (TrimSpace routeType0)
      in if routeType = ''regex'' then regexDomainMatch compile pattern domain
         else if HasPrefix pattern ''regex:'' then regexDomainMatch compile (TrimPrefix pattern ''regex:'') domain
         else if HasPrefix pattern ''~'' then regexDomainMatch compile (TrimPrefix pattern ''~'') domain
         else if routeType = ''wildcard'' \<or> Contains pattern ''*'' then wildcardDomainMatch pattern domain
         else False)"

subsection \<open>Queries\<close>

definition first_of :: "picker \<Rightarrow> route_row list \<Rightarrow> route_row option" where
  "first_of pick rows = (if rows = [] then None else Some (pick rows))"

definition findRouteByDomain :: "picker \<Rightarrow> string \<Rightarrow> db \<Rightarrow> route_row option" where
  "findRouteByDomain pick domain d =
     first_of pick (filter (\<lambda>r. rr_type r = ''domain'' \<and> nocase_eq (rr_domain r) domain \<and> rr_active r = 1) (db_routes d))"

definition pattern_rows :: "db \<Rightarrow> route_row list" where
  "pattern_rows d =
     sort_key (\<lambda>r. (- int (sql_length (rr_domain r)), rr_id r))
       (filter (\<lambda>r. rr_active r = 1 \<and> rr_type r \<in> {''domain'', ''wildcard'', ''regex''}) (db_routes d))"

definition findPatternRouteByDomain :: "regexp \<Rightarrow> string \<Rightarrow> db \<Rightarrow> route_row option" where
  "findPatternRouteByDomain compile domain0 d =
     (let domain = ToLower (TrimSpace domain0)
      in find (\<lambda>r. \<not> (rr_domain r = [] \<or> EqualFold (rr_domain r) domain) \<and>
                   domainPatternMatches compile (rr_type r) (rr_domain r) domain) (pattern_rows d))"

text \<open>The rows with the longest matching prefix, one of which comes first.\<close>

definition findRouteByPath :: "picker \<Rightarrow> string \<Rightarrow> db \<Rightarrow> route_row option" where
  "findRouteByPath pick path d =
     (let rows = filter (\<lambda>r. rr_type r = ''path'' \<and> like (rr_path r @ ''%'') path \<and> rr_active r = 1) (db_routes d);
          longest = foldr (\<lambda>r n. max (sql_length (rr_path r)) n) rows 0
      in first_of pick (filter (\<lambda>r. sql_length (rr_path r) = longest) rows))"

record route_match =
  rm_RouteKey :: string
  rm_Targets :: "route_target list"
  rm_CertificatePEM :: string
  rm_PrivateKeyPEM :: string

definition usable_targets :: "route_row \<Rightarrow> db \<Rightarrow> route_target list" where
  "usable_targets r d =
     (let ts = loadRouteTargets d (rr_id r)
      in if ts = [] \<and> rr_target r \<noteq> [] then [\<lparr>rt_URL = rr_target r, rt_HealthCheck = ''http''\<rparr>] else ts)"

definition match_of :: "string \<Rightarrow> route_row \<Rightarrow> string \<Rightarrow> string \<Rightarrow> db \<Rightarrow> route_match option" where
  "match_of key r cert pkey d =
     (let ts = usable_targets r d
      in if ts = [] then None
         else Some \<lparr>rm_RouteKey = key, rm_Targets = ts, rm_CertificatePEM = cert, rm_PrivateKeyPEM = pkey\<rparr>)"

definition or_else :: "'a option \<Rightarrow> 'a option \<Rightarrow> 'a option" where
  "or_else a b = (case a of Some x \<Rightarrow> Some x | None \<Rightarrow> b)"

definition GetRouteTargets :: "regexp \<Rightarrow> picker \<Rightarrow> db \<Rightarrow> string \<Rightarrow> string \<Rightarrow> route_match option" where
  "GetRouteTargets compile pick d domain0 path =
     (let domain = normalizeDomain domain0;
          exact = (if domain0 = [] then None
                   else Option.bind (findRouteByDomain pick domain d)
                          (\<lambda>r. match_of (''domain:'' @ domain) r (rr_cert r) (rr_key r) d));
          pattern = (if domain0 = [] then None
                     else Option.bind (findPatternRouteByDomain compile domain d)
                            (\<lambda>r. match_of (''domain:'' @ rr_domain r) r (rr_cert r) (rr_key r) d));
          by_path = (if path = [] then None
                     else Option.bind (findRouteByPath pick path d)
                            (\<lambda>r. match_of (''path:'' @ rr_path r) r [] [] d))
      in or_else exact (or_else pattern by_path))"

definition GetTargetByDomain :: "regexp \<Rightarrow> picker \<Rightarrow> db \<Rightarrow> string \<Rightarrow> (string \<times> string \<times> string) option" where
  "GetTargetByDomain compile pick d domain =
     (case GetRouteTargets compile pick d domain [] of
        None \<Rightarrow> None
      | Some m \<Rightarrow> (case rm_Targets m of [] \<Rightarrow> None | t # _ \<Rightarrow> Some (rt_URL t, rm_CertificatePEM m, rm_PrivateKeyPEM m)))"

definition GetTargetByPath :: "regexp \<Rightarrow> picker \<Rightarrow> db \<Rightarrow> string \<Rightarrow> string option" where
  "GetTargetByPath compile pick d path =
     (case GetRouteTargets compile pick d [] path of
        None \<Rightarrow> None
      | Some m \<Rightarrow> (case rm_Targets m of [] \<Rightarrow> None | t # _ \<Rightarrow> Some (rt_URL t)))"

definition GetTarget :: "regexp \<Rightarrow> picker \<Rightarrow> db \<Rightarrow> string \<Rightarrow> string \<Rightarrow> string option" where
  "GetTarget compile pick d domain path =
     (case GetRouteTargets compile pick d domain path of
        None \<Rightarrow> None
      | Some m \<Rightarrow> (case rm_Targets m of [] \<Rightarrow> None | t # _ \<Rightarrow> Some (rt_URL t)))"

subsection \<open>Wildcards\<close>

text \<open>What a wildcard pattern means: a star stands for any text.\<close>

fun glob :: "string \<Rightarrow> string \<Rightarrow> bool" where
  "glob [] s = (s = [])"
| "glob (c # p) s =
     (if c = CHR ''*'' then glob p s \<or> (case s of [] \<Rightarrow> False | _ # t \<Rightarrow> glob (c # p) t)
      else (case s of [] \<Rightarrow> False | d # t \<Rightarrow> c = d \<and> glob p t))"

fun glob_parts :: "string list \<Rightarrow> string \<Rightarrow> bool" where
  "glob_parts [] s = False"
| "glob_parts [p] s = (s = p)"
| "glob_parts (p # q # ps) s = (\<exists>x t. s = p @ x @ t \<and> glob_parts (q # ps) t)"

lemma glob_star: "glob (CHR ''*'' # p) s \<longleftrightarrow> (\<exists>x t. s = x @ t \<and> glob p t)"
proof (induction s)
  case Nil
  then show ?case by simp
next
  case (Cons d s)
  show ?case
  proof
    assume "glob (CHR ''*'' # p) (d # s)"
    then have "glob p (d # s) \<or> glob (CHR ''*'' # p) s" by simp
    then show "\<exists>x t. d # s = x @ t \<and> glob p t"
    proof
      assume "glob p (d # s)"
      then show ?thesis by (metis append_Nil)
    next
      assume "glob (CHR ''*'' # p) s"
      with Cons obtain x t where "s = x @ t" "glob p t" by auto
      then show ?thesis by (metis append_Cons)
    qed
  next
    assume "\<exists>x t. d # s = x @ t \<and> glob p t"
    then obtain x t where x: "d # s = x @ t" "glob p t" by blast
    show "glob (CHR ''*'' # p) (d # s)"
    proof (cases "x = []")
      case True
      with x show ?thesis by simp
    next
      case False
      with x(1) obtain ys where "s = ys @ t" by (cases x) auto
      with x(2) Cons have "glob (CHR ''*'' # p) s" by blast
      then show ?thesis by simp
    qed
  qed
qed

lemma glob_iff_parts: "glob p s \<longleftrightarrow> glob_parts (Split p (CHR ''*'')) s"
proof (induction p arbitrary: s)
  case Nil
  then show ?case by simp
next
  case (Cons c p)
  obtain q qs where sp: "Split p (CHR ''*'') = q # qs" using Split_ne [of p "CHR ''*''"] by (cases "Split p (CHR ''*'')") auto
  show ?case
  proof (cases "c = CHR ''*''")
    case True
    have "glob_parts ([] # q # qs) s \<longleftrightarrow> (\<exists>x t. s = x @ t \<and> glob_parts (q # qs) t)" by simp
    then show ?thesis using True glob_star [of p s] Cons.IH sp by simp
  next
    case False
    show ?thesis
    proof (cases qs)
      case Nil
      with False sp Cons.IH show ?thesis by (cases s) auto
    next
      case (Cons r rs)
      with False sp Cons.IH show ?thesis by (cases s) auto
    qed
  qed
qed

text \<open>The greedy search finds the parts wherever they are.\<close>

lemma Index_append_least:
  assumes "s = x @ p @ t"
  shows "\<exists>i y. Index s p = Some i \<and> i + length p \<le> length s \<and> drop (i + length p) s = y @ t"
proof -
  obtain i where i: "Index s p = Some i" using Index_None assms by (cases "Index s p") blast+
  then have le: "i \<le> length x" using Index_least assms by blast
  have "drop (i + length p) s = drop (i + length p) (x @ p) @ t"
    using le assms by simp
  with i le assms show ?thesis by auto
qed

lemma find_parts_append: "find_parts ps s \<Longrightarrow> find_parts ps (y @ s)"
proof (induction ps arbitrary: s y)
  case (Cons p ps)
  show ?case
  proof (cases "p = []")
    case True
    with Cons show ?thesis by simp
  next
    case False
    with Cons.prems obtain i where i: "Index s p = Some i" "find_parts ps (drop (i + length p) s)"
      by (auto split: option.splits)
    from Index_Some [OF i(1)] obtain r where r: "s = take i s @ p @ r" "i \<le> length s" by blast
    have rest: "drop (i + length p) s = r"
      using r by (metis append.assoc append_eq_conv_conj length_append length_take min.absorb2)
    have "y @ s = (y @ take i s) @ p @ r" using r(1) by simp
    from Index_append_least [OF this] obtain j z where "Index (y @ s) p = Some j" "drop (j + length p) (y @ s) = z @ r" by blast
    with False Cons.IH [of r z] i(2) rest show ?thesis by simp
  qed
qed simp

lemma glob_parts_find:
  assumes "ps \<noteq> []" "glob_parts (ps @ [q]) s"
  shows "\<exists>u. s = u @ q \<and> find_parts (tl ps) (drop (length (hd ps)) s) \<and> prefix (hd ps) s"
  using assms
proof (induction ps arbitrary: s)
  case (Cons p ps)
  show ?case
  proof (cases ps)
    case Nil
    with Cons.prems show ?thesis by auto
  next
    case ps: (Cons p' ps')
    with Cons.prems obtain x t where t: "s = p @ x @ t" "glob_parts (ps @ [q]) t" by auto
    from Cons.IH [OF _ t(2)] ps obtain u where u: "t = u @ q" "find_parts ps' (drop (length p') t)" "prefix p' t" by auto
    from u(3) obtain r where r: "t = p' @ r" by (auto simp: prefix_def)
    have "find_parts ps (x @ t)"
    proof (cases "p' = []")
      case True
      with u(2) ps find_parts_append [of ps' t x] show ?thesis by simp
    next
      case False
      have "x @ t = x @ p' @ r" using r by simp
      from Index_append_least [OF this] obtain j z where "Index (x @ t) p' = Some j" "drop (j + length p') (x @ t) = z @ r" by blast
      with False u(2) r ps find_parts_append [of ps' r z] show ?thesis by simp
    qed
    with t u(1) show ?thesis by auto
  qed
qed simp

text \<open>
  No domain that a wildcard pattern covers is missed: if the domain is the pattern with
  each star replaced by some text, the route matches. For a pattern with one star the match
  is exact when the domain is at least as long as the text around the star.
\<close>

theorem wildcard_complete:
  "(glob pattern domain \<longrightarrow> wildcardDomainMatch pattern domain) \<and>
   (CHR ''*'' \<notin> set a \<and> CHR ''*'' \<notin> set b \<and> length a + length b \<le> length domain \<longrightarrow>
    (wildcardDomainMatch (a @ CHR ''*'' # b) domain \<longleftrightarrow> glob (a @ CHR ''*'' # b) domain))"
proof -
  have complete: "wildcardDomainMatch p d" if "glob p d" for p d
  proof -
    have g: "glob_parts (Split p (CHR ''*'')) d" using that by (simp add: glob_iff_parts)
    obtain ps q where sp: "Split p (CHR ''*'') = ps @ [q]"
      using Split_ne [of p "CHR ''*''"] by (metis append_butlast_last_id)
    show ?thesis
    proof (cases "ps = []")
      case True
      then have "Split p (CHR ''*'') = [q]" using sp by simp
      moreover from this have "p = q" using Join_Split [of p "CHR ''*''"] by simp
      ultimately show ?thesis using g by (simp add: wildcardDomainMatch_def)
    next
      case False
      have "glob_parts (ps @ [q]) d" using g sp by simp
      from glob_parts_find [OF False this] obtain u where
        u: "d = u @ q" "find_parts (tl ps) (drop (length (hd ps)) d)" "prefix (hd ps) d" by blast
      have "hd (ps @ [q]) = hd ps" "butlast (tl (ps @ [q])) = tl ps" using False by auto
      with u False show ?thesis by (simp add: wildcardDomainMatch_def sp HasPrefix_def)
    qed
  qed
  have split1: "Split s (CHR ''*'') = [s]" if "CHR ''*'' \<notin> set s" for s using that by (induction s) auto
  have split2: "Split (a @ CHR ''*'' # b) (CHR ''*'') = [a, b]" if "CHR ''*'' \<notin> set a" "CHR ''*'' \<notin> set b"
    using that by (induction a) (auto simp: split1)
  have "glob (a @ CHR ''*'' # b) domain"
    if "CHR ''*'' \<notin> set a" "CHR ''*'' \<notin> set b" "length a + length b \<le> length domain" "wildcardDomainMatch (a @ CHR ''*'' # b) domain"
  proof -
    have m: "prefix a domain" "HasSuffix domain b"
      using that by (auto simp: wildcardDomainMatch_def split2 HasPrefix_def HasSuffix_def split: if_splits)
    from m(1) obtain r where "domain = a @ r" by (auto simp: prefix_def)
    moreover from m(2) obtain t where "domain = t @ b" unfolding HasSuffix_iff by blast
    ultimately have r: "domain = a @ r" "a @ r = t @ b" by simp_all
    then have "\<exists>x. r = x @ b" using that(3) by (auto simp: append_eq_append_conv2)
    with r(1) show ?thesis by (auto simp: glob_iff_parts split2 that)
  qed
  with complete show ?thesis by blast
qed

theorem wildcard_complete_witness:
  "wildcardDomainMatch ''*.example.*'' ''api.example.com'' \<and> \<not> wildcardDomainMatch ''api.*.com'' ''web.example.com''"
proof -
  have g: "glob ''*.example.*'' ''api.example.com''" "\<not> glob (''api.'' @ CHR ''*'' # ''.com'') ''web.example.com''"
    by code_simp+
  have "CHR ''*'' \<notin> set ''api.'' \<and> CHR ''*'' \<notin> set ''.com'' \<and> length ''api.'' + length ''.com'' \<le> length ''web.example.com''"
    by simp
  with g wildcard_complete [of "''*.example.*''" "''api.example.com''" "''api.''" "''.com''"]
    wildcard_complete [of "[]" "''web.example.com''" "''api.''" "''.com''"]
  show ?thesis by simp
qed

text \<open>
  The condition on the length is needed: the text before a star and the text after it
  may overlap in the domain, so a pattern matches domains it does not cover.
\<close>

theorem wildcard_overlap:
  "wildcardDomainMatch ''a.*.a'' ''a.a'' \<and> \<not> glob ''a.*.a'' ''a.a''"
  by code_simp

end
