(* ===== verification/RouteResolver.thy ===== *)
theory RouteResolver
  imports Routing
begin

text \<open>
  The preloaded route table (\<^verbatim>\<open>internal/database/route_resolver.go\<close>): \<open>Reload\<close> reads the
  active routes and their targets and builds a snapshot with a map of exact domains, the
  patterns and the paths, longest first; \<open>Resolve\<close> answers from it.
\<close>

subsection \<open>The snapshot\<close>

record domainMatcher =
  dm_wildcard :: string
  dm_regex :: "(string \<Rightarrow> bool) option"

record cachedRoute =
  cr_id :: int
  cr_routeType :: string
  cr_domain :: string
  cr_normalizedHost :: string
  cr_pathPrefix :: string
  cr_targetURL :: string
  cr_certificatePEM :: string
  cr_privateKeyPEM :: string
  cr_exactRouteKey :: string
  cr_patternRouteKey :: string
  cr_pathRouteKey :: string
  cr_targets :: "route_target list"
  cr_matcher :: domainMatcher

record routeSnapshot =
  rs_exactDomains :: "string \<rightharpoonup> cachedRoute"
  rs_patterns :: "cachedRoute list"
  rs_paths :: "cachedRoute list"

definition newRouteSnapshot :: routeSnapshot where
  "newRouteSnapshot = \<lparr>rs_exactDomains = Map.empty, rs_patterns = [], rs_paths = []\<rparr>"

definition normalizeResolverDomain :: "string \<Rightarrow> string" where
  "normalizeResolverDomain domain0 =
     (let domain = TrimSpace domain0
      in if Contains domain '':'' \<or> HasPrefix domain ''['' then normalizeDomain domain
         else ToLower (TrimSuffix domain ''.''))"

definition compileDomainMatcher :: "regexp \<Rightarrow> string \<Rightarrow> string \<Rightarrow> domainMatcher option" where
  "compileDomainMatcher compile routeType domain =
     (let pattern = ToLower (TrimSpace domain);
          regex = (\<lambda>p. map_option (\<lambda>re. \<lparr>dm_wildcard = [], dm_regex = Some re\<rparr>) (compile p))
      in if routeType = ''regex'' then regex pattern
         else if HasPrefix pattern ''regex:'' then regex (TrimPrefix pattern ''regex:'')
         else if HasPrefix pattern ''~'' then regex (TrimPrefix pattern ''~'')
         else if routeType = ''wildcard'' \<or> Contains pattern ''*'' then Some \<lparr>dm_wildcard = pattern, dm_regex = None\<rparr>
         else Some \<lparr>dm_wildcard = [], dm_regex = None\<rparr>)"

definition configured :: "domainMatcher \<Rightarrow> bool" where
  "configured m = (dm_regex m \<noteq> None \<or> dm_wildcard m \<noteq> [])"

definition matches :: "domainMatcher \<Rightarrow> string \<Rightarrow> bool" where
  "matches m domain =
     (case dm_regex m of Some re \<Rightarrow> re domain
      | None \<Rightarrow> dm_wildcard m \<noteq> [] \<and> wildcardDomainMatch (dm_wildcard m) domain)"

subsection \<open>Loading\<close>

datatype load_error = CompileError int

definition route_types :: "string set" where
  "route_types = {''domain'', ''wildcard'', ''regex'', ''path''}"

definition active_route :: "route_row \<Rightarrow> bool" where
  "active_route r = (rr_active r = 1 \<and> rr_type r \<in> route_types)"

definition active_rows :: "db \<Rightarrow> route_row list" where
  "active_rows d = sort_key rr_id (filter active_route (db_routes d))"

definition scan_route :: "regexp \<Rightarrow> route_row \<Rightarrow> load_error + cachedRoute" where
  "scan_route compile r =
     (let ty = ToLower (TrimSpace (rr_type r));
          base = \<lparr>cr_id = rr_id r, cr_routeType = ty, cr_domain = rr_domain r, cr_normalizedHost = [],
                  cr_pathPrefix = rr_path r, cr_targetURL = rr_target r, cr_certificatePEM = rr_cert r,
                  cr_privateKeyPEM = rr_key r, cr_exactRouteKey = [], cr_patternRouteKey = [], cr_pathRouteKey = [],
                  cr_targets = [], cr_matcher = \<lparr>dm_wildcard = [], dm_regex = None\<rparr>\<rparr>
      in if ty \<noteq> ''path'' then
           (case compileDomainMatcher compile ty (rr_domain r) of
              None \<Rightarrow> Inl (CompileError (rr_id r))
            | Some m \<Rightarrow>
                Inr (base\<lparr>cr_normalizedHost := normalizeResolverDomain (rr_domain r),
                          cr_exactRouteKey := ''domain:'' @ normalizeResolverDomain (rr_domain r),
                          cr_patternRouteKey := ''domain:'' @ rr_domain r, cr_matcher := m\<rparr>))
         else Inr (base\<lparr>cr_pathRouteKey := ''path:'' @ rr_path r\<rparr>))"

fun scan_routes :: "regexp \<Rightarrow> route_row list \<Rightarrow> load_error + cachedRoute list" where
  "scan_routes compile [] = Inr []"
| "scan_routes compile (r # rs) =
     (case scan_route compile r of
        Inl e \<Rightarrow> Inl e
      | Inr c \<Rightarrow> (case scan_routes compile rs of Inl e \<Rightarrow> Inl e | Inr cs \<Rightarrow> Inr (c # cs)))"

definition active_target_rows :: "db \<Rightarrow> target_row list" where
  "active_target_rows d =
     sort_key (\<lambda>t. (tr_route t, tr_sort t, tr_id t))
       (filter (\<lambda>t. list_ex (\<lambda>r. rr_id r = tr_route t \<and> active_route r) (db_routes d)) (db_targets d))"

definition attach_targets :: "target_row list \<Rightarrow> cachedRoute \<Rightarrow> cachedRoute" where
  "attach_targets rows c =
     (let ts = cr_targets c @ map target_of_row (filter (\<lambda>t. tr_route t = cr_id c) rows)
      in c\<lparr>cr_targets :=
             (if ts = [] \<and> cr_targetURL c \<noteq> [] then [\<lparr>rt_URL = cr_targetURL c, rt_HealthCheck = ''http''\<rparr>] else ts)\<rparr>)"

definition add_route :: "cachedRoute \<Rightarrow> routeSnapshot \<Rightarrow> routeSnapshot" where
  "add_route c s =
     (if cr_routeType c = ''domain'' then
        (let s1 = (if cr_normalizedHost c \<noteq> [] \<and> rs_exactDomains s (cr_normalizedHost c) = None
                   then s\<lparr>rs_exactDomains := (rs_exactDomains s)(cr_normalizedHost c \<mapsto> c)\<rparr> else s)
         in if configured (cr_matcher c) then s1\<lparr>rs_patterns := rs_patterns s1 @ [c]\<rparr> else s1)
      else if cr_routeType c = ''wildcard'' \<or> cr_routeType c = ''regex'' then
        (if cr_domain c \<noteq> [] \<and> configured (cr_matcher c) then s\<lparr>rs_patterns := rs_patterns s @ [c]\<rparr> else s)
      else if cr_routeType c = ''path'' then s\<lparr>rs_paths := rs_paths s @ [c]\<rparr>
      else s)"

definition pattern_order :: "cachedRoute \<Rightarrow> int \<times> int" where
  "pattern_order c = (- int (RuneCount (cr_domain c)), cr_id c)"

definition path_order :: "cachedRoute \<Rightarrow> int \<times> int" where
  "path_order c = (- int (RuneCount (cr_pathPrefix c)), cr_id c)"

definition build_snapshot :: "cachedRoute list \<Rightarrow> routeSnapshot" where
  "build_snapshot cs =
     (let s = fold add_route cs newRouteSnapshot
      in s\<lparr>rs_patterns := sort_key pattern_order (rs_patterns s), rs_paths := sort_key path_order (rs_paths s)\<rparr>)"

definition loadRouteSnapshot :: "regexp \<Rightarrow> db \<Rightarrow> load_error + routeSnapshot" where
  "loadRouteSnapshot compile d =
     (case scan_routes compile (active_rows d) of
        Inl e \<Rightarrow> Inl e
      | Inr cs \<Rightarrow> Inr (build_snapshot (map (attach_targets (active_target_rows d)) cs)))"

text \<open>The resolver is the snapshot it last published.\<close>

definition NewRouteResolver :: routeSnapshot where
  "NewRouteResolver = newRouteSnapshot"

definition Reload :: "regexp \<Rightarrow> db \<Rightarrow> routeSnapshot \<Rightarrow> load_error option \<times> routeSnapshot" where
  "Reload compile d s = (case loadRouteSnapshot compile d of Inl e \<Rightarrow> (Some e, s) | Inr s' \<Rightarrow> (None, s'))"

subsection \<open>Resolving\<close>

definition domainMatch :: "cachedRoute \<Rightarrow> string \<Rightarrow> route_match" where
  "domainMatch c key = \<lparr>rm_RouteKey = key, rm_Targets = cr_targets c, rm_CertificatePEM = cr_certificatePEM c,
     rm_PrivateKeyPEM = cr_privateKeyPEM c\<rparr>"

definition pathMatch :: "cachedRoute \<Rightarrow> route_match" where
  "pathMatch c = \<lparr>rm_RouteKey = cr_pathRouteKey c, rm_Targets = cr_targets c, rm_CertificatePEM = [], rm_PrivateKeyPEM = []\<rparr>"

fun resolve_pattern :: "string \<Rightarrow> cachedRoute list \<Rightarrow> route_match option" where
  "resolve_pattern domain [] = None"
| "resolve_pattern domain (c # cs) =
     (if EqualFold (cr_domain c) domain then resolve_pattern domain cs
      else if \<not> matches (cr_matcher c) domain then resolve_pattern domain cs
      else if cr_targets c \<noteq> [] then Some (domainMatch c (cr_patternRouteKey c))
      else None)"

fun resolve_path :: "string \<Rightarrow> cachedRoute list \<Rightarrow> route_match option" where
  "resolve_path path [] = None"
| "resolve_path path (c # cs) =
     (if \<not> HasPrefix path (cr_pathPrefix c) then resolve_path path cs
      else if cr_targets c \<noteq> [] then Some (pathMatch c)
      else None)"

definition Resolve :: "routeSnapshot \<Rightarrow> string \<Rightarrow> string \<Rightarrow> route_match option" where
  "Resolve s domain0 path =
     (let domain = normalizeResolverDomain domain0;
          exact = (if domain0 = [] then None
                   else (case rs_exactDomains s domain of
                           None \<Rightarrow> None
                         | Some c \<Rightarrow> if cr_targets c \<noteq> [] then Some (domainMatch c (cr_exactRouteKey c)) else None));
          pattern = (if domain0 = [] then None else resolve_pattern domain (rs_patterns s));
          by_path = (if path = [] then None else resolve_path path (rs_paths s))
      in or_else exact (or_else pattern by_path))"

subsection \<open>What the snapshot holds\<close>

text \<open>The cached route of a row, with the targets of the row.\<close>

definition cached :: "regexp \<Rightarrow> db \<Rightarrow> route_row \<Rightarrow> cachedRoute \<Rightarrow> bool" where
  "cached compile d r c = (\<exists>c0. scan_route compile r = Inr c0 \<and> c = attach_targets (active_target_rows d) c0)"

lemma type_norm: "t \<in> route_types \<Longrightarrow> ToLower (TrimSpace t) = t"
proof -
  have "\<forall>t \<in> set [''domain'', ''wildcard'', ''regex'', ''path'']. ToLower (TrimSpace t) = t" by code_simp
  then show "t \<in> route_types \<Longrightarrow> ToLower (TrimSpace t) = t" by (auto simp: route_types_def)
qed

lemma sort_key_cong:
  "(\<And>x y. x \<in> set xs \<Longrightarrow> y \<in> set xs \<Longrightarrow> f x \<le> f y \<longleftrightarrow> g x \<le> g y) \<Longrightarrow> sort_key f xs = sort_key g xs"
proof (induction xs)
  case (Cons x xs)
  have ins: "insort_key f x ys = insort_key g x ys" if "set ys \<subseteq> set (x # xs)" for ys
    using that
  proof (induction ys)
    case (Cons y ys)
    then show ?case using Cons.prems Cons.IH \<open>\<And>a b. a \<in> set (x # xs) \<Longrightarrow> b \<in> set (x # xs) \<Longrightarrow> f a \<le> f b \<longleftrightarrow> g a \<le> g b\<close> [of x y] by auto
  qed simp
  have "sort_key f xs = sort_key g xs" using Cons by simp
  with ins [of "sort_key g xs"] show ?case by auto
qed simp

lemma cached_targets:
  assumes "cached compile d r c" "r \<in> set (db_routes d)" "active_route r"
  shows "cr_targets c = usable_targets r d"
proof -
  obtain c0 where c0: "scan_route compile r = Inr c0" "c = attach_targets (active_target_rows d) c0"
    using assms(1) by (auto simp: cached_def)
  have fields: "cr_id c0 = rr_id r" "cr_targets c0 = []" "cr_targetURL c0 = rr_target r"
    using c0(1) by (auto simp: scan_route_def Let_def split: if_splits option.splits)
  let ?act = "\<lambda>t. list_ex (\<lambda>r. rr_id r = tr_route t \<and> active_route r) (db_routes d)"
  have act: "?act t" if "tr_route t = rr_id r" for t
    using assms(2,3) that by (auto simp: list_ex_iff)
  have "filter (\<lambda>t. tr_route t = rr_id r) (active_target_rows d) =
      sort_key (\<lambda>t. (tr_route t, tr_sort t, tr_id t)) (filter (\<lambda>t. tr_route t = rr_id r) (filter ?act (db_targets d)))"
    by (simp add: active_target_rows_def filter_sort)
  also have "filter (\<lambda>t. tr_route t = rr_id r) (filter ?act (db_targets d)) = filter (\<lambda>t. tr_route t = rr_id r) (db_targets d)"
    using act by (auto intro: filter_cong)
  also have "sort_key (\<lambda>t. (tr_route t, tr_sort t, tr_id t)) (filter (\<lambda>t. tr_route t = rr_id r) (db_targets d)) =
      sort_key (\<lambda>t. (tr_sort t, tr_id t)) (filter (\<lambda>t. tr_route t = rr_id r) (db_targets d))"
    by (rule sort_key_cong) (auto simp: less_eq_prod_def)
  finally have "map target_of_row (filter (\<lambda>t. tr_route t = rr_id r) (active_target_rows d)) = loadRouteTargets d (rr_id r)"
    by (simp add: loadRouteTargets_def)
  then show ?thesis by (simp add: c0(2) attach_targets_def fields usable_targets_def Let_def)
qed

lemma cached_fields:
  assumes "cached compile d r c" "active_route r"
  shows "cr_id c = rr_id r" "cr_routeType c = rr_type r" "cr_domain c = rr_domain r" "cr_pathPrefix c = rr_path r"
    "cr_certificatePEM c = rr_cert r" "cr_privateKeyPEM c = rr_key r"
    "rr_type r \<noteq> ''path'' \<Longrightarrow> cr_normalizedHost c = normalizeResolverDomain (rr_domain r)"
    "rr_type r \<noteq> ''path'' \<Longrightarrow> cr_exactRouteKey c = ''domain:'' @ normalizeResolverDomain (rr_domain r)"
    "rr_type r \<noteq> ''path'' \<Longrightarrow> cr_patternRouteKey c = ''domain:'' @ rr_domain r"
    "rr_type r = ''path'' \<Longrightarrow> cr_pathRouteKey c = ''path:'' @ rr_path r"
    "rr_type r \<noteq> ''path'' \<Longrightarrow> compileDomainMatcher compile (rr_type r) (rr_domain r) = Some (cr_matcher c)"
  using assms type_norm [of "rr_type r"]
  by (auto simp: cached_def scan_route_def attach_targets_def active_route_def Let_def split: if_splits option.splits)

lemma scan_routes_rel:
  "scan_routes compile rs = Inr cs \<Longrightarrow> list_all2 (\<lambda>r c. scan_route compile r = Inr c) rs cs"
  by (induction rs arbitrary: cs) (auto split: sum.splits)

lemma load_cached:
  assumes "loadRouteSnapshot compile d = Inr s"
  shows "\<exists>cs. list_all2 (cached compile d) (active_rows d) cs \<and> s = build_snapshot cs"
proof -
  obtain cs where cs: "scan_routes compile (active_rows d) = Inr cs" "s = build_snapshot (map (attach_targets (active_target_rows d)) cs)"
    using assms by (auto simp: loadRouteSnapshot_def split: sum.splits)
  from scan_routes_rel [OF cs(1)] have "list_all2 (cached compile d) (active_rows d) (map (attach_targets (active_target_rows d)) cs)"
    by (auto simp: list_all2_conv_all_nth cached_def)
  with cs(2) show ?thesis by blast
qed

definition is_pattern :: "cachedRoute \<Rightarrow> bool" where
  "is_pattern c = (configured (cr_matcher c) \<and> (cr_routeType c = ''domain'' \<or>
     (cr_routeType c = ''wildcard'' \<or> cr_routeType c = ''regex'') \<and> cr_domain c \<noteq> []))"

definition is_exact :: "string \<Rightarrow> cachedRoute \<Rightarrow> bool" where
  "is_exact h c = (cr_routeType c = ''domain'' \<and> cr_normalizedHost c = h \<and> h \<noteq> [])"

lemma add_route_parts:
  "rs_patterns (add_route c s) = rs_patterns s @ (if is_pattern c then [c] else [])"
  "rs_paths (add_route c s) = rs_paths s @ (if cr_routeType c = ''path'' then [c] else [])"
  "rs_exactDomains (add_route c s) h = (case rs_exactDomains s h of Some x \<Rightarrow> Some x | None \<Rightarrow> if is_exact h c then Some c else None)"
  by (auto simp: add_route_def is_pattern_def is_exact_def Let_def split: option.splits)

lemma fold_add_route:
  "rs_patterns (fold add_route cs s) = rs_patterns s @ filter is_pattern cs"
  "rs_paths (fold add_route cs s) = rs_paths s @ filter (\<lambda>c. cr_routeType c = ''path'') cs"
  "rs_exactDomains (fold add_route cs s) h =
     (case rs_exactDomains s h of Some x \<Rightarrow> Some x | None \<Rightarrow> find (is_exact h) cs)"
  by (induction cs arbitrary: s) (auto simp: add_route_parts split: option.splits)

lemma build_snapshot_parts:
  "rs_patterns (build_snapshot cs) = sort_key pattern_order (filter is_pattern cs)"
  "rs_paths (build_snapshot cs) = sort_key path_order (filter (\<lambda>c. cr_routeType c = ''path'') cs)"
  "rs_exactDomains (build_snapshot cs) h = find (is_exact h) cs"
  by (simp_all add: build_snapshot_def Let_def fold_add_route newRouteSnapshot_def)

lemma resolve_pattern_find:
  "resolve_pattern domain cs =
     Option.bind (find (\<lambda>c. \<not> EqualFold (cr_domain c) domain \<and> matches (cr_matcher c) domain) cs)
       (\<lambda>c. if cr_targets c = [] then None else Some (domainMatch c (cr_patternRouteKey c)))"
  by (induction cs) auto

lemma resolve_path_find:
  "resolve_path path cs =
     Option.bind (find (\<lambda>c. HasPrefix path (cr_pathPrefix c)) cs) (\<lambda>c. if cr_targets c = [] then None else Some (pathMatch c))"
  by (induction cs) auto

lemma wildcard_empty: "wildcardDomainMatch [] d \<longleftrightarrow> d = []"
  by (auto simp: wildcardDomainMatch_def)

lemma matches_iff:
  assumes "compileDomainMatcher compile ty dm = Some m" "ToLower (TrimSpace ty) = ty"
  shows "matches m domain \<Longrightarrow> domainPatternMatches compile ty dm domain"
    and "domain \<noteq> [] \<Longrightarrow> domainPatternMatches compile ty dm domain \<Longrightarrow> matches m domain \<and> configured m"
proof -
  define p where "p = ToLower (TrimSpace dm)"
  have comp: "(if ty = ''regex'' then map_option (\<lambda>re. \<lparr>dm_wildcard = [], dm_regex = Some re\<rparr>) (compile p)
      else if HasPrefix p ''regex:'' then map_option (\<lambda>re. \<lparr>dm_wildcard = [], dm_regex = Some re\<rparr>) (compile (TrimPrefix p ''regex:''))
      else if HasPrefix p ''~'' then map_option (\<lambda>re. \<lparr>dm_wildcard = [], dm_regex = Some re\<rparr>) (compile (TrimPrefix p ''~''))
      else if ty = ''wildcard'' \<or> Contains p ''*'' then Some \<lparr>dm_wildcard = p, dm_regex = None\<rparr>
      else Some \<lparr>dm_wildcard = [], dm_regex = None\<rparr>) = Some m"
    using assms(1) by (simp only: compileDomainMatcher_def Let_def p_def)
  have dpm: "domainPatternMatches compile ty dm domain =
     (if ty = ''regex'' then regexDomainMatch compile p domain
      else if HasPrefix p ''regex:'' then regexDomainMatch compile (TrimPrefix p ''regex:'') domain
      else if HasPrefix p ''~'' then regexDomainMatch compile (TrimPrefix p ''~'') domain
      else if ty = ''wildcard'' \<or> Contains p ''*'' then wildcardDomainMatch p domain
      else False)"
    using assms(2) by (simp only: domainPatternMatches_def Let_def p_def)
  have re: "matches m domain = regexDomainMatch compile q domain \<and> configured m"
    if "map_option (\<lambda>re. \<lparr>dm_wildcard = [], dm_regex = Some re\<rparr>) (compile q) = Some m" for q
    using that by (auto simp: matches_def regexDomainMatch_def configured_def)
  have wc: "(matches m domain \<longrightarrow> wildcardDomainMatch p domain) \<and>
      (domain \<noteq> [] \<longrightarrow> wildcardDomainMatch p domain \<longrightarrow> matches m domain \<and> configured m)"
    if "Some \<lparr>dm_wildcard = p, dm_regex = None\<rparr> = Some m"
    using that by (auto simp: matches_def configured_def wildcard_empty)
  have none: "\<not> matches m domain" if "Some \<lparr>dm_wildcard = [], dm_regex = None\<rparr> = Some m"
    using that by (auto simp: matches_def)
  let ?goal = "(matches m domain \<longrightarrow> domainPatternMatches compile ty dm domain) \<and>
    (domain \<noteq> [] \<longrightarrow> domainPatternMatches compile ty dm domain \<longrightarrow> matches m domain \<and> configured m)"
  consider "ty = ''regex''" | "ty \<noteq> ''regex''" "HasPrefix p ''regex:''"
    | "ty \<noteq> ''regex''" "\<not> HasPrefix p ''regex:''" "HasPrefix p ''~''"
    | "ty \<noteq> ''regex''" "\<not> HasPrefix p ''regex:''" "\<not> HasPrefix p ''~''" "ty = ''wildcard'' \<or> Contains p ''*''"
    | "ty \<noteq> ''regex''" "\<not> HasPrefix p ''regex:''" "\<not> HasPrefix p ''~''" "\<not> (ty = ''wildcard'' \<or> Contains p ''*'')" by blast
  then have ?goal
  proof cases
    case 1
    show ?thesis using re [of p] comp unfolding dpm if_P [OF 1] by blast
  next
    case 2
    show ?thesis using re [of "TrimPrefix p ''regex:''"] comp unfolding dpm if_not_P [OF 2(1)] if_P [OF 2(2)] by blast
  next
    case 3
    show ?thesis using re [of "TrimPrefix p ''~''"] comp unfolding dpm if_not_P [OF 3(1)] if_not_P [OF 3(2)] if_P [OF 3(3)] by blast
  next
    case 4
    show ?thesis using wc comp unfolding dpm if_not_P [OF 4(1)] if_not_P [OF 4(2)] if_not_P [OF 4(3)] if_P [OF 4(4)] by blast
  next
    case 5
    show ?thesis using none comp unfolding dpm if_not_P [OF 5(1)] if_not_P [OF 5(2)] if_not_P [OF 5(3)] if_not_P [OF 5(4)] by blast
  qed
  then show "matches m domain \<Longrightarrow> domainPatternMatches compile ty dm domain"
    and "domain \<noteq> [] \<Longrightarrow> domainPatternMatches compile ty dm domain \<Longrightarrow> matches m domain \<and> configured m" by blast+
qed

subsection \<open>What a resolved request gets\<close>

text \<open>The active rows that a normalized domain or a path matches.\<close>

definition exact_row :: "string \<Rightarrow> route_row \<Rightarrow> bool" where
  "exact_row h r = (rr_active r = 1 \<and> rr_type r = ''domain'' \<and> normalizeResolverDomain (rr_domain r) = h)"

definition pattern_row :: "regexp \<Rightarrow> string \<Rightarrow> route_row \<Rightarrow> bool" where
  "pattern_row compile h r = (rr_active r = 1 \<and> rr_type r \<in> {''domain'', ''wildcard'', ''regex''} \<and>
     \<not> EqualFold (rr_domain r) h \<and> domainPatternMatches compile (rr_type r) (rr_domain r) h)"

definition path_row :: "string \<Rightarrow> route_row \<Rightarrow> bool" where
  "path_row path r = (rr_active r = 1 \<and> rr_type r = ''path'' \<and> HasPrefix path (rr_path r))"

lemma active_rows_mem: "r \<in> set (active_rows d) \<longleftrightarrow> r \<in> set (db_routes d) \<and> active_route r"
  by (auto simp: active_rows_def)

lemma rel_cached:
  assumes "list_all2 R rs cs" "c \<in> set cs"
  shows "\<exists>r \<in> set rs. R r c"
  using assms by (induction rule: list_all2_induct) auto

lemma rel_row:
  assumes "list_all2 R rs cs" "r \<in> set rs"
  shows "\<exists>c \<in> set cs. R r c"
  using assms by (induction rule: list_all2_induct) auto

lemma pattern_cached:
  assumes "cached compile d r c" "active_route r" "is_pattern c" "\<not> EqualFold (cr_domain c) h" "matches (cr_matcher c) h"
  shows "pattern_row compile h r"
proof -
  have ty: "rr_type r \<in> {''domain'', ''wildcard'', ''regex''}" "rr_active r = 1" "rr_type r \<noteq> ''path''"
    using assms(2,3) cached_fields(2) [OF assms(1,2)] by (auto simp: is_pattern_def active_route_def)
  have "ToLower (TrimSpace (rr_type r)) = rr_type r" using type_norm assms(2) by (simp add: active_route_def)
  from matches_iff(1) [OF cached_fields(11) [OF assms(1,2) ty(3)] this assms(5)] ty assms(4) cached_fields(3) [OF assms(1,2)]
  show ?thesis by (simp add: pattern_row_def)
qed

text \<open>The row a cached route was loaded from, and the cached route of an active row.\<close>

lemma row_of_cached:
  assumes "list_all2 (cached compile d) (active_rows d) cs" "c \<in> set cs"
  obtains r where "r \<in> set (db_routes d)" "active_route r" "cached compile d r c" "cr_targets c = usable_targets r d"
  using rel_cached [OF assms] cached_targets by (auto simp: active_rows_mem)

lemma cached_of_row:
  assumes "list_all2 (cached compile d) (active_rows d) cs" "r \<in> set (db_routes d)" "active_route r"
  obtains c where "c \<in> set cs" "cached compile d r c"
  using rel_row [OF assms(1), of r] assms(2,3) by (auto simp: active_rows_mem)

lemma exact_resolved:
  assumes "list_all2 (cached compile d) (active_rows d) cs" "c \<in> set cs" "is_exact h c"
  shows "\<exists>r \<in> set (db_routes d). cr_targets c = usable_targets r d \<and> exact_row h r"
proof -
  obtain r where r: "r \<in> set (db_routes d)" "active_route r" "cached compile d r c" "cr_targets c = usable_targets r d"
    by (rule row_of_cached [OF assms(1,2)])
  have "exact_row h r" using assms(3) cached_fields [OF r(3,2)] r(2) by (auto simp: is_exact_def exact_row_def active_route_def)
  with r show ?thesis by blast
qed

lemma pattern_resolved:
  assumes cs: "list_all2 (cached compile d) (active_rows d) cs"
    and c: "c \<in> set cs" "is_pattern c" "\<not> EqualFold (cr_domain c) h" "matches (cr_matcher c) h"
    and least: "\<forall>y \<in> set cs. is_pattern y \<and> \<not> EqualFold (cr_domain y) h \<and> matches (cr_matcher y) h \<longrightarrow> pattern_order c \<le> pattern_order y"
  shows "\<exists>r \<in> set (db_routes d). cr_targets c = usable_targets r d \<and> pattern_row compile h r \<and>
    (\<forall>r' \<in> set (db_routes d). pattern_row compile h r' \<and> h \<noteq> [] \<and> rr_domain r' \<noteq> [] \<longrightarrow>
       RuneCount (rr_domain r') \<le> RuneCount (rr_domain r))"
proof -
  obtain r where r: "r \<in> set (db_routes d)" "active_route r" "cached compile d r c" "cr_targets c = usable_targets r d"
    by (rule row_of_cached [OF cs c(1)])
  have "pattern_row compile h r" by (rule pattern_cached [OF r(3,2) c(2-4)])
  moreover have "RuneCount (rr_domain r') \<le> RuneCount (rr_domain r)"
    if r': "r' \<in> set (db_routes d)" "pattern_row compile h r'" "h \<noteq> []" "rr_domain r' \<noteq> []" for r'
  proof -
    have act: "active_route r'" and ty: "rr_type r' \<noteq> ''path''" using r'(2) by (auto simp: pattern_row_def active_route_def route_types_def)
    obtain c' where c': "c' \<in> set cs" "cached compile d r' c'" by (rule cached_of_row [OF cs r'(1) act])
    have n: "ToLower (TrimSpace (rr_type r')) = rr_type r'" using type_norm act by (simp add: active_route_def)
    have "domainPatternMatches compile (rr_type r') (rr_domain r') h" using r'(2) by (simp add: pattern_row_def)
    from matches_iff(2) [OF cached_fields(11) [OF c'(2) act ty] n r'(3) this] have mc: "matches (cr_matcher c') h" "configured (cr_matcher c')" by auto
    have "is_pattern c'" using mc(2) r'(2,4) cached_fields(2,3) [OF c'(2) act] by (auto simp: is_pattern_def pattern_row_def)
    with least c'(1) mc(1) r'(2) cached_fields(3) [OF c'(2) act] have "pattern_order c \<le> pattern_order c'"
      by (auto simp: pattern_row_def)
    then show ?thesis using cached_fields(3) [OF c'(2) act] cached_fields(3) [OF r(3,2)] by (auto simp: pattern_order_def less_eq_prod_def)
  qed
  ultimately show ?thesis using r by blast
qed

lemma path_resolved:
  assumes cs: "list_all2 (cached compile d) (active_rows d) cs"
    and c: "c \<in> set cs" "cr_routeType c = ''path''" "HasPrefix path (cr_pathPrefix c)"
    and least: "\<forall>y \<in> set cs. cr_routeType y = ''path'' \<and> HasPrefix path (cr_pathPrefix y) \<longrightarrow> path_order c \<le> path_order y"
  shows "\<exists>r \<in> set (db_routes d). cr_targets c = usable_targets r d \<and> path_row path r \<and>
    (\<forall>r' \<in> set (db_routes d). path_row path r' \<longrightarrow> RuneCount (rr_path r') \<le> RuneCount (rr_path r))"
proof -
  obtain r where r: "r \<in> set (db_routes d)" "active_route r" "cached compile d r c" "cr_targets c = usable_targets r d"
    by (rule row_of_cached [OF cs c(1)])
  have "path_row path r" using c cached_fields [OF r(3,2)] r(2) by (auto simp: path_row_def active_route_def)
  moreover have "RuneCount (rr_path r') \<le> RuneCount (rr_path r)" if r': "r' \<in> set (db_routes d)" "path_row path r'" for r'
  proof -
    have act: "active_route r'" using r'(2) by (auto simp: path_row_def active_route_def route_types_def)
    obtain c' where c': "c' \<in> set cs" "cached compile d r' c'" by (rule cached_of_row [OF cs r'(1) act])
    have "path_order c \<le> path_order c'"
      using least c'(1) r'(2) cached_fields(2,4) [OF c'(2) act] by (auto simp: path_row_def)
    then show ?thesis using cached_fields(4) [OF c'(2) act] cached_fields(4) [OF r(3,2)] by (auto simp: path_order_def less_eq_prod_def)
  qed
  ultimately show ?thesis using r by blast
qed

lemma resolved_row:
  assumes "loadRouteSnapshot compile d = Inr s" "Resolve s domain path = Some m"
  defines "h \<equiv> normalizeResolverDomain domain"
  shows "\<exists>r \<in> set (db_routes d). rm_Targets m = usable_targets r d \<and> rm_Targets m \<noteq> [] \<and>
    (exact_row h r \<or>
     pattern_row compile h r \<and>
       (\<forall>r' \<in> set (db_routes d). pattern_row compile h r' \<and> h \<noteq> [] \<and> rr_domain r' \<noteq> [] \<longrightarrow>
          RuneCount (rr_domain r') \<le> RuneCount (rr_domain r)) \<or>
     path_row path r \<and> (\<forall>r' \<in> set (db_routes d). path_row path r' \<longrightarrow> RuneCount (rr_path r') \<le> RuneCount (rr_path r)))"
proof -
  from load_cached [OF assms(1)] obtain cs where cs: "list_all2 (cached compile d) (active_rows d) cs" "s = build_snapshot cs"
    by blast
  note parts = build_snapshot_parts [of cs, folded cs(2)]
  consider (exact) c where "rs_exactDomains s h = Some c" "cr_targets c \<noteq> []" "rm_Targets m = cr_targets c"
    | (pat) c where "find (\<lambda>c. \<not> EqualFold (cr_domain c) h \<and> matches (cr_matcher c) h) (rs_patterns s) = Some c"
        "cr_targets c \<noteq> []" "rm_Targets m = cr_targets c"
    | (path) c where "find (\<lambda>c. HasPrefix path (cr_pathPrefix c)) (rs_paths s) = Some c"
        "cr_targets c \<noteq> []" "rm_Targets m = cr_targets c"
    using assms(2)
    by (auto simp: Resolve_def h_def Let_def or_else_def resolve_pattern_find resolve_path_find domainMatch_def pathMatch_def
        bind_eq_Some_conv split: option.splits if_splits)
  then show ?thesis
  proof cases
    case exact
    from find_someD [of "is_exact h" cs c] exact(1) have "c \<in> set cs" "is_exact h c" by (auto simp: parts)
    from exact_resolved [OF cs(1) this] exact(2,3) show ?thesis by auto
  next
    case pat
    from find_sorted [OF pat(1) [unfolded parts]] have "c \<in> set cs" "is_pattern c" "\<not> EqualFold (cr_domain c) h" "matches (cr_matcher c) h"
      "\<forall>y \<in> set cs. is_pattern y \<and> \<not> EqualFold (cr_domain y) h \<and> matches (cr_matcher y) h \<longrightarrow> pattern_order c \<le> pattern_order y" by auto
    from pattern_resolved [OF cs(1) this] pat(2,3) show ?thesis by auto
  next
    case path
    from find_sorted [OF path(1) [unfolded parts]] have "c \<in> set cs" "cr_routeType c = ''path''" "HasPrefix path (cr_pathPrefix c)"
      "\<forall>y \<in> set cs. cr_routeType y = ''path'' \<and> HasPrefix path (cr_pathPrefix y) \<longrightarrow> path_order c \<le> path_order y" by auto
    from path_resolved [OF cs(1) this] path(2,3) show ?thesis by auto
  qed
qed


definition one_pattern :: db where
  "one_pattern = insert_route ''wildcard'' ''*.example.com'' [] ''http://c:3'' [] [] empty_db"


end
