(* ===== verification/RouteEquivalence.thy ===== *)
theory RouteEquivalence
  imports RouteResolver
begin

text \<open>
  The preloaded resolver and the queries it replaced give the same answers, on tables written
  in the plain form in which they agree on what a domain and a prefix is; and where they
  differ.
\<close>

definition plain_row :: "route_row \<Rightarrow> bool" where
  "plain_row r = (ascii (rr_domain r) \<and> ascii (rr_path r) \<and>
     (rr_type r = ''domain'' \<longrightarrow> normalizeResolverDomain (rr_domain r) = ToLower (rr_domain r)) \<and>
     (rr_type r = ''path'' \<longrightarrow> rr_domain r = [] \<and> ToLower (rr_path r) = rr_path r \<and>
        CHR ''%'' \<notin> set (rr_path r) \<and> CHR ''_'' \<notin> set (rr_path r)))"

definition plain_routes :: "db \<Rightarrow> bool" where
  "plain_routes d = ((\<forall>r \<in> set (db_routes d). rr_active r = 1 \<longrightarrow> plain_row r) \<and>
     distinct (map (\<lambda>r. ToLower (rr_domain r)) (filter (\<lambda>r. rr_type r = ''domain'' \<and> rr_active r = 1) (db_routes d))))"

definition good_picker :: "picker \<Rightarrow> bool" where
  "good_picker pick = (\<forall>rows. rows \<noteq> [] \<longrightarrow> pick rows \<in> set rows)"

lemma filter_unique:
  "distinct (map f xs) \<Longrightarrow> x \<in> set xs \<Longrightarrow> P x \<Longrightarrow> (\<forall>y \<in> set xs. P y \<longrightarrow> f y = f x) \<Longrightarrow> filter P xs = [x]"
proof (induction xs)
  case (Cons a xs)
  show ?case
  proof (cases "a = x")
    case True
    have "f x \<notin> f ` set xs" using Cons.prems(1) True by simp
    with Cons.prems(4) have "\<forall>y \<in> set xs. \<not> P y" by (metis imageI list.set_intros(2))
    then have "filter P xs = []" by (simp add: filter_empty_conv)
    with True Cons.prems(3) show ?thesis by simp
  next
    case False
    with Cons.prems(2) have x: "x \<in> set xs" by simp
    moreover have "f a \<notin> f ` set xs" using Cons.prems(1) by simp
    ultimately have "f a \<noteq> f x" by (metis imageI)
    then have "\<not> P a" using Cons.prems(4) by (metis list.set_intros(1))
    moreover have "filter P xs = [x]"
      by (rule Cons.IH [OF _ x Cons.prems(3)]) (use Cons.prems(1) in simp, use Cons.prems(4) in fastforce)
    ultimately show ?thesis by simp
  qed
qed simp

lemma pick_one: "good_picker pick \<Longrightarrow> first_of pick [r] = Some r"
proof -
  assume "good_picker pick"
  from this [unfolded good_picker_def, rule_format, of "[r]"] show ?thesis by (simp add: first_of_def)
qed

lemma row_by_id: "db_ok d \<Longrightarrow> r \<in> set (db_routes d) \<Longrightarrow> r' \<in> set (db_routes d) \<Longrightarrow> rr_id r = rr_id r' \<Longrightarrow> r = r'"
proof -
  assume "db_ok d" and r: "r \<in> set (db_routes d)" "r' \<in> set (db_routes d)" "rr_id r = rr_id r'"
  then have "distinct (map rr_id (db_routes d))" by (simp add: db_ok_def ids_ok_def)
  then have "inj_on rr_id (set (db_routes d))" by (simp add: distinct_map)
  from inj_onD [OF this r(3,1,2)] show "r = r'" .
qed

text \<open>The tables, the snapshot built from them and the cached routes it was built from.\<close>

definition loaded_routes :: "regexp \<Rightarrow> picker \<Rightarrow> db \<Rightarrow> routeSnapshot \<Rightarrow> cachedRoute list \<Rightarrow> bool" where
  "loaded_routes compile pick d s cs = (db_ok d \<and> plain_routes d \<and> good_picker pick \<and>
     list_all2 (cached compile d) (active_rows d) cs \<and> s = build_snapshot cs)"

lemma loaded_facts:
  assumes "loaded_routes compile pick d s cs"
  shows "db_ok d" "plain_routes d" "good_picker pick" "list_all2 (cached compile d) (active_rows d) cs" "s = build_snapshot cs"
  using assms by (simp_all only: loaded_routes_def)

lemma of_cached:
  assumes loaded: "loaded_routes compile pick d s cs" and "c \<in> set cs"
  obtains r where "r \<in> set (db_routes d)" "active_route r" "cached compile d r c" "cr_targets c = usable_targets r d" "plain_row r"
proof -
  note ok = loaded_facts(1) [OF loaded] and plain = loaded_facts(2) [OF loaded] and picker = loaded_facts(3) [OF loaded]
    and rel = loaded_facts(4) [OF loaded] and snap = loaded_facts(5) [OF loaded]
  obtain r where r: "r \<in> set (active_rows d)" "cached compile d r c" using rel_cached [OF rel assms(2)] by blast
  then have "r \<in> set (db_routes d)" "active_route r" by (auto simp: active_rows_mem)
  with that [of r] r(2) cached_targets [OF r(2)] plain show thesis by (auto simp: plain_routes_def active_route_def)
qed

lemma of_row:
  assumes loaded: "loaded_routes compile pick d s cs" and "r \<in> set (db_routes d)" "active_route r"
  obtains c where "c \<in> set cs" "cached compile d r c" "cr_targets c = usable_targets r d"
proof -
  obtain c where "c \<in> set cs" "cached compile d r c"
    using rel_row [OF loaded_facts(4) [OF loaded], of r] assms by (auto simp: active_rows_mem)
  with that cached_targets assms show thesis by blast
qed

lemma exact_agrees:
  assumes loaded: "loaded_routes compile pick d s cs" and "h \<noteq> []" "ToLower h = h"
  shows "(case rs_exactDomains s h of None \<Rightarrow> None
      | Some c \<Rightarrow> if cr_targets c \<noteq> [] then Some (domainMatch c (cr_exactRouteKey c)) else None) =
    Option.bind (findRouteByDomain pick h d) (\<lambda>r. match_of (''domain:'' @ h) r (rr_cert r) (rr_key r) d)"
proof -
  note ok = loaded_facts(1) [OF loaded] and plain = loaded_facts(2) [OF loaded] and picker = loaded_facts(3) [OF loaded]
    and rel = loaded_facts(4) [OF loaded] and snap = loaded_facts(5) [OF loaded]
  let ?dom = "filter (\<lambda>r. rr_type r = ''domain'' \<and> rr_active r = 1) (db_routes d)"
  let ?P = "\<lambda>r. rr_type r = ''domain'' \<and> nocase_eq (rr_domain r) h \<and> rr_active r = 1"
  have rows: "filter ?P (db_routes d) = filter (\<lambda>r. ToLower (rr_domain r) = h) ?dom"
    using assms(3) by (auto simp: nocase_eq_def intro!: filter_cong)
  have snap_eq: "rs_exactDomains s h = find (is_exact h) cs" using snap by (simp add: build_snapshot_parts)
  show ?thesis
  proof (cases "find (is_exact h) cs")
    case None
    have "\<not> ?P r" if r: "r \<in> set (db_routes d)" for r
    proof
      assume P: "?P r"
      then have act: "active_route r" "plain_row r" using r plain by (auto simp: active_route_def route_types_def plain_routes_def)
      obtain c where c: "c \<in> set cs" "cached compile d r c" by (rule of_row [OF loaded r act(1)])
      from P act have "is_exact h c"
        using cached_fields(2,7) [OF c(2) act(1)] assms(2,3) by (auto simp: is_exact_def plain_row_def nocase_eq_def)
      with None c(1) show False by (auto simp: find_none_iff)
    qed
    then have "filter ?P (db_routes d) = []" by (simp add: filter_empty_conv)
    then show ?thesis by (simp add: snap_eq None findRouteByDomain_def first_of_def)
  next
    case (Some c)
    then have c: "c \<in> set cs" "is_exact h c" by (auto dest: find_someD)
    obtain r where r: "r \<in> set (db_routes d)" "active_route r" "cached compile d r c" "cr_targets c = usable_targets r d" "plain_row r"
      by (rule of_cached [OF loaded c(1)])
    have dom: "rr_type r = ''domain''" "ToLower (rr_domain r) = h" "rr_active r = 1"
      using c(2) r cached_fields(2,7) [OF r(3,2)] by (auto simp: is_exact_def plain_row_def active_route_def)
    have "filter (\<lambda>r. ToLower (rr_domain r) = h) ?dom = [r]"
      by (rule filter_unique [where f = "\<lambda>r. ToLower (rr_domain r)"]) (use plain r dom in \<open>auto simp: plain_routes_def\<close>)
    then have "findRouteByDomain pick h d = Some r"
      using pick_one [OF picker] by (simp add: findRouteByDomain_def rows)
    moreover have "cr_exactRouteKey c = ''domain:'' @ h"
      using cached_fields(8) [OF r(3,2)] dom r(5) by (simp add: plain_row_def)
    ultimately show ?thesis
      using cached_fields(5,6) [OF r(3,2)] r(4) by (simp add: snap_eq Some match_of_def domainMatch_def Let_def)
  qed
qed

lemma unset_unconfigured: "compileDomainMatcher compile ''domain'' [] = Some m \<Longrightarrow> \<not> configured m"
proof -
  have "\<not> HasPrefix [] ''regex:''" "\<not> HasPrefix [] ''~''" "\<not> Contains [] ''*''" "TrimSpace [] = []"
    by (simp_all add: HasPrefix_def Contains_def)
  then show "compileDomainMatcher compile ''domain'' [] = Some m \<Longrightarrow> \<not> configured m"
    by (auto simp: compileDomainMatcher_def Let_def configured_def)
qed

lemma pattern_iff:
  assumes "cached compile d r c" "active_route r" "h \<noteq> []"
  shows "is_pattern c \<and> \<not> EqualFold (cr_domain c) h \<and> matches (cr_matcher c) h \<longleftrightarrow> pattern_row compile h r \<and> rr_domain r \<noteq> []"
proof
  assume a: "is_pattern c \<and> \<not> EqualFold (cr_domain c) h \<and> matches (cr_matcher c) h"
  have "rr_domain r \<noteq> []"
  proof
    assume e: "rr_domain r = []"
    with a cached_fields(2,3) [OF assms(1,2)] have ty: "rr_type r = ''domain''" "configured (cr_matcher c)" by (auto simp: is_pattern_def)
    then have "compileDomainMatcher compile ''domain'' [] = Some (cr_matcher c)" using cached_fields(11) [OF assms(1,2)] e by simp
    with unset_unconfigured ty(2) show False by blast
  qed
  with a pattern_cached [OF assms(1,2)] show "pattern_row compile h r \<and> rr_domain r \<noteq> []" by blast
next
  assume a: "pattern_row compile h r \<and> rr_domain r \<noteq> []"
  then have ty: "rr_type r \<noteq> ''path''" "domainPatternMatches compile (rr_type r) (rr_domain r) h" by (auto simp: pattern_row_def)
  have n: "ToLower (TrimSpace (rr_type r)) = rr_type r" using type_norm assms(2) by (simp add: active_route_def)
  from matches_iff(2) [OF cached_fields(11) [OF assms(1,2) ty(1)] n assms(3) ty(2)] a cached_fields(2,3) [OF assms(1,2)]
  show "is_pattern c \<and> \<not> EqualFold (cr_domain c) h \<and> matches (cr_matcher c) h"
    by (auto simp: is_pattern_def pattern_row_def)
qed

lemma pattern_agrees:
  assumes loaded: "loaded_routes compile pick d s cs" and "h \<noteq> []" "ToLower h = h" "TrimSpace h = h"
  shows "resolve_pattern h (rs_patterns s) =
    Option.bind (findPatternRouteByDomain compile h d) (\<lambda>r. match_of (''domain:'' @ rr_domain r) r (rr_cert r) (rr_key r) d)"
proof -
  note ok = loaded_facts(1) [OF loaded] and plain = loaded_facts(2) [OF loaded] and picker = loaded_facts(3) [OF loaded]
    and rel = loaded_facts(4) [OF loaded] and snap = loaded_facts(5) [OF loaded]
  let ?Q = "\<lambda>c. \<not> EqualFold (cr_domain c) h \<and> matches (cr_matcher c) h"
  let ?P = "\<lambda>r. \<not> (rr_domain r = [] \<or> EqualFold (rr_domain r) h) \<and> domainPatternMatches compile (rr_type r) (rr_domain r) h"
  let ?key = "\<lambda>r. (- int (sql_length (rr_domain r)), rr_id r)"
  let ?rows = "filter (\<lambda>r. rr_active r = 1 \<and> rr_type r \<in> {''domain'', ''wildcard'', ''regex''}) (db_routes d)"
  have sql: "findPatternRouteByDomain compile h d = find ?P (sort_key ?key ?rows)"
    using assms(3,4) by (simp add: findPatternRouteByDomain_def pattern_rows_def Let_def)
  have res: "rs_patterns s = sort_key pattern_order (filter is_pattern cs)" using snap by (simp add: build_snapshot_parts)
  have PQ: "r \<in> set ?rows \<and> ?P r \<longleftrightarrow> r \<in> set (db_routes d) \<and> pattern_row compile h r \<and> rr_domain r \<noteq> []" for r
    by (auto simp: pattern_row_def)
  have act: "active_route r" if "pattern_row compile h r" for r
    using that by (auto simp: pattern_row_def active_route_def route_types_def)
  have key: "?key r = pattern_order c" if "cached compile d r c" "active_route r" "plain_row r" for r c
    using cached_fields(1,3) [OF that(1,2)] that(3)
    by (simp add: pattern_order_def plain_row_def sql_length_ascii RuneCount_ascii)
  show ?thesis
  proof (cases "find ?P (sort_key ?key ?rows)")
    case None
    have "\<forall>c \<in> set (filter is_pattern cs). \<not> ?Q c"
    proof (intro ballI notI)
      fix c assume c: "c \<in> set (filter is_pattern cs)" "?Q c"
      then obtain r where r: "r \<in> set (db_routes d)" "active_route r" "cached compile d r c" using of_cached [OF loaded] by (metis filter_is_subset subsetD)
      with pattern_iff [OF r(3,2) assms(2)] c PQ None show False by (auto simp: find_sorted_None)
    qed
    then have "find ?Q (rs_patterns s) = None" by (simp add: res find_none_iff)
    moreover have "findPatternRouteByDomain compile h d = None" using sql None by (simp only:)
    ultimately show ?thesis by (simp add: resolve_pattern_find)
  next
    case (Some r)
    from find_sorted [OF Some] have r: "r \<in> set (db_routes d)" "pattern_row compile h r" "rr_domain r \<noteq> []"
      and least: "\<forall>y. y \<in> set (db_routes d) \<and> pattern_row compile h y \<and> rr_domain y \<noteq> [] \<longrightarrow> ?key r \<le> ?key y"
      using PQ by blast+
    have plain_r: "plain_row r" using r plain by (auto simp: plain_routes_def pattern_row_def)
    obtain c where c: "c \<in> set cs" "cached compile d r c" "cr_targets c = usable_targets r d" by (rule of_row [OF loaded r(1) act [OF r(2)]])
    have Qc: "is_pattern c" "?Q c" using pattern_iff [OF c(2) act [OF r(2)] assms(2)] r by auto
    then have "find ?Q (rs_patterns s) \<noteq> None" using c(1) by (auto simp: res find_none_iff)
    then obtain c' where f: "find ?Q (rs_patterns s) = Some c'" by blast
    from find_sorted [OF f [unfolded res]] have c': "c' \<in> set cs" "is_pattern c'" "?Q c'" and le: "pattern_order c' \<le> pattern_order c"
      using c(1) Qc by auto
    obtain r' where r': "r' \<in> set (db_routes d)" "active_route r'" "cached compile d r' c'" "cr_targets c' = usable_targets r' d" "plain_row r'"
      by (rule of_cached [OF loaded c'(1)])
    have "pattern_row compile h r'" "rr_domain r' \<noteq> []" using pattern_iff [OF r'(3,2) assms(2)] c' by auto
    with least r'(1) have "?key r \<le> ?key r'" by blast
    with le key [OF r'(3,2,5)] key [OF c(2) act [OF r(2)] plain_r] have "?key r = ?key r'" by simp
    then have "r' = r" using row_by_id [OF ok r'(1) r(1)] by simp
    moreover have "findPatternRouteByDomain compile h d = Some r" using sql Some by (simp only:)
    ultimately show ?thesis using r' f cached_fields(5,6,9) [OF r'(3,2)] r(2)
      by (auto simp: resolve_pattern_find match_of_def domainMatch_def Let_def pattern_row_def)
  qed
qed

lemma foldr_max_ge: "r \<in> set rs \<Longrightarrow> f r \<le> foldr (\<lambda>r n. max (f r) n) rs (0::nat)"
  by (induction rs) auto

lemma foldr_max_hit: "rs \<noteq> [] \<Longrightarrow> \<exists>r \<in> set rs. f r = foldr (\<lambda>r n. max (f r) n) rs (0::nat)"
proof (induction rs)
  case (Cons r rs)
  then show ?case by (cases "rs = []") (auto simp: max_def)
qed simp

text \<open>The rows that a path query considers, and its answer: the one longest of them.\<close>

definition path_rows :: "string \<Rightarrow> db \<Rightarrow> route_row list" where
  "path_rows path d = filter (\<lambda>r. rr_type r = ''path'' \<and> like (rr_path r @ ''%'') path \<and> rr_active r = 1) (db_routes d)"

lemma path_rows_iff:
  assumes "plain_routes d" "ToLower path = path"
  shows "r \<in> set (path_rows path d) \<longleftrightarrow> r \<in> set (db_routes d) \<and> path_row path r \<and> plain_row r"
proof -
  have "like (rr_path r @ ''%'') path \<longleftrightarrow> HasPrefix path (rr_path r)" if "plain_row r" "rr_type r = ''path''"
    using that assms(2) by (simp add: like_prefix plain_row_def HasPrefix_def)
  then show ?thesis using assms(1) by (auto simp: path_rows_def path_row_def plain_routes_def)
qed

lemma same_path_row:
  assumes "db_ok d" "plain_routes d" "ToLower path = path" "r \<in> set (path_rows path d)" "r' \<in> set (path_rows path d)"
    "sql_length (rr_path r') = sql_length (rr_path r)"
  shows "r' = r"
proof -
  note rows = path_rows_iff [OF assms(2,3)]
  have "prefix (rr_path r) path" "prefix (rr_path r') path" using rows assms(4,5) by (auto simp: path_row_def HasPrefix_def)
  moreover have "length (rr_path r) = length (rr_path r')"
    using rows assms(4-6) by (simp add: plain_row_def sql_length_ascii)
  ultimately have "rr_path r' = rr_path r" by (auto simp: prefix_def append_eq_append_conv)
  moreover have "rr_type r' = rr_type r" "rr_domain r' = rr_domain r"
    using rows assms(4,5) by (auto simp: path_row_def plain_row_def)
  ultimately show ?thesis
    using assms(1) rows assms(4,5) unfolding db_ok_def distinct_map inj_on_def by blast
qed

lemma query_by_path:
  assumes "db_ok d" "plain_routes d" "good_picker pick" "ToLower path = path" "path_rows path d \<noteq> []"
  shows "\<exists>r \<in> set (path_rows path d). findRouteByPath pick path d = Some r \<and>
    (\<forall>r' \<in> set (path_rows path d). sql_length (rr_path r') \<le> sql_length (rr_path r))"
proof -
  let ?rows = "path_rows path d" and ?n = "foldr (\<lambda>r n. max (sql_length (rr_path r)) n) (path_rows path d) 0"
  obtain r where r: "r \<in> set ?rows" "sql_length (rr_path r) = ?n"
    using foldr_max_hit [OF assms(5), of "\<lambda>r. sql_length (rr_path r)"] by blast
  have "filter (\<lambda>r. sql_length (rr_path r) = ?n) ?rows = [r]"
  proof (rule filter_unique [where f = rr_id])
    show "distinct (map rr_id ?rows)" using assms(1) by (auto simp: path_rows_def db_ok_def ids_ok_def distinct_map_filter)
    show "\<forall>y \<in> set ?rows. sql_length (rr_path y) = ?n \<longrightarrow> rr_id y = rr_id r"
      using same_path_row [OF assms(1,2,4) r(1)] r(2) by auto
  qed (rule r)+
  then have "findRouteByPath pick path d = Some r"
    using pick_one [OF assms(3)] by (simp add: findRouteByPath_def path_rows_def Let_def)
  moreover have "sql_length (rr_path r') \<le> sql_length (rr_path r)" if "r' \<in> set ?rows" for r'
    unfolding r(2) by (rule foldr_max_ge [OF that])
  ultimately show ?thesis using r(1) by blast
qed

lemma path_agrees:
  assumes loaded: "loaded_routes compile pick d s cs" and "ToLower path = path"
  shows "resolve_path path (rs_paths s) =
    Option.bind (findRouteByPath pick path d) (\<lambda>r. match_of (''path:'' @ rr_path r) r [] [] d)"
proof -
  note facts = loaded_facts(1-3) [OF loaded] and rows = path_rows_iff [OF loaded_facts(2) [OF loaded] assms(2)]
  let ?Q = "\<lambda>c. HasPrefix path (cr_pathPrefix c)"
  have res: "rs_paths s = sort_key path_order (filter (\<lambda>c. cr_routeType c = ''path'') cs)"
    using loaded_facts(5) [OF loaded] by (simp add: build_snapshot_parts)
  have act: "active_route r" if "path_row path r" for r
    using that by (auto simp: path_row_def active_route_def route_types_def)
  have loaded_row: "r \<in> set (path_rows path d)"
    if "r \<in> set (db_routes d)" "active_route r" "cached compile d r c" "plain_row r" "cr_routeType c = ''path''" "?Q c" for r c
    using that rows cached_fields(2,4) [OF that(3,2)] by (auto simp: path_row_def active_route_def)
  show ?thesis
  proof (cases "path_rows path d = []")
    case True
    have "find ?Q (rs_paths s) = None"
      unfolding res find_sorted_None
    proof (intro ballI notI)
      fix c assume c: "c \<in> set (filter (\<lambda>c. cr_routeType c = ''path'') cs)" "?Q c"
      then obtain r where "r \<in> set (db_routes d)" "active_route r" "cached compile d r c" "plain_row r"
        using of_cached [OF loaded] by (metis filter_is_subset subsetD)
      with loaded_row c True show False by auto
    qed
    with True show ?thesis by (simp add: resolve_path_find findRouteByPath_def path_rows_def Let_def first_of_def)
  next
    case False
    obtain r where sql: "findRouteByPath pick path d = Some r" and r: "r \<in> set (path_rows path d)"
      and longest: "\<forall>r' \<in> set (path_rows path d). sql_length (rr_path r') \<le> sql_length (rr_path r)"
      using query_by_path [OF facts assms(2) False] by blast
    then have rr: "r \<in> set (db_routes d)" "path_row path r" "plain_row r" using rows by auto
    obtain c where c: "c \<in> set cs" "cached compile d r c" "cr_targets c = usable_targets r d" by (rule of_row [OF loaded rr(1) act [OF rr(2)]])
    have Qc: "cr_routeType c = ''path''" "?Q c" using cached_fields(2,4) [OF c(2) act [OF rr(2)]] rr(2) by (auto simp: path_row_def)
    then have "find ?Q (rs_paths s) \<noteq> None" using c(1) by (auto simp: res find_none_iff)
    then obtain c' where f: "find ?Q (rs_paths s) = Some c'" by blast
    from find_sorted [OF f [unfolded res]] have c': "c' \<in> set cs" "cr_routeType c' = ''path''" "?Q c'" and le: "path_order c' \<le> path_order c"
      using c(1) Qc by auto
    obtain r' where r': "r' \<in> set (db_routes d)" "active_route r'" "cached compile d r' c'" "cr_targets c' = usable_targets r' d" "plain_row r'"
      by (rule of_cached [OF loaded c'(1)])
    have row': "r' \<in> set (path_rows path d)" by (rule loaded_row [OF r'(1-3,5) c'(2,3)])
    have "sql_length (rr_path r) \<le> sql_length (rr_path r')"
      using le cached_fields(4) [OF r'(3,2)] cached_fields(4) [OF c(2) act [OF rr(2)]] r'(5) rr(3)
      by (auto simp: path_order_def less_eq_prod_def plain_row_def sql_length_ascii RuneCount_ascii)
    with longest row' have "sql_length (rr_path r') = sql_length (rr_path r)" by (simp add: le_antisym)
    then have "r' = r" by (rule same_path_row [OF facts(1,2) assms(2) r row'])
    with r' f cached_fields(10) [OF r'(3,2)] rr(2) show ?thesis
      by (auto simp: resolve_path_find sql match_of_def pathMatch_def Let_def path_row_def)
  qed
qed

text \<open>
  C15: The preloaded resolver answers as the queries do: with the route key, the targets and
  the certificate \<^verbatim>\<open>GetRouteTargets\<close> finds in the same tables, for every domain and
  path, whichever row SQLite picks when it has a choice. The tables must be plain: ASCII
  text, no two domains that differ in case only, domains without port or trailing dot, and
  lower-case path prefixes without LIKE wildcards; and so must be the request.
\<close>

theorem resolver_equals_queries:
  assumes "loadRouteSnapshot compile d = Inr s" "db_ok d" "plain_routes d" "good_picker pick"
    and "domain \<noteq> [] \<longrightarrow> normalizeDomain domain = normalizeResolverDomain domain \<and>
      normalizeDomain domain \<noteq> [] \<and> TrimSpace (normalizeDomain domain) = normalizeDomain domain"
    and "ToLower path = path"
  shows "Resolve s domain path = GetRouteTargets compile pick d domain path"
proof -
  from load_cached [OF assms(1)] obtain cs where cs: "list_all2 (cached compile d) (active_rows d) cs" "s = build_snapshot cs"
    by blast
  have loaded: "loaded_routes compile pick d s cs" using assms(2-4) cs by (simp add: loaded_routes_def)
  let ?h = "normalizeDomain domain"
  have low: "ToLower ?h = ?h" by (simp add: normalizeDomain_def Let_def)
  show ?thesis
  proof (cases "domain = []")
    case True
    then show ?thesis
      using path_agrees [OF loaded assms(6)] by (simp add: Resolve_def GetRouteTargets_def or_else_def Let_def)
  next
    case False
    with assms(5) have h: "normalizeResolverDomain domain = ?h" "?h \<noteq> []" "TrimSpace ?h = ?h" by auto
    show ?thesis
      using exact_agrees [OF loaded h(2) low] pattern_agrees [OF loaded h(2) low h(3)] path_agrees [OF loaded assms(6)] False
      by (simp add: Resolve_def GetRouteTargets_def Let_def h(1))
  qed
qed

definition sample_db :: db where
  "sample_db = insert_route ''path'' [] ''/api'' ''http://b:2'' [] []
     (insert_route ''wildcard'' ''*.example.com'' [] ''http://c:3'' [] []
       (insert_route ''domain'' ''example.com'' [] ''http://a:1'' ''CERT'' ''KEY'' empty_db))"

definition no_regexp :: regexp where
  "no_regexp = (\<lambda>_. None)"

definition first_row :: picker where
  "first_row = (\<lambda>rows. case rows of [] \<Rightarrow> \<lparr>rr_id = 0, rr_type = [], rr_domain = [], rr_path = [], rr_target = [], rr_cert = [],
     rr_key = [], rr_active = 0\<rparr> | r # _ \<Rightarrow> r)"

definition resolve_in :: "db \<Rightarrow> string \<Rightarrow> string \<Rightarrow> route_match option" where
  "resolve_in d domain path =
     (case loadRouteSnapshot no_regexp d of Inl e \<Rightarrow> None | Inr s \<Rightarrow> Resolve s domain path)"

lemma sample_loads: "\<exists>s. loadRouteSnapshot no_regexp sample_db = Inr s"
proof -
  have "(case loadRouteSnapshot no_regexp sample_db of Inl e \<Rightarrow> False | Inr s \<Rightarrow> True)" by code_simp
  then show ?thesis by (auto split: sum.splits)
qed

theorem resolver_equals_queries_witness:
  "resolve_in sample_db ''Example.COM:8080'' ''/api/x'' = GetRouteTargets no_regexp first_row sample_db ''Example.COM:8080'' ''/api/x''"
proof -
  obtain s where s: "loadRouteSnapshot no_regexp sample_db = Inr s" using sample_loads by blast
  have ok: "db_ok sample_db"
    unfolding sample_db_def by (intro insert_route_ok empty_db_ok) (auto simp: insert_route_def empty_db_def)
  have plain: "plain_routes sample_db" by code_simp
  have pick: "good_picker first_row" by (auto simp: good_picker_def first_row_def split: list.splits)
  have dom: "''Example.COM:8080'' \<noteq> [] \<longrightarrow> normalizeDomain ''Example.COM:8080'' = normalizeResolverDomain ''Example.COM:8080'' \<and>
      normalizeDomain ''Example.COM:8080'' \<noteq> [] \<and>
      TrimSpace (normalizeDomain ''Example.COM:8080'') = normalizeDomain ''Example.COM:8080''" by code_simp
  have path: "ToLower ''/api/x'' = ''/api/x''" by code_simp
  show ?thesis
    using resolver_equals_queries [OF s ok plain pick dom path] by (simp add: resolve_in_def s)
qed

text \<open>
  Without these restrictions they differ, although the resolver is documented to keep the
  precedence of the queries: LIKE ignores case, so \<^verbatim>\<open>GetRouteTargets\<close> takes a path route
  for a path that differs from its prefix in case, and the resolver does not; and the
  resolver strips a trailing dot from the stored domain, and the queries do not.
\<close>

theorem resolver_differs:
  "GetRouteTargets no_regexp first_row sample_db [] ''/API/x'' \<noteq> None \<and> resolve_in sample_db [] ''/API/x'' = None \<and>
   (let d = insert_route ''domain'' ''example.com.'' [] ''http://a:1'' [] [] empty_db
    in GetRouteTargets no_regexp first_row d ''example.com'' [] = None \<and> resolve_in d ''example.com'' [] \<noteq> None)"
  by code_simp

end
