(* ===== verification/GoServer.thy ===== *)
theory GoServer
  imports GoUrl GoMap GoCrypto
begin

text \<open>
  What the handlers use of Go's server side: forms (\<^verbatim>\<open>ParseForm\<close>, \<^verbatim>\<open>FormValue\<close>
  and the media type of the body), cookies, \<^verbatim>\<open>path.Clean\<close>, standard base64, and the
  answers \<^verbatim>\<open>http.Error\<close> and \<^verbatim>\<open>http.Redirect\<close> (always 302 here) write.
\<close>

subsection \<open>Media types\<close>

definition consumeToken :: "string \<Rightarrow> string \<times> string" where
  "consumeToken v = (takeWhile is_tchar v, dropWhile is_tchar v)"

definition is_tspecial :: "char \<Rightarrow> bool" where
  "is_tspecial c = (c \<in> set ''()<>@,;:/[]?='' \<or> c = CHR 0x22 \<or> c = CHR 0x5C)"

fun quoted_value :: "string \<Rightarrow> string \<Rightarrow> (string \<times> string) option" where
  "quoted_value acc [] = None"
| "quoted_value acc (c # s) =
     (if c = CHR 0x22 then Some (rev acc, s)
      else (case s of
              d # t \<Rightarrow>
                if c = CHR 0x5C \<and> is_tspecial d then quoted_value (d # acc) t
                else if c \<in> {CHR 0x0D, CHR 0x0A} then None
                else quoted_value (c # acc) s
            | [] \<Rightarrow> None))"

definition consumeValue :: "string \<Rightarrow> string \<times> string" where
  "consumeValue v =
     (case v of
        [] \<Rightarrow> ([], [])
      | c # s \<Rightarrow> if c \<noteq> CHR 0x22 then consumeToken v
                else (case quoted_value [] s of Some p \<Rightarrow> p | None \<Rightarrow> ([], v)))"

text \<open>The parameter at the front of the text: its name, its value and the rest.\<close>

definition consumeMediaParam :: "string \<Rightarrow> (string \<times> string \<times> string) option" where
  "consumeMediaParam v =
     (case TrimLeftSpace v of
        [] \<Rightarrow> None
      | c # r1 \<Rightarrow>
          if c \<noteq> CHR '';'' then None
          else (let (param, r2) = consumeToken (TrimLeftSpace r1)
                in if param = [] then None
                   else (case TrimLeftSpace r2 of
                           [] \<Rightarrow> None
                         | d # r3 \<Rightarrow>
                             if d \<noteq> CHR ''='' then None
                             else (let r4 = TrimLeftSpace r3; (val, r5) = consumeValue r4
                                   in if val = [] \<and> r5 = r4 then None else Some (ToLower param, val, r5)))))"

lemma TrimLeftSpace_length: "length (TrimLeftSpace s) \<le> length s"
proof -
  obtain p where "s = p @ TrimLeftSpace s" using lstrip_suffix [of s spaces] by (auto simp: TrimLeftSpace_def)
  then show ?thesis by (metis length_append le_add2)
qed

lemma quoted_value_length: "quoted_value acc s = Some (v, r) \<Longrightarrow> length r \<le> length s"
  by (induction acc s rule: quoted_value.induct) (auto split: if_splits list.splits)

lemma consumeValue_length: "length (snd (consumeValue v)) \<le> length v"
  by (auto simp: consumeValue_def consumeToken_def length_dropWhile_le dest!: quoted_value_length intro: le_SucI
      split: list.splits option.splits)

lemma consumeMediaParam_shorter:
  assumes "consumeMediaParam v = Some (k, x, r)"
  shows "length r < length v"
proof -
  obtain c r1 where 1: "TrimLeftSpace v = c # r1" using assms by (auto simp: consumeMediaParam_def split: list.splits)
  obtain p r2 where 2: "consumeToken (TrimLeftSpace r1) = (p, r2)" by fastforce
  obtain d r3 where 3: "TrimLeftSpace r2 = d # r3" using assms 1 2
    by (auto simp: consumeMediaParam_def split: list.splits if_splits)
  have r: "r = snd (consumeValue (TrimLeftSpace r3))" using assms 1 2 3
    by (auto simp: consumeMediaParam_def Let_def split: if_splits prod.splits)
  have "length r \<le> length r3" using consumeValue_length TrimLeftSpace_length r le_trans by blast
  also have "\<dots> < length (TrimLeftSpace r2)" using 3 by simp
  also have "\<dots> \<le> length r2" by (rule TrimLeftSpace_length)
  also have "\<dots> \<le> length (TrimLeftSpace r1)" using 2 by (auto simp: consumeToken_def length_dropWhile_le)
  also have "\<dots> \<le> length r1" by (rule TrimLeftSpace_length)
  also have "\<dots> \<le> length (TrimLeftSpace v)" using 1 by simp
  also have "\<dots> \<le> length v" by (rule TrimLeftSpace_length)
  finally show ?thesis .
qed

text \<open>
  The parameters of a media type: \<open>None\<close> when two of one name differ, else whether one is
  malformed.
\<close>

function media_params :: "(string, string) gomap \<Rightarrow> string \<Rightarrow> bool option" where
  "media_params seen v =
     (if TrimLeftSpace v = [] then Some False
      else (case consumeMediaParam (TrimLeftSpace v) of
              None \<Rightarrow> Some (TrimSpace (TrimLeftSpace v) \<noteq> '';'')
            | Some (k, x, r) \<Rightarrow>
                if map_of seen k \<notin> {None, Some x} then None else media_params (AList.update k x seen) r))"
  by pat_completeness auto
termination
  by (relation "measure (\<lambda>(_, v). length v)")
    (auto dest!: consumeMediaParam_shorter intro: less_le_trans [OF _ TrimLeftSpace_length])

declare media_params.simps [simp del]

definition media_type_ok :: "string \<Rightarrow> bool" where
  "media_type_ok s =
     (let (ty, r) = consumeToken s
      in ty \<noteq> [] \<and>
         (r = [] \<or> hd r = CHR ''/'' \<and> (let (sub, r') = consumeToken (tl r) in sub \<noteq> [] \<and> r' = [])))"

text \<open>\<^verbatim>\<open>mime.ParseMediaType\<close>: the type, empty where none is returned, and whether there is an error.\<close>

definition ParseMediaType :: "string \<Rightarrow> string \<times> bool" where
  "ParseMediaType v =
     (let (base, _, _) = Cut v (CHR '';''); mt = TrimSpace (ToLower base)
      in if \<not> media_type_ok mt then ([], True)
         else (case media_params [] (drop (length base) v) of None \<Rightarrow> ([], True) | Some e \<Rightarrow> (mt, e)))"

subsection \<open>Forms\<close>

definition query_error :: "string \<Rightarrow> bool" where
  "query_error q = list_ex (\<lambda>kv. kv \<noteq> [] \<and> parse_pair kv = None) (Split q (CHR ''&''))"

text \<open>
  \<^verbatim>\<open>ParseForm\<close> of a request with a body, at most \<open>limit\<close> bytes of which may be read: the
  pairs of the form, those of the body first, and whether an error is returned.
\<close>

definition post_form :: "nat \<Rightarrow> request \<Rightarrow> string \<Rightarrow> (string \<times> string) list \<times> bool" where
  "post_form limit r body =
     (let ct = hdr_get (req_Header r) ''Content-Type'';
          (mt, e) = ParseMediaType (if ct = [] then ''application/octet-stream'' else ct)
      in if mt \<noteq> ''application/x-www-form-urlencoded'' then ([], e)
         else if limit < length body then ([], True)
         else (parse_query body, e \<or> query_error body))"

definition ParseForm :: "nat \<Rightarrow> request \<Rightarrow> string \<Rightarrow> (string \<times> string) list \<times> bool" where
  "ParseForm limit r body =
     (let (post, e) = (if req_Method r \<in> {''POST'', ''PUT'', ''PATCH''} then post_form limit r body else ([], False))
      in (post @ parse_query (req_RawQuery r), e \<or> query_error (req_RawQuery r)))"

definition FormValue :: "(string \<times> string) list \<Rightarrow> string \<Rightarrow> string" where
  "FormValue form k = (case map_of form k of None \<Rightarrow> [] | Some v \<Rightarrow> v)"

subsection \<open>Cookies\<close>

definition trim_string :: "string \<Rightarrow> string" where
  "trim_string s = Trim s [CHR '' '', CHR 0x09, CHR 0x0A, CHR 0x0D]"

definition cookie_byte :: "char \<Rightarrow> bool" where
  "cookie_byte c = (0x20 \<le> (of_char c :: nat) \<and> (of_char c :: nat) < 0x7F \<and> c \<noteq> CHR 0x22 \<and> c \<noteq> CHR '';'' \<and> c \<noteq> CHR 0x5C)"

definition parse_cookie_value :: "string \<Rightarrow> string option" where
  "parse_cookie_value raw =
     (let v = (if 1 < length raw \<and> hd raw = CHR 0x22 \<and> last raw = CHR 0x22 then butlast (tl raw) else raw)
      in if list_all cookie_byte v then Some v else None)"

definition cookie_pair :: "string \<Rightarrow> string \<Rightarrow> string option" where
  "cookie_pair name part =
     (let (n, v, _) = Cut (trim_string part) (CHR ''='')
      in if trim_string n = name then parse_cookie_value v else None)"

text \<open>\<^verbatim>\<open>Request.Cookie\<close>: the value of the first valid cookie of a name.\<close>

definition Cookie :: "request \<Rightarrow> string \<Rightarrow> string option" where
  "Cookie r name =
     (case concat (map (\<lambda>line. List.map_filter (cookie_pair name) (Split (trim_string line) (CHR '';'')))
             (hdr_values (req_Header r) ''Cookie'')) of
        [] \<Rightarrow> None
      | v # _ \<Rightarrow> Some v)"

subsection \<open>Base64\<close>

definition b64_val :: "char \<Rightarrow> nat option" where
  "b64_val c =
     (let n = (of_char c :: nat)
      in if 65 \<le> n \<and> n \<le> 90 then Some (n - 65)
         else if 97 \<le> n \<and> n \<le> 122 then Some (n - 71)
         else if 48 \<le> n \<and> n \<le> 57 then Some (n + 4)
         else if c = CHR ''+'' then Some 62
         else if c = CHR ''/'' then Some 63
         else None)"

definition byte_of :: "nat \<Rightarrow> char" where
  "byte_of n = char_of (n mod 256)"

fun b64_quads :: "string \<Rightarrow> string option" where
  "b64_quads [] = Some []"
| "b64_quads (a # b # c # d # s) =
     (case (b64_val a, b64_val b) of
        (Some x, Some y) \<Rightarrow>
          (if c = CHR ''='' then (if d = CHR ''='' \<and> s = [] then Some [byte_of (x * 4 + y div 16)] else None)
           else (case b64_val c of
                   None \<Rightarrow> None
                 | Some z \<Rightarrow>
                     if d = CHR ''='' then (if s = [] then Some [byte_of (x * 4 + y div 16), byte_of (y * 16 + z div 4)] else None)
                     else (case b64_val d of
                             None \<Rightarrow> None
                           | Some w \<Rightarrow>
                               map_option (\<lambda>t. byte_of (x * 4 + y div 16) # byte_of (y * 16 + z div 4) # byte_of (z * 64 + w) # t)
                                 (b64_quads s))))
      | _ \<Rightarrow> None)"
| "b64_quads _ = None"

text \<open>\<^verbatim>\<open>base64.StdEncoding.DecodeString\<close>, which skips line breaks.\<close>

definition StdDecode :: "string \<Rightarrow> string option" where
  "StdDecode s = b64_quads (filter (\<lambda>c. c \<notin> {CHR 0x0A, CHR 0x0D}) s)"

subsection \<open>Answers\<close>

record set_cookie =
  ck_Name :: string
  ck_Value :: string
  ck_Path :: string
  ck_MaxAge :: int
  ck_Expires :: gotime
  ck_Secure :: bool
  ck_HttpOnly :: bool
  ck_SameSiteStrict :: bool

record http_answer =
  rp_Status :: int
  rp_Header :: header
  rp_Cookies :: "set_cookie list"
  rp_Body :: string

definition reply :: "int \<Rightarrow> header \<Rightarrow> string \<Rightarrow> http_answer" where
  "reply status h body = \<lparr>rp_Status = status, rp_Header = h, rp_Cookies = [], rp_Body = body\<rparr>"

definition http_Error :: "header \<Rightarrow> string \<Rightarrow> int \<Rightarrow> http_answer" where
  "http_Error h msg status =
     reply status (hdr_set ''X-Content-Type-Options'' ''nosniff'' (hdr_set ''Content-Type'' ''text/plain; charset=utf-8''
       (hdr_del ''Content-Length'' h))) (msg @ [CHR 0x0A])"

text \<open>\<^verbatim>\<open>path.Clean\<close>, by components; two dots at the root vanish.\<close>

fun clean_parts :: "bool \<Rightarrow> string list \<Rightarrow> string list \<Rightarrow> string list" where
  "clean_parts rooted acc [] = rev acc"
| "clean_parts rooted acc (p # ps) =
     (if p = [] \<or> p = ''.'' then clean_parts rooted acc ps
      else if p = ''..'' then
        (if acc \<noteq> [] \<and> hd acc \<noteq> ''..'' then clean_parts rooted (tl acc) ps
         else if rooted then clean_parts rooted acc ps
         else clean_parts rooted (p # acc) ps)
      else clean_parts rooted (p # acc) ps)"

definition path_Clean :: "string \<Rightarrow> string" where
  "path_Clean p =
     (if p = [] then ''.''
      else (let rooted = (hd p = CHR ''/''); body = Join (clean_parts rooted [] (Split p (CHR ''/''))) ''/''
            in if rooted then CHR ''/'' # body else if body = [] then ''.'' else body))"

definition hexEscapeNonASCII :: "string \<Rightarrow> string" where
  "hexEscapeNonASCII s = concat (map (\<lambda>c. let n = (of_char c :: nat) in
     if 0x80 \<le> n then [CHR ''%'', lower_char (hexdig (n div 16)), lower_char (hexdig (n mod 16))] else [c]) s)"

definition path_dir :: "string \<Rightarrow> string" where
  "path_dir p = rev (dropWhile (\<lambda>c. c \<noteq> CHR ''/'') (rev p))"

text \<open>The place \<^verbatim>\<open>http.Redirect\<close> sends the browser to.\<close>

definition redirect_location :: "request \<Rightarrow> string \<Rightarrow> string" where
  "redirect_location r target =
     (case Parse target of
        None \<Rightarrow> target
      | Some u \<Rightarrow>
          if url_Scheme u \<noteq> [] \<or> url_Host u \<noteq> [] then target
          else (let old = (let p = EscapedPath (req_Path r) (req_RawPath r) in if p = [] then ''/'' else p);
                    t0 = (if target = [] \<or> hd target \<noteq> CHR ''/'' then path_dir old @ target else target);
                    p0 = takeWhile (\<lambda>c. c \<noteq> CHR ''?'') t0;
                    query = dropWhile (\<lambda>c. c \<noteq> CHR ''?'') t0;
                    p1 = path_Clean p0;
                    p2 = (if HasSuffix p0 ''/'' \<and> \<not> HasSuffix p1 ''/'' then p1 @ ''/'' else p1)
                in p2 @ query))"

definition html_escape :: "string \<Rightarrow> string" where
  "html_escape s = concat (map (\<lambda>c.
     if c = CHR ''&'' then ''&amp;'' else if c = CHR ''<'' then ''&lt;'' else if c = CHR ''>'' then ''&gt;''
     else if c = CHR 0x22 then ''&#34;'' else if c = CHR 0x27 then ''&#39;'' else [c]) s)"

definition http_Redirect :: "header \<Rightarrow> request \<Rightarrow> string \<Rightarrow> http_answer" where
  "http_Redirect h r target =
     (let loc = redirect_location r target;
          h1 = hdr_set ''Location'' (hexEscapeNonASCII loc) h;
          plain = (hdr_values h ''Content-Type'' = []);
          h2 = (if plain \<and> req_Method r \<in> {''GET'', ''HEAD''} then hdr_set ''Content-Type'' ''text/html; charset=utf-8'' h1 else h1);
          link = ''<a href='' @ [CHR 0x22] @ html_escape loc @ [CHR 0x22] @ ''>Found</a>.'' @ [CHR 0x0A, CHR 0x0A]
      in reply StatusFound h2 (if plain \<and> req_Method r = ''GET'' then link else []))"

end
