(* ===== verification/Auth.thy ===== *)
theory Auth
  imports Database GoServer
begin

text \<open>
  Who makes a request (\<^verbatim>\<open>internal/auth/auth.go\<close>): HTTP Basic credentials or the cookie
  of a session, and the login form that opens sessions. Two parameters stand for code that is
  not in the repository: \<open>compare\<close> is \<^verbatim>\<open>bcrypt.CompareHashAndPassword\<close> of a hash and a
  password. The clock is read once per call; the random bytes of a session and the bytes of
  a body are arguments, and so is the text of the login page.
\<close>

subsection \<open>Checking a request\<close>

record auth_result =
  ar_Authenticated :: bool
  ar_Username :: string
  ar_UserID :: int
  ar_ZeroTrustReq :: bool
  ar_SessionToken :: string

type_synonym bcrypt = "string \<Rightarrow> string \<Rightarrow> bool"

definition nobody :: auth_result where
  "nobody = \<lparr>ar_Authenticated = False, ar_Username = [], ar_UserID = 0, ar_ZeroTrustReq = False, ar_SessionToken = []\<rparr>"

definition authenticateUser :: "bcrypt \<Rightarrow> db \<Rightarrow> string \<Rightarrow> string \<Rightarrow> auth_result \<Rightarrow> bool \<times> auth_result" where
  "authenticateUser compare d username password res =
     (case user_by_name username d of
        None \<Rightarrow> (False, res)
      | Some u \<Rightarrow>
          if \<not> compare (us_hash u) password then (False, res)
          else (True, res\<lparr>ar_Username := username, ar_UserID := us_id u, ar_ZeroTrustReq := (us_zero_trust u = 1)\<rparr>))"

definition session_user :: "gotime \<Rightarrow> string \<Rightarrow> db \<Rightarrow> user_row option" where
  "session_user now token d =
     (case find (\<lambda>s. se_token s = token \<and> now_sec now < se_expires s) (db_sessions d) of
        None \<Rightarrow> None
      | Some s \<Rightarrow> user_by_id (se_user s) d)"

definition validateSession :: "gotime \<Rightarrow> db \<Rightarrow> string \<Rightarrow> auth_result \<Rightarrow> bool \<times> auth_result" where
  "validateSession now d token res =
     (case session_user now token d of
        None \<Rightarrow> (False, res)
      | Some u \<Rightarrow> (True, res\<lparr>ar_Username := us_name u, ar_UserID := us_id u, ar_ZeroTrustReq := (us_zero_trust u = 1),
                            ar_SessionToken := token\<rparr>))"

definition Check :: "bcrypt \<Rightarrow> gotime \<Rightarrow> request \<Rightarrow> db \<Rightarrow> auth_result" where
  "Check compare now r d =
     (let authHeader = hdr_get (req_Header r) ''Authorization''
      in if authHeader = [] then
           (case Cookie r ''auth_token'' of
              None \<Rightarrow> nobody
            | Some v \<Rightarrow>
                if v = [] then nobody
                else (let (ok, res) = validateSession now d v nobody
                      in if ok then res\<lparr>ar_Authenticated := True\<rparr> else res))
         else (case Cut authHeader (CHR '' '') of
                 (kind, payload64, found) \<Rightarrow>
                   if \<not> found \<or> kind \<noteq> ''Basic'' then nobody
                   else (case StdDecode payload64 of
                           None \<Rightarrow> nobody
                         | Some payload \<Rightarrow>
                             (case Cut payload (CHR '':'') of
                                (username, password, colon) \<Rightarrow>
                                  if \<not> colon then nobody
                                  else (let (ok, res) = authenticateUser compare d username password nobody
                                        in if ok then res\<lparr>ar_Authenticated := True\<rparr> else res)))))"

definition RequireZeroTrustChallenge :: "auth_result option \<Rightarrow> bool \<Rightarrow> bool \<Rightarrow> bool" where
  "RequireZeroTrustChallenge result globalEnabled verified =
     (case result of
        None \<Rightarrow> False
      | Some res \<Rightarrow> if \<not> ar_Authenticated res then False else globalEnabled \<and> ar_ZeroTrustReq res \<and> \<not> verified)"

subsection \<open>Logging in\<close>

definition createSession :: "gotime \<Rightarrow> string \<Rightarrow> string \<Rightarrow> db \<Rightarrow> string \<times> db" where
  "createSession now random username d =
     (case user_by_name username d of
        None \<Rightarrow> ([], d)
      | Some u \<Rightarrow>
          (let d1 = snd (PruneExpiredSessions now d); token = RawURLEncode random
           in if list_ex (\<lambda>s. se_token s = token) (db_sessions d1) then ([], d1)
              else (token, d1\<lparr>db_sessions := db_sessions d1 @
                     [\<lparr>se_user = us_id u, se_token = token, se_expires = now_sec now + 24 * 3600\<rparr>]\<rparr>)))"

definition login_header :: header where
  "login_header = hdr_set ''X-Content-Type-Options'' ''nosniff'' (hdr_set ''Cache-Control'' ''no-store'' Map.empty)"

definition session_cookie :: "gotime \<Rightarrow> request \<Rightarrow> string \<Rightarrow> set_cookie" where
  "session_cookie now r token =
     \<lparr>ck_Name = ''auth_token'', ck_Value = token, ck_Path = ''/'', ck_MaxAge = 24 * 60 * 60, ck_Expires = now + 24 * Hour,
      ck_Secure = req_TLS r, ck_HttpOnly = True, ck_SameSiteStrict = True\<rparr>"

definition HandleLogin :: "bcrypt \<Rightarrow> string \<Rightarrow> gotime \<Rightarrow> string \<Rightarrow> request \<Rightarrow> string \<Rightarrow> db \<Rightarrow> http_answer \<times> db" where
  "HandleLogin compare page now random r body d =
     (if req_Method r = ''GET'' then
        (reply StatusOK (hdr_set ''Content-Type'' ''text/html; charset=utf-8'' login_header) page, d)
      else if req_Method r \<noteq> ''POST'' then
        (http_Error (hdr_set ''Allow'' ''GET, POST'' login_header) ''Method not allowed'' StatusMethodNotAllowed, d)
      else (case ParseForm 65536 r body of
              (form, e) \<Rightarrow>
                if e then (http_Error login_header ''Invalid login request'' StatusBadRequest, d)
                else (let username = FormValue form ''username''; password = FormValue form ''password''
                      in case user_by_name username d of
                           None \<Rightarrow> (http_Error login_header ''Invalid credentials'' StatusUnauthorized, d)
                         | Some u \<Rightarrow>
                             if \<not> compare (us_hash u) password
                             then (http_Error login_header ''Invalid credentials'' StatusUnauthorized, d)
                             else (let (token, d') = createSession now random username d
                                   in if token = [] then (http_Error login_header ''Unable to create session'' StatusInternalServerError, d')
                                      else ((http_Redirect login_header r ''/'')\<lparr>rp_Cookies := [session_cookie now r token]\<rparr>, d')))))"

subsection \<open>Sessions over time\<close>

text \<open>The calls that write the sessions and the users.\<close>

datatype auth_op =
    OpLogin gotime string request string
  | OpPrune gotime
  | OpZeroTrust int int

fun auth_step :: "bcrypt \<Rightarrow> string \<Rightarrow> auth_op \<Rightarrow> db \<Rightarrow> http_answer option \<times> db" where
  "auth_step compare page (OpLogin now random r body) d = apfst Some (HandleLogin compare page now random r body d)"
| "auth_step compare page (OpPrune now) d = (None, snd (PruneExpiredSessions now d))"
| "auth_step compare page (OpZeroTrust i v) d = (None, SetUserZeroTrustEnabled i v d)"

fun auth_run :: "bcrypt \<Rightarrow> string \<Rightarrow> auth_op list \<Rightarrow> db \<Rightarrow> http_answer option list \<times> db" where
  "auth_run compare page [] d = ([], d)"
| "auth_run compare page (x # xs) d =
     (let (a, d1) = auth_step compare page x d; (as, d2) = auth_run compare page xs d1 in (a # as, d2))"

text \<open>The identity of a user, which no call changes.\<close>

definition identity :: "user_row \<Rightarrow> int \<times> string \<times> string" where
  "identity u = (us_id u, us_name u, us_hash u)"

text \<open>A login that gave the token to a user with the right password.\<close>

definition logged_in :: "bcrypt \<Rightarrow> (auth_op \<times> http_answer option) list \<Rightarrow> db \<Rightarrow> int \<Rightarrow> string \<Rightarrow> int \<Rightarrow> bool" where
  "logged_in compare h d i token expires =
     (\<exists>now random r body form resp name hash.
        (OpLogin now random r body, Some resp) \<in> set h \<and> ParseForm 65536 r body = (form, False) \<and>
        (i, name, hash) \<in> identity ` set (db_users d) \<and> name = FormValue form ''username'' \<and>
        compare hash (FormValue form ''password'') \<and>
        rp_Cookies resp = [session_cookie now r token] \<and> expires = now_sec now + 24 * 3600)"

definition sessions_explained :: "bcrypt \<Rightarrow> (auth_op \<times> http_answer option) list \<Rightarrow> db \<Rightarrow> bool" where
  "sessions_explained compare h d = 
     (\<forall>s \<in> set (db_sessions d). se_token s \<noteq> [] \<longrightarrow> logged_in compare h d (se_user s) (se_token s) (se_expires s))"

lemma user_by_id_mem: "user_by_id i d = Some u \<Longrightarrow> u \<in> set (db_users d) \<and> us_id u = i"
  by (auto simp: user_by_id_def dest: find_someD)

lemma createSession_cases:
  assumes "createSession now random name d = (token, d')"
  shows "db_users d' = db_users d"
    and "set (db_sessions d') \<subseteq> set (db_sessions d) \<or>
      (\<exists>u s. user_by_name name d = Some u \<and> set (db_sessions d') \<subseteq> insert s (set (db_sessions d)) \<and> se_user s = us_id u \<and>
        se_token s = token \<and> token = RawURLEncode random \<and> se_expires s = now_sec now + 24 * 3600)"
  using assms by (auto simp: createSession_def PruneExpiredSessions_def Let_def split: option.splits if_splits)

lemma HandleLogin_cases:
  assumes "HandleLogin compare page now random r body d = (resp, d')"
  obtains (unchanged) "d' = d"
  | (session) form token u where "req_Method r = ''POST''" "ParseForm 65536 r body = (form, False)"
    "user_by_name (FormValue form ''username'') d = Some u" "compare (us_hash u) (FormValue form ''password'')"
    "createSession now random (FormValue form ''username'') d = (token, d')"
    "token \<noteq> [] \<Longrightarrow> rp_Cookies resp = [session_cookie now r token]"
proof (cases "req_Method r = ''POST''")
  case post: True
  then have get: "req_Method r \<noteq> ''GET''" by simp
  obtain form e where form: "ParseForm 65536 r body = (form, e)" by fastforce
  note run = assms [unfolded HandleLogin_def if_not_P [OF get] if_not_P [OF not_not [THEN iffD2, OF post]] form prod.case]
  show ?thesis
  proof (cases "e \<or> user_by_name (FormValue form ''username'') d = None")
    case True
    with run have "d' = d" by (cases e) (auto simp: Let_def)
    then show ?thesis by (rule unchanged)
  next
    case False
    then obtain u where u: "user_by_name (FormValue form ''username'') d = Some u" "\<not> e" by auto
    show ?thesis
    proof (cases "compare (us_hash u) (FormValue form ''password'')")
      case True
      obtain token d1 where c: "createSession now random (FormValue form ''username'') d = (token, d1)" by fastforce
      have "d1 = d'" "token \<noteq> [] \<Longrightarrow> rp_Cookies resp = [session_cookie now r token]"
        using run u True c by (auto simp: Let_def split: if_splits)
      with session [OF post] form u True c show ?thesis by auto
    next
      case False
      with run u have "d' = d" by (simp add: Let_def)
      then show ?thesis by (rule unchanged)
    qed
  qed
next
  case False
  have "d' = d"
  proof (cases "req_Method r = ''GET''")
    case True
    have "snd (HandleLogin compare page now random r body d) = d" unfolding HandleLogin_def if_P [OF True] by (rule snd_conv)
    from this [unfolded assms] show ?thesis unfolding snd_conv .
  next
    case get: False
    have "snd (HandleLogin compare page now random r body d) = d"
      unfolding HandleLogin_def if_not_P [OF get] if_P [OF False] by (rule snd_conv)
    from this [unfolded assms] show ?thesis unfolding snd_conv .
  qed
  then show ?thesis by (rule unchanged)
qed

lemma logged_in_mono:
  assumes "logged_in compare h d i t e" "set h \<subseteq> set h'" "identity ` set (db_users d) = identity ` set (db_users d')"
  shows "logged_in compare h' d' i t e"
  using assms unfolding logged_in_def by fastforce

lemma explained_mono:
  assumes "sessions_explained compare h d" "set (db_sessions d') \<subseteq> set (db_sessions d)" "set h \<subseteq> set h'"
    "identity ` set (db_users d) = identity ` set (db_users d')"
  shows "sessions_explained compare h' d'"
  unfolding sessions_explained_def
proof (intro ballI impI)
  fix s assume "s \<in> set (db_sessions d')" "se_token s \<noteq> []"
  with assms(1,2) have "logged_in compare h d (se_user s) (se_token s) (se_expires s)" by (auto simp: sessions_explained_def)
  then show "logged_in compare h' d' (se_user s) (se_token s) (se_expires s)" by (rule logged_in_mono) fact+
qed

lemma auth_step_users: "map identity (db_users (snd (auth_step compare page x d))) = map identity (db_users d)"
proof (cases x)
  case (OpLogin now random r body)
  obtain resp d' where l: "HandleLogin compare page now random r body d = (resp, d')" by fastforce
  from l have "db_users d' = db_users d"
    by (cases rule: HandleLogin_cases) (simp_all add: createSession_cases(1))
  with OpLogin l show ?thesis by simp
qed (auto simp: PruneExpiredSessions_def Let_def SetUserZeroTrustEnabled_def identity_def)

lemma auth_step_explained:
  assumes "sessions_explained compare h d" "auth_step compare page x d = (a, d')"
  shows "sessions_explained compare ((x, a) # h) d'"
proof -
  have "map identity (db_users d') = map identity (db_users d)" using auth_step_users [of compare page x d] assms(2) by simp
  then have ids: "identity ` set (db_users d') = identity ` set (db_users d)" by (metis list.set_map)
  have keep: ?thesis if "set (db_sessions d') \<subseteq> set (db_sessions d)"
    using explained_mono [OF assms(1) that, of "(x, a) # h"] ids by auto
  show ?thesis
  proof (cases x)
    case (OpLogin now random r body)
    with assms(2) obtain resp where l: "HandleLogin compare page now random r body d = (resp, d')" "a = Some resp"
      by (auto simp: apfst_def map_prod_def split: prod.splits)
    from l(1) show ?thesis
    proof (cases rule: HandleLogin_cases)
      case unchanged
      then show ?thesis by (intro keep) simp
    next
      case p: (session form token u)
      from createSession_cases(2) [OF p(5)] show ?thesis
      proof (elim disjE exE conjE)
        fix u' s
        assume s: "user_by_name (FormValue form ''username'') d = Some u'" "set (db_sessions d') \<subseteq> insert s (set (db_sessions d))"
          "se_user s = us_id u'" "se_token s = token" "token = RawURLEncode random" "se_expires s = now_sec now + 24 * 3600"
        have u: "identity u \<in> identity ` set (db_users d')" "us_name u = FormValue form ''username''"
          using user_by_name_mem [OF p(3)] ids by auto
        have "logged_in compare ((x, a) # h) d' (se_user s) (se_token s) (se_expires s)" if "se_token s \<noteq> []"
          unfolding logged_in_def
          by (rule exI [of _ now], rule exI [of _ random], rule exI [of _ r], rule exI [of _ body], rule exI [of _ form],
              rule exI [of _ resp], rule exI [of _ "us_name u"], rule exI [of _ "us_hash u"])
            (use p s u that OpLogin l in \<open>auto simp: identity_def\<close>)
        moreover have "logged_in compare ((x, a) # h) d' (se_user t) (se_token t) (se_expires t)"
          if "t \<in> set (db_sessions d)" "se_token t \<noteq> []" for t
          using assms(1) that ids logged_in_mono [of compare h d "se_user t" "se_token t" "se_expires t" "(x, a) # h" d']
          by (auto simp: sessions_explained_def)
        ultimately show ?thesis using s(2) unfolding sessions_explained_def by blast
      qed (rule keep)
    qed
  next
    case (OpPrune now)
    with assms(2) show ?thesis by (intro keep) (auto simp: PruneExpiredSessions_def Let_def)
  next
    case (OpZeroTrust i v)
    with assms(2) show ?thesis by (intro keep) (auto simp: SetUserZeroTrustEnabled_def)
  qed
qed

lemma auth_run_explained:
  assumes "auth_run compare page ops d = (rs, d')" "sessions_explained compare h d"
  shows "sessions_explained compare (rev (zip ops rs) @ h) d' \<and> map identity (db_users d') = map identity (db_users d)"
  using assms
proof (induction ops arbitrary: d h rs)
  case (Cons x xs)
  obtain a d1 where 1: "auth_step compare page x d = (a, d1)" by fastforce
  obtain as d2 where 2: "auth_run compare page xs d1 = (as, d2)" by fastforce
  have r: "rs = a # as" "d2 = d'" using Cons.prems(1) 1 2 by auto
  from Cons.IH [OF 2 [unfolded r(2)] auth_step_explained [OF Cons.prems(2) 1]] r auth_step_users [of compare page x d] 1 show ?case
    by simp
qed simp

lemma user_by_id_unique:
  assumes "distinct (map us_id (db_users d))" "u \<in> set (db_users d)"
  shows "user_by_id (us_id u) d = Some u"
proof -
  from assms(2) have "user_by_id (us_id u) d \<noteq> None" by (auto simp: user_by_id_def find_none_iff)
  then obtain v where v: "user_by_id (us_id u) d = Some v" by blast
  from user_by_id_mem [OF v] assms have "v = u" by (auto simp: distinct_map inj_on_def)
  with v show ?thesis by simp
qed

lemma user_by_name_unique:
  assumes "distinct (map us_name (db_users d))" "u \<in> set (db_users d)"
  shows "user_by_name (us_name u) d = Some u"
proof -
  from assms(2) have "user_by_name (us_name u) d \<noteq> None" by (auto simp: user_by_name_def find_none_iff)
  then obtain v where v: "user_by_name (us_name u) d = Some v" by blast
  from user_by_name_mem [OF v] assms have "v = u" by (auto simp: distinct_map inj_on_def)
  with v show ?thesis by simp
qed

text \<open>A request without credentials in its header is somebody's only through a session.\<close>

lemma Check_cookie:
  assumes "hdr_get (req_Header r) ''Authorization'' = []"
  shows "ar_Authenticated (Check compare now r d) \<longleftrightarrow>
    (\<exists>token u. Cookie r ''auth_token'' = Some token \<and> token \<noteq> [] \<and> session_user now token d = Some u \<and>
      Check compare now r d = \<lparr>ar_Authenticated = True, ar_Username = us_name u, ar_UserID = us_id u,
        ar_ZeroTrustReq = (us_zero_trust u = 1), ar_SessionToken = token\<rparr>)"
proof (cases "Cookie r ''auth_token''")
  case None
  then show ?thesis by (simp add: Check_def assms nobody_def)
next
  case (Some v)
  then show ?thesis
    by (cases "v = []"; cases "session_user now v d") (simp_all add: Check_def assms nobody_def validateSession_def)
qed


lemma Redirect_root: "redirect_location r ''/'' = ''/''"
proof -
  have "Parse ''/'' = Some (empty_url\<lparr>url_Path := ''/''\<rparr>)" "path_Clean ''/'' = ''/''" by code_simp+
  then show ?thesis by (simp add: redirect_location_def empty_url_def Let_def)
qed

text \<open>
  C17: The right password opens a session: a posted form with the name and the password of a
  user is answered with a redirection to the start page and a cookie, and a request that
  brings the cookie within 24 hours is taken for that user.
\<close>

theorem login_opens_session:
  assumes "db_ok d" "u \<in> set (db_users d)" "req_Method r = ''POST''" "ParseForm 65536 r body = (form, False)"
    and "FormValue form ''username'' = us_name u" "compare (us_hash u) (FormValue form ''password'')"
    and "random \<noteq> []" "\<forall>s \<in> set (db_sessions d). se_token s \<noteq> RawURLEncode random"
    and "HandleLogin compare page now random r body d = (resp, d')"
  shows "rp_Status resp = StatusFound \<and> hdr_get (rp_Header resp) ''Location'' = ''/'' \<and>
    rp_Cookies resp = [session_cookie now r (RawURLEncode random)] \<and>
    (\<forall>r' t. hdr_get (req_Header r') ''Authorization'' = [] \<and> Cookie r' ''auth_token'' = Some (RawURLEncode random) \<and>
       now_sec t < now_sec now + 24 * 3600 \<longrightarrow>
       Check compare t r' d' = \<lparr>ar_Authenticated = True, ar_Username = us_name u, ar_UserID = us_id u,
         ar_ZeroTrustReq = (us_zero_trust u = 1), ar_SessionToken = RawURLEncode random\<rparr>)"
proof -
  let ?token = "RawURLEncode random"
  have ne: "?token \<noteq> []" using assms(7) by (cases random rule: RawURLEncode.cases) (auto simp: Let_def)
  have dist: "distinct (map us_id (db_users d))" "distinct (map us_name (db_users d))"
    using assms(1) by (simp_all add: db_ok_def ids_ok_def)
  have u: "user_by_name (us_name u) d = Some u" "user_by_id (us_id u) d = Some u"
    by (rule user_by_name_unique [OF dist(2) assms(2)], rule user_by_id_unique [OF dist(1) assms(2)])
  let ?s = "\<lparr>se_user = us_id u, se_token = ?token, se_expires = now_sec now + 24 * 3600\<rparr>"
  define d1 where "d1 = snd (PruneExpiredSessions now d)"
  have d1: "db_users d1 = db_users d" "\<forall>s \<in> set (db_sessions d1). se_token s \<noteq> ?token"
    using assms(8) by (auto simp: d1_def PruneExpiredSessions_def Let_def)
  have create: "createSession now random (us_name u) d = (?token, d1\<lparr>db_sessions := db_sessions d1 @ [?s]\<rparr>)"
    using d1(2) by (simp add: createSession_def u(1) Let_def d1_def list_ex_iff)
  have get: "req_Method r \<noteq> ''GET''" using assms(3) by simp
  have run: "HandleLogin compare page now random r body d =
      ((http_Redirect login_header r ''/'')\<lparr>rp_Cookies := [session_cookie now r ?token]\<rparr>, d1\<lparr>db_sessions := db_sessions d1 @ [?s]\<rparr>)"
    unfolding HandleLogin_def if_not_P [OF get] if_not_P [OF not_not [THEN iffD2, OF assms(3)]]
    by (simp add: assms(4-6) u(1) create ne Let_def)
  have d': "d' = d1\<lparr>db_sessions := db_sessions d1 @ [?s]\<rparr>"
    and resp: "resp = (http_Redirect login_header r ''/'')\<lparr>rp_Cookies := [session_cookie now r ?token]\<rparr>"
    using run assms(9) by simp_all
  have find: "find (\<lambda>s. se_token s = ?token \<and> now_sec t < se_expires s) (db_sessions d1 @ [?s]) = Some ?s"
    if "now_sec t < now_sec now + 24 * 3600" for t
  proof -
    have "find (\<lambda>s. se_token s = ?token \<and> now_sec t < se_expires s) (db_sessions d1) = None" using d1(2) by (auto simp: find_none_iff)
    then show ?thesis using that by (simp add: find_append)
  qed
  have chk: "Check compare t r' d' = \<lparr>ar_Authenticated = True, ar_Username = us_name u, ar_UserID = us_id u,
         ar_ZeroTrustReq = (us_zero_trust u = 1), ar_SessionToken = ?token\<rparr>"
    if "hdr_get (req_Header r') ''Authorization'' = []" "Cookie r' ''auth_token'' = Some ?token" "now_sec t < now_sec now + 24 * 3600" for r' t
  proof -
    have "user_by_id (us_id u) d' = Some u" using u(2) d1(1) by (simp add: user_by_id_def d')
    then have "session_user t ?token d' = Some u" using find [OF that(3)] by (simp add: session_user_def d')
    then show ?thesis using that ne by (simp add: Check_def validateSession_def nobody_def)
  qed
  have hex: "hexEscapeNonASCII ''/'' = ''/''" by code_simp
  have loc: "hdr_get (rp_Header resp) ''Location'' = ''/''"
    using hex assms(3) by (simp add: resp http_Redirect_def Redirect_root reply_def Let_def)
  show ?thesis using chk loc by (simp add: resp http_Redirect_def reply_def Let_def)
qed

text \<open>A store with one user, whose password is the hash, and a login.\<close>

definition bob_db :: db where
  "bob_db = empty_db\<lparr>db_users := [\<lparr>us_id = 1, us_name = ''bob'', us_hash = ''pw'', us_email = [], us_zero_trust = 1\<rparr>], seq_users := 2\<rparr>"

definition bob_login :: request where
  "bob_login = plain_request ''POST'' (hdr_set ''Content-Type'' ''application/x-www-form-urlencoded'' Map.empty) ''192.0.2.1:5''"

definition bob_cookie :: request where
  "bob_cookie = plain_request ''GET'' (hdr_set ''Cookie'' (''auth_token='' @ RawURLEncode ''xyz'') Map.empty) ''192.0.2.1:6''"

lemma bob_facts:
  "ParseForm 65536 bob_login ''username=bob&password=pw'' = ([(''username'', ''bob''), (''password'', ''pw'')], False)"
  "Cookie bob_cookie ''auth_token'' = Some (RawURLEncode ''xyz'')" "hdr_get (req_Header bob_cookie) ''Authorization'' = []"
  by code_simp+

lemma bob_ok: "db_ok bob_db"
  by (simp add: bob_db_def empty_db_def db_ok_def ids_ok_def)

theorem login_opens_session_witness:
  "rp_Status (fst (HandleLogin (=) [] 0 ''xyz'' bob_login ''username=bob&password=pw'' bob_db)) = StatusFound"
proof -
  let ?u = "\<lparr>us_id = 1, us_name = ''bob'', us_hash = ''pw'', us_email = [], us_zero_trust = 1\<rparr>"
  obtain resp d' where l: "HandleLogin (=) [] 0 ''xyz'' bob_login ''username=bob&password=pw'' bob_db = (resp, d')" by fastforce
  have u: "?u \<in> set (db_users bob_db)" by (simp add: bob_db_def)
  have post: "req_Method bob_login = ''POST''" by (simp add: bob_login_def plain_request_def)
  have "rp_Status resp = StatusFound"
    using login_opens_session [OF bob_ok u post bob_facts(1) _ _ _ _ l] by (simp add: FormValue_def bob_db_def empty_db_def)
  then show ?thesis by (simp add: l)
qed


end
