(* ===== verification/AiWorker.thy ===== *)
theory AiWorker
  imports GoStrings Float64
begin

text \<open>
  The model processes (\<^verbatim>\<open>internal/aiworker/worker.go\<close>) and the three detectors that use
  them (\<^verbatim>\<open>internal/anomaly/local.go\<close>, \<^verbatim>\<open>internal/koda_waf/koda_waf.go\<close>,
  \<^verbatim>\<open>internal/koda2/koda2.go\<close>).

  The process is a parameter: \<open>proc h\<close> is the output for the last line of \<open>h\<close>, the lines it
  has read since its start, in the pieces the reader sees. What the operating system does with
  one attempt (a failed write, the deadline, a failed start) is an argument; \<open>decode\<close> is
  \<^verbatim>\<open>json.Unmarshal\<close> into the type of the response. The token channel makes a call atomic.
\<close>

subsection \<open>Reading a line\<close>

datatype fragment_end = Newline | BufferFull | ReadFailed

datatype worker_error =
    ErrClosed | ErrRequestTimeout | ErrResponseTooLarge | ErrRequestHasNewline | RequestEmpty | RequestTooLarge
  | WriteFailed | ReadError | DecodeFailed | StartFailed | ContextError

definition bytesTrimLineEnding :: "string \<Rightarrow> string" where
  "bytesTrimLineEnding line =
     (let l = butlast line in if l \<noteq> [] \<and> last l = CHR 0x0D then butlast l else l)"

text \<open>The line, or the error, and the pieces that stay unread.\<close>

fun readLine :: "nat \<Rightarrow> string \<Rightarrow> (string \<times> fragment_end) list \<Rightarrow> (worker_error + string) \<times> (string \<times> fragment_end) list" where
  "readLine limit line [] = (Inl ReadError, [])"
| "readLine limit line ((fragment, e) # fs) =
     (if limit + 1 < length line + length fragment then (Inl ErrResponseTooLarge, fs)
      else (let line = line @ fragment
            in case e of
                 Newline \<Rightarrow>
                   (let l = bytesTrimLineEnding line in (if limit < length l then Inl ErrResponseTooLarge else Inr l, fs))
               | BufferFull \<Rightarrow> readLine limit line fs
               | ReadFailed \<Rightarrow> (Inl ReadError, fs)))"

subsection \<open>The worker\<close>

record worker_config =
  wk_MaxRequestBytes :: int
  wk_MaxResponseBytes :: int

definition withDefaults :: "worker_config \<Rightarrow> worker_config" where
  "withDefaults c =
     \<lparr>wk_MaxRequestBytes = (if wk_MaxRequestBytes c \<le> 0 then 8192 else wk_MaxRequestBytes c),
      wk_MaxResponseBytes = (if wk_MaxResponseBytes c \<le> 0 then 65536 else wk_MaxResponseBytes c)\<rparr>"

text \<open>The running process: the lines it has read, and what of its output is unread.\<close>

record ai_worker =
  aw_config :: worker_config
  aw_process :: "(string list \<times> (string \<times> fragment_end) list) option"
  aw_closed :: bool

type_synonym process = "string list \<Rightarrow> (string \<times> fragment_end) list"

definition startLocked :: "bool \<Rightarrow> ai_worker \<Rightarrow> worker_error option \<times> ai_worker" where
  "startLocked starts w = (if starts then (None, w\<lparr>aw_process := Some ([], [])\<rparr>) else (Some StartFailed, w))"

definition stopLocked :: "ai_worker \<Rightarrow> ai_worker" where
  "stopLocked w = w\<lparr>aw_process := None\<rparr>"

definition restartLocked :: "bool \<Rightarrow> ai_worker \<Rightarrow> worker_error option \<times> ai_worker" where
  "restartLocked starts w = startLocked starts (stopLocked w)"

definition New_worker :: "bool \<Rightarrow> string \<Rightarrow> worker_config \<Rightarrow> ai_worker option" where
  "New_worker starts script c =
     (if TrimSpace script = [] then None
      else (case startLocked starts \<lparr>aw_config = withDefaults c, aw_process = None, aw_closed = False\<rparr> of
              (Some e, _) \<Rightarrow> None
            | (None, w) \<Rightarrow> Some w))"

text \<open>
  What happens to an attempt: whether the write works, when the deadline comes (before the
  answer, after it but before the error is looked at, or not), and whether the next start works.
\<close>

datatype deadline = InTime | Expires | ExpiresAfter

record attempt =
  at_writes :: bool
  at_deadline :: deadline
  at_starts :: bool

definition requestOnceLocked ::
  "process \<Rightarrow> (string \<Rightarrow> 'r option) \<Rightarrow> attempt \<Rightarrow> string \<Rightarrow> ai_worker \<Rightarrow> (worker_error + 'r) \<times> ai_worker" where
  "requestOnceLocked proc decode a request w =
     (case aw_process w of
        None \<Rightarrow> (Inl WriteFailed, w)
      | Some (h, unread) \<Rightarrow>
          if \<not> at_writes a then (Inl WriteFailed, w)
          else if at_deadline a = Expires then
            (Inl ErrRequestTimeout, snd (startLocked (at_starts a) (stopLocked w)))
          else (let h' = h @ [request];
                    (res, rest) = readLine (nat (wk_MaxResponseBytes (aw_config w))) [] (unread @ proc h');
                    w1 = w\<lparr>aw_process := Some (h', rest)\<rparr>
                in case res of
                     Inl e \<Rightarrow> (Inl e, w1)
                   | Inr line \<Rightarrow> (case decode line of None \<Rightarrow> (Inl DecodeFailed, w1) | Some r \<Rightarrow> (Inr r, w1))))"

text \<open>
  The loop of \<open>Request\<close> over its two attempts. A deadline that has passed ends it:
  \<open>contextError\<close> gives \<open>ErrRequestTimeout\<close>, unless the caller's own context ended.
\<close>

definition contextError :: "bool \<Rightarrow> worker_error" where
  "contextError parent_done = (if parent_done then ContextError else ErrRequestTimeout)"

fun request_loop :: "process \<Rightarrow> (string \<Rightarrow> 'r option) \<Rightarrow> bool \<Rightarrow> attempt list \<Rightarrow> string \<Rightarrow> worker_error \<Rightarrow> ai_worker
    \<Rightarrow> (worker_error + 'r) \<times> ai_worker" where
  "request_loop proc decode parent [] request lastErr w = (Inl lastErr, w)"
| "request_loop proc decode parent (a # as) request lastErr w =
     (case requestOnceLocked proc decode a request w of
        (Inr r, w1) \<Rightarrow> (Inr r, w1)
      | (Inl e, w1) \<Rightarrow>
          if at_deadline a \<noteq> InTime then (Inl (contextError parent), w1)
          else (case restartLocked (at_starts a) w1 of
                  (Some e', w2) \<Rightarrow> (Inl e', w2)
                | (None, w2) \<Rightarrow> request_loop proc decode parent as request e w2))"

record request_env =
  re_acquired :: bool
  re_parent_done :: bool
  re_starts :: bool
  re_first :: attempt
  re_second :: attempt

definition Request :: "process \<Rightarrow> (string \<Rightarrow> 'r option) \<Rightarrow> request_env \<Rightarrow> string \<Rightarrow> ai_worker \<Rightarrow> (worker_error + 'r) \<times> ai_worker" where
  "Request proc decode env request0 w =
     (let request = TrimSpace request0
      in if request = [] then (Inl RequestEmpty, w)
         else if wk_MaxRequestBytes (aw_config w) < int (length request) then (Inl RequestTooLarge, w)
         else if CHR 0x0D \<in> set request \<or> CHR 0x0A \<in> set request then (Inl ErrRequestHasNewline, w)
         else if \<not> re_acquired env then (Inl (contextError (re_parent_done env)), w)
         else if aw_closed w then (Inl ErrClosed, w)
         else (let (e, w1) = (if aw_process w = None then startLocked (re_starts env) w else (None, w))
               in case e of
                    Some e \<Rightarrow> (Inl e, w1)
                  | None \<Rightarrow>
                      request_loop proc decode (re_parent_done env) [re_first env, re_second env] request DecodeFailed w1))"

definition Worker_Close :: "ai_worker \<Rightarrow> ai_worker" where
  "Worker_Close w = (if aw_closed w then w else stopLocked (w\<lparr>aw_closed := True\<rparr>))"

subsection \<open>The detectors\<close>

record detector =
  dt_Enabled :: bool
  dt_Threshold :: rat
  dt_worker :: ai_worker

record prediction =
  pd_Label :: string
  pd_Score :: rat
  pd_AttackType :: string
  pd_Error :: string

definition maxFeatureInputBytes :: nat where "maxFeatureInputBytes = 8192"

datatype predict_error = Disabled | InputEmpty | InputTooLarge | PredictionTimeout | WorkerError worker_error | ModelError string

text \<open>A detector exists when its three files do and its process starts.\<close>

definition new_detector :: "(string \<Rightarrow> bool) \<Rightarrow> bool \<Rightarrow> bool \<Rightarrow> rat \<Rightarrow> string list \<Rightarrow> string \<Rightarrow> detector option" where
  "new_detector exists_file starts enabled threshold files script =
     (if \<not> enabled \<or> \<not> list_all exists_file (files @ [script]) then None
      else map_option (\<lambda>w. \<lparr>dt_Enabled = enabled, dt_Threshold = threshold, dt_worker = w\<rparr>)
             (New_worker starts script \<lparr>wk_MaxRequestBytes = int maxFeatureInputBytes, wk_MaxResponseBytes = 0\<rparr>))"

definition worker_answer :: "(worker_error + prediction) \<times> ai_worker \<Rightarrow> detector \<Rightarrow> (predict_error + prediction) \<times> detector" where
  "worker_answer a d =
     (case a of (res, w) \<Rightarrow>
        (case res of
           Inl e \<Rightarrow> Inl (if e = ErrRequestTimeout then PredictionTimeout else WorkerError e)
         | Inr p \<Rightarrow> if pd_Error p \<noteq> [] then Inl (ModelError (pd_Error p)) else Inr p,
         d\<lparr>dt_worker := w\<rparr>))"

definition PredictCSV :: "process \<Rightarrow> (string \<Rightarrow> prediction option) \<Rightarrow> request_env \<Rightarrow> string \<Rightarrow> detector \<Rightarrow> (predict_error + prediction) \<times> detector" where
  "PredictCSV proc decode env csv0 d =
     (let csv = TrimSpace csv0
      in if \<not> dt_Enabled d then (Inl Disabled, d)
         else if csv = [] then (Inl InputEmpty, d)
         else if maxFeatureInputBytes < length csv then (Inl InputTooLarge, d)
         else worker_answer (Request proc decode env csv (dt_worker d)) d)"

definition Predict :: "process \<Rightarrow> (string \<Rightarrow> prediction option) \<Rightarrow> request_env \<Rightarrow> string \<Rightarrow> detector \<Rightarrow> (predict_error + prediction) \<times> detector" where
  "Predict proc decode env csv0 d =
     (let csv = TrimSpace csv0
      in if \<not> dt_Enabled d then (Inl Disabled, d)
         else if maxFeatureInputBytes < length csv then (Inl InputTooLarge, d)
         else if csv = [] then (Inl InputEmpty, d)
         else worker_answer (Request proc decode env csv (dt_worker d)) d)"

text \<open>A score at the threshold counts, and four fifths of it for a suspicious label.\<close>

definition over_threshold :: "string list \<Rightarrow> rat \<Rightarrow> string \<Rightarrow> rat \<Rightarrow> bool" where
  "over_threshold terms threshold label score =
     (if threshold \<le> score then True
      else if list_ex (Contains (ToLower label)) terms then fl (threshold * fl (4 / 5)) \<le> score
      else False)"

definition LocalDetector_IsAnomalous :: "detector \<Rightarrow> string \<Rightarrow> rat \<Rightarrow> bool" where
  "LocalDetector_IsAnomalous d label score = over_threshold [''anom'', ''malicious'', ''attack''] (dt_Threshold d) label score"

definition IsBlocked :: "detector \<Rightarrow> prediction option \<Rightarrow> bool" where
  "IsBlocked d p =
     (case p of None \<Rightarrow> False
      | Some p \<Rightarrow> over_threshold [''sqli'', ''xss'', ''rfi'', ''lfi'', ''command'', ''attack''] (dt_Threshold d) (pd_Label p) (pd_Score p))"

definition IsAnomalous :: "detector \<Rightarrow> prediction option \<Rightarrow> bool" where
  "IsAnomalous d p =
     (case p of None \<Rightarrow> False
      | Some p \<Rightarrow> over_threshold [''anom'', ''malicious'', ''attack'', ''threat''] (dt_Threshold d) (pd_Label p) (pd_Score p))"

lemma over_threshold_mono: "over_threshold ts t label s \<Longrightarrow> s \<le> s' \<Longrightarrow> over_threshold ts t label s'"
  by (auto simp: over_threshold_def split: if_splits)

subsection \<open>Answers belong to their requests\<close>

datatype ai_op = OpRequest request_env string | OpClose

fun ai_step :: "process \<Rightarrow> (string \<Rightarrow> 'r option) \<Rightarrow> ai_op \<Rightarrow> ai_worker \<Rightarrow> ai_worker" where
  "ai_step proc decode (OpRequest env request) w = snd (Request proc decode env request w)"
| "ai_step proc decode OpClose w = Worker_Close w"

text \<open>A process that answers every line with one line.\<close>

definition one_line :: "(string \<times> fragment_end) list \<Rightarrow> bool" where
  "one_line out = (out \<noteq> [] \<and> snd (last out) = Newline \<and> list_all (\<lambda>p. snd p = BufferFull) (butlast out))"

text \<open>No deadline falls between an error and the look at the clock that follows it.\<close>

definition no_race :: "ai_op \<Rightarrow> bool" where
  "no_race op = (case op of OpClose \<Rightarrow> True
     | OpRequest env _ \<Rightarrow> at_deadline (re_first env) \<noteq> ExpiresAfter \<and> at_deadline (re_second env) \<noteq> ExpiresAfter)"

definition in_step :: "ai_worker \<Rightarrow> bool" where
  "in_step w = (case aw_process w of None \<Rightarrow> True | Some (h, unread) \<Rightarrow> unread = [])"

lemma readLine_one_line:
  assumes "one_line out" "readLine n acc out = (Inr line, rest)"
  shows "rest = [] \<and> length line \<le> n"
  using assms
proof (induction n acc out rule: readLine.induct)
  case (2 n acc f e fs)
  show ?case
  proof (cases "fs = []")
    case True
    then show ?thesis using "2.prems" by (cases e) (auto simp: one_line_def Let_def split: if_splits)
  next
    case False
    then have "e = BufferFull" "one_line fs" using "2.prems"(1) by (auto simp: one_line_def)
    moreover from this have "readLine n (acc @ f) fs = (Inr line, rest)" "\<not> n + 1 < length acc + length f"
      using "2.prems"(2) by (auto simp: Let_def split: if_splits)
    ultimately show ?thesis using "2.IH" by simp
  qed
qed (simp add: one_line_def)

lemma once_in_step:
  assumes "requestOnceLocked proc decode a request w = (res, w')" "in_step w" "\<forall>h. one_line (proc h)"
  shows "case res of
      Inl e \<Rightarrow> at_deadline a = Expires \<longrightarrow> in_step w'
    | Inr r \<Rightarrow> in_step w' \<and> (\<exists>h line. readLine (nat (wk_MaxResponseBytes (aw_config w))) [] (proc (h @ [request])) = (Inr line, []) \<and>
        decode line = Some r \<and> length line \<le> nat (wk_MaxResponseBytes (aw_config w)))"
    and "aw_config w' = aw_config w"
proof -
  let ?n = "nat (wk_MaxResponseBytes (aw_config w))"
  have started: "in_step (snd (startLocked b (stopLocked w)))" "aw_config (snd (startLocked b (stopLocked w))) = aw_config w" for b
    by (auto simp: startLocked_def stopLocked_def in_step_def)
  show "case res of
      Inl e \<Rightarrow> at_deadline a = Expires \<longrightarrow> in_step w'
    | Inr r \<Rightarrow> in_step w' \<and> (\<exists>h line. readLine ?n [] (proc (h @ [request])) = (Inr line, []) \<and>
        decode line = Some r \<and> length line \<le> ?n)"
  proof (cases "aw_process w = None \<or> \<not> at_writes a \<or> at_deadline a = Expires")
    case True
    then show ?thesis using assms(1,2) started
      by (auto simp: requestOnceLocked_def in_step_def split: option.splits prod.splits if_splits)
  next
    case False
    then obtain h where h: "aw_process w = Some (h, [])" "at_writes a" "at_deadline a \<noteq> Expires"
      using assms(2) by (auto simp: in_step_def split: option.splits)
    obtain r rest where rl: "readLine ?n [] (proc (h @ [request])) = (r, rest)" by fastforce
    show ?thesis
    proof (cases r)
      case (Inl e)
      then show ?thesis using assms(1) h rl by (auto simp: requestOnceLocked_def)
    next
      case (Inr line)
      from readLine_one_line [OF assms(3) [rule_format] rl [unfolded Inr]] have l: "rest = []" "length line \<le> ?n" by simp_all
      show ?thesis
      proof (cases "decode line")
        case None
        then show ?thesis using rl Inr l assms(1) h by (auto simp: requestOnceLocked_def)
      next
        case (Some v)
        then have "res = Inr v" "in_step w'" using rl Inr l assms(1) h by (auto simp: requestOnceLocked_def in_step_def)
        moreover have "readLine ?n [] (proc (h @ [request])) = (Inr line, []) \<and> decode line = Some v \<and> length line \<le> ?n"
          using rl Inr l Some by simp
        ultimately show ?thesis by auto
      qed
    qed
  qed
  show "aw_config w' = aw_config w"
    using assms(1) started by (auto simp: requestOnceLocked_def Let_def split: option.splits prod.splits if_splits sum.splits)
qed

lemma restart_in_step:
  assumes "restartLocked b w = (e, w')"
  shows "in_step w' \<and> aw_config w' = aw_config w"
  using assms by (auto simp: restartLocked_def startLocked_def stopLocked_def in_step_def split: if_splits)

lemma loop_in_step:
  assumes "request_loop proc decode parent as request e w = (res, w')" "in_step w" "\<forall>h. one_line (proc h)"
    and "\<forall>a \<in> set as. at_deadline a \<noteq> ExpiresAfter"
  shows "in_step w' \<and> aw_config w' = aw_config w \<and>
    (\<forall>r. res = Inr r \<longrightarrow> (\<exists>h line. readLine (nat (wk_MaxResponseBytes (aw_config w))) [] (proc (h @ [request])) = (Inr line, []) \<and>
        decode line = Some r \<and> length line \<le> nat (wk_MaxResponseBytes (aw_config w))))"
  using assms(1,2,4)
proof (induction as arbitrary: e w)
  case (Cons a as)
  obtain r1 w1 where 1: "requestOnceLocked proc decode a request w = (r1, w1)" by fastforce
  note once = once_in_step [OF 1 Cons.prems(2) assms(3)]
  show ?case
  proof (cases r1)
    case (Inr r)
    then have "res = Inr r" "w' = w1" using Cons.prems(1) 1 by auto
    with once Inr show ?thesis by simp
  next
    case (Inl err)
    show ?thesis
    proof (cases "at_deadline a = InTime")
      case False
      then have "res = Inl (contextError parent)" "w' = w1" "at_deadline a = Expires"
        using Cons.prems(1,3) 1 Inl by (cases "at_deadline a"; simp)+
      with once Inl show ?thesis by simp
    next
      case True
      obtain e2 w2 where 2: "restartLocked (at_starts a) w1 = (e2, w2)" by fastforce
      note fresh = restart_in_step [OF 2]
      show ?thesis
      proof (cases e2)
        case None
        then have "request_loop proc decode parent as request err w2 = (res, w')" using Cons.prems(1) 1 2 Inl True by simp
        from Cons.IH [OF this] fresh Cons.prems(3) once(2) show ?thesis by simp
      next
        case (Some err')
        then have "res = Inl err'" "w' = w2" using Cons.prems(1) 1 2 Inl True by auto
        with fresh once(2) show ?thesis by simp
      qed
    qed
  qed
qed auto

lemma Request_in_step:
  assumes "Request proc decode env request w = (res, w')" "in_step w" "\<forall>h. one_line (proc h)" "no_race (OpRequest env request)"
  shows "in_step w' \<and> aw_config w' = aw_config w \<and>
    (\<forall>r. res = Inr r \<longrightarrow> \<not> aw_closed w \<and> (\<exists>h line. readLine (nat (wk_MaxResponseBytes (aw_config w))) [] (proc (h @ [TrimSpace request])) = (Inr line, []) \<and>
        decode line = Some r \<and> length line \<le> nat (wk_MaxResponseBytes (aw_config w))))"
proof -
  let ?q = "TrimSpace request"
  define early where "early = (?q = [] \<or> wk_MaxRequestBytes (aw_config w) < int (length ?q) \<or>
    (CHR 0x0D \<in> set ?q \<or> CHR 0x0A \<in> set ?q) \<or> \<not> re_acquired env \<or> aw_closed w)"
  show ?thesis
  proof (cases early)
    case True
    then have "w' = w \<and> (\<exists>e. res = Inl e)" using assms(1) by (auto simp: Request_def early_def Let_def split: if_splits)
    with assms(2) show ?thesis by auto
  next
    case False
    obtain e w1 where s: "(if aw_process w = None then startLocked (re_starts env) w else (None, w)) = (e, w1)" by fastforce
    have w1: "in_step w1" "aw_config w1 = aw_config w"
      using s assms(2) by (auto simp: startLocked_def in_step_def split: if_splits option.splits)
    show ?thesis
    proof (cases e)
      case (Some err)
      then have "w' = w1 \<and> res = Inl err" using assms(1) False s by (simp add: Request_def early_def Let_def)
      with w1 show ?thesis by auto
    next
      case None
      then have "request_loop proc decode (re_parent_done env) [re_first env, re_second env] ?q DecodeFailed w1 = (res, w')"
        using assms(1) False s by (simp add: Request_def early_def Let_def)
      from loop_in_step [OF this w1(1) assms(3)] assms(4) w1(2) False show ?thesis by (simp add: no_race_def early_def)
    qed
  qed
qed

lemma ai_run_in_step:
  assumes "\<forall>op \<in> set ops. no_race op" "in_step w" "\<forall>h. one_line (proc h)"
  shows "in_step (fold (ai_step proc decode) ops w) \<and> aw_config (fold (ai_step proc decode) ops w) = aw_config w"
  using assms(1,2)
proof (induction ops arbitrary: w)
  case (Cons op ops)
  have "in_step (ai_step proc decode op w) \<and> aw_config (ai_step proc decode op w) = aw_config w"
  proof (cases op)
    case (OpRequest env request)
    obtain res w' where r: "Request proc decode env request w = (res, w')" by fastforce
    from Request_in_step [OF r Cons.prems(2) assms(3)] Cons.prems(1) OpRequest r show ?thesis by simp
  qed (use Cons.prems(2) in \<open>auto simp: Worker_Close_def stopLocked_def in_step_def\<close>)
  with Cons show ?case by simp
qed simp

text \<open>
  C19: No detector is given the answer to another request: after any sequence of requests with
  failures, timeouts and restarts, and of \<open>Close\<close>, the answer \<open>Request\<close> returns is decoded from
  the one line, within the limit, that the process wrote for this request; provided the
  process writes one line per request and no deadline falls between an error and the look at
  the clock that follows it.
\<close>

theorem worker_answers_own_request:
  assumes "New_worker True script cfg = Some w0" "\<forall>h. one_line (proc h)"
    and "\<forall>op \<in> set ops. no_race op" "no_race (OpRequest env request)"
    and "Request proc decode env request (fold (ai_step proc decode) ops w0) = (Inr r, w)"
  shows "\<exists>h line. readLine (nat (wk_MaxResponseBytes (withDefaults cfg))) [] (proc (h @ [TrimSpace request])) = (Inr line, []) \<and>
    decode line = Some r \<and> int (length line) \<le> wk_MaxResponseBytes (withDefaults cfg) \<and> OpClose \<notin> set ops"
proof -
  have w0: "in_step w0" "aw_config w0 = withDefaults cfg" "\<not> aw_closed w0"
    using assms(1) by (auto simp: New_worker_def startLocked_def in_step_def split: if_splits)
  have pos: "0 < wk_MaxResponseBytes (withDefaults cfg)" by (simp add: withDefaults_def)
  from ai_run_in_step [OF assms(3) w0(1) assms(2), of decode] have s: "in_step (fold (ai_step proc decode) ops w0)"
    "aw_config (fold (ai_step proc decode) ops w0) = withDefaults cfg" by (simp_all add: w0(2))
  from Request_in_step [OF assms(5) s(1) assms(2,4)] have r: "\<not> aw_closed (fold (ai_step proc decode) ops w0)"
    "\<exists>h line. readLine (nat (wk_MaxResponseBytes (withDefaults cfg))) [] (proc (h @ [TrimSpace request])) = (Inr line, []) \<and>
        decode line = Some r \<and> length line \<le> nat (wk_MaxResponseBytes (withDefaults cfg))" by (simp_all add: s(2))
  have closed: "aw_closed (fold (ai_step proc decode) xs v)" if "aw_closed v \<or> OpClose \<in> set xs" for xs v
    using that
  proof (induction xs arbitrary: v)
    case (Cons x xs)
    have "aw_closed v \<or> x = OpClose \<Longrightarrow> aw_closed (ai_step proc decode x v)"
      by (cases x) (auto simp: Request_def Let_def Worker_Close_def stopLocked_def)
    with Cons.prems have "aw_closed (ai_step proc decode x v) \<or> OpClose \<in> set xs" by auto
    then show ?case using Cons.IH by simp
  qed simp
  from r(2) obtain h line where "readLine (nat (wk_MaxResponseBytes (withDefaults cfg))) [] (proc (h @ [TrimSpace request])) = (Inr line, [])"
    "decode line = Some r" "length line \<le> nat (wk_MaxResponseBytes (withDefaults cfg))" by blast
  moreover from this(3) pos have "int (length line) \<le> wk_MaxResponseBytes (withDefaults cfg)" by linarith
  moreover have "OpClose \<notin> set ops" using closed [of w0 ops] r(1) by blast
  ultimately show ?thesis by blast
qed

text \<open>
  The condition on the deadline is needed: when an answer is too long and the deadline
  passes before the error is looked at, \<open>Request\<close> returns without restarting the process, and
  the rest of that answer is taken for the answer to the next request.
\<close>

definition long_answer :: process where
  "long_answer h = (if last h = ''a'' then [(''xxxx'', BufferFull), ([CHR ''7'', CHR 0x0A], Newline)] else [([CHR ''0'', CHR 0x0A], Newline)])"

definition quiet :: "deadline \<Rightarrow> request_env" where
  "quiet dl = \<lparr>re_acquired = True, re_parent_done = False, re_starts = True,
     re_first = \<lparr>at_writes = True, at_deadline = dl, at_starts = True\<rparr>, re_second = \<lparr>at_writes = True, at_deadline = InTime, at_starts = True\<rparr>\<rparr>"

definition small_worker :: ai_worker where
  "small_worker = \<lparr>aw_config = \<lparr>wk_MaxRequestBytes = 10, wk_MaxResponseBytes = 2\<rparr>, aw_process = Some ([], []), aw_closed = False\<rparr>"

theorem worker_stale_answer:
  "New_worker True ''s.py'' \<lparr>wk_MaxRequestBytes = 10, wk_MaxResponseBytes = 2\<rparr> = Some small_worker \<and>
   fst (Request long_answer Some (quiet InTime) ''b'' (snd (Request long_answer Some (quiet ExpiresAfter) ''a'' small_worker))) = Inr ''7'' \<and>
   fst (Request long_answer Some (quiet InTime) ''b'' small_worker) = Inr ''0''"
  by code_simp

theorem worker_answers_own_request_witness:
  "\<exists>h. readLine 2 [] ((\<lambda>_. [([CHR ''0'', CHR 0x0A], Newline)]) (h @ [''b''])) = (Inr ''0'', [])"
proof -
  let ?proc = "(\<lambda>_. [([CHR ''0'', CHR 0x0A], Newline)]) :: process"
  let ?cfg = "\<lparr>wk_MaxRequestBytes = 10, wk_MaxResponseBytes = 2\<rparr>"
  have new: "New_worker True ''s.py'' ?cfg = Some small_worker" by code_simp
  have line: "\<forall>h. one_line (?proc h)" by (simp add: one_line_def)
  have race: "\<forall>op \<in> set [OpRequest (quiet Expires) ''a'']. no_race op" "no_race (OpRequest (quiet InTime) ''b'')"
    by (simp_all add: no_race_def quiet_def)
  have run: "fst (Request ?proc Some (quiet InTime) ''b'' (fold (ai_step ?proc Some) [OpRequest (quiet Expires) ''a''] small_worker)) = Inr ''0''"
    by code_simp
  then obtain w where "Request ?proc Some (quiet InTime) ''b'' (fold (ai_step ?proc Some) [OpRequest (quiet Expires) ''a''] small_worker) = (Inr ''0'', w)"
    by (metis prod.collapse)
  from worker_answers_own_request [OF new line race this] have "\<exists>h line. readLine (nat (wk_MaxResponseBytes (withDefaults ?cfg))) [] (?proc (h @ [TrimSpace ''b''])) = (Inr line, []) \<and> Some line = Some ''0''"
    by blast
  moreover have "nat (wk_MaxResponseBytes (withDefaults ?cfg)) = 2" "TrimSpace ''b'' = ''b''" by code_simp+
  ultimately show ?thesis by simp
qed

end
