(* ===== verification/Metrics.thy ===== *)
theory Metrics
  imports GoStrings GoMap Float64
begin

text \<open>
  The metrics (\<^verbatim>\<open>internal/metrics/metrics.go\<close>): counters of 64 bits that wrap around, counts
  by status, reason and error, and the response writer that observes what is sent. The maps
  are association lists; the reading of the clock is an argument. JSON and the text of
  \<^verbatim>\<open>ServePrometheus\<close> are not modelled.
\<close>

type_synonym u64 = "64 word"

definition maxTrackedErrors :: nat where "maxTrackedErrors = 128"

record error_info =
  ei_Kind :: string
  ei_Message :: string
  ei_Count :: u64
  ei_LastSeen :: gotime

record recorder =
  mt_started :: int
  mt_requests :: u64
  mt_responses :: u64
  mt_blocked :: u64
  mt_cacheHits :: u64
  mt_proxyErrors :: u64
  mt_bytesWritten :: u64
  mt_latencyNanos :: u64
  mt_statuses :: "(int, u64) gomap"
  mt_blocks :: "(string, u64) gomap"
  mt_errors :: "(string, error_info) gomap"

definition NewRecorder :: "gotime \<Rightarrow> recorder" where
  "NewRecorder now =
     \<lparr>mt_started = now div Second, mt_requests = 0, mt_responses = 0, mt_blocked = 0, mt_cacheHits = 0, mt_proxyErrors = 0,
      mt_bytesWritten = 0, mt_latencyNanos = 0, mt_statuses = [], mt_blocks = [], mt_errors = []\<rparr>"

text \<open>\<^verbatim>\<open>m[k]++\<close>\<close>

definition bump :: "'k \<Rightarrow> ('k, u64) gomap \<Rightarrow> ('k, u64) gomap" where
  "bump k m = AList.update k (case map_of m k of None \<Rightarrow> 1 | Some n \<Rightarrow> n + 1) m"

definition compact :: "string \<Rightarrow> nat \<Rightarrow> string" where
  "compact s0 limit = (let s = Join (Fields s0) '' '' in if length s \<le> limit then s else take (limit - 1) s @ ''...'')"

definition recordErrorLocked :: "gotime \<Rightarrow> string \<Rightarrow> string \<Rightarrow> recorder \<Rightarrow> recorder" where
  "recordErrorLocked now kind message0 r =
     (let message1 = compact (if message0 = [] then ''unknown error'' else message0) 180;
          key1 = kind @ '':'' @ message1;
          full = (map_of (mt_errors r) key1 = None \<and> maxTrackedErrors \<le> length (mt_errors r));
          key = (if full then kind @ '':other'' else key1);
          message = (if full then ''other errors'' else message1);
          info = (case map_of (mt_errors r) key of
                    Some i \<Rightarrow> i
                  | None \<Rightarrow> \<lparr>ei_Kind = kind, ei_Message = message, ei_Count = 0, ei_LastSeen = 0\<rparr>)
      in r\<lparr>mt_errors := AList.update key (info\<lparr>ei_Count := ei_Count info + 1, ei_LastSeen := now\<rparr>) (mt_errors r)\<rparr>)"

definition RecordRequest :: "recorder \<Rightarrow> recorder" where
  "RecordRequest r = r\<lparr>mt_requests := mt_requests r + 1\<rparr>"

definition RecordResponse :: "gotime \<Rightarrow> int \<Rightarrow> int \<Rightarrow> duration \<Rightarrow> recorder \<Rightarrow> recorder" where
  "RecordResponse now status0 bytes duration r =
     (let status = (if status0 = 0 then 200 else status0);
          r1 = r\<lparr>mt_responses := mt_responses r + 1,
                 mt_bytesWritten := (if 0 < bytes then mt_bytesWritten r + of_int bytes else mt_bytesWritten r),
                 mt_latencyNanos := (if 0 < duration then mt_latencyNanos r + of_int duration else mt_latencyNanos r),
                 mt_statuses := bump status (mt_statuses r)\<rparr>
      in if 400 \<le> status then recordErrorLocked now ''http'' (Itoa status) r1 else r1)"

definition RecordBlocked :: "string \<Rightarrow> recorder \<Rightarrow> recorder" where
  "RecordBlocked reason r =
     r\<lparr>mt_blocked := mt_blocked r + 1, mt_blocks := bump (if reason = [] then ''blocked'' else reason) (mt_blocks r)\<rparr>"

definition RecordCacheHit :: "recorder \<Rightarrow> recorder" where
  "RecordCacheHit r = r\<lparr>mt_cacheHits := mt_cacheHits r + 1\<rparr>"

definition RecordProxyError :: "gotime \<Rightarrow> string option \<Rightarrow> recorder \<Rightarrow> recorder" where
  "RecordProxyError now err r =
     recordErrorLocked now ''proxy'' (case err of None \<Rightarrow> ''upstream proxy failed'' | Some m \<Rightarrow> m)
       (r\<lparr>mt_proxyErrors := mt_proxyErrors r + 1\<rparr>)"

subsection \<open>Snapshots\<close>

record metrics_snapshot =
  ms_StartedAt :: int
  ms_UptimeSeconds :: int
  ms_Requests :: u64
  ms_Responses :: u64
  ms_Blocked :: u64
  ms_CacheHits :: u64
  ms_ProxyErrors :: u64
  ms_BytesWritten :: u64
  ms_AverageLatencyMs :: rat
  ms_StatusCodes :: "(string, u64) gomap"
  ms_BlockReasons :: "(string, u64) gomap"
  ms_ErrorStatusCodes :: "(string, u64) gomap"
  ms_RecentErrors :: "error_info list"

definition truncate :: "rat \<Rightarrow> int" where
  "truncate x = (if 0 \<le> x then \<lfloor>x\<rfloor> else \<lceil>x\<rceil>)"

definition add_to :: "'k \<Rightarrow> u64 \<Rightarrow> ('k, u64) gomap \<Rightarrow> ('k, u64) gomap" where
  "add_to k n m = AList.update k (case map_of m k of None \<Rightarrow> n | Some x \<Rightarrow> x + n) m"

definition recorder_Snapshot :: "gotime \<Rightarrow> recorder \<Rightarrow> metrics_snapshot" where
  "recorder_Snapshot now r =
     (let infos = map snd (mt_errors r)
      in \<lparr>ms_StartedAt = mt_started r,
          ms_UptimeSeconds = truncate (Seconds (time_sub now (mt_started r * Second))),
          ms_Requests = mt_requests r, ms_Responses = mt_responses r, ms_Blocked = mt_blocked r,
          ms_CacheHits = mt_cacheHits r, ms_ProxyErrors = mt_proxyErrors r, ms_BytesWritten = mt_bytesWritten r,
          ms_AverageLatencyMs =
            (if mt_responses r = 0 then 0
             else fl (fl (f64_of_int (uint (mt_latencyNanos r)) / f64_of_int (uint (mt_responses r))) / f64_of_int Millisecond)),
          ms_StatusCodes = map (\<lambda>(c, n). (Itoa c, n)) (mt_statuses r),
          ms_BlockReasons = mt_blocks r,
          ms_ErrorStatusCodes = fold (\<lambda>i m. if ei_Kind i = ''http'' then add_to (ei_Message i) (ei_Count i) m else m) infos [],
          ms_RecentErrors = take 8 (sort_key (\<lambda>i. - ei_LastSeen i) infos)\<rparr>)"

subsection \<open>The observing writer\<close>

text \<open>The calls that reach the underlying writer are kept, oldest first.\<close>

datatype writer_call = CallHeader int | CallWrite string

record metrics_writer =
  mw_status :: int
  mw_bytes :: int
  mw_calls :: "writer_call list"

definition Metrics_Wrap :: metrics_writer where
  "Metrics_Wrap = \<lparr>mw_status = 0, mw_bytes = 0, mw_calls = []\<rparr>"

definition mw_WriteHeader :: "int \<Rightarrow> metrics_writer \<Rightarrow> metrics_writer" where
  "mw_WriteHeader status w =
     (if mw_status w \<noteq> 0 then w else w\<lparr>mw_status := status, mw_calls := mw_calls w @ [CallHeader status]\<rparr>)"

text \<open>\<open>accept\<close> is how many bytes the underlying writer takes.\<close>

definition mw_Write :: "(string \<Rightarrow> nat) \<Rightarrow> string \<Rightarrow> metrics_writer \<Rightarrow> metrics_writer" where
  "mw_Write accept b w =
     w\<lparr>mw_status := (if mw_status w = 0 then 200 else mw_status w), mw_bytes := mw_bytes w + int (accept b),
       mw_calls := mw_calls w @ [CallWrite b]\<rparr>"

subsection \<open>The counters agree\<close>

datatype metrics_op =
    MRequest
  | MResponse gotime int int duration
  | MBlocked string
  | MCacheHit
  | MProxyError gotime "string option"

fun metrics_step :: "metrics_op \<Rightarrow> recorder \<Rightarrow> recorder" where
  "metrics_step MRequest r = RecordRequest r"
| "metrics_step (MResponse now status bytes d) r = RecordResponse now status bytes d r"
| "metrics_step (MBlocked reason) r = RecordBlocked reason r"
| "metrics_step MCacheHit r = RecordCacheHit r"
| "metrics_step (MProxyError now err) r = RecordProxyError now err r"

text \<open>Sums over the maps: all counts, the responses with an error status, the errors of a kind.\<close>

definition total :: "('k, u64) gomap \<Rightarrow> u64" where
  "total m = sum_list (map snd m)"

definition failures :: "(int, u64) gomap \<Rightarrow> u64" where
  "failures m = sum_list (map (\<lambda>p. if 400 \<le> fst p then snd p else 0) m)"

definition errors_of :: "string \<Rightarrow> (string, error_info) gomap \<Rightarrow> u64" where
  "errors_of kind m = sum_list (map (\<lambda>p. if ei_Kind (snd p) = kind then ei_Count (snd p) else 0) m)"

definition overflow_keys :: "string set" where
  "overflow_keys = {''http:other'', ''proxy:other''}"

definition metrics_ok :: "recorder \<Rightarrow> bool" where
  "metrics_ok r = (map_ok (mt_statuses r) \<and> map_ok (mt_blocks r) \<and> map_ok (mt_errors r) \<and>
     mt_responses r = total (mt_statuses r) \<and> mt_blocked r = total (mt_blocks r) \<and>
     errors_of ''http'' (mt_errors r) = failures (mt_statuses r) \<and> errors_of ''proxy'' (mt_errors r) = mt_proxyErrors r \<and>
     (\<forall>p \<in> set (mt_errors r). \<exists>m. fst p = ei_Kind (snd p) @ '':'' @ m \<and> ei_Kind (snd p) \<in> {''http'', ''proxy''}) \<and>
     length (filter (\<lambda>p. fst p \<notin> overflow_keys) (mt_errors r)) \<le> maxTrackedErrors)"

lemma total_bump: "map_ok m \<Longrightarrow> total (bump k m) = total m + 1"
  unfolding total_def bump_def by (subst sum_update) (auto split: option.splits)

lemma failures_bump: "map_ok m \<Longrightarrow> failures (bump k m) = failures m + (if 400 \<le> k then 1 else 0)"
  unfolding failures_def bump_def by (subst sum_update) (auto split: option.splits)

lemma map_ok_bump: "map_ok m \<Longrightarrow> map_ok (bump k m)"
  by (simp add: bump_def map_ok_update)

lemma filter_update_length:
  "length (filter (\<lambda>p. P (fst p)) (AList.update k v m)) \<le>
     (if map_of m k \<noteq> None \<or> \<not> P k then length (filter (\<lambda>p. P (fst p)) m) else Suc (length (filter (\<lambda>p. P (fst p)) m)))"
  by (induction m) auto

lemma room: "n \<le> (if A then a else Suc a) \<Longrightarrow> a \<le> l \<Longrightarrow> a \<le> m \<Longrightarrow> A \<or> l < m \<Longrightarrow> n \<le> m" for n :: nat
  by (auto split: if_splits)

text \<open>What one recorded error changes.\<close>

lemma recordError_effect:
  assumes "map_ok (mt_errors r)" "kind \<in> {''http'', ''proxy''}"
    and keys: "\<forall>p \<in> set (mt_errors r). \<exists>m. fst p = ei_Kind (snd p) @ '':'' @ m \<and> ei_Kind (snd p) \<in> {''http'', ''proxy''}"
    and few: "length (filter (\<lambda>p. fst p \<notin> overflow_keys) (mt_errors r)) \<le> maxTrackedErrors"
  obtains es where "recordErrorLocked now kind message r = r\<lparr>mt_errors := es\<rparr>" "map_ok es"
    "errors_of kind es = errors_of kind (mt_errors r) + 1"
    "\<And>k'. k' \<noteq> kind \<Longrightarrow> errors_of k' es = errors_of k' (mt_errors r)"
    "\<forall>p \<in> set es. \<exists>m. fst p = ei_Kind (snd p) @ '':'' @ m \<and> ei_Kind (snd p) \<in> {''http'', ''proxy''}"
    "length (filter (\<lambda>p. fst p \<notin> overflow_keys) es) \<le> maxTrackedErrors"
proof -
  define message1 where "message1 = compact (if message = [] then ''unknown error'' else message) 180"
  define full where "full = (map_of (mt_errors r) (kind @ '':'' @ message1) = None \<and> maxTrackedErrors \<le> length (mt_errors r))"
  define key where "key = (if full then kind @ '':other'' else kind @ '':'' @ message1)"
  define info where "info = (case map_of (mt_errors r) key of Some i \<Rightarrow> i
    | None \<Rightarrow> \<lparr>ei_Kind = kind, ei_Message = (if full then ''other errors'' else message1), ei_Count = 0, ei_LastSeen = 0\<rparr>)"
  define info' where "info' = info\<lparr>ei_Count := ei_Count info + 1, ei_LastSeen := now\<rparr>"
  let ?es = "AList.update key info' (mt_errors r)"
  have run: "recordErrorLocked now kind message r = r\<lparr>mt_errors := ?es\<rparr>"
    by (simp only: recordErrorLocked_def Let_def message1_def full_def key_def info_def info'_def)
  have key: "\<exists>m. key = kind @ '':'' @ m" by (auto simp: key_def)
  have kind: "ei_Kind info = kind"
  proof (cases "map_of (mt_errors r) key")
    case None
    then show ?thesis by (simp add: info_def)
  next
    case (Some i)
    then have "(key, i) \<in> set (mt_errors r)" by (rule map_of_SomeD)
    with keys obtain m where "key = ei_Kind i @ '':'' @ m" "ei_Kind i \<in> {''http'', ''proxy''}" by fastforce
    then have "ei_Kind i = kind" using assms(2) key by auto
    with Some show ?thesis by (simp add: info_def)
  qed
  have sums: "errors_of k ?es = errors_of k (mt_errors r) + (if k = kind then 1 else 0)" for k
  proof (cases "map_of (mt_errors r) key")
    case None
    then have "ei_Count info = 0" by (simp add: info_def)
    then show ?thesis unfolding errors_of_def by (subst sum_update [OF assms(1)]) (auto simp: None info'_def kind)
  next
    case (Some i)
    then have "info = i" by (simp add: info_def)
    then show ?thesis unfolding errors_of_def
      by (subst sum_update [OF assms(1)]) (use Some kind in \<open>auto simp: info'_def\<close>)
  qed
  have keys': "\<exists>m. fst p = ei_Kind (snd p) @ '':'' @ m \<and> ei_Kind (snd p) \<in> {''http'', ''proxy''}" if "p \<in> set ?es" for p
  proof (cases "p \<in> set (mt_errors r)")
    case False
    with that set_update_subset [of key info' "mt_errors r"] have "p = (key, info')" by auto
    then show ?thesis using kind assms(2) key by (auto simp: info'_def)
  qed (use keys in blast)
  have "key \<in> overflow_keys \<or> map_of (mt_errors r) key \<noteq> None \<or> length (mt_errors r) < maxTrackedErrors"
  proof (cases full)
    case True
    then have "key = kind @ '':other''" by (simp add: key_def)
    with assms(2) show ?thesis by (auto simp: overflow_keys_def)
  next
    case False
    then have "key = kind @ '':'' @ message1" by (simp add: key_def)
    with False show ?thesis by (auto simp: full_def not_le)
  qed
  then have "(map_of (mt_errors r) key \<noteq> None \<or> \<not> key \<notin> overflow_keys) \<or> length (mt_errors r) < maxTrackedErrors" by blast
  from room [OF filter_update_length length_filter_le few this]
  have few': "length (filter (\<lambda>p. fst p \<notin> overflow_keys) ?es) \<le> maxTrackedErrors" .
  show thesis
    by (rule that [OF run]) (use assms(1) sums keys' few' in \<open>auto intro: map_ok_update\<close>)
qed

lemma metrics_step_ok: "metrics_ok r \<Longrightarrow> metrics_ok (metrics_step x r)"
proof -
  assume ok: "metrics_ok r"
  have error: "metrics_ok (recordErrorLocked now kind message r')"
    if "kind \<in> {''http'', ''proxy''}" "map_ok (mt_statuses r')" "map_ok (mt_blocks r')" "mt_errors r' = mt_errors r"
      "mt_responses r' = total (mt_statuses r')" "mt_blocked r' = total (mt_blocks r')"
      "failures (mt_statuses r') = errors_of ''http'' (mt_errors r) + (if kind = ''http'' then 1 else 0)"
      "mt_proxyErrors r' = errors_of ''proxy'' (mt_errors r) + (if kind = ''proxy'' then 1 else 0)" for now kind message r'
  proof -
    note pre = that
    obtain es where es: "recordErrorLocked now kind message r' = r'\<lparr>mt_errors := es\<rparr>" "map_ok es"
      "errors_of kind es = errors_of kind (mt_errors r') + 1" "\<And>k'. k' \<noteq> kind \<Longrightarrow> errors_of k' es = errors_of k' (mt_errors r')"
      "\<forall>p \<in> set es. \<exists>m. fst p = ei_Kind (snd p) @ '':'' @ m \<and> ei_Kind (snd p) \<in> {''http'', ''proxy''}"
      "length (filter (\<lambda>p. fst p \<notin> overflow_keys) es) \<le> maxTrackedErrors"
      by (rule recordError_effect [of r' kind now message, unfolded pre(4)])
        (use ok pre(1) in \<open>auto simp: metrics_ok_def pre(4)\<close>)
    have "errors_of ''http'' es = failures (mt_statuses r')" "errors_of ''proxy'' es = mt_proxyErrors r'"
      using es(3,4) that(1,4,7,8) by auto
    then show ?thesis unfolding es(1) metrics_ok_def using es(2,5,6) that(2,3,5,6) by simp
  qed
  show "metrics_ok (metrics_step x r)"
  proof (cases x)
    case (MResponse now status bytes d)
    let ?s = "if status = 0 then 200 else status"
    show ?thesis
    proof (cases "400 \<le> ?s")
      case True
      then show ?thesis unfolding MResponse metrics_step.simps RecordResponse_def Let_def if_P [OF True]
        by (intro error) (use ok in \<open>auto simp: metrics_ok_def total_bump failures_bump map_ok_bump\<close>)
    next
      case False
      then show ?thesis unfolding MResponse metrics_step.simps RecordResponse_def Let_def if_not_P [OF False]
        using ok by (simp add: metrics_ok_def total_bump failures_bump map_ok_bump)
    qed
  next
    case (MProxyError now err)
    show ?thesis unfolding MProxyError metrics_step.simps RecordProxyError_def
      by (rule error) (use ok in \<open>auto simp: metrics_ok_def\<close>)
  qed (use ok in \<open>auto simp: RecordRequest_def RecordBlocked_def RecordCacheHit_def metrics_ok_def total_bump map_ok_bump\<close>)
qed

lemma few_errors:
  assumes "map_ok m" "length (filter (\<lambda>p. fst p \<notin> overflow_keys) m) \<le> n"
  shows "length m \<le> n + 2"
proof -
  have "length m = length (filter (\<lambda>p. fst p \<notin> overflow_keys) m) + length (filter (\<lambda>p. fst p \<in> overflow_keys) m)"
    using sum_length_filter_compl [of "\<lambda>p. fst p \<notin> overflow_keys" m] by simp
  moreover have "length (filter (\<lambda>p. fst p \<in> overflow_keys) m) = card (fst ` set (filter (\<lambda>p. fst p \<in> overflow_keys) m))"
    using assms(1) distinct_map_filter [of fst m "\<lambda>p. fst p \<in> overflow_keys"] distinct_card [of "map fst (filter (\<lambda>p. fst p \<in> overflow_keys) m)"]
    by (simp add: map_ok_def)
  moreover have "\<dots> \<le> card overflow_keys" by (rule card_mono) (auto simp: overflow_keys_def)
  moreover have "card overflow_keys \<le> 2" by (simp add: overflow_keys_def card_insert_if)
  ultimately show ?thesis using assms(2) by linarith
qed

interpretation metrics_inv: preserving metrics_step metrics_ok
  by unfold_locales (rule metrics_step_ok)

lemma NewRecorder_ok: "metrics_ok (NewRecorder now)"
  by (simp add: metrics_ok_def NewRecorder_def total_def errors_of_def failures_def maxTrackedErrors_def)

text \<open>
  The metrics agree with each other and stay small: over any sequence of recorded events,
  the responses are the sum of the counts by status and the blocked requests the sum of the
  counts by reason, the errors counted by message are the responses with a status of 400 and
  more and the proxy errors, all modulo \<open>2 ^ 64\<close>; and at most 130 error messages are kept.
\<close>

theorem metrics_agree:
  "let r = fold metrics_step ops (NewRecorder now) in
     mt_responses r = total (mt_statuses r) \<and> mt_blocked r = total (mt_blocks r) \<and>
     errors_of ''http'' (mt_errors r) = failures (mt_statuses r) \<and> errors_of ''proxy'' (mt_errors r) = mt_proxyErrors r \<and>
     length (mt_errors r) \<le> 130"
proof -
  have ok: "metrics_ok (fold metrics_step ops (NewRecorder now))" by (rule metrics_inv.run_good [OF NewRecorder_ok])
  then have "length (mt_errors (fold metrics_step ops (NewRecorder now))) \<le> 128 + 2"
    by (intro few_errors) (auto simp: metrics_ok_def maxTrackedErrors_def)
  with ok show ?thesis by (simp add: metrics_ok_def Let_def)
qed

text \<open>\<open>compact\<close> is given a limit of 180 bytes and can return 182.\<close>

lemma compact_too_long: "0 < n \<Longrightarrow> length (compact s n) \<le> n + 2" "length (compact ''abcdef'' 3) = 5"
proof -
  show "0 < n \<Longrightarrow> length (compact s n) \<le> n + 2" by (auto simp: compact_def Let_def)
  show "length (compact ''abcdef'' 3) = 5" by code_simp
qed

text \<open>
  An informational status is taken for the status of the response, and the real one is not
  sent on.
\<close>

lemma metrics_early_hints:
  "mw_calls (mw_WriteHeader 200 (mw_WriteHeader 103 Metrics_Wrap)) = [CallHeader 103]"
  by (simp add: mw_WriteHeader_def Metrics_Wrap_def)

end
