(* ===== verification/Config.thy ===== *)
theory Config
  imports GoStrings GoMap
begin

text \<open>
  The configuration (\<^verbatim>\<open>internal/config/config.go\<close>) after YAML decoding. The methods use
  a section \<^verbatim>\<open>Database\<close> that the structure in the source lacks; it is a field here.
\<close>

record config_target =
  ct_URL :: string
  ct_HealthCheck :: string

record config_route =
  cfr_Type :: string
  cfr_Target :: string
  cfr_Targets :: "config_target list"
  cfr_CertificatePEM :: string
  cfr_PrivateKeyPEM :: string
  cfr_Active :: "bool option"

record model_config =
  mc_Enabled :: bool
  mc_Threshold :: rat
  mc_ModelPath :: string
  mc_ScalerPath :: string
  mc_PythonScript :: string
  mc_FeatureHeader :: string

record config =
  cf_DebugLogs :: bool
  cf_DebugOverlay :: bool
  cf_Honeypot :: bool
  cf_TrustedProxies :: "string list"
  cf_AuthEnabled :: bool
  cf_SSLEnabled :: bool
  cf_CertFile :: string
  cf_KeyFile :: string
  cf_Port :: string
  cf_CustomErrorPage :: string
  cf_Anomaly :: model_config
  cf_KodaWaf :: model_config
  cf_Koda2 :: model_config
  cf_ErrorPagesDomain :: "(string, string) gomap"
  cf_ErrorPagesPath :: "(string, string) gomap"
  cf_CacheEnabled :: bool
  cf_CacheTTLSeconds :: int
  cf_CacheMaxEntries :: int
  cf_CacheMaxBodyBytes :: int
  cf_RateEnabled :: bool
  cf_RequestsPerMinute :: int
  cf_RateBurst :: int
  cf_RateKey :: string
  cf_QueueEnabled :: bool
  cf_MaxConcurrent :: int
  cf_MaxQueued :: int
  cf_QueueTimeoutSeconds :: int
  cf_BandwidthEnabled :: bool
  cf_BytesPerSecond :: int
  cf_BurstBytes :: int
  cf_BandwidthKey :: string
  cf_MetricsEnabled :: bool
  cf_MetricsPath :: string
  cf_APIURL :: string
  cf_APIKey :: string
  cf_PollIntervalSeconds :: int
  cf_ConnectionTimeoutSeconds :: int
  cf_MaxRetryIntervalSeconds :: int
  cf_HealthEnabled :: "bool option"
  cf_HealthIntervalSeconds :: int
  cf_HealthTimeoutSeconds :: int
  cf_HealthPath :: string
  cf_TelemetryEnabled :: bool
  cf_TelemetryEndpoint :: string
  cf_IngestKey :: string
  cf_TelemetryIntervalSeconds :: int
  cf_Routes :: "(string, config_route) gomap option"
  cf_DatabasePath :: string
  cf_StandbyPath :: string
  cf_BackupIntervalSeconds :: int

definition no_model :: model_config where
  "no_model = \<lparr>mc_Enabled = False, mc_Threshold = 0, mc_ModelPath = [], mc_ScalerPath = [], mc_PythonScript = [], mc_FeatureHeader = []\<rparr>"

text \<open>The zero value, which is used when there is no configuration file.\<close>

definition empty_config :: config where
  "empty_config = \<lparr>cf_DebugLogs = False, cf_DebugOverlay = False, cf_Honeypot = False, cf_TrustedProxies = [], cf_AuthEnabled = False,
     cf_SSLEnabled = False, cf_CertFile = [], cf_KeyFile = [], cf_Port = [], cf_CustomErrorPage = [],
     cf_Anomaly = no_model, cf_KodaWaf = no_model, cf_Koda2 = no_model, cf_ErrorPagesDomain = [], cf_ErrorPagesPath = [],
     cf_CacheEnabled = False, cf_CacheTTLSeconds = 0, cf_CacheMaxEntries = 0, cf_CacheMaxBodyBytes = 0,
     cf_RateEnabled = False, cf_RequestsPerMinute = 0, cf_RateBurst = 0, cf_RateKey = [],
     cf_QueueEnabled = False, cf_MaxConcurrent = 0, cf_MaxQueued = 0, cf_QueueTimeoutSeconds = 0,
     cf_BandwidthEnabled = False, cf_BytesPerSecond = 0, cf_BurstBytes = 0, cf_BandwidthKey = [],
     cf_MetricsEnabled = False, cf_MetricsPath = [], cf_APIURL = [], cf_APIKey = [], cf_PollIntervalSeconds = 0,
     cf_ConnectionTimeoutSeconds = 0, cf_MaxRetryIntervalSeconds = 0, cf_HealthEnabled = None, cf_HealthIntervalSeconds = 0,
     cf_HealthTimeoutSeconds = 0, cf_HealthPath = [], cf_TelemetryEnabled = False, cf_TelemetryEndpoint = [], cf_IngestKey = [],
     cf_TelemetryIntervalSeconds = 0, cf_Routes = None, cf_DatabasePath = [], cf_StandbyPath = [], cf_BackupIntervalSeconds = 0\<rparr>"

definition IsActive :: "config_route \<Rightarrow> bool" where
  "IsActive r = (case cfr_Active r of None \<Rightarrow> True | Some b \<Rightarrow> b)"

definition HealthChecksEnabled :: "config option \<Rightarrow> bool" where
  "HealthChecksEnabled c =
     (case c of None \<Rightarrow> True | Some c \<Rightarrow> (case cf_HealthEnabled c of None \<Rightarrow> True | Some b \<Rightarrow> b))"

definition DatabasePath :: "config option \<Rightarrow> string" where
  "DatabasePath c =
     (case c of
        None \<Rightarrow> ''./database/proxy.db''
      | Some c \<Rightarrow> if TrimSpace (cf_DatabasePath c) \<noteq> [] then cf_DatabasePath c else ''./database/proxy.db'')"

text \<open>\<^verbatim>\<open>filepath.Ext\<close>: from the last dot of the last element.\<close>

definition path_Ext :: "string \<Rightarrow> string" where
  "path_Ext p =
     (let e = takeWhile (\<lambda>c. c \<noteq> CHR ''/'') (rev p)
      in if CHR ''.'' \<in> set e then CHR ''.'' # rev (takeWhile (\<lambda>c. c \<noteq> CHR ''.'') e) else [])"

definition DatabaseStandbyPath :: "config option \<Rightarrow> string" where
  "DatabaseStandbyPath c =
     (let primary = DatabasePath c; ext = path_Ext primary;
          fallback = (if ext = [] then primary @ ''.standby.db'' else TrimSuffix primary ext @ ''.standby'' @ ext)
      in case c of None \<Rightarrow> fallback
         | Some c \<Rightarrow> if TrimSpace (cf_StandbyPath c) \<noteq> [] then cf_StandbyPath c else fallback)"

definition DatabaseBackupIntervalSeconds :: "config option \<Rightarrow> int" where
  "DatabaseBackupIntervalSeconds c =
     (case c of None \<Rightarrow> 0 | Some c \<Rightarrow> if cf_BackupIntervalSeconds c \<le> 0 then 0 else cf_BackupIntervalSeconds c)"

lemma path_Ext_suffix: "HasSuffix p (path_Ext p)"
proof (cases "CHR ''.'' \<in> set (takeWhile (\<lambda>c. c \<noteq> CHR ''/'') (rev p))")
  case True
  let ?e = "takeWhile (\<lambda>c. c \<noteq> CHR ''/'') (rev p)"
  obtain b where e: "?e = takeWhile (\<lambda>c. c \<noteq> CHR ''.'') ?e @ CHR ''.'' # b"
    using True by (metis Cut_def Cut_found)
  have "rev p = ?e @ dropWhile (\<lambda>c. c \<noteq> CHR ''/'') (rev p)" by simp
  then have "rev p = takeWhile (\<lambda>c. c \<noteq> CHR ''.'') ?e @ CHR ''.'' # b @ dropWhile (\<lambda>c. c \<noteq> CHR ''/'') (rev p)"
    using e by (metis append_Cons append_assoc)
  then have "p = rev (b @ dropWhile (\<lambda>c. c \<noteq> CHR ''/'') (rev p)) @ CHR ''.'' # rev (takeWhile (\<lambda>c. c \<noteq> CHR ''.'') ?e)"
    by (metis append.assoc append_Cons append_Nil rev.simps(2) rev_append rev_rev_ident)
  moreover have "path_Ext p = CHR ''.'' # rev (takeWhile (\<lambda>c. c \<noteq> CHR ''.'') ?e)" using True by (simp add: path_Ext_def Let_def)
  ultimately show ?thesis unfolding HasSuffix_iff by metis
qed (auto simp: path_Ext_def HasSuffix_iff Let_def)

text \<open>
  The copy never replaces the database: the standby path the program derives from the path
  of the primary database differs from it, whatever the extension, if there is one.
\<close>

theorem standby_differs:
  assumes "c = None \<or> TrimSpace (cf_StandbyPath (the c)) = []"
  shows "DatabaseStandbyPath c \<noteq> DatabasePath c"
proof -
  let ?p = "DatabasePath c" and ?e = "path_Ext (DatabasePath c)"
  have "length (TrimSuffix ?p ?e @ ''.standby'' @ ?e) = length ?p + 8"
  proof -
    obtain t where t: "?p = t @ ?e" using path_Ext_suffix [of ?p] by (auto simp: HasSuffix_iff)
    then have "length ?e \<le> length ?p" by (metis le_add2 length_append)
    then show ?thesis using path_Ext_suffix [of ?p] by (simp add: TrimSuffix_def)
  qed
  then have "TrimSuffix ?p ?e @ ''.standby'' @ ?e \<noteq> ?p" by (metis add_cancel_right_right zero_neq_numeral)
  then show ?thesis using assms by (auto simp: DatabaseStandbyPath_def Let_def split: option.splits)
qed

theorem standby_differs_witness: "DatabaseStandbyPath (Some empty_config) \<noteq> DatabasePath (Some empty_config)"
proof (rule standby_differs)
  show "Some empty_config = None \<or> TrimSpace (cf_StandbyPath (the (Some empty_config))) = []" by (simp add: empty_config_def)
qed

end
