(* ===== verification/GatewayHelpers.thy ===== *)
theory GatewayHelpers
  imports Auth Challenge ClientIP Config
begin

text \<open>
  The helpers of the request handlers (\<^verbatim>\<open>main.go\<close>): the path of the metrics, the error
  pages, the forwarding headers, the redirection after a challenge, the keys of the limiters
  and of the challenges, and the debug overlay (\<^verbatim>\<open>internal/debugoverlay/overlay.go\<close>). The
  fixed text of the generated pages is a parameter: a page is what is filled into it.
\<close>

subsection \<open>Small helpers\<close>

definition ifEmpty :: "string \<Rightarrow> string \<Rightarrow> string" where
  "ifEmpty v fallback = (if v = [] then fallback else v)"

definition ifZero :: "rat \<Rightarrow> rat \<Rightarrow> rat" where
  "ifZero f fallback = (if f = 0 then fallback else f)"

definition ifZeroInt :: "int \<Rightarrow> int \<Rightarrow> int" where
  "ifZeroInt v fallback = (if v = 0 then fallback else v)"

text \<open>The environment gives the empty string for a variable that is not set.\<close>

definition resolveAPIKey :: "(string \<Rightarrow> string) \<Rightarrow> config option \<Rightarrow> string" where
  "resolveAPIKey env cfg =
     (if env ''API_STREAM_KEY'' \<noteq> [] then env ''API_STREAM_KEY''
      else if env ''API_KEY'' \<noteq> [] then env ''API_KEY''
      else (case cfg of None \<Rightarrow> [] | Some c \<Rightarrow> cf_APIKey c))"

definition isHTML :: "string \<Rightarrow> bool" where
  "isHTML b =
     (let trimmed = TrimSpace (ToLower b)
      in HasPrefix trimmed ''<'' \<and> (Contains trimmed ''<html'' \<or> Contains trimmed ''<body''))"

definition metrics_fallback :: string where "metrics_fallback = ''/__netgoat/metrics''"

definition metrics_char :: "char \<Rightarrow> bool" where
  "metrics_char c = (is_alnum c \<or> c \<in> set ''/-_.~'')"

definition metricsEndpointPath :: "string \<Rightarrow> string \<times> bool" where
  "metricsEndpointPath configured =
     (let path = TrimSpace configured
      in if path = [] then (metrics_fallback, True)
         else if 128 < length path \<or> \<not> HasPrefix path ''/'' \<or> HasPrefix path ''//'' \<or> HasSuffix path ''/'' then (metrics_fallback, False)
         else if path \<in> {''/'', ''/login'', ''/__netgoat/verify''} then (metrics_fallback, False)
         else if \<not> list_all metrics_char path then (metrics_fallback, False)
         else (path, True))"

subsection \<open>Error pages\<close>

record error_pages =
  ep_def :: string
  ep_byHost :: "(string, string) gomap"
  ep_byPath :: "(string, string) gomap"

type_synonym read_file = "string \<Rightarrow> string option"

definition load_pages :: "read_file \<Rightarrow> (string \<Rightarrow> string) \<Rightarrow> (string, string) gomap \<Rightarrow> (string, string) gomap" where
  "load_pages read key entries =
     fold (\<lambda>(k, p) m. if p = [] then m else (case read p of None \<Rightarrow> m | Some b \<Rightarrow> AList.update (key k) b m)) entries []"

definition buildErrorPageStore :: "read_file \<Rightarrow> config \<Rightarrow> error_pages" where
  "buildErrorPageStore read cfg =
     \<lparr>ep_def = (if cf_CustomErrorPage cfg = [] then [] else (case read (cf_CustomErrorPage cfg) of None \<Rightarrow> [] | Some b \<Rightarrow> b)),
      ep_byHost = load_pages read ToLower (cf_ErrorPagesDomain cfg),
      ep_byPath = load_pages read (\<lambda>p. p) (cf_ErrorPagesPath cfg)\<rparr>"

text \<open>The loop over the prefixes, in whatever order the map gives them: the best length and page so far.\<close>

definition better_page :: "string \<Rightarrow> string \<times> string \<Rightarrow> int \<times> string \<Rightarrow> int \<times> string" where
  "better_page path e best =
     (if HasPrefix path (fst e) \<and> fst best < int (length (fst e)) \<and> snd e \<noteq> [] then (int (length (fst e)), snd e) else best)"

definition pick_page :: "error_pages \<Rightarrow> request \<Rightarrow> string" where
  "pick_page s r =
     (case map_of (ep_byHost s) (ToLower (req_Host r)) of
        Some b \<Rightarrow> if b \<noteq> [] then b
                  else (let chosen = snd (fold (better_page (req_Path r)) (ep_byPath s) (-1, [])) in if chosen \<noteq> [] then chosen else ep_def s)
      | None \<Rightarrow> (let chosen = snd (fold (better_page (req_Path r)) (ep_byPath s) (-1, [])) in if chosen \<noteq> [] then chosen else ep_def s))"

text \<open>
  The generated pages (\<^verbatim>\<open>internal/challenge/render.go\<close>), as the values filled into their
  text, in order. Only the simple page shows a message, escaped.
\<close>

datatype page =
    SimpleError string int
  | TextPage string string string int int
  | ClickPage string string int int string
  | SliderPage string string int int string

definition HTMLEscapeString :: "string \<Rightarrow> string" where
  "HTMLEscapeString s = concat (map (\<lambda>c.
     if c = CHR 0x22 then ''&#34;'' else if c = CHR 0x27 then ''&#39;'' else if c = CHR ''&'' then ''&amp;''
     else if c = CHR ''<'' then ''&lt;'' else if c = CHR ''>'' then ''&gt;''
     else if c = CHR 0x00 then [CHR 0xEF, CHR 0xBF, CHR 0xBD] else [c]) s)"

definition RenderDynamicErrorPage :: "challenge option \<Rightarrow> int \<Rightarrow> string \<Rightarrow> page" where
  "RenderDynamicErrorPage ch status message =
     (case ch of
        None \<Rightarrow> SimpleError (HTMLEscapeString message) status
      | Some c \<Rightarrow>
          if ch_Type c = ChallengeText then TextPage (ch_ID c) (ch_Answer c) (ch_ID c) (ch_Suspicion c) status
          else if ch_Type c = ChallengeClick then ClickPage (ch_ID c) (ch_ID c) (ch_Suspicion c) status (ch_Answer c)
          else if ch_Type c = ChallengeSlider then SliderPage (ch_ID c) (ch_ID c) (ch_Suspicion c) status (ch_Answer c)
          else SimpleError (HTMLEscapeString message) status)"

subsection \<open>Addresses, keys and redirections\<close>

definition directClientAddressResolver :: "resolver option" where
  "directClientAddressResolver = New []"

definition prepareForwardingHeaders :: "request \<Rightarrow> string \<Rightarrow> request" where
  "prepareForwardingHeaders r resolved =
     (let directPeer = ClientIP directClientAddressResolver r;
          h = hdr_del ''X-Forwarded-Proto'' (hdr_del ''X-Forwarded-Host'' (hdr_del ''Forwarded'' (req_Header r)))
      in r\<lparr>req_Header := (if resolved = [] \<or> resolved = directPeer then hdr_del ''X-Forwarded-For'' h
                          else hdr_set ''X-Forwarded-For'' resolved h)\<rparr>)"

definition safeLocalRedirect :: "string \<Rightarrow> string \<Rightarrow> string" where
  "safeLocalRedirect raw requestHost =
     (case Parse (TrimSpace raw) of
        None \<Rightarrow> ''/''
      | Some u \<Rightarrow>
          if url_Path u = [] \<or> \<not> HasPrefix (url_Path u) ''/'' \<or> HasPrefix (url_Path u) ''//'' then ''/''
          else if url_Host u \<noteq> [] \<and> \<not> EqualFold (url_Host u) requestHost then ''/''
          else if url_Scheme u \<noteq> [] \<and> url_Scheme u \<noteq> ''http'' \<and> url_Scheme u \<noteq> ''https'' then ''/''
          else RequestURI u)"

definition rateLimitKey :: "resolver option \<Rightarrow> request \<Rightarrow> string \<Rightarrow> string" where
  "rateLimitKey trusted r keyMode =
     (let mode = ToLower (TrimSpace keyMode)
      in if mode = ''host'' then req_Host r
         else if mode = ''route'' then req_Host r @ ''|'' @ req_Path r
         else if mode = ''global'' then ''global''
         else ClientIP trusted r)"

definition zeroTrustChallengeBinding :: "string \<Rightarrow> auth_result option \<Rightarrow> string" where
  "zeroTrustChallengeBinding ip result =
     (case result of
        None \<Rightarrow> ip
      | Some res \<Rightarrow> if \<not> ar_Authenticated res \<or> ar_UserID res \<le> 0 then ip else ip @ ''|user:'' @ Itoa (ar_UserID res))"

subsection \<open>The debug overlay\<close>

definition InjectOverlay :: "string \<Rightarrow> string option \<Rightarrow> string" where
  "InjectOverlay body overlay =
     (case overlay of
        None \<Rightarrow> body
      | Some text \<Rightarrow>
          (case Index (ToLower body) ''</body>'' of
             None \<Rightarrow> body
           | Some i \<Rightarrow> take i body @ text @ drop i body))"

definition shouldInjectOverlay :: "header \<Rightarrow> int \<Rightarrow> bool" where
  "shouldInjectOverlay h contentLength =
     (let ct = hdr_get h ''Content-Type''; enc = ToLower (TrimSpace (hdr_get h ''Content-Encoding''))
      in if ct = [] \<or> \<not> Contains (ToLower ct) ''text/html'' then False
         else if enc \<noteq> [] \<and> enc \<noteq> ''identity'' then False
         else if contentLength < 0 \<or> 262144 < contentLength then False
         else True)"

subsection \<open>Facts\<close>

lemma reserved_last: "p \<in> {''/'', ''/login'', ''/__netgoat/verify''} \<Longrightarrow> last p \<noteq> CHR ''m''"
  by auto

text \<open>
  The metrics never take the place of another handler: whatever path is configured, the
  two endpoints are distinct exact paths, different from the start page, the login and the
  verification of challenges, so that registering them does not fail.
\<close>

theorem metrics_path_safe:
  "case metricsEndpointPath configured of (p, ok) \<Rightarrow>
     {p, p @ ''.prom''} \<inter> {''/'', ''/login'', ''/__netgoat/verify''} = {} \<and> p \<noteq> p @ ''.prom'' \<and>
     HasPrefix p ''/'' \<and> \<not> HasPrefix p ''//'' \<and> \<not> HasSuffix p ''/'' \<and> list_all metrics_char p \<and> length p \<le> 128"
proof -
  have prom: "p @ ''.prom'' \<notin> {''/'', ''/login'', ''/__netgoat/verify''}" for p :: string
    using reserved_last [of "p @ ''.prom''"] by auto
  have "metrics_fallback \<notin> {''/'', ''/login'', ''/__netgoat/verify''} \<and> HasPrefix metrics_fallback ''/'' \<and> \<not> HasPrefix metrics_fallback ''//'' \<and>
    \<not> HasSuffix metrics_fallback ''/'' \<and> list_all metrics_char metrics_fallback \<and> length metrics_fallback \<le> 128" by code_simp
  with prom show ?thesis unfolding metricsEndpointPath_def Let_def by (auto split: if_splits)
qed

lemma best_page:
  assumes "fold (better_page path) es (l0, b0) = (l, b)" "- 1 \<le> l0"
  shows "l0 \<le> l \<and> (\<forall>k c. (k, c) \<in> set es \<and> HasPrefix path k \<and> c \<noteq> [] \<longrightarrow> int (length k) \<le> l) \<and>
    ((l, b) = (l0, b0) \<or> (\<exists>k. (k, b) \<in> set es \<and> HasPrefix path k \<and> b \<noteq> [] \<and> l = int (length k)))"
  using assms
proof (induction es arbitrary: l0 b0)
  case (Cons e es)
  obtain l1 b1 where 1: "better_page path e (l0, b0) = (l1, b1)" by fastforce
  then have l1: "l0 \<le> l1" "HasPrefix path (fst e) \<and> snd e \<noteq> [] \<longrightarrow> int (length (fst e)) \<le> l1"
    "(l1, b1) = (l0, b0) \<or> HasPrefix path (fst e) \<and> b1 = snd e \<and> snd e \<noteq> [] \<and> l1 = int (length (fst e))"
    by (auto simp: better_page_def split: if_splits)
  have "fold (better_page path) es (l1, b1) = (l, b)" using Cons.prems(1) 1 by simp
  from Cons.IH [OF this] l1 Cons.prems(2) show ?case by (cases e) (auto; metis)
qed auto

text \<open>The prefixes of a path that have a page.\<close>

definition page_candidate :: "error_pages \<Rightarrow> request \<Rightarrow> string \<Rightarrow> string \<Rightarrow> bool" where
  "page_candidate s r k b = (map_of (ep_byPath s) k = Some b \<and> b \<noteq> [] \<and> HasPrefix (req_Path r) k)"

text \<open>
  Error pages: a page for the host wins, although the configuration file documents the
  opposite; without one, the page of the longest prefix of the path; and otherwise the
  default page; in whatever order the map of prefixes is gone through.
\<close>

theorem error_page_choice:
  assumes "map_ok (ep_byPath s)"
    and "host = map_of (ep_byHost s) (ToLower (req_Host r))"
  shows "(host = Some b \<and> b \<noteq> [] \<longrightarrow> pick_page s r = b) \<and>
    (host \<in> {None, Some []} \<and> page_candidate s r k b \<and> (\<forall>k' b'. page_candidate s r k' b' \<longrightarrow> length k' \<le> length k) \<longrightarrow> pick_page s r = b) \<and>
    (host \<in> {None, Some []} \<and> (\<forall>k b. \<not> page_candidate s r k b) \<longrightarrow> pick_page s r = ep_def s)"
proof -
  obtain l c where f: "fold (better_page (req_Path r)) (ep_byPath s) (-1, []) = (l, c)" by fastforce
  have cand: "page_candidate s r k b \<longleftrightarrow> (k, b) \<in> set (ep_byPath s) \<and> HasPrefix (req_Path r) k \<and> b \<noteq> []" for k b
    using assms(1) by (auto simp: page_candidate_def map_ok_def)
  from best_page [OF f] have all: "\<And>k b. page_candidate s r k b \<Longrightarrow> int (length k) \<le> l"
    and hit: "(l, c) = (-1, []) \<or> (\<exists>k. page_candidate s r k c \<and> l = int (length k))" by (auto simp: cand)
  have pick: "pick_page s r = (if c \<noteq> [] then c else ep_def s)" if "host \<in> {None, Some []}"
    using that by (auto simp: pick_page_def assms(2) f Let_def)
  have longest: "c = b" if b: "page_candidate s r k b" "\<forall>k' b'. page_candidate s r k' b' \<longrightarrow> length k' \<le> length k"
  proof -
    from all [OF b(1)] hit obtain k' where k': "page_candidate s r k' c" "l = int (length k')" by auto
    with all [OF b(1)] b(2) have "length k' = length k" by force
    moreover have "prefix k (req_Path r)" "prefix k' (req_Path r)" using b(1) k'(1) by (auto simp: page_candidate_def HasPrefix_def)
    ultimately have "k' = k" by (auto simp: prefix_def append_eq_append_conv)
    with k'(1) b(1) show ?thesis by (simp add: page_candidate_def)
  qed
  show ?thesis
  proof (intro conjI impI)
    show "pick_page s r = b" if "host = Some b \<and> b \<noteq> []" using that by (simp add: pick_page_def assms(2))
    show "pick_page s r = b" if "host \<in> {None, Some []} \<and> page_candidate s r k b \<and> (\<forall>k' b'. page_candidate s r k' b' \<longrightarrow> length k' \<le> length k)"
      using that longest pick by (auto simp: cand)
    show "pick_page s r = ep_def s" if "host \<in> {None, Some []} \<and> (\<forall>k b. \<not> page_candidate s r k b)"
      using that hit pick by auto
  qed
qed

theorem error_page_choice_witness:
  "pick_page \<lparr>ep_def = ''d'', ep_byHost = [], ep_byPath = [(''/a'', ''x''), (''/a/b'', ''y'')]\<rparr>
     ((plain_request ''GET'' Map.empty ''x'')\<lparr>req_Path := ''/a/b/c''\<rparr>) = ''y''"
proof -
  let ?s = "\<lparr>ep_def = ''d'', ep_byHost = [], ep_byPath = [(''/a'', ''x''), (''/a/b'', ''y'')]\<rparr>"
  let ?r = "(plain_request ''GET'' Map.empty ''x'')\<lparr>req_Path := ''/a/b/c''\<rparr>"
  have ok: "map_ok (ep_byPath ?s)" by (simp add: map_ok_def)
  show ?thesis using error_page_choice [OF ok refl, of ?r "''y''" "''/a/b''"]
    by (auto simp: page_candidate_def HasPrefix_def plain_request_def split: if_splits)
qed



subsection \<open>The place after a challenge\<close>

lemma Split_set:
  assumes "p \<in> set (Split s d)"
  shows "set p \<subseteq> set s"
  using assms
proof (induction s arbitrary: p)
  case (Cons c s)
  obtain q qs where sp: "Split s d = q # qs" using Split_ne [of s d] by (cases "Split s d") auto
  have "set x \<subseteq> set s" if "x = q \<or> x \<in> set qs" for x using Cons.IH [of x] that sp by auto
  with Cons.prems sp show ?case by (cases "c = d") fastforce+
qed simp

lemma clean_parts_mem: "p \<in> set (clean_parts rooted acc ps) \<Longrightarrow> p \<in> set acc \<or> p \<in> set ps"
  by (induction rooted acc ps rule: clean_parts.induct) (auto split: if_splits dest: list.set_sel(2))

lemma clean_parts_ne: "\<forall>p \<in> set acc. p \<noteq> [] \<Longrightarrow> p \<in> set (clean_parts rooted acc ps) \<Longrightarrow> p \<noteq> []"
  by (induction rooted acc ps rule: clean_parts.induct) (auto split: if_splits dest: list.set_sel(2))

lemma Clean_rooted:
  assumes "hd p = CHR ''/''" "p \<noteq> []" "CHR 0x5C \<notin> set p"
  shows "\<exists>body. path_Clean p = CHR ''/'' # body \<and> (body = [] \<or> hd body \<notin> {CHR ''/'', CHR 0x5C})"
proof -
  let ?ps = "clean_parts True [] (Split p (CHR ''/''))"
  have part: "q \<noteq> [] \<and> CHR ''/'' \<notin> set q \<and> CHR 0x5C \<notin> set q" if "q \<in> set ?ps" for q
    using clean_parts_ne [OF _ that] clean_parts_mem [OF that] Split_no_sep [of q p "CHR ''/''"] Split_set [of q p "CHR ''/''"] assms(3) by auto
  have "path_Clean p = CHR ''/'' # Join ?ps ''/''" using assms by (simp add: path_Clean_def)
  moreover have "Join ?ps ''/'' = [] \<or> hd (Join ?ps ''/'') \<notin> {CHR ''/'', CHR 0x5C}"
  proof (cases ?ps)
    case (Cons q qs)
    then have "q \<noteq> []" "hd q \<in> set q" using part [of q] by auto
    moreover from this have "hd (Join ?ps ''/'') = hd q" using Cons by (cases qs) auto
    moreover have "CHR ''/'' \<notin> set q" "CHR 0x5C \<notin> set q" using part [of q] Cons by auto
    ultimately show ?thesis unfolding Cons by (metis empty_iff insert_iff)
  qed simp
  ultimately show ?thesis by blast
qed

lemma local_hex:
  assumes "local_uri s"
  shows "local_uri (hexEscapeNonASCII s)"
proof -
  have cons: "hexEscapeNonASCII (c # t) = (if 0x80 \<le> (of_char c :: nat)
      then [CHR ''%'', lower_char (hexdig (of_char c div 16)), lower_char (hexdig (of_char c mod 16))] else [c]) @ hexEscapeNonASCII t" for c t
    by (simp add: hexEscapeNonASCII_def Let_def)
  have nil: "hexEscapeNonASCII [] = []" by (simp add: hexEscapeNonASCII_def)
  from assms show ?thesis unfolding local_uri_def
  proof (elim disjE exE conjE)
    fix r assume "s = CHR ''%'' # r"
    then show "(\<exists>r. hexEscapeNonASCII s = CHR ''/'' # r \<and> (r = [] \<or> hd r \<notin> {CHR ''/'', CHR 0x5C})) \<or> (\<exists>r. hexEscapeNonASCII s = CHR ''%'' # r)"
      by (simp add: cons)
  next
    fix r assume "s = CHR ''/'' # r" "r = []"
    then show "(\<exists>r. hexEscapeNonASCII s = CHR ''/'' # r \<and> (r = [] \<or> hd r \<notin> {CHR ''/'', CHR 0x5C})) \<or> (\<exists>r. hexEscapeNonASCII s = CHR ''%'' # r)"
      by (simp add: cons nil)
  next
    fix r assume r: "s = CHR ''/'' # r" "hd r \<notin> {CHR ''/'', CHR 0x5C}"
    then have "hexEscapeNonASCII r = [] \<or> hd (hexEscapeNonASCII r) \<notin> {CHR ''/'', CHR 0x5C}"
      by (cases r) (auto simp: cons nil)
    with r show "(\<exists>r. hexEscapeNonASCII s = CHR ''/'' # r \<and> (r = [] \<or> hd r \<notin> {CHR ''/'', CHR 0x5C})) \<or> (\<exists>r. hexEscapeNonASCII s = CHR ''%'' # r)"
      by (simp add: cons)
  qed
qed

lemma safe_redirect_parts:
  obtains (root) "safeLocalRedirect raw host = ''/''"
  | (uri) u where "safeLocalRedirect raw host = RequestURI u" "local_uri (RequestURI u)" "url_Opaque u = []"
proof (cases "Parse (TrimSpace raw)")
  case None
  then show ?thesis by (intro root) (simp add: safeLocalRedirect_def)
next
  case (Some u)
  show ?thesis
  proof (cases "safeLocalRedirect raw host = ''/''")
    case False
    then have u: "url_Path u \<noteq> []" "HasPrefix (url_Path u) ''/''" "\<not> HasPrefix (url_Path u) ''//''" "safeLocalRedirect raw host = RequestURI u"
      using Some by (auto simp: safeLocalRedirect_def split: if_splits)
    have "url_Opaque u = []" by (rule Parse_path_opaque [OF Some u(1)])
    then show ?thesis using u by (intro uri) (auto intro: RequestURI_local)
  qed (rule root)
qed

lemma RequestURI_path: "url_Opaque u = [] \<Longrightarrow>
    takeWhile (\<lambda>c. c \<noteq> CHR ''?'') (RequestURI u) = (let p = EscapedPath (url_Path u) (url_RawPath u) in if p = [] then ''/'' else p)"
proof -
  assume o: "url_Opaque u = []"
  have q: "\<forall>c \<in> set (EscapedPath (url_Path u) (url_RawPath u)). c \<noteq> CHR ''?''" using EscapedPath_chars by blast
  then have "takeWhile (\<lambda>c. c \<noteq> CHR ''?'') (EscapedPath (url_Path u) (url_RawPath u) @ ''?'' @ t) = EscapedPath (url_Path u) (url_RawPath u)" for t
    by (subst takeWhile_append2) auto
  with q show ?thesis by (simp add: RequestURI_def o Let_def takeWhile_eq_all_conv)
qed

lemma path_dir_root: "HasPrefix p ''/'' \<Longrightarrow> \<exists>t. path_dir p = CHR ''/'' # t"
proof -
  assume "HasPrefix p ''/''"
  then obtain q where p: "p = CHR ''/'' # q" by (auto simp: HasPrefix_def prefix_def)
  have "dropWhile (\<lambda>c. c \<noteq> CHR ''/'') (rev q @ [CHR ''/'']) = dropWhile (\<lambda>c. c \<noteq> CHR ''/'') (rev q) @ [CHR ''/'']" by (simp add: dropWhile_append)
  then show ?thesis by (simp add: path_dir_def p)
qed

definition local_target :: "string \<Rightarrow> bool" where
  "local_target t = (local_uri t \<and> CHR 0x5C \<notin> set (takeWhile (\<lambda>c. c \<noteq> CHR ''?'') t))"

lemma safe_target: "local_target (safeLocalRedirect referer host)"
  unfolding local_target_def
proof (cases rule: safe_redirect_parts [of referer host])
  case (uri u)
  have "CHR 0x5C \<notin> set (EscapedPath (url_Path u) (url_RawPath u))" using EscapedPath_chars by blast
  with uri show "local_uri (safeLocalRedirect referer host) \<and> CHR 0x5C \<notin> set (takeWhile (\<lambda>c. c \<noteq> CHR ''?'') (safeLocalRedirect referer host))"
    by (simp add: RequestURI_path Let_def)
qed (simp add: local_uri_def)

text \<open>A relative target is put behind the directory of the request's path; what is cleaned is rooted.\<close>

lemma rooted_target:
  assumes old: "HasPrefix (EscapedPath p raw) ''/''" and t: "local_target t"
  defines "t0 \<equiv> (if t = [] \<or> hd t \<noteq> CHR ''/'' then path_dir (EscapedPath p raw) @ t else t)"
  defines "p0 \<equiv> takeWhile (\<lambda>c. c \<noteq> CHR ''?'') t0"
  shows "p0 \<noteq> [] \<and> hd p0 = CHR ''/'' \<and> CHR 0x5C \<notin> set p0"
proof (cases "t = [] \<or> hd t \<noteq> CHR ''/''")
  case True
  let ?dir = "path_dir (EscapedPath p raw)"
  obtain d where d: "?dir = CHR ''/'' # d" using path_dir_root [OF old] by blast
  have "set ?dir \<subseteq> set (EscapedPath p raw)" by (auto simp: path_dir_def dest: set_dropWhileD)
  then have clean: "CHR 0x5C \<notin> set ?dir" "CHR ''?'' \<notin> set ?dir" using EscapedPath_chars by blast+
  have "takeWhile (\<lambda>c. c \<noteq> CHR ''?'') (?dir @ t) = ?dir @ takeWhile (\<lambda>c. c \<noteq> CHR ''?'') t"
    using clean(2) by (subst takeWhile_append2) auto
  with True d clean(1) t show ?thesis by (simp add: p0_def t0_def local_target_def)
next
  case False
  then show ?thesis using t by (cases t) (auto simp: p0_def t0_def local_target_def)
qed

lemma redirect_local:
  assumes old: "HasPrefix (EscapedPath (req_Path r) (req_RawPath r)) ''/''" and t: "local_target t"
  shows "local_uri (redirect_location r t)"
proof (cases "case Parse t of None \<Rightarrow> True | Some u \<Rightarrow> url_Scheme u \<noteq> [] \<or> url_Host u \<noteq> []")
  case True
  then show ?thesis using t by (auto simp: redirect_location_def local_target_def split: option.splits)
next
  case False
  then obtain u where u: "Parse t = Some u" "url_Scheme u = []" "url_Host u = []" by (auto split: option.splits)
  let ?old = "EscapedPath (req_Path r) (req_RawPath r)"
  define t0 where "t0 = (if t = [] \<or> hd t \<noteq> CHR ''/'' then path_dir ?old @ t else t)"
  define p0 where "p0 = takeWhile (\<lambda>c. c \<noteq> CHR ''?'') t0"
  have p0: "p0 \<noteq> []" "hd p0 = CHR ''/''" "CHR 0x5C \<notin> set p0"
    using rooted_target [OF old t] by (simp_all add: p0_def t0_def)
  obtain body where body: "path_Clean p0 = CHR ''/'' # body" "body = [] \<or> hd body \<notin> {CHR ''/'', CHR 0x5C}"
    using Clean_rooted [OF p0(2,1,3)] by blast
  define query where "query = dropWhile (\<lambda>c. c \<noteq> CHR ''?'') t0"
  have query: "query = [] \<or> hd query = CHR ''?''" using hd_dropWhile [of "\<lambda>c. c \<noteq> CHR ''?''" t0] by (auto simp: query_def)
  have "?old \<noteq> []" using old by (auto simp: HasPrefix_def)
  then have loc: "redirect_location r t =
      (if HasSuffix p0 ''/'' \<and> \<not> HasSuffix (path_Clean p0) ''/'' then path_Clean p0 @ ''/'' else path_Clean p0) @ query"
    unfolding redirect_location_def u(1) option.case Let_def p0_def t0_def query_def using u(2,3) by simp
  have slash: "HasSuffix ''/'' ''/''" by (simp add: HasSuffix_def)
  show ?thesis
  proof (cases body)
    case Nil
    then show ?thesis using loc body(1) query slash by (cases query) (auto simp: local_uri_def)
  next
    case (Cons c cs)
    then show ?thesis using loc body by (auto simp: local_uri_def)
  qed
qed

lemma redirect_header: "hdr_get (rp_Header (http_Redirect Map.empty r t)) ''Location'' = hexEscapeNonASCII (redirect_location r t)"
proof -
  have k: "canonical_key ''Location'' \<noteq> canonical_key ''Content-Type''" by code_simp
  have "hdr_get (hdr_set ''Content-Type'' v h) ''Location'' = hdr_get h ''Location''" for v h
    using k by (simp add: hdr_get_def hdr_values_set)
  then show ?thesis by (simp add: http_Redirect_def reply_def Let_def)
qed

text \<open>
  C21: Nobody is sent away: whatever the \<^verbatim>\<open>Referer\<close> of a request that solves a challenge,
  the place its answer redirects to is on this server, written as a path with one leading
  slash, or one that starts with a percent-encoded byte; never two slashes or a slash and a
  backslash.
\<close>

theorem redirect_is_local:
  assumes "HasPrefix (EscapedPath (req_Path r) (req_RawPath r)) ''/''"
  shows "local_uri (hdr_get (rp_Header (http_Redirect Map.empty r (safeLocalRedirect referer host))) ''Location'')"
  unfolding redirect_header by (rule local_hex [OF redirect_local [OF assms safe_target]])

definition solved_request :: request where
  "solved_request = (plain_request ''POST'' Map.empty ''192.0.2.1:5'')\<lparr>req_Path := ''/__netgoat/verify''\<rparr>"

theorem redirect_is_local_witness:
  "local_uri (hdr_get (rp_Header (http_Redirect Map.empty solved_request (safeLocalRedirect ''http://h/a/..//b?x=1'' ''h''))) ''Location'') \<and>
   hdr_get (rp_Header (http_Redirect Map.empty solved_request (safeLocalRedirect ''http://h/a/..//b?x=1'' ''h''))) ''Location'' = ''/b?x=1''"
proof
  have p: "HasPrefix (EscapedPath (req_Path solved_request) (req_RawPath solved_request)) ''/''" by code_simp
  show "local_uri (hdr_get (rp_Header (http_Redirect Map.empty solved_request (safeLocalRedirect ''http://h/a/..//b?x=1'' ''h''))) ''Location'')"
    by (rule redirect_is_local [OF p])
  show "hdr_get (rp_Header (http_Redirect Map.empty solved_request (safeLocalRedirect ''http://h/a/..//b?x=1'' ''h''))) ''Location'' = ''/b?x=1''"
    by code_simp
qed

lemma Itoa_inj: "0 < i \<Longrightarrow> 0 < j \<Longrightarrow> Itoa i = Itoa j \<Longrightarrow> i = j"
  by (simp add: Itoa_def nat_digits_inj)

text \<open>
  A challenge solved by one user on one address counts for no other user and no other
  address, and not for the address alone: the bindings of two users differ as soon as the
  users or the addresses do, and none is the binding of an address.
\<close>

theorem zero_trust_bindings_differ:
  assumes "CHR ''|'' \<notin> set ip" "CHR ''|'' \<notin> set ip'" "ar_Authenticated res" "0 < ar_UserID res"
  shows "zeroTrustChallengeBinding ip (Some res) \<noteq> ip' \<and>
    (ar_Authenticated res' \<and> 0 < ar_UserID res' \<and> zeroTrustChallengeBinding ip (Some res) = zeroTrustChallengeBinding ip' (Some res') \<longrightarrow>
       ip = ip' \<and> ar_UserID res = ar_UserID res')"
proof -
  have b: "zeroTrustChallengeBinding ip (Some res) = ip @ CHR ''|'' # ''user:'' @ Itoa (ar_UserID res)"
    using assms by (simp add: zeroTrustChallengeBinding_def)
  show ?thesis
  proof (intro conjI impI)
    show "zeroTrustChallengeBinding ip (Some res) \<noteq> ip'" unfolding b using assms(2) by auto
  next
    assume a: "ar_Authenticated res' \<and> 0 < ar_UserID res' \<and> zeroTrustChallengeBinding ip (Some res) = zeroTrustChallengeBinding ip' (Some res')"
    then have "ip @ CHR ''|'' # ''user:'' @ Itoa (ar_UserID res) = ip' @ CHR ''|'' # ''user:'' @ Itoa (ar_UserID res')"
      using b by (simp add: zeroTrustChallengeBinding_def)
    from split_at_first [OF this assms(1,2)] have e: "ip = ip'" "Itoa (ar_UserID res) = Itoa (ar_UserID res')" by auto
    then show "ip = ip'" "ar_UserID res = ar_UserID res'" using Itoa_inj [OF assms(4)] a by auto
  qed
qed

theorem zero_trust_bindings_differ_witness:
  "zeroTrustChallengeBinding ''10.0.0.1'' (Some (nobody\<lparr>ar_Authenticated := True, ar_UserID := 7\<rparr>)) \<noteq> ''10.0.0.1''"
proof -
  have ip: "CHR ''|'' \<notin> set ''10.0.0.1''" by simp
  show ?thesis using zero_trust_bindings_differ [OF ip ip, of "nobody\<lparr>ar_Authenticated := True, ar_UserID := 7\<rparr>"] by simp
qed

end
