(* ===== verification/Gateway.thy ===== *)
theory Gateway
  imports GatewayHelpers RateLimit RequestQueue Metrics Waf AiWorker RouteResolver CachePolicy Balancer
begin

text \<open>
  The request handlers of \<^verbatim>\<open>main.go\<close>: the verification of challenges, and the handler of
  all other requests with its checks in their order, the shared cache and the proxy.

  A check is a step on the state that either lets the request go on or gives the answer. The
  outcome of the queue, the readings of the clock, the random bytes and what the model
  processes do are arguments of the request. \<open>None\<close> is a handler that does not return,
  which only happens when every identifier that is drawn for a challenge is taken.
\<close>

subsection \<open>State and answers\<close>

record gateway =
  gw_db :: db
  gw_challenges :: cstore
  gw_limiter :: "rateLimiter option"
  gw_kodaWaf :: "detector option"
  gw_anomaly :: "detector option"
  gw_koda2 :: "detector option"
  gw_rules :: "compiledRule list"
  gw_routes :: routeSnapshot
  gw_cache :: "store option"
  gw_metrics :: "recorder option"
  gw_balancer :: balancer
  gw_proxies :: proxy_cache

text \<open>What does not change while the program runs.\<close>

record setting =
  st_config :: config
  st_trusted :: "resolver option"
  st_pages :: error_pages
  st_page_text :: "page \<Rightarrow> string"
  st_compare :: bcrypt
  st_process :: process
  st_decode :: "string \<Rightarrow> prediction option"

record occasion =
  oc_now :: gotime
  oc_random :: randomness
  oc_queue :: "queue_error option"
  oc_kodaWaf :: request_env
  oc_anomaly :: request_env
  oc_koda2 :: request_env
  oc_took :: duration

definition getClientIP :: "setting \<Rightarrow> request \<Rightarrow> string" where
  "getClientIP st r = ClientIP (st_trusted st) r"

definition recordBlocked :: "string \<Rightarrow> gateway \<Rightarrow> gateway" where
  "recordBlocked reason gw = gw\<lparr>gw_metrics := map_option (RecordBlocked reason) (gw_metrics gw)\<rparr>"

definition html_reply :: "int \<Rightarrow> string \<Rightarrow> http_answer" where
  "html_reply status body = reply status (hdr_set ''Content-Type'' ''text/html; charset=utf-8'' Map.empty) body"

definition writeError :: "setting \<Rightarrow> occasion \<Rightarrow> request \<Rightarrow> int \<Rightarrow> string \<Rightarrow> cstore \<Rightarrow> (http_answer \<times> cstore) option" where
  "writeError st oc r status fallback s =
     (let ip = getClientIP st r; userAgent = hdr_get (req_Header r) ''User-Agent''
      in Option.bind (IsVerified (oc_now oc) ip s) (\<lambda>(verified, s1).
           if verified then
             (let p = pick_page (st_pages st) r
              in Some (if p \<noteq> [] \<and> isHTML p then html_reply status p else http_Error Map.empty fallback status, s1))
           else
             (let suspicion = CalculateSuspicion userAgent ip; ty = DetermineChallengeType suspicion
              in if ty = ChallengeNone
                 then Some (html_reply status (st_page_text st (RenderDynamicErrorPage None status fallback)), s1)
                 else Option.bind (Create (oc_now oc) (oc_random oc) ip userAgent suspicion ty s1) (\<lambda>(c, s2).
                        Some (html_reply status (st_page_text st (RenderDynamicErrorPage (Some c) status fallback)), s2)))))"

definition writeZeroTrustChallenge :: "setting \<Rightarrow> occasion \<Rightarrow> request \<Rightarrow> string \<Rightarrow> cstore \<Rightarrow> (http_answer \<times> cstore) option" where
  "writeZeroTrustChallenge st oc r binding s =
     Option.bind (Create (oc_now oc) (oc_random oc) binding (hdr_get (req_Header r) ''User-Agent'') 50 ChallengeText s) (\<lambda>(c, s1).
       Some (html_reply StatusForbidden
         (st_page_text st (RenderDynamicErrorPage (Some c) StatusForbidden ''Zero-trust verification required'')), s1))"

subsection \<open>The checks\<close>

type_synonym check = "gateway \<Rightarrow> (http_answer option \<times> gateway) option"

definition proceed :: "gateway \<Rightarrow> (http_answer option \<times> gateway) option" where
  "proceed gw = Some (None, gw)"

definition refuse :: "setting \<Rightarrow> occasion \<Rightarrow> request \<Rightarrow> int \<Rightarrow> string \<Rightarrow> check" where
  "refuse st oc r status fallback gw =
     map_option (\<lambda>(resp, s). (Some resp, gw\<lparr>gw_challenges := s\<rparr>)) (writeError st oc r status fallback (gw_challenges gw))"

definition check_auth :: "setting \<Rightarrow> occasion \<Rightarrow> request \<Rightarrow> check" where
  "check_auth st oc r gw =
     (if \<not> cf_AuthEnabled (st_config st) then proceed gw
      else (let res = Check (st_compare st) (oc_now oc) r (gw_db gw)
            in if \<not> ar_Authenticated res then
                 (if Contains (hdr_get (req_Header r) ''Accept'') ''application/json''
                  then refuse st oc r StatusUnauthorized ''Unauthorized'' gw
                  else Some (Some (http_Redirect Map.empty r ''/login''), gw))
               else (let binding = zeroTrustChallengeBinding (getClientIP st r) (Some res)
                     in Option.bind (IsVerified (oc_now oc) binding (gw_challenges gw)) (\<lambda>(verified, s).
                          let gw1 = gw\<lparr>gw_challenges := s\<rparr>
                          in if RequireZeroTrustChallenge (Some res) (IsZeroTrustEnabled (gw_db gw)) verified then
                               (let gw2 = recordBlocked ''zero-trust'' gw1
                                in map_option (\<lambda>(resp, s'). (Some resp, gw2\<lparr>gw_challenges := s'\<rparr>))
                                     (writeZeroTrustChallenge st oc r binding (gw_challenges gw2)))
                             else proceed gw1))))"

definition check_honeypot :: "setting \<Rightarrow> request \<Rightarrow> check" where
  "check_honeypot st r gw =
     (if \<not> cf_Honeypot (st_config st) then proceed gw
      else (case honeypot_Check r of
              None \<Rightarrow> proceed gw
            | Some body \<Rightarrow> Some (Some (reply StatusOK (hdr_set ''Content-Type'' ''text/plain'' Map.empty) body), gw)))"

definition check_rate :: "setting \<Rightarrow> occasion \<Rightarrow> request \<Rightarrow> check" where
  "check_rate st oc r gw =
     (case gw_limiter gw of
        None \<Rightarrow> proceed gw
      | Some l \<Rightarrow>
          (let (granted, l') = allowAt (oc_now oc) (rateLimitKey (st_trusted st) r (cf_RateKey (st_config st))) l;
               gw1 = gw\<lparr>gw_limiter := Some l'\<rparr>
           in if granted then proceed gw1
              else refuse st oc r StatusTooManyRequests ''Too Many Requests'' (recordBlocked ''rate-limit'' gw1)))"

text \<open>The queue, of which the request sees the outcome only.\<close>

definition check_queue :: "setting \<Rightarrow> occasion \<Rightarrow> request \<Rightarrow> check" where
  "check_queue st oc r gw =
     (if \<not> cf_QueueEnabled (st_config st) then proceed gw
      else (case oc_queue oc of
              None \<Rightarrow> proceed gw
            | Some e \<Rightarrow>
                (if e = ErrQueueFull
                 then refuse st oc r StatusTooManyRequests ''Too Many Requests'' (recordBlocked ''request-queue'' gw)
                 else refuse st oc r StatusServiceUnavailable ''Service Unavailable'' (recordBlocked ''request-queue'' gw))))"

definition features :: "request \<Rightarrow> string \<Rightarrow> string \<Rightarrow> string" where
  "features r hdr param = (let csv = hdr_get (req_Header r) hdr in if csv = [] then query_get (req_RawQuery r) param else csv)"

definition check_kodaWaf :: "setting \<Rightarrow> occasion \<Rightarrow> request \<Rightarrow> check" where
  "check_kodaWaf st oc r gw =
     (case gw_kodaWaf gw of
        None \<Rightarrow> proceed gw
      | Some d \<Rightarrow>
          (let csv = features r (ifEmpty (mc_FeatureHeader (cf_KodaWaf (st_config st))) ''X-KodaWaf-Features'') ''kodawaf''
           in if csv = [] then proceed gw
              else (let (res, d') = Predict (st_process st) (st_decode st) (oc_kodaWaf oc) csv d;
                        gw1 = gw\<lparr>gw_kodaWaf := Some d'\<rparr>
                    in case res of
                         Inl e \<Rightarrow> proceed gw1
                       | Inr pred \<Rightarrow>
                           if IsBlocked d' (Some pred)
                           then refuse st oc r StatusForbidden ''Forbidden'' (recordBlocked ''koda-waf'' gw1)
                           else proceed gw1)))"

definition check_anomaly :: "setting \<Rightarrow> occasion \<Rightarrow> request \<Rightarrow> check" where
  "check_anomaly st oc r gw =
     (case gw_anomaly gw of
        None \<Rightarrow> proceed gw
      | Some d \<Rightarrow>
          (let csv = features r (ifEmpty (mc_FeatureHeader (cf_Anomaly (st_config st))) ''X-GoatAI-Features'') ''goatai''
           in if csv = [] then proceed gw
              else (let (res, d') = PredictCSV (st_process st) (st_decode st) (oc_anomaly oc) csv d;
                        gw1 = gw\<lparr>gw_anomaly := Some d'\<rparr>
                    in case res of
                         Inl e \<Rightarrow> proceed gw1
                       | Inr pred \<Rightarrow>
                           if LocalDetector_IsAnomalous d' (pd_Label pred) (pd_Score pred)
                           then refuse st oc r StatusForbidden ''Forbidden'' (recordBlocked ''goatai'' gw1)
                           else proceed gw1)))"

definition check_koda2 :: "setting \<Rightarrow> occasion \<Rightarrow> request \<Rightarrow> check" where
  "check_koda2 st oc r gw =
     (case gw_koda2 gw of
        None \<Rightarrow> proceed gw
      | Some d \<Rightarrow>
          (let csv = features r (ifEmpty (mc_FeatureHeader (cf_Koda2 (st_config st))) ''X-Koda2-Features'') ''koda2''
           in if csv = [] then proceed gw
              else (let (res, d') = Predict (st_process st) (st_decode st) (oc_koda2 oc) csv d;
                        gw1 = gw\<lparr>gw_koda2 := Some d'\<rparr>
                    in case res of
                         Inl e \<Rightarrow> proceed gw1
                       | Inr pred \<Rightarrow>
                           if IsAnomalous d' (Some pred)
                           then refuse st oc r StatusForbidden ''Forbidden'' (recordBlocked ''koda-2'' gw1)
                           else proceed gw1)))"

definition check_waf :: "setting \<Rightarrow> occasion \<Rightarrow> request \<Rightarrow> check" where
  "check_waf st oc r gw =
     (let (block, ruleName) = Waf_Check (gw_rules gw) r
      in if block then refuse st oc r StatusForbidden ''Forbidden'' (recordBlocked (''waf:'' @ ruleName) gw) else proceed gw)"

fun run_checks :: "check list \<Rightarrow> check" where
  "run_checks [] gw = proceed gw"
| "run_checks (c # cs) gw =
     (case c gw of
        None \<Rightarrow> None
      | Some (Some resp, gw1) \<Rightarrow> Some (Some resp, gw1)
      | Some (None, gw1) \<Rightarrow> run_checks cs gw1)"

definition checks :: "setting \<Rightarrow> occasion \<Rightarrow> request \<Rightarrow> check list" where
  "checks st oc r =
     [check_auth st oc r, check_honeypot st r, check_rate st oc r, check_queue st oc r, check_kodaWaf st oc r,
      check_anomaly st oc r, check_koda2 st oc r, check_waf st oc r]"

subsection \<open>The cache and the proxy\<close>

text \<open>
  What happens outside: the health worker at each pick, the calls of the reverse proxy, the
  response that is modified, the time when its body ends, whether an error is a timeout, its
  text, and the text of the overlay.
\<close>

record upstream_response =
  ur_Status :: int
  ur_Header :: header
  ur_Body :: "string option"

record outside =
  ou_health :: "nat \<Rightarrow> worker"
  ou_upstreams :: upstreams
  ou_response :: "upstream_response option"
  ou_ended :: gotime
  ou_timeout :: bool
  ou_error :: "serve_error \<Rightarrow> string"
  ou_overlay :: "string option"

definition resolve_host :: "string \<Rightarrow> string" where
  "resolve_host host =
     (case last_index host (CHR '':'') of None \<Rightarrow> host | Some i \<Rightarrow> if 0 < i then take i host else host)"

definition all_values :: "header \<Rightarrow> header" where
  "all_values h = add_header h Map.empty"

definition cached_answer :: "setting \<Rightarrow> outside \<Rightarrow> entry \<Rightarrow> http_answer" where
  "cached_answer st ou ent =
     reply (ent_status ent) (hdr_set ''X-Cache'' ''HIT'' (all_values (ent_header ent)))
       (if cf_DebugOverlay (st_config st) \<and> Contains (hdr_get (ent_header ent) ''Content-Type'') ''text/html''
        then InjectOverlay (ent_body ent) (ou_overlay ou) else ent_body ent)"

text \<open>
  What the hook on the response leaves in the cache. The body is there when it ended within
  the limit.
\<close>

definition store_response :: "setting \<Rightarrow> outside \<Rightarrow> request \<Rightarrow> store option \<Rightarrow> store option" where
  "store_response st ou r cache =
     (case (cache, ou_response ou) of
        (Some s, Some res) \<Rightarrow>
          (case store_decision cache r (ur_Status res) (ur_Header res) of
             None \<Rightarrow> cache
           | Some t \<Rightarrow>
               if cf_DebugOverlay (st_config st) \<and> Contains (hdr_get (ur_Header res) ''Content-Type'') ''text/html'' then cache
               else (case ur_Body res of
                       None \<Rightarrow> cache
                     | Some body \<Rightarrow> Some (SetWithTTL (ou_ended ou) (CacheKey r) (ur_Status res) (ur_Header res) body t s)))
      | _ \<Rightarrow> cache)"

text \<open>The answer of the handler: from this program, or what the proxy wrote to the client.\<close>

datatype outcome =
    Answered http_answer
  | FromCache http_answer
  | Proxied request route_match client

definition forward :: "setting \<Rightarrow> occasion \<Rightarrow> outside \<Rightarrow> request \<Rightarrow> route_match \<Rightarrow> gateway \<Rightarrow> (outcome \<times> gateway) option" where
  "forward st oc ou r m gw =
     (let out = prepareForwardingHeaders r (getClientIP st r);
          (err, ss) = Serve (ou_health ou) (ou_upstreams ou) out (rm_RouteKey m) (map rt_URL (rm_Targets m))
                        (gw_balancer gw) (gw_proxies gw) new_client;
          gw1 = gw\<lparr>gw_balancer := ss_rr ss, gw_proxies := ss_cache ss, gw_cache := store_response st ou r (gw_cache gw)\<rparr>
      in case err of
           None \<Rightarrow> Some (Proxied out m (ss_client ss), gw1)
         | Some e \<Rightarrow>
             (let gw2 = gw1\<lparr>gw_metrics := map_option (RecordProxyError (oc_now oc) (Some (ou_error ou e))) (gw_metrics gw1)\<rparr>;
                  (status, msg) = (if ou_timeout ou then (StatusGatewayTimeout, ''Gateway Timeout'') else (StatusBadGateway, ''Bad Gateway''))
              in map_option (\<lambda>(resp, s). (Answered resp, gw2\<lparr>gw_challenges := s\<rparr>)) (writeError st oc out status msg (gw_challenges gw2))))"

definition not_found :: "setting \<Rightarrow> occasion \<Rightarrow> request \<Rightarrow> gateway \<Rightarrow> (outcome \<times> gateway) option" where
  "not_found st oc r gw =
     map_option (\<lambda>(resp, s). (Answered resp, gw\<lparr>gw_challenges := s\<rparr>)) (writeError st oc r StatusNotFound ''No route found'' (gw_challenges gw))"

definition route_request :: "setting \<Rightarrow> occasion \<Rightarrow> outside \<Rightarrow> request \<Rightarrow> gateway \<Rightarrow> (outcome \<times> gateway) option" where
  "route_request st oc ou r gw =
     (case Resolve (gw_routes gw) (resolve_host (req_Host r)) (req_Path r) of
        None \<Rightarrow> not_found st oc r gw
      | Some m \<Rightarrow>
          if rm_Targets m = [] then not_found st oc r gw
          else if isRequestCacheableForSharedStore (gw_cache gw) r then
            (case gw_cache gw of
               None \<Rightarrow> forward st oc ou r m gw
             | Some s \<Rightarrow>
                 (let (hit, s') = Store_Get (oc_now oc) (CacheKey r) s; gw1 = gw\<lparr>gw_cache := Some s'\<rparr>
                  in case hit of
                       Some ent \<Rightarrow> Some (FromCache (cached_answer st ou ent), gw1\<lparr>gw_metrics := map_option RecordCacheHit (gw_metrics gw1)\<rparr>)
                     | None \<Rightarrow> forward st oc ou r m gw1))
          else forward st oc ou r m gw)"

definition serve_request :: "setting \<Rightarrow> occasion \<Rightarrow> outside \<Rightarrow> request \<Rightarrow> gateway \<Rightarrow> (outcome \<times> gateway) option" where
  "serve_request st oc ou r gw =
     (case run_checks (checks st oc r) gw of
        None \<Rightarrow> None
      | Some (Some resp, gw1) \<Rightarrow> Some (Answered resp, gw1)
      | Some (None, gw1) \<Rightarrow> route_request st oc ou r gw1)"

text \<open>
  The status and the bytes the metrics' writer has seen. Of a proxied response it takes the
  first status it is given, an informational one too, and 200 when there is none.
\<close>

definition seen :: "outcome \<Rightarrow> int \<times> int" where
  "seen out =
     (case out of
        Answered resp \<Rightarrow> (rp_Status resp, int (length (rp_Body resp)))
      | FromCache resp \<Rightarrow> (rp_Status resp, int (length (rp_Body resp)))
      | Proxied r m c \<Rightarrow>
          ((case cl_info c of
              code # _ \<Rightarrow> code
            | [] \<Rightarrow> (case cl_sent c of Some (code, h) \<Rightarrow> code | None \<Rightarrow> StatusOK)), int (length (cl_body c))))"

text \<open>The deferred call: it comes last, whatever the handler did.\<close>

definition handle_request :: "setting \<Rightarrow> occasion \<Rightarrow> outside \<Rightarrow> request \<Rightarrow> gateway \<Rightarrow> (outcome \<times> gateway) option" where
  "handle_request st oc ou r gw0 =
     (let gw = gw0\<lparr>gw_metrics := map_option RecordRequest (gw_metrics gw0)\<rparr>
      in map_option (\<lambda>(out, gw1). (out, case seen out of (status, sent) \<Rightarrow>
             gw1\<lparr>gw_metrics := map_option (RecordResponse (oc_now oc) status sent (oc_took oc)) (gw_metrics gw1)\<rparr>))
           (serve_request st oc ou r gw))"

subsection \<open>Verifying a challenge\<close>

definition handle_verify :: "setting \<Rightarrow> occasion \<Rightarrow> request \<Rightarrow> string \<Rightarrow> gateway \<Rightarrow> (http_answer \<times> gateway) option" where
  "handle_verify st oc r body gw =
     (if req_Method r \<noteq> ''POST'' then Some (http_Error Map.empty ''Method not allowed'' StatusMethodNotAllowed, gw)
      else (let form = fst (ParseForm 10485760 r body);
                challengeID = FormValue form ''challenge_id''; answer = FormValue form ''answer'';
                ip = getClientIP st r;
                res = Check (st_compare st) (oc_now oc) r (gw_db gw);
                binding = (if cf_AuthEnabled (st_config st) \<and> ar_Authenticated res then zeroTrustChallengeBinding ip (Some res) else ip)
            in Option.bind (Verify (oc_now oc) challengeID answer binding (gw_challenges gw)) (\<lambda>(v1, s1).
               Option.bind (if \<not> v1 \<and> binding \<noteq> ip then Verify (oc_now oc) challengeID answer ip s1 else Some (v1, s1)) (\<lambda>(v2, s2).
                 let gw1 = gw\<lparr>gw_challenges := s2\<rparr>
                 in Some (if v2 then http_Redirect Map.empty r (safeLocalRedirect (hdr_get (req_Header r) ''Referer'') (req_Host r))
                          else http_Error Map.empty ''Verification failed. Please try again.'' StatusForbidden, gw1)))))"

text \<open>Which handler the multiplexer takes for a path: exact patterns before the start page.\<close>

datatype handler = VerifyHandler | LoginHandler | MetricsJSON | MetricsText | ProxyHandler

definition handler_for :: "setting \<Rightarrow> string \<Rightarrow> handler" where
  "handler_for st path =
     (let mp = fst (metricsEndpointPath (cf_MetricsPath (st_config st)))
      in if path = ''/__netgoat/verify'' then VerifyHandler
         else if path = ''/login'' then LoginHandler
         else if cf_MetricsEnabled (st_config st) \<and> path = mp then MetricsJSON
         else if cf_MetricsEnabled (st_config st) \<and> path = mp @ ''.prom'' then MetricsText
         else ProxyHandler)"

subsection \<open>What the checks do\<close>

lemma run_checks_pass:
  "run_checks (c # cs) gw = Some (None, gw') \<longleftrightarrow> (\<exists>gw1. c gw = Some (None, gw1) \<and> run_checks cs gw1 = Some (None, gw'))"
  by (auto split: option.splits)

text \<open>The parts of the state that only the last steps change.\<close>

definition kept :: "gateway \<Rightarrow> gateway \<Rightarrow> bool" where
  "kept gw gw' = (gw_db gw' = gw_db gw \<and> gw_rules gw' = gw_rules gw \<and> gw_routes gw' = gw_routes gw \<and> gw_cache gw' = gw_cache gw \<and>
     gw_balancer gw' = gw_balancer gw \<and> gw_proxies gw' = gw_proxies gw)"

lemma kept_refl [simp]: "kept gw gw"
  by (simp add: kept_def)

lemma kept_trans: "kept a b \<Longrightarrow> kept b c \<Longrightarrow> kept a c"
  by (simp add: kept_def)

lemma refuse_kept: "refuse st oc r status msg gw = Some (x, gw') \<Longrightarrow> kept gw gw' \<and> x \<noteq> None"
  by (auto simp: refuse_def kept_def)

lemma recordBlocked_kept [simp]: "kept gw (recordBlocked reason gw)"
  by (simp add: recordBlocked_def kept_def)

lemma refuse_blocked_kept:
  assumes "refuse st oc r status msg (recordBlocked reason gw1) = Some (x, gw')" "kept gw gw1"
  shows "kept gw gw' \<and> x \<noteq> None"
  using refuse_kept [OF assms(1)] kept_trans [OF kept_trans [OF assms(2) recordBlocked_kept]] by blast

lemma check_auth_spec:
  assumes "check_auth st oc r gw = Some (x, gw')"
  defines "res \<equiv> Check (st_compare st) (oc_now oc) r (gw_db gw)"
  shows "kept gw gw' \<and> (x = None \<longrightarrow> gw_limiter gw' = gw_limiter gw \<and> gw_kodaWaf gw' = gw_kodaWaf gw \<and>
      gw_anomaly gw' = gw_anomaly gw \<and> gw_koda2 gw' = gw_koda2 gw \<and>
    (cf_AuthEnabled (st_config st) \<longrightarrow> ar_Authenticated res \<and>
      (IsZeroTrustEnabled (gw_db gw) \<and> ar_ZeroTrustReq res \<longrightarrow>
        (\<exists>s. IsVerified (oc_now oc) (zeroTrustChallengeBinding (getClientIP st r) (Some res)) (gw_challenges gw) = Some (True, s)))))"
proof (cases "cf_AuthEnabled (st_config st) \<and> ar_Authenticated res")
  case True
  let ?b = "zeroTrustChallengeBinding (getClientIP st r) (Some res)"
  have run: "Option.bind (IsVerified (oc_now oc) ?b (gw_challenges gw)) (\<lambda>(verified, s).
      let gw1 = gw\<lparr>gw_challenges := s\<rparr>
      in if RequireZeroTrustChallenge (Some res) (IsZeroTrustEnabled (gw_db gw)) verified then
           (let gw2 = recordBlocked ''zero-trust'' gw1
            in map_option (\<lambda>(resp, s'). (Some resp, gw2\<lparr>gw_challenges := s'\<rparr>)) (writeZeroTrustChallenge st oc r ?b (gw_challenges gw2)))
         else proceed gw1) = Some (x, gw')"
    using assms(1) True unfolding check_auth_def Let_def res_def by simp
  then obtain verified s where v: "IsVerified (oc_now oc) ?b (gw_challenges gw) = Some (verified, s)"
    by (auto simp: bind_eq_Some_conv)
  show ?thesis
  proof (cases "RequireZeroTrustChallenge (Some res) (IsZeroTrustEnabled (gw_db gw)) verified")
    case c: True
    then have "kept gw gw'" "x \<noteq> None" using run v by (auto simp: Let_def recordBlocked_def kept_def)
    then show ?thesis by auto
  next
    case False
    then have "x = None" "gw' = gw\<lparr>gw_challenges := s\<rparr>" using run v by (auto simp: proceed_def)
    then show ?thesis using False v True by (auto simp: RequireZeroTrustChallenge_def kept_def)
  qed
next
  case False
  then show ?thesis using assms(1) refuse_kept
    by (auto simp: check_auth_def res_def [symmetric] proceed_def Let_def split: if_splits)
qed

lemma check_honeypot_spec:
  assumes "check_honeypot st r gw = Some (x, gw')"
  shows "gw' = gw \<and> (x = None \<longrightarrow> \<not> (cf_Honeypot (st_config st) \<and> honeypot_Check r \<noteq> None))"
  using assms by (auto simp: check_honeypot_def proceed_def split: if_splits option.splits)

lemma check_rate_spec:
  assumes "check_rate st oc r gw = Some (x, gw')"
  shows "kept gw gw' \<and> (x = None \<longrightarrow> (\<forall>l. gw_limiter gw = Some l \<longrightarrow>
    fst (allowAt (oc_now oc) (rateLimitKey (st_trusted st) r (cf_RateKey (st_config st))) l)))"
proof (cases "gw_limiter gw")
  case None
  with assms show ?thesis by (simp add: check_rate_def proceed_def)
next
  case (Some l)
  obtain granted l' where a: "allowAt (oc_now oc) (rateLimitKey (st_trusted st) r (cf_RateKey (st_config st))) l = (granted, l')" by fastforce
  have k: "kept gw (gw\<lparr>gw_limiter := Some l'\<rparr>)" by (simp add: kept_def)
  show ?thesis
  proof (cases granted)
    case True
    with assms Some a k show ?thesis by (simp add: check_rate_def proceed_def Let_def)
  next
    case False
    with assms Some a have "refuse st oc r StatusTooManyRequests ''Too Many Requests'' (recordBlocked ''rate-limit'' (gw\<lparr>gw_limiter := Some l'\<rparr>)) = Some (x, gw')"
      by (simp add: check_rate_def Let_def)
    from refuse_blocked_kept [OF this k] show ?thesis by auto
  qed
qed

lemma check_queue_spec:
  assumes "check_queue st oc r gw = Some (x, gw')"
  shows "kept gw gw' \<and> (x = None \<longrightarrow> \<not> (cf_QueueEnabled (st_config st) \<and> oc_queue oc \<noteq> None))"
  using assms refuse_blocked_kept [OF _ kept_refl]
  by (auto simp: check_queue_def proceed_def split: if_splits option.splits)

lemma check_models_kept:
  "check_kodaWaf st oc r gw = Some (x, gw') \<Longrightarrow> kept gw gw'"
  "check_anomaly st oc r gw = Some (x, gw') \<Longrightarrow> kept gw gw'"
  "check_koda2 st oc r gw = Some (x, gw') \<Longrightarrow> kept gw gw'"
proof -
  have k: "kept gw (gw\<lparr>gw_kodaWaf := a\<rparr>)" "kept gw (gw\<lparr>gw_anomaly := a\<rparr>)" "kept gw (gw\<lparr>gw_koda2 := a\<rparr>)" for a
    by (simp_all add: kept_def)
  show "check_kodaWaf st oc r gw = Some (x, gw') \<Longrightarrow> kept gw gw'"
    using refuse_blocked_kept k(1) by (auto simp: check_kodaWaf_def proceed_def Let_def split: option.splits prod.splits sum.splits if_splits)
  show "check_anomaly st oc r gw = Some (x, gw') \<Longrightarrow> kept gw gw'"
    using refuse_blocked_kept k(2) by (auto simp: check_anomaly_def proceed_def Let_def split: option.splits prod.splits sum.splits if_splits)
  show "check_koda2 st oc r gw = Some (x, gw') \<Longrightarrow> kept gw gw'"
    using refuse_blocked_kept k(3) by (auto simp: check_koda2_def proceed_def Let_def split: option.splits prod.splits sum.splits if_splits)
qed

lemma check_waf_spec:
  assumes "check_waf st oc r gw = Some (x, gw')"
  shows "kept gw gw' \<and> (x = None \<longrightarrow> \<not> fst (Waf_Check (gw_rules gw) r))"
  using assms refuse_blocked_kept [OF _ kept_refl]
  by (auto simp: check_waf_def proceed_def Let_def split: prod.splits if_splits)

text \<open>What holds when all checks let a request go on.\<close>

definition admitted :: "setting \<Rightarrow> occasion \<Rightarrow> request \<Rightarrow> gateway \<Rightarrow> bool" where
  "admitted st oc r gw =
     ((cf_AuthEnabled (st_config st) \<longrightarrow>
        (let res = Check (st_compare st) (oc_now oc) r (gw_db gw)
         in ar_Authenticated res \<and>
            (IsZeroTrustEnabled (gw_db gw) \<and> ar_ZeroTrustReq res \<longrightarrow>
              (\<exists>s. IsVerified (oc_now oc) (zeroTrustChallengeBinding (getClientIP st r) (Some res)) (gw_challenges gw) = Some (True, s))))) \<and>
      (cf_Honeypot (st_config st) \<longrightarrow> honeypot_Check r = None) \<and>
      (\<forall>l. gw_limiter gw = Some l \<longrightarrow> fst (allowAt (oc_now oc) (rateLimitKey (st_trusted st) r (cf_RateKey (st_config st))) l)) \<and>
      (cf_QueueEnabled (st_config st) \<longrightarrow> oc_queue oc = None) \<and>
      \<not> fst (Waf_Check (gw_rules gw) r))"

lemma checks_pass:
  assumes "run_checks (checks st oc r) gw = Some (None, gw')"
  shows "admitted st oc r gw \<and> kept gw gw'"
proof -
  obtain g1 g2 g3 g4 g5 g6 g7 where
    c: "check_auth st oc r gw = Some (None, g1)" "check_honeypot st r g1 = Some (None, g2)" "check_rate st oc r g2 = Some (None, g3)"
      "check_queue st oc r g3 = Some (None, g4)" "check_kodaWaf st oc r g4 = Some (None, g5)" "check_anomaly st oc r g5 = Some (None, g6)"
      "check_koda2 st oc r g6 = Some (None, g7)" "check_waf st oc r g7 = Some (None, gw')"
    using assms unfolding checks_def run_checks_pass run_checks.simps(1) proceed_def by auto
  note a = check_auth_spec [OF c(1)] and h = check_honeypot_spec [OF c(2)] and rt = check_rate_spec [OF c(3)]
    and q = check_queue_spec [OF c(4)] and m = check_models_kept(1) [OF c(5)] check_models_kept(2) [OF c(6)] check_models_kept(3) [OF c(7)]
    and w = check_waf_spec [OF c(8)]
  have k7: "kept gw g7"
    using a h rt q m by (metis kept_trans)
  then have "kept gw gw'" using w kept_trans by blast
  moreover have "gw_rules g7 = gw_rules gw" using k7 by (simp add: kept_def)
  moreover have "gw_limiter g2 = gw_limiter gw" using a h by simp
  ultimately show ?thesis using a h rt q w by (auto simp: admitted_def Let_def)
qed

lemma refused_kept:
  assumes "run_checks cs gw = Some (Some resp, gw')"
    and "\<And>c g x g'. c \<in> set cs \<Longrightarrow> c g = Some (x, g') \<Longrightarrow> kept g g'"
  shows "kept gw gw'"
  using assms
proof (induction cs arbitrary: gw)
  case (Cons c cs)
  from Cons.prems(1) obtain x g1 where 1: "c gw = Some (x, g1)" by (auto split: option.splits)
  have k: "kept gw g1" using Cons.prems(2) [OF list.set_intros(1) 1] .
  show ?case
  proof (cases x)
    case None
    then have "run_checks cs g1 = Some (Some resp, gw')" using Cons.prems(1) 1 by simp
    then have "kept g1 gw'" by (rule Cons.IH) (rule Cons.prems(2) [OF list.set_intros(2)])
    with k show ?thesis by (rule kept_trans)
  next
    case (Some y)
    with Cons.prems(1) 1 k show ?thesis by simp
  qed
next
  case Nil
  from Nil.prems(1) show ?case by (simp add: proceed_def)
qed

lemma checks_kept:
  assumes "c \<in> set (checks st oc r)" "c g = Some (x, g')"
  shows "kept g g'"
proof -
  have "kept g g'" if "check_auth st oc r g = Some (x, g')" using check_auth_spec [OF that] by blast
  moreover have "kept g g'" if "check_honeypot st r g = Some (x, g')" using check_honeypot_spec [OF that] kept_refl by metis
  moreover have "kept g g'" if "check_rate st oc r g = Some (x, g')" using check_rate_spec [OF that] by blast
  moreover have "kept g g'" if "check_queue st oc r g = Some (x, g')" using check_queue_spec [OF that] by blast
  moreover have "kept g g'" if "check_waf st oc r g = Some (x, g')" using check_waf_spec [OF that] by blast
  moreover have "c = check_auth st oc r \<or> c = check_honeypot st r \<or> c = check_rate st oc r \<or> c = check_queue st oc r \<or>
      c = check_kodaWaf st oc r \<or> c = check_anomaly st oc r \<or> c = check_koda2 st oc r \<or> c = check_waf st oc r"
    using assms(1) by (simp add: checks_def)
  ultimately show ?thesis using assms(2) check_models_kept [of st oc r g x g'] by metis
qed

lemma forward_proxied:
  assumes "forward st oc ou r m gw = Some (Proxied out m' c, gw')"
  shows "m' = m \<and> out = prepareForwardingHeaders r (getClientIP st r) \<and>
    c = ss_client (snd (Serve (ou_health ou) (ou_upstreams ou) out (rm_RouteKey m) (map rt_URL (rm_Targets m))
      (gw_balancer gw) (gw_proxies gw) new_client))"
  using assms by (auto simp: forward_def Let_def split: prod.splits option.splits if_splits)

lemma forward_not_cached: "forward st oc ou r m gw \<noteq> Some (FromCache a, gw')"
  by (auto simp: forward_def Let_def split: prod.splits option.splits if_splits)

lemma route_request_spec:
  assumes "route_request st oc ou r gw = Some (outcome, gw')" "\<forall>resp. outcome \<noteq> Answered resp"
  obtains m where "Resolve (gw_routes gw) (resolve_host (req_Host r)) (req_Path r) = Some m" "rm_Targets m \<noteq> []"
    "\<And>out m' c. outcome = Proxied out m' c \<Longrightarrow> m' = m \<and> out = prepareForwardingHeaders r (getClientIP st r) \<and>
       c = ss_client (snd (Serve (ou_health ou) (ou_upstreams ou) out (rm_RouteKey m) (map rt_URL (rm_Targets m))
         (gw_balancer gw) (gw_proxies gw) new_client))"
    "\<And>a. outcome = FromCache a \<Longrightarrow> (\<exists>s ent. gw_cache gw = Some s \<and> isRequestCacheableForSharedStore (Some s) r \<and>
       fst (Store_Get (oc_now oc) (CacheKey r) s) = Some ent \<and> a = cached_answer st ou ent)"
proof -
  have nf: "not_found st oc r g \<noteq> Some (outcome, gw')" for g using assms(2) by (auto simp: not_found_def)
  obtain m where m: "Resolve (gw_routes gw) (resolve_host (req_Host r)) (req_Path r) = Some m" "rm_Targets m \<noteq> []"
    using assms(1) nf by (auto simp: route_request_def split: option.splits if_splits)
  have cases: "(\<exists>g. forward st oc ou r m g = Some (outcome, gw') \<and> gw_balancer g = gw_balancer gw \<and> gw_proxies g = gw_proxies gw) \<or>
      (\<exists>s ent. gw_cache gw = Some s \<and> isRequestCacheableForSharedStore (Some s) r \<and>
        fst (Store_Get (oc_now oc) (CacheKey r) s) = Some ent \<and> outcome = FromCache (cached_answer st ou ent))"
  proof (cases "isRequestCacheableForSharedStore (gw_cache gw) r \<and> gw_cache gw \<noteq> None")
    case True
    then obtain s where s: "gw_cache gw = Some s" by auto
    obtain hit s' where h: "Store_Get (oc_now oc) (CacheKey r) s = (hit, s')" by fastforce
    show ?thesis
      using assms(1) m True s h by (cases hit) (auto simp: route_request_def Let_def)
  next
    case False
    then have "forward st oc ou r m gw = Some (outcome, gw')"
      using assms(1) m by (auto simp: route_request_def split: option.splits if_splits)
    then show ?thesis by blast
  qed
  show ?thesis
  proof (rule that [OF m])
    show "m' = m \<and> out = prepareForwardingHeaders r (getClientIP st r) \<and>
       c = ss_client (snd (Serve (ou_health ou) (ou_upstreams ou) out (rm_RouteKey m) (map rt_URL (rm_Targets m))
         (gw_balancer gw) (gw_proxies gw) new_client))" if "outcome = Proxied out m' c" for out m' c
    proof -
      obtain g where g: "forward st oc ou r m g = Some (outcome, gw')" "gw_balancer g = gw_balancer gw" "gw_proxies g = gw_proxies gw"
        using cases \<open>outcome = Proxied out m' c\<close> by auto
      show ?thesis using forward_proxied [OF g(1) [unfolded \<open>outcome = Proxied out m' c\<close>]] g(2,3) by simp
    qed
    show "\<exists>s ent. gw_cache gw = Some s \<and> isRequestCacheableForSharedStore (Some s) r \<and>
       fst (Store_Get (oc_now oc) (CacheKey r) s) = Some ent \<and> a = cached_answer st ou ent" if "outcome = FromCache a" for a
      using cases that forward_not_cached by auto
  qed
qed

lemma handle_request_cases:
  assumes "handle_request st oc ou r gw = Some (outcome, gw')" "\<forall>resp. outcome \<noteq> Answered resp"
  obtains gw1 gw2 where "admitted st oc r gw" "kept gw gw1" "route_request st oc ou r gw1 = Some (outcome, gw2)"
proof -
  let ?gw = "gw\<lparr>gw_metrics := map_option RecordRequest (gw_metrics gw)\<rparr>"
  obtain gw2 where "serve_request st oc ou r ?gw = Some (outcome, gw2)"
    using assms(1) by (auto simp: handle_request_def Let_def case_prod_unfold)
  then obtain gw1 where run: "run_checks (checks st oc r) ?gw = Some (None, gw1)" and rt: "route_request st oc ou r gw1 = Some (outcome, gw2)"
    using assms(2) by (auto simp: serve_request_def split: option.splits prod.splits)
  from checks_pass [OF run] have "admitted st oc r ?gw" "kept ?gw gw1" by blast+
  then show ?thesis using that rt by (simp add: admitted_def kept_def)
qed

text \<open>A small gateway for the concrete runs: one route for a wildcard, and one healthy target.\<close>

definition demo_setting :: "config \<Rightarrow> setting" where
  "demo_setting cf = \<lparr>st_config = cf, st_trusted = None, st_pages = buildErrorPageStore (\<lambda>_. None) cf, st_page_text = (\<lambda>_. ''page''),
     st_compare = (=), st_process = (\<lambda>_. []), st_decode = (\<lambda>_. None)\<rparr>"

definition demo_env :: request_env where
  "demo_env = \<lparr>re_acquired = True, re_parent_done = False, re_starts = False,
     re_first = \<lparr>at_writes = False, at_deadline = InTime, at_starts = False\<rparr>,
     re_second = \<lparr>at_writes = False, at_deadline = InTime, at_starts = False\<rparr>\<rparr>"

definition demo_occasion :: occasion where
  "demo_occasion = \<lparr>oc_now = 0, oc_random = \<lparr>rnd_ids = [''c1''], rnd_answer = (CHR ''a'', CHR ''b'', CHR ''c'')\<rparr>,
     oc_queue = None, oc_kodaWaf = demo_env, oc_anomaly = demo_env, oc_koda2 = demo_env, oc_took = 0\<rparr>"

definition demo_outside :: outside where
  "demo_outside = \<lparr>ou_health = (\<lambda>_. NewWorker 0 0 []), ou_upstreams = (\<lambda>_ _. ([CHeader Map.empty, CStatus 200, CWrite ''ok''], None)),
     ou_response = None, ou_ended = 0, ou_timeout = False, ou_error = (\<lambda>_. []), ou_overlay = None\<rparr>"

definition demo_gateway :: "routeSnapshot \<Rightarrow> gateway" where
  "demo_gateway routes = \<lparr>gw_db = empty_db, gw_challenges = Challenge_NewStore, gw_limiter = None, gw_kodaWaf = None, gw_anomaly = None,
     gw_koda2 = None, gw_rules = [], gw_routes = routes, gw_cache = None, gw_metrics = None, gw_balancer = New_balancer, gw_proxies = []\<rparr>"

definition demo_routes :: routeSnapshot where
  "demo_routes = (case loadRouteSnapshot (\<lambda>_. None) one_pattern of Inl e \<Rightarrow> newRouteSnapshot | Inr s \<Rightarrow> s)"

definition demo_request :: "string \<Rightarrow> request" where
  "demo_request path = (plain_request ''GET'' Map.empty [])\<lparr>req_Host := ''a.example.com'', req_Path := path, req_RemoteAddr := ''10.0.0.1:5''\<rparr>"


lemma demo_run:
  obtains m c gw' where "handle_request (demo_setting empty_config) demo_occasion demo_outside (demo_request ''/x'') (demo_gateway demo_routes)
      = Some (Proxied (prepareForwardingHeaders (demo_request ''/x'') ''10.0.0.1'') m c, gw')" "cl_body c = ''ok''"
proof -
  let ?h = "handle_request (demo_setting empty_config) demo_occasion demo_outside (demo_request ''/x'') (demo_gateway demo_routes)"
  have "case ?h of Some (Proxied out m c, g) \<Rightarrow> cl_body c = ''ok'' | _ \<Rightarrow> False" by code_simp
  then obtain out m c g where h: "?h = Some (Proxied out m c, g)" "cl_body c = ''ok''"
    by (auto split: option.splits prod.splits outcome.splits)
  obtain gw1 gw2 where rt: "route_request (demo_setting empty_config) demo_occasion demo_outside (demo_request ''/x'') gw1 = Some (Proxied out m c, gw2)"
    by (rule handle_request_cases [OF h(1)]) auto
  have ip: "getClientIP (demo_setting empty_config) (demo_request ''/x'') = ''10.0.0.1''" by code_simp
  have "out = prepareForwardingHeaders (demo_request ''/x'') ''10.0.0.1''"
    by (rule route_request_spec [OF rt]) (auto simp: ip)
  with h show ?thesis using that by simp
qed


text \<open>
  A refused request reaches nothing: when a check refuses a request, the handler gives its
  answer, and no target is chosen or contacted, and the cache, the tables, the routes and the
  rules stay as they are.
\<close>

theorem refused_reaches_nothing:
  assumes "run_checks (checks st oc r) (gw\<lparr>gw_metrics := map_option RecordRequest (gw_metrics gw)\<rparr>) = Some (Some resp, gw1)"
  shows "\<exists>gw'. handle_request st oc ou r gw = Some (Answered resp, gw') \<and> gw_balancer gw' = gw_balancer gw \<and>
    gw_proxies gw' = gw_proxies gw \<and> gw_cache gw' = gw_cache gw \<and> gw_db gw' = gw_db gw \<and> gw_routes gw' = gw_routes gw \<and>
    gw_rules gw' = gw_rules gw"
proof -
  have "kept (gw\<lparr>gw_metrics := map_option RecordRequest (gw_metrics gw)\<rparr>) gw1"
    by (rule refused_kept [OF assms checks_kept])
  with assms show ?thesis by (simp add: handle_request_def serve_request_def seen_def kept_def Let_def)
qed

theorem refused_reaches_nothing_witness:
  "let cf = empty_config\<lparr>cf_Honeypot := True\<rparr>; gw = demo_gateway demo_routes
   in \<exists>resp gw'. handle_request (demo_setting cf) demo_occasion demo_outside (demo_request ''/.env'') gw = Some (Answered resp, gw') \<and>
        gw_proxies gw' = gw_proxies gw"
proof -
  let ?cf = "empty_config\<lparr>cf_Honeypot := True\<rparr>" and ?gw = "demo_gateway demo_routes"
  let ?start = "?gw\<lparr>gw_metrics := map_option RecordRequest (gw_metrics ?gw)\<rparr>"
  have "case run_checks (checks (demo_setting ?cf) demo_occasion (demo_request ''/.env'')) ?start of
      Some (Some resp, gw') \<Rightarrow> True | _ \<Rightarrow> False" by code_simp
  then obtain resp gw' where "run_checks (checks (demo_setting ?cf) demo_occasion (demo_request ''/.env'')) ?start = Some (Some resp, gw')"
    by (auto split: option.splits prod.splits)
  from refused_reaches_nothing [OF this, of demo_outside] show ?thesis unfolding Let_def by blast
qed

end
