(* ===== verification/GoJson.thy ===== *)
theory GoJson
  imports GoStrings GoMap "HOL-Library.List_Lexorder" "HOL-Library.Multiset"
begin

text \<open>
  \<^verbatim>\<open>encoding/json\<close> on the shapes the program stores and receives, between values and
  trees: what \<^verbatim>\<open>Marshal\<close> writes for a struct, a slice and a map, and what
  \<^verbatim>\<open>Unmarshal\<close> reads into one. A tree stands for its text, which the library prints
  without loss; a number with a fraction is the value its float64 has. Decoding is a change of
  the value that is there: a member that is missing leaves its field as it is.
\<close>

datatype json =
    JNull
  | JBool bool
  | JInt int
  | JNum rat
  | JStr string
  | JArr "json list"
  | JObj "(string \<times> json) list"

type_synonym 'a decoder = "json \<Rightarrow> 'a \<Rightarrow> 'a option"

subsection \<open>Scalars\<close>

definition dec_bool :: "bool decoder" where
  "dec_bool j x = (case j of JNull \<Rightarrow> Some x | JBool b \<Rightarrow> Some b | _ \<Rightarrow> None)"

definition dec_string :: "string decoder" where
  "dec_string j x = (case j of JNull \<Rightarrow> Some x | JStr s \<Rightarrow> Some s | _ \<Rightarrow> None)"

definition is_int64 :: "int \<Rightarrow> bool" where
  "is_int64 n = (- (2 ^ 63) \<le> n \<and> n < 2 ^ 63)"

definition dec_int :: "int decoder" where
  "dec_int j x = (case j of JNull \<Rightarrow> Some x | JInt n \<Rightarrow> if is_int64 n then Some n else None | _ \<Rightarrow> None)"

definition dec_float :: "rat decoder" where
  "dec_float j x = (case j of JNull \<Rightarrow> Some x | JInt n \<Rightarrow> Some (of_int n) | JNum r \<Rightarrow> Some r | _ \<Rightarrow> None)"

definition dec_bool_ptr :: "bool option decoder" where
  "dec_bool_ptr j x = (case j of JNull \<Rightarrow> Some None | JBool b \<Rightarrow> Some (Some b) | _ \<Rightarrow> None)"

text \<open>A field of type \<^verbatim>\<open>any\<close> takes the tree as it is.\<close>

definition dec_any :: "json decoder" where
  "dec_any j x = Some j"

subsection \<open>Slices, maps and structs\<close>

fun dec_all :: "'a decoder \<Rightarrow> 'a \<Rightarrow> json list \<Rightarrow> 'a list option" where
  "dec_all d zero [] = Some []"
| "dec_all d zero (j # js) =
     (case d j zero of None \<Rightarrow> None | Some x \<Rightarrow> map_option (Cons x) (dec_all d zero js))"

definition dec_list :: "'a decoder \<Rightarrow> 'a \<Rightarrow> 'a list decoder" where
  "dec_list d zero j x = (case j of JNull \<Rightarrow> Some [] | JArr js \<Rightarrow> dec_all d zero js | _ \<Rightarrow> None)"

text \<open>A slice that tells a missing or null value from an empty one.\<close>

definition dec_slice :: "'a decoder \<Rightarrow> 'a \<Rightarrow> 'a list option decoder" where
  "dec_slice d zero j x = (case j of JNull \<Rightarrow> Some None | JArr js \<Rightarrow> map_option Some (dec_all d zero js) | _ \<Rightarrow> None)"

fun dec_entries :: "'a decoder \<Rightarrow> 'a \<Rightarrow> (string \<times> json) list \<Rightarrow> (string, 'a) gomap \<Rightarrow> (string, 'a) gomap option" where
  "dec_entries d zero [] m = Some m"
| "dec_entries d zero ((k, j) # kjs) m =
     (case d j zero of None \<Rightarrow> None | Some x \<Rightarrow> dec_entries d zero kjs (AList.update k x m))"

definition dec_map :: "'a decoder \<Rightarrow> 'a \<Rightarrow> (string, 'a) gomap decoder" where
  "dec_map d zero j m = (case j of JNull \<Rightarrow> Some [] | JObj kjs \<Rightarrow> dec_entries d zero kjs m | _ \<Rightarrow> None)"

text \<open>A field: how a decoder of its type changes the struct.\<close>

type_synonym 'a field = "string \<times> 'a decoder"

definition into :: "'b decoder \<Rightarrow> ('a \<Rightarrow> 'b) \<Rightarrow> ('b \<Rightarrow> 'a \<Rightarrow> 'a) \<Rightarrow> 'a decoder" where
  "into d get put j x = map_option (\<lambda>y. put y x) (d j (get x))"

text \<open>The field of a name: the one spelt so, else the first that differs in case only.\<close>

definition field_named :: "'a field list \<Rightarrow> string \<Rightarrow> 'a decoder option" where
  "field_named fs k =
     (case map_of fs k of Some d \<Rightarrow> Some d | None \<Rightarrow> map_option snd (find (\<lambda>(k', _). EqualFold k' k) fs))"

fun dec_members :: "'a field list \<Rightarrow> (string \<times> json) list \<Rightarrow> 'a \<Rightarrow> 'a option" where
  "dec_members fs [] x = Some x"
| "dec_members fs ((k, j) # kjs) x =
     (case field_named fs k of
        None \<Rightarrow> dec_members fs kjs x
      | Some d \<Rightarrow> (case d j x of None \<Rightarrow> None | Some x' \<Rightarrow> dec_members fs kjs x'))"

definition dec_struct :: "'a field list \<Rightarrow> 'a decoder" where
  "dec_struct fs j x = (case j of JNull \<Rightarrow> Some x | JObj kjs \<Rightarrow> dec_members fs kjs x | _ \<Rightarrow> None)"

subsection \<open>Encoding\<close>

definition sorted_map :: "(string, 'a) gomap \<Rightarrow> (string, 'a) gomap" where
  "sorted_map m = sort_key (\<lambda>(k, _). map (of_char :: char \<Rightarrow> nat) k) m"

text \<open>The keys of a map are written in their order.\<close>

definition enc_map :: "('a \<Rightarrow> json) \<Rightarrow> (string, 'a) gomap \<Rightarrow> json" where
  "enc_map e m = JObj (map (\<lambda>(k, x). (k, e x)) (sorted_map m))"

definition enc_list :: "('a \<Rightarrow> json) \<Rightarrow> 'a list \<Rightarrow> json" where
  "enc_list e xs = JArr (map e xs)"

definition omitempty :: "bool \<Rightarrow> string \<Rightarrow> json \<Rightarrow> (string \<times> json) list" where
  "omitempty none k j = (if none then [] else [(k, j)])"

subsection \<open>Decoding what was encoded\<close>

lemma field_named_simps [simp]:
  "field_named ((k', d) # fs) k =
     (if k' = k then Some d
      else (case map_of fs k of Some d' \<Rightarrow> Some d'
            | None \<Rightarrow> if EqualFold k' k then Some d else map_option snd (find (\<lambda>(k', _). EqualFold k' k) fs)))"
  by (simp add: field_named_def split: option.splits)

lemma dec_members_append:
  "dec_members fs (xs @ ys) x = Option.bind (dec_members fs xs x) (dec_members fs ys)"
  by (induction xs arbitrary: x) (auto split: option.splits)

lemma dec_all_map: "(\<And>x. x \<in> set xs \<Longrightarrow> d (e x) zero = Some (f x)) \<Longrightarrow> dec_all d zero (map e xs) = Some (map f xs)"
  by (induction xs) simp_all

lemma dec_list_enc:
  "(\<And>x. x \<in> set xs \<Longrightarrow> d (e x) zero = Some (f x)) \<Longrightarrow> dec_list d zero (enc_list e xs) ys = Some (map f xs)"
  by (simp add: dec_list_def enc_list_def dec_all_map)

lemma update_fresh: "k \<notin> fst ` set m \<Longrightarrow> AList.update k v m = m @ [(k, v)]"
  by (induction m) auto

lemma dec_entries_map:
  assumes "\<And>k x. (k, x) \<in> set kvs \<Longrightarrow> d (e x) zero = Some (f x)"
    and "distinct (map fst kvs)" "fst ` set m \<inter> fst ` set kvs = {}"
  shows "dec_entries d zero (map (\<lambda>(k, x). (k, e x)) kvs) m = Some (m @ map (\<lambda>(k, x). (k, f x)) kvs)"
  using assms
proof (induction kvs arbitrary: m)
  case (Cons kv kvs)
  obtain k x where kv: "kv = (k, x)" by (cases kv)
  have "k \<notin> fst ` set m" using Cons.prems(3) kv by force
  then have u: "AList.update k (f x) m = m @ [(k, f x)]" by (rule update_fresh)
  have "dec_entries d zero (map (\<lambda>(k, x). (k, e x)) kvs) (m @ [(k, f x)]) =
      Some ((m @ [(k, f x)]) @ map (\<lambda>(k, x). (k, f x)) kvs)"
  proof (rule Cons.IH)
    show "d (e y) zero = Some (f y)" if "(j, y) \<in> set kvs" for j y
      by (rule Cons.prems(1) [of j]) (simp add: that)
    show "distinct (map fst kvs)" using Cons.prems(2) by simp
    show "fst ` set (m @ [(k, f x)]) \<inter> fst ` set kvs = {}" using Cons.prems(2,3) kv by force
  qed
  with Cons.prems(1) [of k x] kv u show ?case by simp
qed simp

lemma sorted_map_set [simp]: "set (sorted_map m) = set m"
  by (simp add: sorted_map_def)

lemma sorted_map_ok: "map_ok m \<Longrightarrow> map_ok (sorted_map m)"
proof -
  assume "map_ok m"
  then have "distinct (map fst m)" by (simp add: map_ok_def)
  moreover have "mset (sorted_map m) = mset m" by (simp add: sorted_map_def)
  then have "mset (map fst (sorted_map m)) = mset (map fst m)" by (metis mset_map)
  ultimately show ?thesis unfolding map_ok_def by (metis mset_eq_imp_distinct_iff)
qed

lemma map_of_sorted: "map_ok m \<Longrightarrow> map_of (sorted_map m) = map_of m"
  using sorted_map_ok by (metis map_ok_def map_of_inject_set sorted_map_set)

lemma dec_map_enc:
  assumes "\<And>k x. (k, x) \<in> set m \<Longrightarrow> d (e x) zero = Some (f x)" "map_ok m"
  shows "dec_map d zero (enc_map e m) [] = Some (map (\<lambda>(k, x). (k, f x)) (sorted_map m))"
proof -
  have "dec_entries d zero (map (\<lambda>(k, x). (k, e x)) (sorted_map m)) [] = Some ([] @ map (\<lambda>(k, x). (k, f x)) (sorted_map m))"
    using assms sorted_map_ok [OF assms(2)] by (intro dec_entries_map) (auto simp: map_ok_def)
  then show ?thesis by (simp add: dec_map_def enc_map_def)
qed

subsection \<open>What decoding keeps\<close>

text \<open>A property of a struct that every field's decoder keeps holds of what is decoded.\<close>

definition decodes_to :: "('a \<Rightarrow> bool) \<Rightarrow> 'a decoder \<Rightarrow> bool" where
  "decodes_to P d = (\<forall>j x y. P x \<longrightarrow> d j x = Some y \<longrightarrow> P y)"

lemma field_named_mem: "field_named fs k = Some d \<Longrightarrow> d \<in> snd ` set fs"
proof -
  assume a: "field_named fs k = Some d"
  show ?thesis
  proof (cases "map_of fs k")
    case None
    with a obtain p where "find (\<lambda>(k', _). EqualFold k' k) fs = Some p" "snd p = d" by (auto simp: field_named_def)
    from this(1) obtain i where "i < length fs" "p = fs ! i" by (auto simp: find_Some_iff)
    then have "p \<in> set fs" by simp
    with \<open>snd p = d\<close> show ?thesis by blast
  next
    case (Some d')
    with a have "(k, d) \<in> set fs" by (simp add: field_named_def map_of_SomeD)
    then show ?thesis by force
  qed
qed

lemma dec_members_keeps:
  assumes "\<forall>d \<in> snd ` set fs. decodes_to P d"
  shows "P x \<Longrightarrow> dec_members fs kjs x = Some y \<Longrightarrow> P y"
proof (induction kjs arbitrary: x)
  case (Cons kj kjs)
  obtain k j where kj: "kj = (k, j)" by (cases kj)
  show ?case
  proof (cases "field_named fs k")
    case None
    with Cons.prems kj show ?thesis by (intro Cons.IH [of x]) simp_all
  next
    case (Some d)
    with Cons.prems kj obtain x' where x': "d j x = Some x'" "dec_members fs kjs x' = Some y" by (auto split: option.splits)
    have "P x'" using assms field_named_mem [OF Some] Cons.prems(1) x'(1) unfolding decodes_to_def by blast
    then show ?thesis by (rule Cons.IH) (rule x'(2))
  qed
qed simp

lemma decodes_toD: "decodes_to P d \<Longrightarrow> d j x = Some y \<Longrightarrow> P x \<Longrightarrow> P y"
  by (simp add: decodes_to_def)

lemma dec_struct_keeps:
  assumes "\<forall>d \<in> snd ` set fs. decodes_to P d"
  shows "decodes_to P (dec_struct fs)"
  unfolding decodes_to_def
proof (intro allI impI)
  fix j x y assume "P x" "dec_struct fs j x = Some y"
  then show "P y" by (cases j) (simp_all add: dec_struct_def dec_members_keeps [OF assms])
qed

lemma decodes_into:
  "(\<And>j x y. P x \<Longrightarrow> d j (get x) = Some y \<Longrightarrow> P (put y x)) \<Longrightarrow> decodes_to P (into d get put)"
  by (auto simp: decodes_to_def into_def)

lemma dec_int_range: "dec_int j x = Some y \<Longrightarrow> is_int64 x \<Longrightarrow> is_int64 y"
  by (auto simp: dec_int_def split: json.splits if_splits)

lemma dec_entries_keeps:
  assumes "decodes_to P d" "P zero"
  shows "dec_entries d zero kjs m = Some m' \<Longrightarrow> map_ok m \<and> (\<forall>(k, x) \<in> set m. P x) \<Longrightarrow> map_ok m' \<and> (\<forall>(k, x) \<in> set m'. P x)"
proof (induction kjs arbitrary: m)
  case (Cons kj kjs)
  obtain k j where kj: "kj = (k, j)" by (cases kj)
  then obtain x where x: "d j zero = Some x" "dec_entries d zero kjs (AList.update k x m) = Some m'"
    using Cons.prems(1) by (auto split: option.splits)
  have "P x" using assms x(1) unfolding decodes_to_def by blast
  then have "map_ok (AList.update k x m) \<and> (\<forall>(k, x) \<in> set (AList.update k x m). P x)"
    using Cons.prems(2) set_update_subset [of k x m] by (auto intro: map_ok_update)
  then show ?case by (rule Cons.IH [OF x(2)])
qed simp

lemma dec_map_keeps:
  assumes "decodes_to P d" "P zero" "dec_map d zero j m = Some m'" "map_ok m \<and> (\<forall>(k, x) \<in> set m. P x)"
  shows "map_ok m' \<and> (\<forall>(k, x) \<in> set m'. P x)"
  using assms dec_entries_keeps [OF assms(1,2)] by (auto simp: dec_map_def split: json.splits)

lemmas scalar_decoders = dec_bool_def dec_string_def dec_int_def dec_float_def

end
