(* ===== verification/Snapshot.thy ===== *)
theory Snapshot
  imports GoJson
begin

text \<open>
  The configuration snapshot of the control plane (the types of
  \<^verbatim>\<open>internal/streaming/manager.go\<close>) and its JSON form, which the struct tags give. A
  missing slice or map counts as an empty one. The timestamps are left out: nothing reads them.
\<close>

subsection \<open>Types\<close>

record stream_target =
  sg_URL :: string
  sg_HealthCheck :: string

definition no_target :: stream_target where
  "no_target = \<lparr>sg_URL = [], sg_HealthCheck = []\<rparr>"

record route_data =
  rd_Type :: string
  rd_Target :: string
  rd_Targets :: "stream_target list"
  rd_CertificatePEM :: string
  rd_PrivateKeyPEM :: string

definition no_route :: route_data where
  "no_route = \<lparr>rd_Type = [], rd_Target = [], rd_Targets = [], rd_CertificatePEM = [], rd_PrivateKeyPEM = []\<rparr>"

record waf_data =
  wd_Name :: string
  wd_Expression :: string
  wd_Action :: string
  wd_Priority :: int

definition no_rule :: waf_data where
  "no_rule = \<lparr>wd_Name = [], wd_Expression = [], wd_Action = [], wd_Priority = 0\<rparr>"

record user_data =
  ud_ID :: string
  ud_Username :: string
  ud_Email :: string
  ud_PasswordHash :: string
  ud_ZeroTrustEnabled :: bool

definition no_user :: user_data where
  "no_user = \<lparr>ud_ID = [], ud_Username = [], ud_Email = [], ud_PasswordHash = [], ud_ZeroTrustEnabled = False\<rparr>"

record user_domain =
  uo_ID :: string
  uo_UserID :: string
  uo_Username :: string
  uo_Domain :: string
  uo_TargetURL :: string
  uo_Active :: bool

definition no_user_domain :: user_domain where
  "no_user_domain = \<lparr>uo_ID = [], uo_UserID = [], uo_Username = [], uo_Domain = [], uo_TargetURL = [], uo_Active = False\<rparr>"

record agent_cache =
  ac_Enabled :: bool
  ac_TTLSeconds :: int
  ac_MaxEntries :: int
  ac_MaxBodyBytes :: int

definition no_cache :: agent_cache where
  "no_cache = \<lparr>ac_Enabled = False, ac_TTLSeconds = 0, ac_MaxEntries = 0, ac_MaxBodyBytes = 0\<rparr>"

record agent_rate =
  al_Enabled :: bool
  al_RequestsPerMinute :: int
  al_Burst :: int
  al_Key :: string

definition no_rate :: agent_rate where
  "no_rate = \<lparr>al_Enabled = False, al_RequestsPerMinute = 0, al_Burst = 0, al_Key = []\<rparr>"

record agent_queue =
  aq_Enabled :: bool
  aq_MaxConcurrent :: int
  aq_MaxQueued :: int
  aq_TimeoutSeconds :: int

definition no_queue :: agent_queue where
  "no_queue = \<lparr>aq_Enabled = False, aq_MaxConcurrent = 0, aq_MaxQueued = 0, aq_TimeoutSeconds = 0\<rparr>"

record agent_bandwidth =
  ab_Enabled :: bool
  ab_BytesPerSecond :: int
  ab_BurstBytes :: int
  ab_Key :: string

definition no_bandwidth :: agent_bandwidth where
  "no_bandwidth = \<lparr>ab_Enabled = False, ab_BytesPerSecond = 0, ab_BurstBytes = 0, ab_Key = []\<rparr>"

record agent_metrics =
  am_Enabled :: bool
  am_Path :: string

definition no_metrics :: agent_metrics where
  "no_metrics = \<lparr>am_Enabled = False, am_Path = []\<rparr>"

record agent_model =
  ao_Enabled :: bool
  ao_Threshold :: rat
  ao_ModelPath :: string
  ao_ScalerPath :: string
  ao_PythonScript :: string
  ao_FeatureHeader :: string

definition no_agent_model :: agent_model where
  "no_agent_model = \<lparr>ao_Enabled = False, ao_Threshold = 0, ao_ModelPath = [], ao_ScalerPath = [], ao_PythonScript = [], ao_FeatureHeader = []\<rparr>"

record agent_data =
  ag_Cache :: agent_cache
  ag_RateLimit :: agent_rate
  ag_RequestQueue :: agent_queue
  ag_Bandwidth :: agent_bandwidth
  ag_Metrics :: agent_metrics
  ag_KodaWaf :: agent_model
  ag_Koda2 :: agent_model
  ag_present :: bool

definition no_agent :: agent_data where
  "no_agent = \<lparr>ag_Cache = no_cache, ag_RateLimit = no_rate, ag_RequestQueue = no_queue, ag_Bandwidth = no_bandwidth, ag_Metrics = no_metrics, ag_KodaWaf = no_agent_model, ag_Koda2 = no_agent_model, ag_present = False\<rparr>"

record snapshot =
  sn_Version :: int
  sn_Routes :: "(string, route_data) gomap"
  sn_RoutesConfigured :: bool
  sn_WAFRules :: "(string, waf_data) gomap"
  sn_WAFRulesConfigured :: bool
  sn_Users :: "user_data list"
  sn_UserDomains :: "user_domain list"
  sn_ZeroTrustEnabled :: bool
  sn_ZeroTrustConfigured :: bool
  sn_AgentConfig :: agent_data

definition no_snapshot :: snapshot where
  "no_snapshot = \<lparr>sn_Version = 0, sn_Routes = [], sn_RoutesConfigured = False, sn_WAFRules = [], sn_WAFRulesConfigured = False, sn_Users = [], sn_UserDomains = [], sn_ZeroTrustEnabled = False, sn_ZeroTrustConfigured = False, sn_AgentConfig = no_agent\<rparr>"

subsection \<open>Operations on the types\<close>

definition AllTargets :: "route_data \<Rightarrow> stream_target list" where
  "AllTargets r =
     (if rd_Targets r \<noteq> [] then rd_Targets r
      else if rd_Target r \<noteq> [] then [\<lparr>sg_URL = rd_Target r, sg_HealthCheck = ''http''\<rparr>]
      else [])"

definition agent_IsZero :: "agent_data \<Rightarrow> bool" where
  "agent_IsZero c = (\<not> ag_present c \<and> c = no_agent)"

text \<open>A snapshot as \<^verbatim>\<open>copy\<close> gives it shares nothing with the original, which values never do.\<close>

definition copy_route :: "route_data \<Rightarrow> route_data" where
  "copy_route v = \<lparr>rd_Type = rd_Type v, rd_Target = rd_Target v, rd_Targets = rd_Targets v,
     rd_CertificatePEM = rd_CertificatePEM v, rd_PrivateKeyPEM = rd_PrivateKeyPEM v\<rparr>"

definition copy_snapshot :: "snapshot \<Rightarrow> snapshot" where
  "copy_snapshot s =
     \<lparr>sn_Version = sn_Version s, sn_Routes = map (\<lambda>(k, v). (k, copy_route v)) (sn_Routes s),
      sn_RoutesConfigured = sn_RoutesConfigured s, sn_WAFRules = sn_WAFRules s,
      sn_WAFRulesConfigured = sn_WAFRulesConfigured s, sn_Users = sn_Users s, sn_UserDomains = sn_UserDomains s,
      sn_ZeroTrustEnabled = sn_ZeroTrustEnabled s, sn_ZeroTrustConfigured = sn_ZeroTrustConfigured s,
      sn_AgentConfig = sn_AgentConfig s\<rparr>"

lemma copy_route_id [simp]: "copy_route v = v"
  by (simp add: copy_route_def)

lemma copy_snapshot_id [simp]: "copy_snapshot s = s"
  by (simp add: copy_snapshot_def)

subsection \<open>JSON\<close>

definition enc_stream_target :: "stream_target \<Rightarrow> json" where
  "enc_stream_target x =
     JObj ([(''url'', JStr (sg_URL x))] @
       omitempty (sg_HealthCheck x = []) ''health_check'' (JStr (sg_HealthCheck x)))"

definition dec_stream_target :: "stream_target decoder" where
  "dec_stream_target = dec_struct
     [(''url'', into dec_string sg_URL (\<lambda>y x. x\<lparr>sg_URL := y\<rparr>)),
      (''health_check'', into dec_string sg_HealthCheck (\<lambda>y x. x\<lparr>sg_HealthCheck := y\<rparr>))]"

definition enc_route_data :: "route_data \<Rightarrow> json" where
  "enc_route_data x =
     JObj ([(''type'', JStr (rd_Type x)), (''target'', JStr (rd_Target x))] @
       omitempty (rd_Targets x = []) ''targets'' (enc_list enc_stream_target (rd_Targets x)) @
       omitempty (rd_CertificatePEM x = []) ''certificate_pem'' (JStr (rd_CertificatePEM x)) @
       omitempty (rd_PrivateKeyPEM x = []) ''private_key_pem'' (JStr (rd_PrivateKeyPEM x)))"

definition dec_route_data :: "route_data decoder" where
  "dec_route_data = dec_struct
     [(''type'', into dec_string rd_Type (\<lambda>y x. x\<lparr>rd_Type := y\<rparr>)),
      (''target'', into dec_string rd_Target (\<lambda>y x. x\<lparr>rd_Target := y\<rparr>)),
      (''targets'', into (dec_list dec_stream_target no_target) rd_Targets (\<lambda>y x. x\<lparr>rd_Targets := y\<rparr>)),
      (''certificate_pem'', into dec_string rd_CertificatePEM (\<lambda>y x. x\<lparr>rd_CertificatePEM := y\<rparr>)),
      (''private_key_pem'', into dec_string rd_PrivateKeyPEM (\<lambda>y x. x\<lparr>rd_PrivateKeyPEM := y\<rparr>))]"

definition enc_waf_data :: "waf_data \<Rightarrow> json" where
  "enc_waf_data x =
     JObj ([(''name'', JStr (wd_Name x)),
       (''expression'', JStr (wd_Expression x)),
       (''action'', JStr (wd_Action x)),
       (''priority'', JInt (wd_Priority x))])"

definition dec_waf_data :: "waf_data decoder" where
  "dec_waf_data = dec_struct
     [(''name'', into dec_string wd_Name (\<lambda>y x. x\<lparr>wd_Name := y\<rparr>)),
      (''expression'', into dec_string wd_Expression (\<lambda>y x. x\<lparr>wd_Expression := y\<rparr>)),
      (''action'', into dec_string wd_Action (\<lambda>y x. x\<lparr>wd_Action := y\<rparr>)),
      (''priority'', into dec_int wd_Priority (\<lambda>y x. x\<lparr>wd_Priority := y\<rparr>))]"

definition enc_user_data :: "user_data \<Rightarrow> json" where
  "enc_user_data x =
     JObj ([(''id'', JStr (ud_ID x)),
       (''username'', JStr (ud_Username x)),
       (''email'', JStr (ud_Email x)),
       (''password_hash'', JStr (ud_PasswordHash x)),
       (''zero_trust_enabled'', JBool (ud_ZeroTrustEnabled x))])"

definition dec_user_data :: "user_data decoder" where
  "dec_user_data = dec_struct
     [(''id'', into dec_string ud_ID (\<lambda>y x. x\<lparr>ud_ID := y\<rparr>)),
      (''username'', into dec_string ud_Username (\<lambda>y x. x\<lparr>ud_Username := y\<rparr>)),
      (''email'', into dec_string ud_Email (\<lambda>y x. x\<lparr>ud_Email := y\<rparr>)),
      (''password_hash'', into dec_string ud_PasswordHash (\<lambda>y x. x\<lparr>ud_PasswordHash := y\<rparr>)),
      (''zero_trust_enabled'', into dec_bool ud_ZeroTrustEnabled (\<lambda>y x. x\<lparr>ud_ZeroTrustEnabled := y\<rparr>))]"

definition enc_user_domain :: "user_domain \<Rightarrow> json" where
  "enc_user_domain x =
     JObj ([(''id'', JStr (uo_ID x)),
       (''user_id'', JStr (uo_UserID x)),
       (''username'', JStr (uo_Username x)),
       (''domain'', JStr (uo_Domain x)),
       (''target_url'', JStr (uo_TargetURL x)),
       (''active'', JBool (uo_Active x))])"

definition dec_user_domain :: "user_domain decoder" where
  "dec_user_domain = dec_struct
     [(''id'', into dec_string uo_ID (\<lambda>y x. x\<lparr>uo_ID := y\<rparr>)),
      (''user_id'', into dec_string uo_UserID (\<lambda>y x. x\<lparr>uo_UserID := y\<rparr>)),
      (''username'', into dec_string uo_Username (\<lambda>y x. x\<lparr>uo_Username := y\<rparr>)),
      (''domain'', into dec_string uo_Domain (\<lambda>y x. x\<lparr>uo_Domain := y\<rparr>)),
      (''target_url'', into dec_string uo_TargetURL (\<lambda>y x. x\<lparr>uo_TargetURL := y\<rparr>)),
      (''active'', into dec_bool uo_Active (\<lambda>y x. x\<lparr>uo_Active := y\<rparr>))]"

definition enc_agent_cache :: "agent_cache \<Rightarrow> json" where
  "enc_agent_cache x =
     JObj ([(''enabled'', JBool (ac_Enabled x)),
       (''ttl_seconds'', JInt (ac_TTLSeconds x)),
       (''max_entries'', JInt (ac_MaxEntries x)),
       (''max_body_bytes'', JInt (ac_MaxBodyBytes x))])"

definition dec_agent_cache :: "agent_cache decoder" where
  "dec_agent_cache = dec_struct
     [(''enabled'', into dec_bool ac_Enabled (\<lambda>y x. x\<lparr>ac_Enabled := y\<rparr>)),
      (''ttl_seconds'', into dec_int ac_TTLSeconds (\<lambda>y x. x\<lparr>ac_TTLSeconds := y\<rparr>)),
      (''max_entries'', into dec_int ac_MaxEntries (\<lambda>y x. x\<lparr>ac_MaxEntries := y\<rparr>)),
      (''max_body_bytes'', into dec_int ac_MaxBodyBytes (\<lambda>y x. x\<lparr>ac_MaxBodyBytes := y\<rparr>))]"

definition enc_agent_rate :: "agent_rate \<Rightarrow> json" where
  "enc_agent_rate x =
     JObj ([(''enabled'', JBool (al_Enabled x)),
       (''requests_per_minute'', JInt (al_RequestsPerMinute x)),
       (''burst'', JInt (al_Burst x)),
       (''key'', JStr (al_Key x))])"

definition dec_agent_rate :: "agent_rate decoder" where
  "dec_agent_rate = dec_struct
     [(''enabled'', into dec_bool al_Enabled (\<lambda>y x. x\<lparr>al_Enabled := y\<rparr>)),
      (''requests_per_minute'', into dec_int al_RequestsPerMinute (\<lambda>y x. x\<lparr>al_RequestsPerMinute := y\<rparr>)),
      (''burst'', into dec_int al_Burst (\<lambda>y x. x\<lparr>al_Burst := y\<rparr>)),
      (''key'', into dec_string al_Key (\<lambda>y x. x\<lparr>al_Key := y\<rparr>))]"

definition enc_agent_queue :: "agent_queue \<Rightarrow> json" where
  "enc_agent_queue x =
     JObj ([(''enabled'', JBool (aq_Enabled x)),
       (''max_concurrent'', JInt (aq_MaxConcurrent x)),
       (''max_queued'', JInt (aq_MaxQueued x)),
       (''timeout_seconds'', JInt (aq_TimeoutSeconds x))])"

definition dec_agent_queue :: "agent_queue decoder" where
  "dec_agent_queue = dec_struct
     [(''enabled'', into dec_bool aq_Enabled (\<lambda>y x. x\<lparr>aq_Enabled := y\<rparr>)),
      (''max_concurrent'', into dec_int aq_MaxConcurrent (\<lambda>y x. x\<lparr>aq_MaxConcurrent := y\<rparr>)),
      (''max_queued'', into dec_int aq_MaxQueued (\<lambda>y x. x\<lparr>aq_MaxQueued := y\<rparr>)),
      (''timeout_seconds'', into dec_int aq_TimeoutSeconds (\<lambda>y x. x\<lparr>aq_TimeoutSeconds := y\<rparr>))]"

definition enc_agent_bandwidth :: "agent_bandwidth \<Rightarrow> json" where
  "enc_agent_bandwidth x =
     JObj ([(''enabled'', JBool (ab_Enabled x)),
       (''bytes_per_second'', JInt (ab_BytesPerSecond x)),
       (''burst_bytes'', JInt (ab_BurstBytes x)),
       (''key'', JStr (ab_Key x))])"

definition dec_agent_bandwidth :: "agent_bandwidth decoder" where
  "dec_agent_bandwidth = dec_struct
     [(''enabled'', into dec_bool ab_Enabled (\<lambda>y x. x\<lparr>ab_Enabled := y\<rparr>)),
      (''bytes_per_second'', into dec_int ab_BytesPerSecond (\<lambda>y x. x\<lparr>ab_BytesPerSecond := y\<rparr>)),
      (''burst_bytes'', into dec_int ab_BurstBytes (\<lambda>y x. x\<lparr>ab_BurstBytes := y\<rparr>)),
      (''key'', into dec_string ab_Key (\<lambda>y x. x\<lparr>ab_Key := y\<rparr>))]"

definition enc_agent_metrics :: "agent_metrics \<Rightarrow> json" where
  "enc_agent_metrics x =
     JObj ([(''enabled'', JBool (am_Enabled x)),
       (''path'', JStr (am_Path x))])"

definition dec_agent_metrics :: "agent_metrics decoder" where
  "dec_agent_metrics = dec_struct
     [(''enabled'', into dec_bool am_Enabled (\<lambda>y x. x\<lparr>am_Enabled := y\<rparr>)),
      (''path'', into dec_string am_Path (\<lambda>y x. x\<lparr>am_Path := y\<rparr>))]"

definition enc_agent_model :: "agent_model \<Rightarrow> json" where
  "enc_agent_model x =
     JObj ([(''enabled'', JBool (ao_Enabled x)),
       (''threshold'', JNum (ao_Threshold x)),
       (''model_path'', JStr (ao_ModelPath x)),
       (''scaler_path'', JStr (ao_ScalerPath x)),
       (''python_script'', JStr (ao_PythonScript x)),
       (''feature_header'', JStr (ao_FeatureHeader x))])"

definition dec_agent_model :: "agent_model decoder" where
  "dec_agent_model = dec_struct
     [(''enabled'', into dec_bool ao_Enabled (\<lambda>y x. x\<lparr>ao_Enabled := y\<rparr>)),
      (''threshold'', into dec_float ao_Threshold (\<lambda>y x. x\<lparr>ao_Threshold := y\<rparr>)),
      (''model_path'', into dec_string ao_ModelPath (\<lambda>y x. x\<lparr>ao_ModelPath := y\<rparr>)),
      (''scaler_path'', into dec_string ao_ScalerPath (\<lambda>y x. x\<lparr>ao_ScalerPath := y\<rparr>)),
      (''python_script'', into dec_string ao_PythonScript (\<lambda>y x. x\<lparr>ao_PythonScript := y\<rparr>)),
      (''feature_header'', into dec_string ao_FeatureHeader (\<lambda>y x. x\<lparr>ao_FeatureHeader := y\<rparr>))]"

definition enc_agent_data :: "agent_data \<Rightarrow> json" where
  "enc_agent_data x =
     JObj ([(''cache'', enc_agent_cache (ag_Cache x)),
       (''rate_limit'', enc_agent_rate (ag_RateLimit x)),
       (''request_queue'', enc_agent_queue (ag_RequestQueue x)),
       (''bandwidth'', enc_agent_bandwidth (ag_Bandwidth x)),
       (''metrics'', enc_agent_metrics (ag_Metrics x)),
       (''koda_waf'', enc_agent_model (ag_KodaWaf x)),
       (''koda_2'', enc_agent_model (ag_Koda2 x))])"

definition dec_agent_data :: "agent_data decoder" where
  "dec_agent_data = dec_struct
     [(''cache'', into dec_agent_cache ag_Cache (\<lambda>y x. x\<lparr>ag_Cache := y\<rparr>)),
      (''rate_limit'', into dec_agent_rate ag_RateLimit (\<lambda>y x. x\<lparr>ag_RateLimit := y\<rparr>)),
      (''request_queue'', into dec_agent_queue ag_RequestQueue (\<lambda>y x. x\<lparr>ag_RequestQueue := y\<rparr>)),
      (''bandwidth'', into dec_agent_bandwidth ag_Bandwidth (\<lambda>y x. x\<lparr>ag_Bandwidth := y\<rparr>)),
      (''metrics'', into dec_agent_metrics ag_Metrics (\<lambda>y x. x\<lparr>ag_Metrics := y\<rparr>)),
      (''koda_waf'', into dec_agent_model ag_KodaWaf (\<lambda>y x. x\<lparr>ag_KodaWaf := y\<rparr>)),
      (''koda_2'', into dec_agent_model ag_Koda2 (\<lambda>y x. x\<lparr>ag_Koda2 := y\<rparr>))]"

text \<open>\<^verbatim>\<open>UnmarshalJSON\<close> of the agent's settings decodes into a fresh value and notes that it was there.\<close>

definition dec_agent_config :: "agent_data decoder" where
  "dec_agent_config j x = map_option (\<lambda>a. a\<lparr>ag_present := True\<rparr>) (dec_agent_data j no_agent)"

definition enc_snapshot :: "snapshot \<Rightarrow> json" where
  "enc_snapshot x =
     JObj ([(''version'', JInt (sn_Version x)), (''routes'', enc_map enc_route_data (sn_Routes x))] @
       omitempty (\<not> sn_RoutesConfigured x) ''routes_configured'' (JBool (sn_RoutesConfigured x)) @
       [(''waf_rules'', enc_map enc_waf_data (sn_WAFRules x))] @
       omitempty (\<not> sn_WAFRulesConfigured x) ''waf_rules_configured'' (JBool (sn_WAFRulesConfigured x)) @
       [(''users'', enc_list enc_user_data (sn_Users x)), (''user_domains'', enc_list enc_user_domain (sn_UserDomains x)), (''zero_trust_enabled'', JBool (sn_ZeroTrustEnabled x))] @
       omitempty (\<not> sn_ZeroTrustConfigured x) ''zero_trust_configured'' (JBool (sn_ZeroTrustConfigured x)) @
       [(''agent_config'', enc_agent_data (sn_AgentConfig x))])"

definition dec_snapshot :: "snapshot decoder" where
  "dec_snapshot = dec_struct
     [(''version'', into dec_int sn_Version (\<lambda>y x. x\<lparr>sn_Version := y\<rparr>)),
      (''routes'', into (dec_map dec_route_data no_route) sn_Routes (\<lambda>y x. x\<lparr>sn_Routes := y\<rparr>)),
      (''routes_configured'', into dec_bool sn_RoutesConfigured (\<lambda>y x. x\<lparr>sn_RoutesConfigured := y\<rparr>)),
      (''waf_rules'', into (dec_map dec_waf_data no_rule) sn_WAFRules (\<lambda>y x. x\<lparr>sn_WAFRules := y\<rparr>)),
      (''waf_rules_configured'', into dec_bool sn_WAFRulesConfigured (\<lambda>y x. x\<lparr>sn_WAFRulesConfigured := y\<rparr>)),
      (''users'', into (dec_list dec_user_data no_user) sn_Users (\<lambda>y x. x\<lparr>sn_Users := y\<rparr>)),
      (''user_domains'', into (dec_list dec_user_domain no_user_domain) sn_UserDomains (\<lambda>y x. x\<lparr>sn_UserDomains := y\<rparr>)),
      (''zero_trust_enabled'', into dec_bool sn_ZeroTrustEnabled (\<lambda>y x. x\<lparr>sn_ZeroTrustEnabled := y\<rparr>)),
      (''zero_trust_configured'', into dec_bool sn_ZeroTrustConfigured (\<lambda>y x. x\<lparr>sn_ZeroTrustConfigured := y\<rparr>)),
      (''agent_config'', into dec_agent_config sn_AgentConfig (\<lambda>y x. x\<lparr>sn_AgentConfig := y\<rparr>))]"

subsection \<open>What is read back\<close>

definition agent_ints :: "agent_data \<Rightarrow> int list" where
  "agent_ints a =
     [ac_TTLSeconds (ag_Cache a), ac_MaxEntries (ag_Cache a), ac_MaxBodyBytes (ag_Cache a),
      al_RequestsPerMinute (ag_RateLimit a), al_Burst (ag_RateLimit a), aq_MaxConcurrent (ag_RequestQueue a),
      aq_MaxQueued (ag_RequestQueue a), aq_TimeoutSeconds (ag_RequestQueue a), ab_BytesPerSecond (ag_Bandwidth a),
      ab_BurstBytes (ag_Bandwidth a)]"

text \<open>The integers fit their 64 bits, and the maps have each key once.\<close>

definition snapshot_ok :: "snapshot \<Rightarrow> bool" where
  "snapshot_ok s = (is_int64 (sn_Version s) \<and> map_ok (sn_Routes s) \<and> map_ok (sn_WAFRules s) \<and>
     (\<forall>(k, r) \<in> set (sn_WAFRules s). is_int64 (wd_Priority r)) \<and> list_all is_int64 (agent_ints (sn_AgentConfig s)))"

lemma dec_struct_obj [simp]: "dec_struct fs (JObj kjs) x = dec_members fs kjs x"
  by (simp add: dec_struct_def)

lemma decode_target: "dec_stream_target (enc_stream_target x) no_target = Some x"
  by (cases x) (simp add: dec_stream_target_def enc_stream_target_def into_def omitempty_def scalar_decoders no_target_def)

lemma decode_targets: "dec_list dec_stream_target no_target (enc_list enc_stream_target xs) ys = Some xs"
  using dec_list_enc [of xs dec_stream_target enc_stream_target no_target "\<lambda>x. x"] decode_target by simp

lemma decode_route: "dec_route_data (enc_route_data x) no_route = Some x"
  by (cases x) (simp add: dec_route_data_def enc_route_data_def into_def omitempty_def scalar_decoders no_route_def decode_targets)

lemma decode_rule: "is_int64 (wd_Priority x) \<Longrightarrow> dec_waf_data (enc_waf_data x) no_rule = Some x"
  by (cases x) (simp add: dec_waf_data_def enc_waf_data_def into_def scalar_decoders no_rule_def)

lemma decode_user: "dec_user_data (enc_user_data x) no_user = Some x"
  by (cases x) (simp add: dec_user_data_def enc_user_data_def into_def scalar_decoders no_user_def)

lemma decode_user_domain: "dec_user_domain (enc_user_domain x) no_user_domain = Some x"
  by (cases x) (simp add: dec_user_domain_def enc_user_domain_def into_def scalar_decoders no_user_domain_def)

lemma decode_cache:
  "is_int64 (ac_TTLSeconds x) \<Longrightarrow> is_int64 (ac_MaxEntries x) \<Longrightarrow> is_int64 (ac_MaxBodyBytes x) \<Longrightarrow>
     dec_agent_cache (enc_agent_cache x) no_cache = Some x"
  by (cases x) (simp add: dec_agent_cache_def enc_agent_cache_def into_def scalar_decoders no_cache_def)

lemma decode_rate:
  "is_int64 (al_RequestsPerMinute x) \<Longrightarrow> is_int64 (al_Burst x) \<Longrightarrow> dec_agent_rate (enc_agent_rate x) no_rate = Some x"
  by (cases x) (simp add: dec_agent_rate_def enc_agent_rate_def into_def scalar_decoders no_rate_def)

lemma decode_queue:
  "is_int64 (aq_MaxConcurrent x) \<Longrightarrow> is_int64 (aq_MaxQueued x) \<Longrightarrow> is_int64 (aq_TimeoutSeconds x) \<Longrightarrow>
     dec_agent_queue (enc_agent_queue x) no_queue = Some x"
  by (cases x) (simp add: dec_agent_queue_def enc_agent_queue_def into_def scalar_decoders no_queue_def)

lemma decode_bandwidth:
  "is_int64 (ab_BytesPerSecond x) \<Longrightarrow> is_int64 (ab_BurstBytes x) \<Longrightarrow>
     dec_agent_bandwidth (enc_agent_bandwidth x) no_bandwidth = Some x"
  by (cases x) (simp add: dec_agent_bandwidth_def enc_agent_bandwidth_def into_def scalar_decoders no_bandwidth_def)

lemma decode_metrics: "dec_agent_metrics (enc_agent_metrics x) no_metrics = Some x"
  by (cases x) (simp add: dec_agent_metrics_def enc_agent_metrics_def into_def scalar_decoders no_metrics_def)

lemma decode_model: "dec_agent_model (enc_agent_model x) no_agent_model = Some x"
  by (cases x) (simp add: dec_agent_model_def enc_agent_model_def into_def scalar_decoders no_agent_model_def)

lemmas agent_part_decoders = decode_cache decode_rate decode_queue decode_bandwidth decode_metrics decode_model

lemma decode_agent:
  assumes "list_all is_int64 (agent_ints a)"
  shows "dec_agent_config (enc_agent_data a) b = Some (a\<lparr>ag_present := True\<rparr>)"
proof -
  have "dec_agent_data (enc_agent_data a) no_agent = Some (a\<lparr>ag_present := False\<rparr>)"
    using assms by (cases a) (simp add: dec_agent_data_def enc_agent_data_def into_def no_agent_def agent_ints_def agent_part_decoders)
  then show ?thesis by (simp add: dec_agent_config_def)
qed

text \<open>A snapshot as it comes back: the maps in the order of their keys, and the settings marked as there.\<close>

definition reread :: "snapshot \<Rightarrow> snapshot" where
  "reread s = s\<lparr>sn_Routes := sorted_map (sn_Routes s), sn_WAFRules := sorted_map (sn_WAFRules s),
     sn_AgentConfig := (sn_AgentConfig s)\<lparr>ag_present := True\<rparr>\<rparr>"

lemma decode_routes: "map_ok m \<Longrightarrow> dec_map dec_route_data no_route (enc_map enc_route_data m) [] = Some (sorted_map m)"
  using dec_map_enc [of m dec_route_data enc_route_data no_route "\<lambda>x. x"] decode_route by simp

lemma decode_rules:
  assumes "map_ok m" "\<forall>(k, r) \<in> set m. is_int64 (wd_Priority r)"
  shows "dec_map dec_waf_data no_rule (enc_map enc_waf_data m) [] = Some (sorted_map m)"
proof -
  have "dec_waf_data (enc_waf_data x) no_rule = Some x" if "(k, x) \<in> set m" for k x
    using assms(2) that by (intro decode_rule) auto
  from dec_map_enc [of m dec_waf_data enc_waf_data no_rule "\<lambda>x. x", OF this assms(1)] show ?thesis by simp
qed

lemma decode_users: "dec_list dec_user_data no_user (enc_list enc_user_data xs) ys = Some xs"
  using dec_list_enc [of xs dec_user_data enc_user_data no_user "\<lambda>x. x"] decode_user by simp

lemma decode_user_domains: "dec_list dec_user_domain no_user_domain (enc_list enc_user_domain xs) ys = Some xs"
  using dec_list_enc [of xs dec_user_domain enc_user_domain no_user_domain "\<lambda>x. x"] decode_user_domain by simp

lemma decode_snapshot: "snapshot_ok s \<Longrightarrow> dec_snapshot (enc_snapshot s) no_snapshot = Some (reread s)"
  unfolding snapshot_ok_def
  by (cases s) (simp add: dec_snapshot_def enc_snapshot_def into_def omitempty_def scalar_decoders no_snapshot_def reread_def
      decode_routes decode_rules decode_users decode_user_domains decode_agent)

text \<open>
  A snapshot survives its JSON form: what is written to the recovery file or sent in a
  message is read back with the same version, routes, rules, users, domains and settings, if
  its numbers fit 64 bits. Only the order of the maps is that of their keys, and the agent's
  settings count as given, even when they were not.
\<close>

theorem snapshot_roundtrip:
  assumes "snapshot_ok s"
  shows "dec_snapshot (enc_snapshot s) no_snapshot = Some (reread s) \<and>
    map_of (sn_Routes (reread s)) = map_of (sn_Routes s) \<and> map_of (sn_WAFRules (reread s)) = map_of (sn_WAFRules s)"
proof (intro conjI)
  show "dec_snapshot (enc_snapshot s) no_snapshot = Some (reread s)" by (rule decode_snapshot [OF assms])
  have ok: "map_ok (sn_Routes s)" "map_ok (sn_WAFRules s)" using assms by (simp_all add: snapshot_ok_def)
  show "map_of (sn_Routes (reread s)) = map_of (sn_Routes s)" "map_of (sn_WAFRules (reread s)) = map_of (sn_WAFRules s)"
    using map_of_sorted [OF ok(1)] map_of_sorted [OF ok(2)] by (simp_all add: reread_def)
qed

definition small_snapshot :: snapshot where
  "small_snapshot = no_snapshot\<lparr>sn_Version := 7, sn_ZeroTrustConfigured := True,
     sn_Routes := [(''b.com'', no_route\<lparr>rd_Type := ''domain'', rd_Targets := [\<lparr>sg_URL = ''http://b'', sg_HealthCheck = ''tcp''\<rparr>]\<rparr>),
       (''a.com'', no_route\<lparr>rd_Target := ''http://a''\<rparr>)]\<rparr>"

theorem snapshot_roundtrip_witness:
  "dec_snapshot (enc_snapshot small_snapshot) no_snapshot = Some (reread small_snapshot) \<and>
   map fst (sn_Routes (reread small_snapshot)) = [''a.com'', ''b.com'']"
proof -
  have "snapshot_ok small_snapshot"
    by (simp add: snapshot_ok_def small_snapshot_def no_snapshot_def map_ok_def agent_ints_def no_agent_def no_cache_def no_rate_def
        no_queue_def no_bandwidth_def is_int64_def)
  moreover have "map fst (sn_Routes (reread small_snapshot)) = [''a.com'', ''b.com'']" by code_simp
  ultimately show ?thesis using snapshot_roundtrip by blast
qed

text \<open>
  So after one trip the settings of the agent are never taken for missing, although nobody
  gave any: the zero values count as a choice.
\<close>

lemma settings_always_given:
  assumes "dec_snapshot (enc_snapshot s) no_snapshot = Some s'"
    and "snapshot_ok s"
  shows "\<not> agent_IsZero (sn_AgentConfig s')"
proof -
  have "s' = reread s" using assms(1) decode_snapshot [OF assms(2)] by simp
  then show ?thesis by (simp add: agent_IsZero_def reread_def)
qed

subsection \<open>Whatever is read fits\<close>

lemma rule_fits: "decodes_to (\<lambda>r. is_int64 (wd_Priority r)) dec_waf_data"
  unfolding dec_waf_data_def by (rule dec_struct_keeps) (auto intro!: decodes_into dest: dec_int_range)

lemma cache_fits: "decodes_to (\<lambda>a. is_int64 (ac_TTLSeconds a) \<and> is_int64 (ac_MaxEntries a) \<and> is_int64 (ac_MaxBodyBytes a)) dec_agent_cache"
  unfolding dec_agent_cache_def by (rule dec_struct_keeps) (auto intro!: decodes_into dest: dec_int_range)

lemma rate_fits: "decodes_to (\<lambda>a. is_int64 (al_RequestsPerMinute a) \<and> is_int64 (al_Burst a)) dec_agent_rate"
  unfolding dec_agent_rate_def by (rule dec_struct_keeps) (auto intro!: decodes_into dest: dec_int_range)

lemma queue_fits:
  "decodes_to (\<lambda>a. is_int64 (aq_MaxConcurrent a) \<and> is_int64 (aq_MaxQueued a) \<and> is_int64 (aq_TimeoutSeconds a)) dec_agent_queue"
  unfolding dec_agent_queue_def by (rule dec_struct_keeps) (auto intro!: decodes_into dest: dec_int_range)

lemma bandwidth_fits: "decodes_to (\<lambda>a. is_int64 (ab_BytesPerSecond a) \<and> is_int64 (ab_BurstBytes a)) dec_agent_bandwidth"
  unfolding dec_agent_bandwidth_def by (rule dec_struct_keeps) (auto intro!: decodes_into dest: dec_int_range)

lemma agent_fits: "decodes_to (\<lambda>a. list_all is_int64 (agent_ints a)) dec_agent_data"
proof -
  note fits = cache_fits rate_fits queue_fits bandwidth_fits
  note keep = fits [THEN decodes_toD]
  show ?thesis
    unfolding dec_agent_data_def by (rule dec_struct_keeps) (auto intro!: decodes_into simp: agent_ints_def dest: keep)
qed

lemma agent_config_fits: "dec_agent_config j a = Some b \<Longrightarrow> list_all is_int64 (agent_ints b)"
proof -
  assume "dec_agent_config j a = Some b"
  then obtain c where c: "dec_agent_data j no_agent = Some c" "b = c\<lparr>ag_present := True\<rparr>" by (auto simp: dec_agent_config_def)
  have "list_all is_int64 (agent_ints no_agent)"
    by (simp add: agent_ints_def no_agent_def no_cache_def no_rate_def no_queue_def no_bandwidth_def is_int64_def)
  with agent_fits c(1) have "list_all is_int64 (agent_ints c)" unfolding decodes_to_def by blast
  then show ?thesis by (simp add: agent_ints_def c(2))
qed

lemma snapshot_fits: "decodes_to snapshot_ok dec_snapshot"
proof -
  have routes: "map_ok m'" if "dec_map dec_route_data no_route j m = Some m'" "map_ok m" for j m m'
    using dec_map_keeps [of "\<lambda>_. True" dec_route_data no_route j m m'] that by (auto simp: decodes_to_def)
  have rules: "map_ok m'" "(k, r) \<in> set m' \<Longrightarrow> is_int64 (wd_Priority r)"
    if "dec_map dec_waf_data no_rule j m = Some m'" "map_ok m" "\<forall>(k, r) \<in> set m. is_int64 (wd_Priority r)" for j m m' k r
    using dec_map_keeps [OF rule_fits _ that(1)] that(2,3) by (auto simp: no_rule_def is_int64_def)
  have rule_field: "decodes_to snapshot_ok (into (dec_map dec_waf_data no_rule) sn_WAFRules (\<lambda>y x. x\<lparr>sn_WAFRules := y\<rparr>))"
  proof (rule decodes_into)
    fix j and x :: snapshot and y
    assume x: "snapshot_ok x" and y: "dec_map dec_waf_data no_rule j (sn_WAFRules x) = Some y"
    then have "map_ok (sn_WAFRules x)" "\<forall>(k, r) \<in> set (sn_WAFRules x). is_int64 (wd_Priority r)" by (simp_all add: snapshot_ok_def)
    from rules [OF y this] x show "snapshot_ok (x\<lparr>sn_WAFRules := y\<rparr>)" by (auto simp: snapshot_ok_def)
  qed
  show ?thesis
    unfolding dec_snapshot_def
    by (rule dec_struct_keeps)
       (auto intro!: rule_field decodes_into simp: snapshot_ok_def dest: dec_int_range routes agent_config_fits)
qed

lemma decoded_snapshot_ok: "dec_snapshot j no_snapshot = Some s \<Longrightarrow> snapshot_ok s"
proof -
  have "snapshot_ok no_snapshot"
    by (simp add: snapshot_ok_def no_snapshot_def agent_ints_def no_agent_def no_cache_def no_rate_def no_queue_def no_bandwidth_def
        is_int64_def)
  then show "dec_snapshot j no_snapshot = Some s \<Longrightarrow> snapshot_ok s" using snapshot_fits unfolding decodes_to_def by blast
qed

end
