(* ===== verification/Streaming.thy ===== *)
theory Streaming
  imports Snapshot
begin

text \<open>
  The manager of the configuration stream (\<^verbatim>\<open>internal/streaming/manager.go\<close>): the
  current snapshot, the recovery file and the subscribers. The channels outlive their manager's
  list and are held beside it; what a subscriber has taken from its channel is recorded. The
  disk maps the names of the readable files to their JSON; whether a write succeeds is an
  argument.
\<close>

subsection \<open>State\<close>

record message =
  ms_Type :: string
  ms_Data :: "json option"
  ms_Version :: int

record channel =
  ch_queue :: "snapshot list"
  ch_closed :: bool
  ch_received :: "snapshot list"
  ch_lost :: bool

record manager =
  mg_current :: snapshot
  mg_version :: int
  mg_listeners :: "nat list"
  mg_file :: string
  mg_connected :: bool
  mg_lastError :: "string option"

type_synonym disk = "string \<rightharpoonup> json"

record stream_state =
  st_manager :: manager
  st_channels :: "channel list"
  st_disk :: disk

definition bufferSize :: nat where
  "bufferSize = 10"

subsection \<open>Operations\<close>

definition loadFromDisk :: "disk \<Rightarrow> manager \<Rightarrow> manager option" where
  "loadFromDisk d m =
     (if mg_file m = [] then None
      else (case d (mg_file m) of
              None \<Rightarrow> None
            | Some j \<Rightarrow>
                (case dec_snapshot j no_snapshot of
                   None \<Rightarrow> None
                 | Some snap \<Rightarrow> Some (m\<lparr>mg_current := snap, mg_version := sn_Version snap\<rparr>))))"

definition NewManager :: "string \<Rightarrow> disk \<Rightarrow> manager" where
  "NewManager recoveryFile d =
     (let m = \<lparr>mg_current = no_snapshot, mg_version = 0, mg_listeners = [], mg_file = recoveryFile, mg_connected = False,
               mg_lastError = None\<rparr>
      in case loadFromDisk d m of None \<Rightarrow> m | Some m' \<Rightarrow> m')"

definition start_stream :: "string \<Rightarrow> disk \<Rightarrow> stream_state" where
  "start_stream file d = \<lparr>st_manager = NewManager file d, st_channels = [], st_disk = d\<rparr>"

definition saveToDisk :: "bool \<Rightarrow> manager \<Rightarrow> disk \<Rightarrow> disk" where
  "saveToDisk works m d = (if mg_file m = [] \<or> \<not> works then d else d(mg_file m \<mapsto> enc_snapshot (mg_current m)))"

text \<open>The channel a subscriber gets, with the current snapshot in it.\<close>

definition Subscribe :: "stream_state \<Rightarrow> nat \<times> stream_state" where
  "Subscribe st =
     (let m = st_manager st; n = length (st_channels st)
      in (n, st\<lparr>st_manager := m\<lparr>mg_listeners := mg_listeners m @ [n]\<rparr>,
                st_channels := st_channels st @ [\<lparr>ch_queue = [copy_snapshot (mg_current m)], ch_closed = False, ch_received = [], ch_lost = False\<rparr>]\<rparr>))"

definition try_send :: "snapshot \<Rightarrow> channel \<Rightarrow> channel" where
  "try_send snap c =
     (if length (ch_queue c) < bufferSize then c\<lparr>ch_queue := ch_queue c @ [snap], ch_lost := False\<rparr> else c\<lparr>ch_lost := True\<rparr>)"

definition on_listeners :: "nat list \<Rightarrow> (channel \<Rightarrow> channel) \<Rightarrow> channel list \<Rightarrow> channel list" where
  "on_listeners ls f cs = fold (\<lambda>i cs. cs[i := f (cs ! i)]) ls cs"

definition HandleMessage :: "bool \<Rightarrow> message \<Rightarrow> stream_state \<Rightarrow> string option \<times> stream_state" where
  "HandleMessage works msg st =
     (let m = st_manager st
      in if ms_Version msg \<le> mg_version m then (None, st)
         else if ms_Type msg \<noteq> ''snapshot'' then (Some (''unknown message type: '' @ ms_Type msg), st)
         else (case Option.bind (ms_Data msg) (\<lambda>j. dec_snapshot j no_snapshot) of
                 None \<Rightarrow> (Some ''bad data'', st)
               | Some snap \<Rightarrow>
                   (let m' = m\<lparr>mg_current := snap\<lparr>sn_Version := ms_Version msg\<rparr>, mg_version := ms_Version msg,
                               mg_connected := True, mg_lastError := None\<rparr>;
                        sent = copy_snapshot (mg_current m')
                    in (None, st\<lparr>st_manager := m', st_disk := saveToDisk works m' (st_disk st),
                                 st_channels := on_listeners (mg_listeners m') (try_send sent) (st_channels st)\<rparr>))))"

definition GetSnapshot :: "stream_state \<Rightarrow> snapshot" where
  "GetSnapshot st = copy_snapshot (mg_current (st_manager st))"

definition SetConnectionStatus :: "bool \<Rightarrow> string option \<Rightarrow> stream_state \<Rightarrow> stream_state" where
  "SetConnectionStatus up err st =
     st\<lparr>st_manager := (st_manager st)\<lparr>mg_connected := up, mg_lastError := err\<rparr>\<rparr>"

definition GetConnectionStatus :: "stream_state \<Rightarrow> bool \<times> string option" where
  "GetConnectionStatus st = (mg_connected (st_manager st), mg_lastError (st_manager st))"

definition Manager_Close :: "stream_state \<Rightarrow> stream_state" where
  "Manager_Close st =
     st\<lparr>st_manager := (st_manager st)\<lparr>mg_listeners := []\<rparr>,
        st_channels := on_listeners (mg_listeners (st_manager st)) (\<lambda>c. c\<lparr>ch_closed := True\<rparr>) (st_channels st)\<rparr>"

text \<open>A subscriber takes the next snapshot; \<open>None\<close> is a receiver that waits, or a closed, drained channel.\<close>

definition receive :: "nat \<Rightarrow> stream_state \<Rightarrow> snapshot option \<times> stream_state" where
  "receive i st =
     (if i < length (st_channels st) then
        (case ch_queue (st_channels st ! i) of
           [] \<Rightarrow> (None, st)
         | s # q \<Rightarrow> (Some s, st\<lparr>st_channels := (st_channels st)[i := (st_channels st ! i)\<lparr>ch_queue := q,
                        ch_received := ch_received (st_channels st ! i) @ [s]\<rparr>]\<rparr>))
      else (None, st))"

datatype stream_op =
    OpSubscribe
  | OpMessage bool message
  | OpStatus bool "string option"
  | OpReceive nat
  | OpCloseManager

fun stream_step :: "stream_op \<Rightarrow> stream_state \<Rightarrow> stream_state" where
  "stream_step OpSubscribe st = snd (Subscribe st)"
| "stream_step (OpMessage works msg) st = snd (HandleMessage works msg st)"
| "stream_step (OpStatus c e) st = SetConnectionStatus c e st"
| "stream_step (OpReceive i) st = snd (receive i st)"
| "stream_step OpCloseManager st = Manager_Close st"

subsection \<open>What subscribers see\<close>

definition seen_by :: "channel \<Rightarrow> snapshot list" where
  "seen_by c = ch_received c @ ch_queue c"

text \<open>The versions a channel carries increase, and it holds no more than its buffer.\<close>

definition channel_ok :: "int \<Rightarrow> channel \<Rightarrow> bool" where
  "channel_ok v c = (sorted_wrt (<) (map sn_Version (seen_by c)) \<and> (\<forall>s \<in> set (seen_by c). sn_Version s \<le> v) \<and>
     length (ch_queue c) \<le> bufferSize)"

definition stream_ok :: "stream_state \<Rightarrow> bool" where
  "stream_ok st =
     (let m = st_manager st in
      sn_Version (mg_current m) = mg_version m \<and> distinct (mg_listeners m) \<and>
      (\<forall>i \<in> set (mg_listeners m). i < length (st_channels st)) \<and>
      (\<forall>c \<in> set (st_channels st). channel_ok (mg_version m) c) \<and>
      (\<forall>i \<in> set (mg_listeners m). \<not> ch_lost (st_channels st ! i) \<longrightarrow>
         seen_by (st_channels st ! i) \<noteq> [] \<and> last (seen_by (st_channels st ! i)) = mg_current m))"

lemma on_listeners_length [simp]: "length (on_listeners ls f cs) = length cs"
  unfolding on_listeners_def by (induction ls arbitrary: cs) simp_all

lemma on_listeners_nth:
  "distinct ls \<Longrightarrow> \<forall>i \<in> set ls. i < length cs \<Longrightarrow> j < length cs \<Longrightarrow>
     on_listeners ls f cs ! j = (if j \<in> set ls then f (cs ! j) else cs ! j)"
  unfolding on_listeners_def by (induction ls arbitrary: cs) (auto simp: nth_list_update)

lemma channel_ok_mono: "channel_ok v c \<Longrightarrow> v \<le> v' \<Longrightarrow> channel_ok v' c"
  by (auto simp: channel_ok_def)

lemma try_send_ok:
  assumes "channel_ok v c" "v < sn_Version snap" "sn_Version snap \<le> v'"
  shows "channel_ok v' (try_send snap c)"
proof -
  have le: "\<forall>s \<in> set (seen_by c). sn_Version s < sn_Version snap" using assms(1,2) by (auto simp: channel_ok_def)
  then have "sorted_wrt (<) (map sn_Version (seen_by c @ [snap]))" using assms(1) by (auto simp: channel_ok_def sorted_wrt_append)
  with le assms show ?thesis by (auto simp: channel_ok_def try_send_def seen_by_def intro: order_trans order_less_imp_le)
qed

lemma channels_nth: "(\<forall>c \<in> set cs. P c) \<longleftrightarrow> (\<forall>j < length cs. P (cs ! j))"
  by (rule all_set_conv_all_nth)

lemma start_ok: "stream_ok (start_stream file d)"
  by (auto simp: stream_ok_def start_stream_def NewManager_def loadFromDisk_def no_snapshot_def Let_def split: option.splits)

lemma Subscribe_ok: "stream_ok st \<Longrightarrow> stream_ok (snd (Subscribe st))"
  by (auto simp: stream_ok_def Subscribe_def Let_def channel_ok_def seen_by_def bufferSize_def nth_append)

lemma HandleMessage_cases:
  "snd (HandleMessage works msg st) = st \<or>
   (\<exists>snap. mg_version (st_manager st) < ms_Version msg \<and> ms_Type msg = ''snapshot'' \<and>
      Option.bind (ms_Data msg) (\<lambda>j. dec_snapshot j no_snapshot) = Some snap)"
proof (cases "mg_version (st_manager st) < ms_Version msg \<and> ms_Type msg = ''snapshot''")
  case True
  then show ?thesis
    by (cases "Option.bind (ms_Data msg) (\<lambda>j. dec_snapshot j no_snapshot)") (simp_all add: HandleMessage_def Let_def)
next
  case False
  then have "ms_Version msg \<le> mg_version (st_manager st) \<or> ms_Type msg \<noteq> ''snapshot''" by auto
  then show ?thesis by (auto simp: HandleMessage_def Let_def)
qed

text \<open>A message that is taken: the state after it.\<close>

lemma HandleMessage_taken:
  assumes "mg_version (st_manager st) < ms_Version msg" "ms_Type msg = ''snapshot''"
    and "Option.bind (ms_Data msg) (\<lambda>j. dec_snapshot j no_snapshot) = Some snap"
  defines "m \<equiv> (st_manager st)\<lparr>mg_current := snap\<lparr>sn_Version := ms_Version msg\<rparr>, mg_version := ms_Version msg,
      mg_connected := True, mg_lastError := None\<rparr>"
  shows "HandleMessage works msg st = (None, st\<lparr>st_manager := m, st_disk := saveToDisk works m (st_disk st),
      st_channels := on_listeners (mg_listeners m) (try_send (mg_current m)) (st_channels st)\<rparr>)"
  using assms(1-3) by (simp add: HandleMessage_def Let_def m_def)

lemma HandleMessage_ok:
  assumes "stream_ok st"
  shows "stream_ok (snd (HandleMessage works msg st))"
proof -
  consider "snd (HandleMessage works msg st) = st" | snap where "mg_version (st_manager st) < ms_Version msg"
      "ms_Type msg = ''snapshot''" "Option.bind (ms_Data msg) (\<lambda>j. dec_snapshot j no_snapshot) = Some snap"
    using HandleMessage_cases by blast
  then show ?thesis
  proof cases
  case 1
  with assms show ?thesis by simp
next
  case (2 snap)
  note taken = 2
  let ?new = "snap\<lparr>sn_Version := ms_Version msg\<rparr>" and ?ls = "mg_listeners (st_manager st)" and ?cs = "st_channels st"
  let ?cs' = "on_listeners ?ls (try_send ?new) ?cs"
  have ls: "distinct ?ls" "\<forall>i \<in> set ?ls. i < length ?cs" and cs: "\<forall>c \<in> set ?cs. channel_ok (mg_version (st_manager st)) c"
    using assms by (simp_all add: stream_ok_def Let_def)
  have nth: "?cs' ! j = (if j \<in> set ?ls then try_send ?new (?cs ! j) else ?cs ! j)" if "j < length ?cs" for j
    by (rule on_listeners_nth [OF ls that])
  have "channel_ok (ms_Version msg) (?cs' ! j)" if j: "j < length ?cs" for j
  proof -
    have c: "channel_ok (mg_version (st_manager st)) (?cs ! j)" using cs j by simp
    show ?thesis
      using try_send_ok [OF c, of ?new "ms_Version msg"] channel_ok_mono [OF c, of "ms_Version msg"] taken(1) nth [OF j] by simp
  qed
  then have all: "\<forall>c \<in> set ?cs'. channel_ok (ms_Version msg) c" by (simp add: channels_nth)
  have "\<not> ch_lost (?cs' ! i) \<longrightarrow> seen_by (?cs' ! i) \<noteq> [] \<and> last (seen_by (?cs' ! i)) = ?new" if "i \<in> set ?ls" for i
    using nth [of i] that ls(2) by (auto simp: try_send_def seen_by_def split: if_splits)
  with all ls show ?thesis by (simp add: HandleMessage_taken [OF taken] stream_ok_def Let_def)
  qed
qed

lemma receive_ok:
  assumes "stream_ok st"
  shows "stream_ok (snd (receive i st))"
proof (cases "i < length (st_channels st) \<and> ch_queue (st_channels st ! i) \<noteq> []")
  case True
  then obtain s q where q: "ch_queue (st_channels st ! i) = s # q" by (cases "ch_queue (st_channels st ! i)") auto
  let ?c = "st_channels st ! i"
  let ?c' = "?c\<lparr>ch_queue := q, ch_received := ch_received ?c @ [s]\<rparr>"
  have seen: "seen_by ?c' = seen_by ?c" by (simp add: seen_by_def q)
  have "channel_ok (mg_version (st_manager st)) ?c" using assms True by (simp add: stream_ok_def Let_def)
  then have "channel_ok (mg_version (st_manager st)) ?c'" using q by (simp add: channel_ok_def seen)
  then show ?thesis using assms True q seen
    by (auto simp: stream_ok_def receive_def Let_def channels_nth nth_list_update)
next
  case False
  with assms show ?thesis by (auto simp: receive_def split: list.splits)
qed

lemma Close_ok:
  assumes "stream_ok st"
  shows "stream_ok (Manager_Close st)"
proof -
  have "channel_ok v (c\<lparr>ch_closed := True\<rparr>) = channel_ok v c" for v c by (simp add: channel_ok_def seen_by_def)
  with assms show ?thesis by (auto simp: stream_ok_def Manager_Close_def Let_def channels_nth on_listeners_nth)
qed

lemma stream_step_ok: "stream_ok st \<Longrightarrow> stream_ok (stream_step op st)"
  by (cases op) (auto simp: Subscribe_ok HandleMessage_ok receive_ok Close_ok,
      simp add: stream_ok_def SetConnectionStatus_def Let_def)

interpretation stream_inv: preserving stream_step stream_ok
  by unfold_locales (rule stream_step_ok)

text \<open>
  C23: Subscribers see the configuration move forward: over any sequence of subscriptions,
  messages, receptions and status changes, what a subscriber takes and has waiting are snapshots
  of strictly increasing versions, none newer than the manager's and at most ten waiting; and
  the last one is the current configuration unless the newest was dropped on its full buffer.
\<close>

theorem stream_in_order:
  assumes "st = fold stream_step ops (start_stream file d)" "c \<in> set (st_channels st)"
  shows "sorted_wrt (<) (map sn_Version (ch_received c @ ch_queue c)) \<and>
    (\<forall>s \<in> set (ch_received c @ ch_queue c). sn_Version s \<le> mg_version (st_manager st)) \<and> length (ch_queue c) \<le> 10 \<and>
    (\<forall>i \<in> set (mg_listeners (st_manager st)). \<not> ch_lost (st_channels st ! i) \<longrightarrow>
       last (ch_received (st_channels st ! i) @ ch_queue (st_channels st ! i)) = GetSnapshot st)"
proof -
  have "stream_ok st" unfolding assms(1) by (rule stream_inv.run_good [OF start_ok])
  with assms(2) show ?thesis
    by (simp add: stream_ok_def channel_ok_def seen_by_def bufferSize_def GetSnapshot_def Let_def)
qed

definition push :: "int \<Rightarrow> message" where
  "push v = \<lparr>ms_Type = ''snapshot'', ms_Data = Some (enc_snapshot (small_snapshot\<lparr>sn_Version := v\<rparr>)), ms_Version = v\<rparr>"

definition two_pushes :: "stream_op list" where
  "two_pushes = [OpMessage True (push 3), OpSubscribe, OpMessage True (push 5), OpReceive 0, OpMessage True (push 4)]"

theorem stream_in_order_witness:
  "map sn_Version (ch_received (hd (st_channels (fold stream_step two_pushes (start_stream ''f'' Map.empty)))) @
     ch_queue (hd (st_channels (fold stream_step two_pushes (start_stream ''f'' Map.empty))))) = [3, 5] \<and>
   sorted_wrt (<) (map sn_Version (ch_received (hd (st_channels (fold stream_step two_pushes (start_stream ''f'' Map.empty)))) @
     ch_queue (hd (st_channels (fold stream_step two_pushes (start_stream ''f'' Map.empty))))))"
proof -
  let ?st = "fold stream_step two_pushes (start_stream ''f'' Map.empty)"
  have run: "map sn_Version (ch_received (hd (st_channels ?st)) @ ch_queue (hd (st_channels ?st))) = [3, 5]"
    "length (st_channels ?st) = 1" by code_simp+
  then have "st_channels ?st \<noteq> []" by auto
  then have "hd (st_channels ?st) \<in> set (st_channels ?st)" by (rule hd_in_set)
  with stream_in_order [OF refl this] run(1) show ?thesis by blast
qed

subsection \<open>The recovery file\<close>

lemma GetSnapshot_ok:
  assumes "Option.bind (ms_Data msg) (\<lambda>j. dec_snapshot j no_snapshot) = Some snap" "is_int64 (ms_Version msg)"
  shows "snapshot_ok (snap\<lparr>sn_Version := ms_Version msg\<rparr>)"
proof -
  have "snapshot_ok snap" using assms(1) decoded_snapshot_ok by (auto simp: bind_eq_Some_conv)
  with assms(2) show ?thesis by (simp add: snapshot_ok_def)
qed

lemma recovery_restores_core:
  assumes "HandleMessage works msg st = (None, st')" "mg_version (st_manager st) < ms_Version msg"
    and "mg_file (st_manager st) \<noteq> []" "is_int64 (ms_Version msg)"
  defines "file \<equiv> mg_file (st_manager st)"
  shows "if works then
      mg_version (NewManager file (st_disk st')) = ms_Version msg \<and>
      mg_current (NewManager file (st_disk st')) = reread (GetSnapshot st') \<and>
      map_of (sn_Routes (mg_current (NewManager file (st_disk st')))) = map_of (sn_Routes (GetSnapshot st')) \<and>
      map_of (sn_WAFRules (mg_current (NewManager file (st_disk st')))) = map_of (sn_WAFRules (GetSnapshot st'))
    else NewManager file (st_disk st') = NewManager file (st_disk st)"
proof -
  obtain snap where snap: "Option.bind (ms_Data msg) (\<lambda>j. dec_snapshot j no_snapshot) = Some snap" and ty: "ms_Type msg = ''snapshot''"
    using assms(1,2) by (auto simp: HandleMessage_def Let_def split: if_splits option.splits)
  let ?new = "snap\<lparr>sn_Version := ms_Version msg\<rparr>"
  have st': "GetSnapshot st' = ?new" "st_disk st' = (if works then (st_disk st)(file \<mapsto> enc_snapshot ?new) else st_disk st)"
    using HandleMessage_taken [OF assms(2) ty snap, of works] assms(1,3) by (auto simp: GetSnapshot_def saveToDisk_def file_def)
  have ok: "snapshot_ok ?new" by (rule GetSnapshot_ok [OF snap assms(4)])
  have maps: "map_of (sn_Routes (reread ?new)) = map_of (sn_Routes ?new)" "map_of (sn_WAFRules (reread ?new)) = map_of (sn_WAFRules ?new)"
    using ok map_of_sorted [of "sn_Routes ?new"] map_of_sorted [of "sn_WAFRules ?new"] by (simp_all add: reread_def snapshot_ok_def)
  show ?thesis
  proof (cases works)
    case True
    with st'(2) have "mg_current (NewManager file (st_disk st')) = reread ?new \<and> mg_version (NewManager file (st_disk st')) = ms_Version msg"
      using assms(3) decode_snapshot [OF ok] by (simp add: NewManager_def loadFromDisk_def file_def) (simp add: reread_def)
    with True maps st'(1) show ?thesis by simp
  next
    case False
    with st'(2) show ?thesis by simp
  qed
qed

text \<open>
  C24: A restart finds the last configuration: after a message was taken and its write
  succeeded, a new manager on the same file starts from this configuration and version, with
  the same routes and rules; after a failed write it starts from what the file held before.
\<close>

theorem recovery_restores:
  assumes "HandleMessage works msg st = (None, st')" "mg_version (st_manager st) < ms_Version msg"
    and "mg_file (st_manager st) \<noteq> []" "is_int64 (ms_Version msg)"
  defines "file \<equiv> mg_file (st_manager st)"
  shows "if works then
      mg_version (NewManager file (st_disk st')) = ms_Version msg \<and>
      mg_current (NewManager file (st_disk st')) = reread (GetSnapshot st') \<and>
      map_of (sn_Routes (mg_current (NewManager file (st_disk st')))) = map_of (sn_Routes (GetSnapshot st')) \<and>
      map_of (sn_WAFRules (mg_current (NewManager file (st_disk st')))) = map_of (sn_WAFRules (GetSnapshot st'))
    else NewManager file (st_disk st') = NewManager file (st_disk st)"
  using recovery_restores_core [OF assms(1-4)] unfolding file_def .

theorem recovery_restores_witness:
  "sn_Version (mg_current (NewManager ''f'' (st_disk (snd (HandleMessage True (push 3) (start_stream ''f'' Map.empty)))))) = 3"
proof -
  let ?st = "start_stream ''f'' Map.empty"
  have "fst (HandleMessage True (push 3) ?st) = None" by code_simp
  then have run: "HandleMessage True (push 3) ?st = (None, snd (HandleMessage True (push 3) ?st))" by (cases "HandleMessage True (push 3) ?st") simp
  have start: "mg_version (st_manager ?st) < ms_Version (push 3)" "mg_file (st_manager ?st) = ''f''" "is_int64 (ms_Version (push 3))"
    by code_simp+
  have "sn_Version (GetSnapshot (snd (HandleMessage True (push 3) ?st))) = 3" by code_simp
  with recovery_restores [OF run start(1) _ start(3)] start(2) show ?thesis by (simp add: reread_def)
qed

subsection \<open>A slow subscriber\<close>

text \<open>
  A subscriber that does not read for ten messages misses the last one for good: no error is
  reported, and it reads old configurations only until another message comes.
\<close>

lemma slow_subscriber_loses_newest:
  "let st = fold stream_step (OpSubscribe # map (\<lambda>v. OpMessage True \<lparr>ms_Type = ''snapshot'', ms_Data = Some (JObj []), ms_Version = v\<rparr>) [1..10] @ replicate 11 (OpReceive 0)) (start_stream [] Map.empty)
   in map sn_Version (ch_received (hd (st_channels st))) = [0..9] \<and> ch_queue (hd (st_channels st)) = [] \<and> mg_version (st_manager st) = 10"
  by code_simp

end
