(* ===== verification/ControlPlane.thy ===== *)
theory ControlPlane
  imports Streaming GatewayHelpers
begin

text \<open>
  How \<^verbatim>\<open>main.go\<close> talks to the control plane: the answer it polls for, the
  snapshot it makes of it, the snapshot of the local configuration and how both are merged, the
  settings of the agent, and the loop with its growing delays. An answer is the status and the
  JSON of the body; the clock, the SHA-256 of a text and the environment are arguments.
\<close>

subsection \<open>The answer of the control plane\<close>

record subdomain_record =
  sr_FullDomain :: string
  sr_TargetURL :: string
  sr_TargetURLs :: "string list"
  sr_Active :: json

definition no_subdomain :: subdomain_record where
  "no_subdomain = \<lparr>sr_FullDomain = [], sr_TargetURL = [], sr_TargetURLs = [], sr_Active = JNull\<rparr>"

record domain_record =
  dr_Domain :: string
  dr_TargetURL :: string
  dr_TargetURLs :: "string list"
  dr_CertificatePEM :: string
  dr_PrivateKeyPEM :: string
  dr_Active :: json
  dr_Subdomains :: "subdomain_record list"

definition no_domain :: domain_record where
  "no_domain = \<lparr>dr_Domain = [], dr_TargetURL = [], dr_TargetURLs = [], dr_CertificatePEM = [], dr_PrivateKeyPEM = [],
     dr_Active = JNull, dr_Subdomains = []\<rparr>"

record waf_record =
  wf_ID :: string
  wf_Name :: string
  wf_Expression :: string
  wf_Action :: string
  wf_Priority :: int
  wf_ProxyConfigID :: string
  wf_Hosts :: "string list"

definition no_waf_record :: waf_record where
  "no_waf_record = \<lparr>wf_ID = [], wf_Name = [], wf_Expression = [], wf_Action = [], wf_Priority = 0, wf_ProxyConfigID = [],
     wf_Hosts = []\<rparr>"

record domains_response =
  ds_Domains :: "domain_record list option"
  ds_WAFRules :: "waf_record list option"
  ds_ZeroTrustEnabled :: "bool option"
  ds_AgentConfig :: agent_data

definition no_domains :: domains_response where
  "no_domains = \<lparr>ds_Domains = None, ds_WAFRules = None, ds_ZeroTrustEnabled = None, ds_AgentConfig = no_agent\<rparr>"

definition dec_subdomain_record :: "subdomain_record decoder" where
  "dec_subdomain_record = dec_struct
     [(''full_domain'', into dec_string sr_FullDomain (\<lambda>y x. x\<lparr>sr_FullDomain := y\<rparr>)),
      (''target_url'', into dec_string sr_TargetURL (\<lambda>y x. x\<lparr>sr_TargetURL := y\<rparr>)),
      (''target_urls'', into (dec_list dec_string []) sr_TargetURLs (\<lambda>y x. x\<lparr>sr_TargetURLs := y\<rparr>)),
      (''active'', into dec_any sr_Active (\<lambda>y x. x\<lparr>sr_Active := y\<rparr>))]"

definition dec_domain_record :: "domain_record decoder" where
  "dec_domain_record = dec_struct
     [(''domain'', into dec_string dr_Domain (\<lambda>y x. x\<lparr>dr_Domain := y\<rparr>)),
      (''target_url'', into dec_string dr_TargetURL (\<lambda>y x. x\<lparr>dr_TargetURL := y\<rparr>)),
      (''target_urls'', into (dec_list dec_string []) dr_TargetURLs (\<lambda>y x. x\<lparr>dr_TargetURLs := y\<rparr>)),
      (''certificate_pem'', into dec_string dr_CertificatePEM (\<lambda>y x. x\<lparr>dr_CertificatePEM := y\<rparr>)),
      (''private_key_pem'', into dec_string dr_PrivateKeyPEM (\<lambda>y x. x\<lparr>dr_PrivateKeyPEM := y\<rparr>)),
      (''active'', into dec_any dr_Active (\<lambda>y x. x\<lparr>dr_Active := y\<rparr>)),
      (''subdomains'', into (dec_list dec_subdomain_record no_subdomain) dr_Subdomains (\<lambda>y x. x\<lparr>dr_Subdomains := y\<rparr>))]"

definition dec_waf_record :: "waf_record decoder" where
  "dec_waf_record = dec_struct
     [(''id'', into dec_string wf_ID (\<lambda>y x. x\<lparr>wf_ID := y\<rparr>)),
      (''name'', into dec_string wf_Name (\<lambda>y x. x\<lparr>wf_Name := y\<rparr>)),
      (''expression'', into dec_string wf_Expression (\<lambda>y x. x\<lparr>wf_Expression := y\<rparr>)),
      (''action'', into dec_string wf_Action (\<lambda>y x. x\<lparr>wf_Action := y\<rparr>)),
      (''priority'', into dec_int wf_Priority (\<lambda>y x. x\<lparr>wf_Priority := y\<rparr>)),
      (''proxy_config_id'', into dec_string wf_ProxyConfigID (\<lambda>y x. x\<lparr>wf_ProxyConfigID := y\<rparr>)),
      (''hosts'', into (dec_list dec_string []) wf_Hosts (\<lambda>y x. x\<lparr>wf_Hosts := y\<rparr>))]"

definition dec_domains_response :: "domains_response decoder" where
  "dec_domains_response = dec_struct
     [(''domains'', into (dec_slice dec_domain_record no_domain) ds_Domains (\<lambda>y x. x\<lparr>ds_Domains := y\<rparr>)),
      (''waf_rules'', into (dec_slice dec_waf_record no_waf_record) ds_WAFRules (\<lambda>y x. x\<lparr>ds_WAFRules := y\<rparr>)),
      (''zero_trust_enabled'', into dec_bool_ptr ds_ZeroTrustEnabled (\<lambda>y x. x\<lparr>ds_ZeroTrustEnabled := y\<rparr>)),
      (''agent_config'', into dec_agent_config ds_AgentConfig (\<lambda>y x. x\<lparr>ds_AgentConfig := y\<rparr>))]"

subsection \<open>The snapshot it makes\<close>

text \<open>An unknown word, as any other value, counts as active.\<close>

definition apiRecordActive :: "json \<Rightarrow> bool" where
  "apiRecordActive v =
     (case v of
        JNull \<Rightarrow> True
      | JBool b \<Rightarrow> b
      | JInt n \<Rightarrow> n \<noteq> 0
      | JNum r \<Rightarrow> r \<noteq> 0
      | JStr s \<Rightarrow> ToLower (TrimSpace s) \<notin> {''0'', ''false'', ''no'', ''off'', ''inactive'', ''disabled''}
      | _ \<Rightarrow> True)"

definition routeTargetsFromAPI :: "string \<Rightarrow> string list \<Rightarrow> stream_target list" where
  "routeTargetsFromAPI primary urls =
     (if primary \<noteq> [] then [\<lparr>sg_URL = primary, sg_HealthCheck = ''http''\<rparr>] else []) @
     map (\<lambda>u. \<lparr>sg_URL = u, sg_HealthCheck = ''http''\<rparr>) (filter (\<lambda>u. u \<noteq> [] \<and> u \<noteq> primary) urls)"

definition add_subdomain :: "domain_record \<Rightarrow> subdomain_record \<Rightarrow> (string, route_data) gomap \<Rightarrow> (string, route_data) gomap" where
  "add_subdomain d s routes =
     (if \<not> apiRecordActive (dr_Active d) \<or> \<not> apiRecordActive (sr_Active s) \<or> TrimSpace (sr_FullDomain s) = [] then routes
      else AList.update (sr_FullDomain s)
             \<lparr>rd_Type = ''domain'', rd_Target = sr_TargetURL s, rd_Targets = routeTargetsFromAPI (sr_TargetURL s) (sr_TargetURLs s),
              rd_CertificatePEM = [], rd_PrivateKeyPEM = []\<rparr> routes)"

definition add_domain :: "domain_record \<Rightarrow> (string, route_data) gomap \<Rightarrow> (string, route_data) gomap" where
  "add_domain d routes =
     (let routes1 = (if apiRecordActive (dr_Active d) \<and> TrimSpace (dr_Domain d) \<noteq> []
                     then AList.update (dr_Domain d)
                            \<lparr>rd_Type = ''domain'', rd_Target = dr_TargetURL d,
                             rd_Targets = routeTargetsFromAPI (dr_TargetURL d) (dr_TargetURLs d),
                             rd_CertificatePEM = dr_CertificatePEM d, rd_PrivateKeyPEM = dr_PrivateKeyPEM d\<rparr> routes
                     else routes)
      in fold (add_subdomain d) (dr_Subdomains d) routes1)"

text \<open>
  \<^verbatim>\<open>strconv.Quote\<close> on ASCII; the bytes of other runes stay, as those of printable runes
  do.
\<close>

definition quote_digit :: "nat \<Rightarrow> char" where
  "quote_digit n = (if n < 10 then digit_char n else char_of (n - 10 + 97))"

definition quote_char :: "char \<Rightarrow> string" where
  "quote_char c =
     (let n = (of_char c :: nat); esc = (\<lambda>x. [CHR 0x5C, x])
      in if n = 34 \<or> n = 92 then esc c
         else if n = 7 then esc (CHR ''a'') else if n = 8 then esc (CHR ''b'') else if n = 12 then esc (CHR ''f'')
         else if n = 10 then esc (CHR ''n'') else if n = 13 then esc (CHR ''r'') else if n = 9 then esc (CHR ''t'')
         else if n = 11 then esc (CHR ''v'')
         else if n < 32 \<or> n = 127 then esc (CHR ''x'') @ [quote_digit (n div 16), quote_digit (n mod 16)]
         else [c])"

definition Quote :: "string \<Rightarrow> string" where
  "Quote s = CHR 0x22 # concat (map quote_char s) @ [CHR 0x22]"

definition scope_host :: "string \<Rightarrow> string" where
  "scope_host raw = ToLower (TrimSuffix (TrimSpace raw) ''.'')"

text \<open>The hosts of a scope: normalised, without blanks and repetitions.\<close>

fun scope_hosts :: "string list \<Rightarrow> string list \<Rightarrow> string list" where
  "scope_hosts [] hosts = hosts"
| "scope_hosts (raw # raws) hosts =
     (let host = scope_host raw
      in if host = [] \<or> host \<in> set hosts then scope_hosts raws hosts else scope_hosts raws (hosts @ [host]))"

definition scopedWAFExpression :: "string \<Rightarrow> string list \<Rightarrow> string \<times> string list" where
  "scopedWAFExpression expression rawHosts =
     (let hosts = scope_hosts rawHosts []
      in if hosts = [] then (expression, [])
         else (''('' @ Join (map (\<lambda>h. ''Host == '' @ Quote h) hosts) '' || '' @ '') && ('' @ expression @ '')'', hosts))"

definition numbered :: "string \<Rightarrow> int \<Rightarrow> string" where
  "numbered base n = base @ ''#'' @ Itoa n"

text \<open>The loop for a key that is not taken yet.\<close>

function free_key :: "(string, 'a) gomap \<Rightarrow> string \<Rightarrow> string \<Rightarrow> nat \<Rightarrow> string" where
  "free_key rules base key n =
     (if map_of rules key = None then key else free_key rules base (numbered base (int n)) (Suc n))"
  by pat_completeness auto

lemma numbered_inj: "numbered base (int m) = numbered base (int n) \<Longrightarrow> m = n"
  by (simp add: numbered_def Itoa_def nat_digits_inj)

lemma taken_finite: "finite {m. n \<le> m \<and> map_of rules (numbered base (int m)) \<noteq> None}"
proof (rule finite_imageD)
  have "(\<lambda>m. numbered base (int m)) ` {m. n \<le> m \<and> map_of rules (numbered base (int m)) \<noteq> None} \<subseteq> dom (map_of rules)"
    by (auto simp: dom_def)
  then show "finite ((\<lambda>m. numbered base (int m)) ` {m. n \<le> m \<and> map_of rules (numbered base (int m)) \<noteq> None})"
    using finite_dom_map_of finite_subset by blast
  show "inj_on (\<lambda>m. numbered base (int m)) {m. n \<le> m \<and> map_of rules (numbered base (int m)) \<noteq> None}"
    using numbered_inj by (auto simp: inj_on_def)
qed

text \<open>Each round uses up one of the finitely many taken numbers.\<close>

definition keys_ahead :: "(string, 'a) gomap \<times> string \<times> string \<times> nat \<Rightarrow> nat" where
  "keys_ahead = (\<lambda>(rules, base, key, n).
     if map_of rules key = None then 0 else Suc (card {m. n \<le> m \<and> map_of rules (numbered base (int m)) \<noteq> None}))"

termination free_key
proof (relation "measure keys_ahead")
  fix rules :: "(string, 'a) gomap" and base key :: string and n :: nat
  assume taken: "map_of rules key \<noteq> None"
  let ?S = "\<lambda>n. {m. n \<le> m \<and> map_of rules (numbered base (int m)) \<noteq> None}"
  have "card (?S (Suc n)) < card (?S n)" if "map_of rules (numbered base (int n)) \<noteq> None"
  proof (rule psubset_card_mono [OF taken_finite])
    have "n \<in> ?S n" "n \<notin> ?S (Suc n)" "?S (Suc n) \<subseteq> ?S n" using that by auto
    then show "?S (Suc n) \<subset> ?S n" by blast
  qed
  with taken show "((rules, base, numbered base (int n), Suc n), (rules, base, key, n)) \<in> measure keys_ahead"
    by (auto simp: keys_ahead_def)
qed simp

declare free_key.simps [simp del]

lemma free_key_free: "map_of rules (free_key rules base key n) = None"
proof (induction rules base key n rule: free_key.induct)
  case (1 rules base key n)
  then show ?case by (cases "map_of rules key") (simp_all add: free_key.simps [of rules base key n])
qed

text \<open>
  The name of a rule with its hosts, how often it was used by now, and the name with the
  number that tells it from the others.
\<close>

definition rule_name :: "(string, int) gomap \<Rightarrow> string \<Rightarrow> string list \<Rightarrow> string \<times> int \<times> string" where
  "rule_name used name0 hosts =
     (let name = (if hosts \<noteq> [] then name0 @ '' ['' @ Join hosts '','' @ '']'' else name0);
          count = (case map_of used name of None \<Rightarrow> 1 | Some n \<Rightarrow> n + 1)
      in (name, count, if 1 < count then name @ '' #'' @ Itoa count else name))"

text \<open>The rules so far, and how often each name was used.\<close>

definition add_rule :: "waf_record \<Rightarrow> (string, int) gomap \<times> (string, waf_data) gomap \<Rightarrow> (string, int) gomap \<times> (string, waf_data) gomap" where
  "add_rule rule st =
     (let (used, rules) = st; name0 = ifEmpty (TrimSpace (wf_Name rule)) (TrimSpace (wf_ID rule))
      in if name0 = [] \<or> TrimSpace (wf_Expression rule) = [] then st
         else if wf_ProxyConfigID rule \<noteq> [] \<and> wf_Hosts rule = [] then st
         else (let (expression, hosts) = scopedWAFExpression (wf_Expression rule) (wf_Hosts rule);
                   (name, count, full) = rule_name used name0 hosts;
                   base = ifEmpty (TrimSpace (wf_ID rule)) full;
                   key = free_key rules base base 2
               in (AList.update name count used,
                   AList.update key \<lparr>wd_Name = full, wd_Expression = expression, wd_Action = ifEmpty (wf_Action rule) ''BLOCK'',
                                     wd_Priority = wf_Priority rule\<rparr> rules)))"

definition snapshotFromDomainsResponse :: "domains_response \<Rightarrow> snapshot" where
  "snapshotFromDomainsResponse payload =
     (let domains = (case ds_Domains payload of None \<Rightarrow> [] | Some ds \<Rightarrow> ds);
          waf = (case ds_WAFRules payload of None \<Rightarrow> [] | Some rs \<Rightarrow> rs)
      in \<lparr>sn_Version = 0, sn_Routes = fold add_domain domains [], sn_RoutesConfigured = (ds_Domains payload \<noteq> None),
          sn_WAFRules = snd (fold add_rule waf ([], [])), sn_WAFRulesConfigured = (ds_WAFRules payload \<noteq> None),
          sn_Users = [], sn_UserDomains = [],
          sn_ZeroTrustEnabled = (case ds_ZeroTrustEnabled payload of None \<Rightarrow> False | Some b \<Rightarrow> b),
          sn_ZeroTrustConfigured = (ds_ZeroTrustEnabled payload \<noteq> None), sn_AgentConfig = ds_AgentConfig payload\<rparr>)"

subsection \<open>The local configuration and the merge\<close>

definition local_targets :: "config_route \<Rightarrow> stream_target list" where
  "local_targets route =
     (let target = TrimSpace (cfr_Target route)
      in (if target \<noteq> [] then [\<lparr>sg_URL = target, sg_HealthCheck = ''http''\<rparr>] else []) @
         map (\<lambda>t. \<lparr>sg_URL = TrimSpace (ct_URL t), sg_HealthCheck = ifEmpty (ToLower (TrimSpace (ct_HealthCheck t))) ''http''\<rparr>)
           (filter (\<lambda>t. TrimSpace (ct_URL t) \<noteq> []) (cfr_Targets route)))"

definition add_local_route :: "string \<times> config_route \<Rightarrow> (string, route_data) gomap \<Rightarrow> (string, route_data) gomap" where
  "add_local_route kr routes =
     (let (key0, route) = kr; key = TrimSpace key0; targets = local_targets route
      in if key = [] \<or> \<not> IsActive route \<or> targets = [] then routes
         else AList.update key \<lparr>rd_Type = ifEmpty (ToLower (TrimSpace (cfr_Type route))) ''domain'', rd_Target = [],
                rd_Targets = targets, rd_CertificatePEM = cfr_CertificatePEM route, rd_PrivateKeyPEM = cfr_PrivateKeyPEM route\<rparr> routes)"

definition localConfigSnapshot :: "config option \<Rightarrow> snapshot" where
  "localConfigSnapshot cfg =
     (case cfg of
        None \<Rightarrow> no_snapshot
      | Some c \<Rightarrow> no_snapshot\<lparr>sn_RoutesConfigured := cf_Routes c \<noteq> None,
          sn_Routes := fold add_local_route (case cf_Routes c of None \<Rightarrow> [] | Some rs \<Rightarrow> rs) []\<rparr>)"

definition snapshotHasContent :: "snapshot option \<Rightarrow> bool" where
  "snapshotHasContent s =
     (case s of
        None \<Rightarrow> False
      | Some s \<Rightarrow> 0 < sn_Version s \<or> sn_RoutesConfigured s \<or> sn_WAFRulesConfigured s \<or> sn_Routes s \<noteq> [] \<or> sn_WAFRules s \<noteq> [] \<or>
          sn_Users s \<noteq> [] \<or> sn_UserDomains s \<noteq> [] \<or> \<not> agent_IsZero (sn_AgentConfig s))"

definition put_all :: "('k, 'v) gomap \<Rightarrow> ('k, 'v) gomap \<Rightarrow> ('k, 'v) gomap" where
  "put_all new m = fold (\<lambda>(k, v). AList.update k v) new m"

definition mergeConfigSnapshots :: "snapshot option \<Rightarrow> snapshot option \<Rightarrow> snapshot" where
  "mergeConfigSnapshots localSnap remote =
     (let m0 = no_snapshot;
          m1 = (case localSnap of None \<Rightarrow> m0 | Some l \<Rightarrow>
                  m0\<lparr>sn_RoutesConfigured := sn_RoutesConfigured l \<or> sn_Routes l \<noteq> [], sn_Routes := put_all (sn_Routes l) []\<rparr>)
      in case remote of
           None \<Rightarrow> m1
         | Some r \<Rightarrow>
             m1\<lparr>sn_Version := sn_Version r, sn_RoutesConfigured := sn_RoutesConfigured m1 \<or> sn_RoutesConfigured r \<or> sn_Routes r \<noteq> [],
                sn_Routes := put_all (sn_Routes r) (sn_Routes m1),
                sn_WAFRulesConfigured := sn_WAFRulesConfigured r \<or> sn_WAFRules r \<noteq> [],
                sn_WAFRules := put_all (sn_WAFRules r) [], sn_Users := sn_Users r, sn_UserDomains := sn_UserDomains r,
                sn_ZeroTrustEnabled := sn_ZeroTrustEnabled r, sn_ZeroTrustConfigured := sn_ZeroTrustConfigured r,
                sn_AgentConfig := sn_AgentConfig r\<rparr>)"

subsection \<open>The settings of the agent\<close>

definition model_settings :: "agent_model \<Rightarrow> model_config" where
  "model_settings a = \<lparr>mc_Enabled = ao_Enabled a, mc_Threshold = ao_Threshold a, mc_ModelPath = ao_ModelPath a,
     mc_ScalerPath = ao_ScalerPath a, mc_PythonScript = ao_PythonScript a, mc_FeatureHeader = ao_FeatureHeader a\<rparr>"

definition applyAgentConfigToConfig :: "agent_data \<Rightarrow> config \<Rightarrow> config" where
  "applyAgentConfigToConfig a cfg =
     (if agent_IsZero a then cfg
      else cfg\<lparr>cf_CacheEnabled := ac_Enabled (ag_Cache a), cf_CacheTTLSeconds := ac_TTLSeconds (ag_Cache a),
         cf_CacheMaxEntries := ac_MaxEntries (ag_Cache a), cf_CacheMaxBodyBytes := ac_MaxBodyBytes (ag_Cache a),
         cf_RateEnabled := al_Enabled (ag_RateLimit a), cf_RequestsPerMinute := al_RequestsPerMinute (ag_RateLimit a),
         cf_RateBurst := al_Burst (ag_RateLimit a), cf_RateKey := al_Key (ag_RateLimit a),
         cf_QueueEnabled := aq_Enabled (ag_RequestQueue a), cf_MaxConcurrent := aq_MaxConcurrent (ag_RequestQueue a),
         cf_MaxQueued := aq_MaxQueued (ag_RequestQueue a), cf_QueueTimeoutSeconds := aq_TimeoutSeconds (ag_RequestQueue a),
         cf_BandwidthEnabled := ab_Enabled (ag_Bandwidth a), cf_BytesPerSecond := ab_BytesPerSecond (ag_Bandwidth a),
         cf_BurstBytes := ab_BurstBytes (ag_Bandwidth a), cf_BandwidthKey := ab_Key (ag_Bandwidth a),
         cf_MetricsEnabled := am_Enabled (ag_Metrics a), cf_MetricsPath := am_Path (ag_Metrics a),
         cf_KodaWaf := model_settings (ag_KodaWaf a), cf_Koda2 := model_settings (ag_Koda2 a)\<rparr>)"

definition addStreamAuthHeaders :: "(string \<Rightarrow> string) \<Rightarrow> string \<Rightarrow> header \<Rightarrow> header" where
  "addStreamAuthHeaders env apiKey h =
     (let h1 = (if apiKey \<noteq> [] then hdr_set ''Authorization'' (''Bearer '' @ apiKey) (hdr_set ''X-API-Key'' apiKey h) else h);
          ztk = env ''DiamondKey'';
          h2 = (if ztk \<noteq> [] then hdr_set ''X-Zero-Trust-Key'' ztk (hdr_set ''X-Diamond-Key'' ztk h1) else h1);
          legacy = env ''ZERO_TRUST_KEY''
      in if legacy \<noteq> [] then hdr_set ''X-Zero-Trust-Key'' legacy h2 else h2)"

text \<open>An answer to a request to the control plane: none, a status, a body.\<close>

datatype body = BodyFails | BodyTooLong | BodyText "json option"

datatype answer = NoAnswer string | AnswerOf int body

definition fetchAgentConfig :: "answer \<Rightarrow> string + agent_data" where
  "fetchAgentConfig ans =
     (case ans of
        NoAnswer e \<Rightarrow> Inl e
      | AnswerOf status b \<Rightarrow>
          if status \<noteq> StatusOK then Inl ''unexpected agent config status''
          else (case b of
                  BodyText (Some j) \<Rightarrow>
                    (case dec_struct [(''agent_config'', dec_agent_config)] j no_agent of
                       None \<Rightarrow> Inl ''decode'' | Some a \<Rightarrow> Inr a)
                | _ \<Rightarrow> Inl ''decode''))"

subsection \<open>Polling\<close>

record poll_settings =
  pl_poll :: duration
  pl_request :: duration
  pl_maxRetry :: duration

definition seconds :: "int \<Rightarrow> duration" where
  "seconds n = int64 (n * Second)"

definition streamSettingsFromConfig :: "config option \<Rightarrow> poll_settings" where
  "streamSettingsFromConfig cfg =
     (let s0 = \<lparr>pl_poll = 5 * Second, pl_request = 10 * Second, pl_maxRetry = 2 * Minute\<rparr>
      in case cfg of
           None \<Rightarrow> s0
         | Some c \<Rightarrow>
             (let s1 = (if 0 < cf_PollIntervalSeconds c then s0\<lparr>pl_poll := seconds (cf_PollIntervalSeconds c)\<rparr> else s0);
                  s2 = (if 0 < cf_ConnectionTimeoutSeconds c then s1\<lparr>pl_request := seconds (cf_ConnectionTimeoutSeconds c)\<rparr> else s1);
                  s3 = (if 0 < cf_MaxRetryIntervalSeconds c then s2\<lparr>pl_maxRetry := seconds (cf_MaxRetryIntervalSeconds c)\<rparr> else s2)
              in if pl_maxRetry s3 < pl_poll s3 then s3\<lparr>pl_maxRetry := pl_poll s3\<rparr> else s3))"

record poll_state =
  ps_digest :: "string option"
  ps_lastVersion :: int

text \<open>One poll: what is returned, and the new states.\<close>

definition pollDomains :: "(json \<Rightarrow> string) \<Rightarrow> int \<Rightarrow> bool \<Rightarrow> answer \<Rightarrow> poll_state \<Rightarrow> stream_state
    \<Rightarrow> (string + bool) \<times> poll_state \<times> stream_state" where
  "pollDomains hash now works ans ps st =
     (case ans of
        NoAnswer e \<Rightarrow> (Inl e, ps, st)
      | AnswerOf status b \<Rightarrow>
          if status = StatusUnauthorized \<or> status = StatusForbidden then (Inl ''unauthorized'', ps, st)
          else if status \<noteq> StatusOK then (Inl ''unexpected status'', ps, st)
          else (case b of
                  BodyFails \<Rightarrow> (Inl ''read'', ps, st)
                | BodyTooLong \<Rightarrow> (Inl ''too long'', ps, st)
                | BodyText text \<Rightarrow>
                    (case Option.bind text (\<lambda>j. dec_domains_response j no_domains) of
                       None \<Rightarrow> (Inl ''decode'', ps, st)
                     | Some payload \<Rightarrow>
                         (let snap = snapshotFromDomainsResponse payload; digest = hash (enc_snapshot snap)
                          in if ps_digest ps = Some digest then (Inr False, ps, st)
                             else (let version = (if now \<le> ps_lastVersion ps then int64 (ps_lastVersion ps + 1) else now);
                                       data = enc_snapshot (snap\<lparr>sn_Version := version\<rparr>);
                                       (err, st') = HandleMessage works \<lparr>ms_Type = ''snapshot'', ms_Data = Some data, ms_Version = version\<rparr> st
                                   in case err of
                                        Some e \<Rightarrow> (Inl e, ps, st')
                                      | None \<Rightarrow> (Inr True, \<lparr>ps_digest = Some digest, ps_lastVersion = version\<rparr>, st'))))))"

record loop_state =
  lp_retry :: duration
  lp_failures :: nat

definition start_loop :: "poll_settings \<Rightarrow> loop_state" where
  "start_loop s = \<lparr>lp_retry = pl_poll s, lp_failures = 0\<rparr>"

text \<open>What the loop does with the result of a poll, and how long it then sleeps.\<close>

definition loop_step :: "poll_settings \<Rightarrow> string + bool \<Rightarrow> loop_state \<Rightarrow> stream_state \<Rightarrow> duration \<times> loop_state \<times> stream_state" where
  "loop_step s result lp st =
     (case result of
        Inl e \<Rightarrow>
          (let doubled = int64 (lp_retry lp * 2);
               retry = (if lp_retry lp < pl_maxRetry s then (if pl_maxRetry s < doubled then pl_maxRetry s else doubled) else lp_retry lp)
           in (lp_retry lp, \<lparr>lp_retry = retry, lp_failures = lp_failures lp + 1\<rparr>, SetConnectionStatus False (Some e) st))
      | Inr changed \<Rightarrow> (pl_poll s, \<lparr>lp_retry = pl_poll s, lp_failures = 0\<rparr>, SetConnectionStatus True None st))"

text \<open>The loop over the answers it gets, with the times of the polls: the delays, and the last states.\<close>

fun connectToAPIStream :: "(json \<Rightarrow> string) \<Rightarrow> poll_settings \<Rightarrow> (int \<times> bool \<times> answer) list \<Rightarrow> loop_state \<Rightarrow> poll_state \<Rightarrow> stream_state
    \<Rightarrow> duration list \<times> loop_state \<times> poll_state \<times> stream_state" where
  "connectToAPIStream hash s [] lp ps st = ([], lp, ps, st)"
| "connectToAPIStream hash s ((now, works, ans) # as) lp ps st =
     (let (result, ps1, st1) = pollDomains hash now works ans ps st;
          (delay, lp1, st2) = loop_step s result lp st1;
          (delays, rest) = connectToAPIStream hash s as lp1 ps1 st2
      in (delay # delays, rest))"

definition start_polling :: "stream_state \<Rightarrow> poll_state" where
  "start_polling st = \<lparr>ps_digest = None, ps_lastVersion = sn_Version (GetSnapshot st)\<rparr>"

subsection \<open>The snapshot and the payload\<close>

lemma fold_update_ok: "(\<And>x m. map_ok m \<Longrightarrow> map_ok (f x m)) \<Longrightarrow> map_ok m \<Longrightarrow> map_ok (fold f xs m)"
  by (induction xs arbitrary: m) simp_all

lemma add_subdomain_ok: "map_ok m \<Longrightarrow> map_ok (add_subdomain d s m)"
  by (simp add: add_subdomain_def map_ok_update)

lemma add_domain_ok: "map_ok m \<Longrightarrow> map_ok (add_domain d m)"
  unfolding add_domain_def Let_def by (intro fold_update_ok add_subdomain_ok) (simp_all add: map_ok_update)

text \<open>The names of the active records, in order.\<close>

definition active_names :: "domain_record \<Rightarrow> string list" where
  "active_names d =
     (if apiRecordActive (dr_Active d)
      then filter (\<lambda>n. TrimSpace n \<noteq> []) (dr_Domain d # map sr_FullDomain (filter (\<lambda>s. apiRecordActive (sr_Active s)) (dr_Subdomains d)))
      else [])"

lemma fold_subdomains_dom:
  assumes "apiRecordActive (dr_Active d)"
  shows "dom (map_of (fold (add_subdomain d) ss m)) = dom (map_of m) \<union>
    {n. TrimSpace n \<noteq> [] \<and> n \<in> sr_FullDomain ` {s \<in> set ss. apiRecordActive (sr_Active s)}}"
  by (induction ss arbitrary: m) (auto simp: add_subdomain_def assms)

lemma fold_subdomains_inactive: "\<not> apiRecordActive (dr_Active d) \<Longrightarrow> fold (add_subdomain d) ss m = m"
  by (induction ss arbitrary: m) (simp_all add: add_subdomain_def)

lemma add_domain_dom: "dom (map_of (add_domain d m)) = dom (map_of m) \<union> set (active_names d)"
  by (cases "apiRecordActive (dr_Active d)")
     (auto simp: add_domain_def active_names_def Let_def fold_subdomains_dom fold_subdomains_inactive)

lemma add_domains_dom: "dom (map_of (fold add_domain ds m)) = dom (map_of m) \<union> (\<Union>d \<in> set ds. set (active_names d))"
  by (induction ds arbitrary: m) (auto simp: add_domain_dom)

lemma active_names_mem:
  "n \<in> set (active_names d) \<longleftrightarrow> apiRecordActive (dr_Active d) \<and> TrimSpace n \<noteq> [] \<and>
     (n = dr_Domain d \<or> (\<exists>s \<in> set (dr_Subdomains d). apiRecordActive (sr_Active s) \<and> n = sr_FullDomain s))"
  by (auto simp: active_names_def)

text \<open>
  The control plane's routes: a name is a route of the snapshot exactly when it is not
  blank and an active domain, or an active subdomain of an active domain, of the answer has it.
\<close>

theorem snapshot_routes:
  "map_of (sn_Routes (snapshotFromDomainsResponse payload)) n \<noteq> None \<longleftrightarrow>
   TrimSpace n \<noteq> [] \<and> (\<exists>ds d. ds_Domains payload = Some ds \<and> d \<in> set ds \<and> apiRecordActive (dr_Active d) \<and>
     (n = dr_Domain d \<or> (\<exists>s \<in> set (dr_Subdomains d). apiRecordActive (sr_Active s) \<and> n = sr_FullDomain s)))"
proof -
  have "map_of (sn_Routes (snapshotFromDomainsResponse payload)) n \<noteq> None \<longleftrightarrow>
      n \<in> dom (map_of (fold add_domain (case ds_Domains payload of None \<Rightarrow> [] | Some ds \<Rightarrow> ds) []))"
    by (auto simp: snapshotFromDomainsResponse_def Let_def dom_def)
  then show ?thesis by (cases "ds_Domains payload") (simp_all add: add_domains_dom active_names_mem, blast)
qed

text \<open>Which rules are taken, and what of one does not depend on the others.\<close>

definition taken_rule :: "waf_record \<Rightarrow> bool" where
  "taken_rule r = (ifEmpty (TrimSpace (wf_Name r)) (TrimSpace (wf_ID r)) \<noteq> [] \<and> TrimSpace (wf_Expression r) \<noteq> [] \<and>
     (wf_ProxyConfigID r \<noteq> [] \<longrightarrow> wf_Hosts r \<noteq> []))"

definition rule_body :: "waf_record \<Rightarrow> string \<times> string \<times> int" where
  "rule_body r = (fst (scopedWAFExpression (wf_Expression r) (wf_Hosts r)), ifEmpty (wf_Action r) ''BLOCK'', wf_Priority r)"

definition data_body :: "waf_data \<Rightarrow> string \<times> string \<times> int" where
  "data_body w = (wd_Expression w, wd_Action w, wd_Priority w)"

lemma add_rule_body:
  "map (data_body \<circ> snd) (snd (add_rule r (used, rules))) = map (data_body \<circ> snd) rules @ (if taken_rule r then [rule_body r] else []) \<and>
   (map_ok rules \<longrightarrow> map_ok (snd (add_rule r (used, rules))))"
proof (cases "taken_rule r")
  case False
  then show ?thesis by (auto simp: add_rule_def taken_rule_def Let_def)
next
  case True
  obtain e hosts where sc: "scopedWAFExpression (wf_Expression r) (wf_Hosts r) = (e, hosts)" by fastforce
  obtain name count full where nm: "rule_name used (ifEmpty (TrimSpace (wf_Name r)) (TrimSpace (wf_ID r))) hosts = (name, count, full)"
    by (metis prod_cases3)
  define base where "base = ifEmpty (TrimSpace (wf_ID r)) full"
  have step: "snd (add_rule r (used, rules)) =
      AList.update (free_key rules base base 2) \<lparr>wd_Name = full, wd_Expression = e, wd_Action = ifEmpty (wf_Action r) ''BLOCK'',
        wd_Priority = wf_Priority r\<rparr> rules"
    using True unfolding taken_rule_def add_rule_def Let_def prod.case sc nm base_def by auto
  have "free_key rules base base 2 \<notin> fst ` set rules" using free_key_free [of rules base base 2] by (simp add: map_of_eq_None_iff)
  note fresh = update_fresh [OF this]
  have "map_ok rules \<longrightarrow> map_ok (snd (add_rule r (used, rules)))" unfolding step by (simp add: map_ok_update)
  moreover have "map (data_body \<circ> snd) (snd (add_rule r (used, rules))) = map (data_body \<circ> snd) rules @ [rule_body r]"
    unfolding step fresh using sc by (simp add: rule_body_def data_body_def)
  ultimately show ?thesis using True by simp
qed

lemma add_rules_body:
  "map (data_body \<circ> snd) (snd (fold add_rule rs (used, rules))) = map (data_body \<circ> snd) rules @ map rule_body (filter taken_rule rs) \<and>
   (map_ok rules \<longrightarrow> map_ok (snd (fold add_rule rs (used, rules))))"
proof (induction rs arbitrary: used rules)
  case (Cons r rs)
  obtain used' rules' where st: "add_rule r (used, rules) = (used', rules')" by fastforce
  show ?case using Cons.IH [of used' rules'] add_rule_body [of r used rules] st by (cases "taken_rule r") (auto simp: o_def)
qed simp

lemma scope_hosts_set: "distinct hosts \<Longrightarrow> [] \<notin> set hosts \<Longrightarrow>
  distinct (scope_hosts raws hosts) \<and> set (scope_hosts raws hosts) = set hosts \<union> (scope_host ` set raws - {[]})"
proof (induction raws hosts rule: scope_hosts.induct)
  case (2 raw raws hosts)
  show ?case
  proof (cases "scope_host raw = [] \<or> scope_host raw \<in> set hosts")
    case True
    with 2 show ?thesis by auto
  next
    case False
    with 2 show ?thesis by auto
  qed
qed simp


definition shop_rules :: "waf_record list" where
  "shop_rules = [no_waf_record\<lparr>wf_Name := ''R'', wf_Expression := ''true'', wf_ProxyConfigID := ''p'', wf_Hosts := ['' Shop.com.'', [], ''shop.com'']\<rparr>,
     no_waf_record\<lparr>wf_Name := ''R'', wf_Expression := ''false'', wf_ProxyConfigID := ''q''\<rparr>]"


text \<open>
  Two things the comments of the source do not promise: a scope that consists of blanks makes
  a rule global although rules without hosts are skipped for this reason, and the numbers that
  tell rules of one name apart may give a name that is taken.
\<close>

lemma blank_scope_is_global:
  "rule_body (no_waf_record\<lparr>wf_Name := ''R'', wf_Expression := ''true'', wf_ProxyConfigID := ''p'', wf_Hosts := ['' '']\<rparr>) = (''true'', ''BLOCK'', 0) \<and>
   taken_rule (no_waf_record\<lparr>wf_Name := ''R'', wf_Expression := ''true'', wf_ProxyConfigID := ''p'', wf_Hosts := ['' '']\<rparr>)"
  by code_simp

lemma rule_names_collide:
  "map (wd_Name \<circ> snd) (sn_WAFRules (snapshotFromDomainsResponse (no_domains\<lparr>ds_WAFRules := Some (map
      (\<lambda>n. no_waf_record\<lparr>wf_Name := n, wf_Expression := ''true''\<rparr>) [''A'', ''A'', ''A #2''])\<rparr>))) = [''A'', ''A #2'', ''A #2'']"
  by code_simp

subsection \<open>Whatever is decoded fits\<close>

definition payload_ok :: "domains_response \<Rightarrow> bool" where
  "payload_ok p = ((\<forall>rs. ds_WAFRules p = Some rs \<longrightarrow> (\<forall>r \<in> set rs. is_int64 (wf_Priority r))) \<and>
     list_all is_int64 (agent_ints (ds_AgentConfig p)))"

lemma dec_all_keeps: "decodes_to P d \<Longrightarrow> P zero \<Longrightarrow> dec_all d zero js = Some xs \<Longrightarrow> \<forall>x \<in> set xs. P x"
proof (induction js arbitrary: xs)
  case (Cons j js)
  then obtain x ys where "d j zero = Some x" "dec_all d zero js = Some ys" "xs = x # ys" by (auto split: option.splits)
  with Cons show ?case using decodes_toD [of P d j zero x] by simp
qed simp

lemma waf_record_fits: "decodes_to (\<lambda>r. is_int64 (wf_Priority r)) dec_waf_record"
  unfolding dec_waf_record_def by (rule dec_struct_keeps) (auto intro!: decodes_into dest: dec_int_range)

lemma payload_fits: "dec_domains_response j no_domains = Some p \<Longrightarrow> payload_ok p"
proof -
  have rules: "decodes_to payload_ok (into (dec_slice dec_waf_record no_waf_record) ds_WAFRules (\<lambda>y x. x\<lparr>ds_WAFRules := y\<rparr>))"
  proof (rule decodes_into)
    fix j and x :: domains_response and y
    assume x: "payload_ok x" and y: "dec_slice dec_waf_record no_waf_record j (ds_WAFRules x) = Some y"
    have zero: "is_int64 (wf_Priority no_waf_record)" by (simp add: no_waf_record_def is_int64_def)
    have "\<forall>r \<in> set rs. is_int64 (wf_Priority r)" if "y = Some rs" for rs
    proof (cases j)
      case (JArr js)
      then have "dec_all dec_waf_record no_waf_record js = Some rs" using y that by (simp add: dec_slice_def)
      from dec_all_keeps [OF waf_record_fits zero this] show ?thesis .
    qed (use y that in \<open>simp_all add: dec_slice_def\<close>)
    with x show "payload_ok (x\<lparr>ds_WAFRules := y\<rparr>)" by (simp add: payload_ok_def)
  qed
  have "decodes_to payload_ok dec_domains_response"
    unfolding dec_domains_response_def
    by (rule dec_struct_keeps) (auto intro!: rules decodes_into simp: payload_ok_def dest: agent_config_fits)
  moreover have "payload_ok no_domains"
    by (simp add: payload_ok_def no_domains_def agent_ints_def no_agent_def no_cache_def no_rate_def no_queue_def no_bandwidth_def is_int64_def)
  ultimately show "dec_domains_response j no_domains = Some p \<Longrightarrow> payload_ok p" unfolding decodes_to_def by blast
qed

lemma snapshot_of_payload_ok:
  assumes "payload_ok p"
  shows "snapshot_ok (snapshotFromDomainsResponse p)"
proof -
  let ?rs = "case ds_WAFRules p of None \<Rightarrow> [] | Some rs \<Rightarrow> rs"
  let ?rules = "snd (fold add_rule ?rs ([], []))"
  have body: "map (data_body \<circ> snd) ?rules = map rule_body (filter taken_rule ?rs)" and ok: "map_ok ?rules"
    using add_rules_body [of ?rs "[]" "[]"] by simp_all
  have "is_int64 (wd_Priority w)" if "(k, w) \<in> set ?rules" for k w
  proof -
    have "data_body w \<in> set (map (data_body \<circ> snd) ?rules)" using that by force
    then obtain r where "r \<in> set ?rs" "data_body w = rule_body r" unfolding body by auto
    then show ?thesis using assms by (cases "ds_WAFRules p") (auto simp: payload_ok_def data_body_def rule_body_def)
  qed
  moreover have "map_ok (fold add_domain (case ds_Domains p of None \<Rightarrow> [] | Some ds \<Rightarrow> ds) [])"
    by (intro fold_update_ok add_domain_ok) simp_all
  ultimately show ?thesis using ok assms
    by (auto simp: snapshot_ok_def snapshotFromDomainsResponse_def Let_def payload_ok_def is_int64_def)
qed

subsection \<open>What a poll does\<close>

lemma poll_handled:
  assumes "dec_domains_response j no_domains = Some payload"
    and "ps_lastVersion ps = mg_version (st_manager st)" "is_int64 now" "is_int64 (ps_lastVersion ps)" "ps_lastVersion ps \<noteq> 2 ^ 63 - 1"
    and "pollDomains hash now works (AnswerOf StatusOK (BodyText (Some j))) ps st = (result, ps', st')"
    and "ps_digest ps \<noteq> Some (hash (enc_snapshot (snapshotFromDomainsResponse payload)))"
  obtains version msg where "result = Inr True" "ps_lastVersion ps' = version" "mg_version (st_manager st) < version" "is_int64 version"
    "ms_Version msg = version" "HandleMessage works msg st = (None, st')" "mg_version (st_manager st') = version"
    "GetSnapshot st' = reread ((snapshotFromDomainsResponse payload)\<lparr>sn_Version := version\<rparr>)"
proof -
  define snap where "snap = snapshotFromDomainsResponse payload"
  have ok: "snapshot_ok snap" unfolding snap_def by (rule snapshot_of_payload_ok [OF payload_fits [OF assms(1)]])
  define version where "version = (if now \<le> ps_lastVersion ps then int64 (ps_lastVersion ps + 1) else now)"
  have v: "ps_lastVersion ps < version" "is_int64 version"
    using assms(3-5) by (auto simp: version_def is_int64_def int64_def)
  let ?snap = "snap\<lparr>sn_Version := version\<rparr>"
  have vok: "snapshot_ok ?snap" using ok v(2) by (simp add: snapshot_ok_def)
  let ?msg = "\<lparr>ms_Type = ''snapshot'', ms_Data = Some (enc_snapshot ?snap), ms_Version = version\<rparr>"
  have codes: "StatusOK \<noteq> StatusUnauthorized" "StatusOK \<noteq> StatusForbidden"
    by (simp_all add: StatusOK_def StatusUnauthorized_def StatusForbidden_def)
  have "mg_version (st_manager st) < ms_Version ?msg" "ms_Type ?msg = ''snapshot''"
    "Option.bind (ms_Data ?msg) (\<lambda>j. dec_snapshot j no_snapshot) = Some (reread ?snap)"
    using v(1) assms(2) decode_snapshot [OF vok] by simp_all
  from HandleMessage_taken [OF this, of works] obtain st2 where
    h: "HandleMessage works ?msg st = (None, st2)" and cur: "mg_current (st_manager st2) = (reread ?snap)\<lparr>sn_Version := version\<rparr>"
      "mg_version (st_manager st2) = version" by simp
  have "pollDomains hash now works (AnswerOf StatusOK (BodyText (Some j))) ps st =
      (Inr True, \<lparr>ps_digest = Some (hash (enc_snapshot snap)), ps_lastVersion = version\<rparr>, st2)"
    using assms(1,7) codes h [unfolded version_def] by (simp add: pollDomains_def snap_def Let_def version_def)
  then have r: "result = Inr True" "ps_lastVersion ps' = version" "st' = st2" using assms(6) by simp_all
  have "GetSnapshot st' = reread ?snap" using cur(1) r(3) by (simp add: GetSnapshot_def reread_def)
  with r v assms(2) h cur(2) show ?thesis by (intro that [of version ?msg]) (simp_all add: snap_def)
qed


definition one_domain :: json where
  "one_domain = JObj [(''domains'', JArr [JObj [(''domain'', JStr ''a.com''), (''target_url'', JStr ''http://a'')]])]"


subsection \<open>The delays\<close>

lemma seconds_exact: "0 < n \<Longrightarrow> n \<le> 4611686018 \<Longrightarrow> seconds n = n * Second \<and> 0 < seconds n \<and> seconds n \<le> 2 ^ 62"
  by (simp add: seconds_def int64_def Second_def)

text \<open>The settings that do not overflow: 4611686018 seconds are 146 years.\<close>

definition sane_intervals :: "config \<Rightarrow> bool" where
  "sane_intervals c = (cf_PollIntervalSeconds c \<le> 4611686018 \<and> cf_MaxRetryIntervalSeconds c \<le> 4611686018)"

lemma sane_settings:
  assumes "sane_intervals c"
  defines "s \<equiv> streamSettingsFromConfig (Some c)"
  shows "0 < pl_poll s \<and> pl_poll s \<le> pl_maxRetry s \<and> pl_maxRetry s \<le> 2 ^ 62"
  using assms(1) seconds_exact [of "cf_PollIntervalSeconds c"] seconds_exact [of "cf_MaxRetryIntervalSeconds c"]
  by (auto simp: s_def sane_intervals_def streamSettingsFromConfig_def Let_def Minute_def Second_def)

text \<open>The delay that comes next is the poll interval doubled some number of times, up to the maximum.\<close>

definition backed_off :: "poll_settings \<Rightarrow> nat \<Rightarrow> duration" where
  "backed_off s n = min (pl_maxRetry s) (pl_poll s * 2 ^ n)"

lemma loop_step_fail:
  assumes "0 < pl_poll s" "pl_poll s \<le> pl_maxRetry s" "pl_maxRetry s \<le> 2 ^ 62" "lp_retry lp = backed_off s n"
  shows "fst (loop_step s (Inl e) lp st) = backed_off s n \<and> lp_retry (fst (snd (loop_step s (Inl e) lp st))) = backed_off s (Suc n)"
proof -
  have "0 < backed_off s n" "backed_off s n \<le> 2 ^ 62" using assms(1-3) by (auto simp: backed_off_def)
  then have "int64 (backed_off s n * 2) = backed_off s n * 2" if "backed_off s n < pl_maxRetry s"
    using that assms(3) by (simp add: int64_def)
  with assms show ?thesis by (auto simp: loop_step_def Let_def backed_off_def min_def split: if_splits)
qed

lemma loop_step_success: "fst (loop_step s (Inr b) lp st) = backed_off s 0 \<and> lp_retry (fst (snd (loop_step s (Inr b) lp st))) = backed_off s 0"
  if "pl_poll s \<le> pl_maxRetry s"
  using that by (simp add: loop_step_def backed_off_def)

lemma loop_delays:
  assumes "0 < pl_poll s" "pl_poll s \<le> pl_maxRetry s" "pl_maxRetry s \<le> 2 ^ 62"
  shows "lp_retry lp = backed_off s n \<Longrightarrow> connectToAPIStream hash s as lp ps st = (delays, rest) \<Longrightarrow>
    length delays = length as \<and> (\<forall>d \<in> set delays. pl_poll s \<le> d \<and> d \<le> pl_maxRetry s) \<and>
    ((\<forall>(t, w, a) \<in> set as. \<exists>e. a = NoAnswer e) \<longrightarrow> (\<forall>i < length as. delays ! i = backed_off s (n + i)))"
proof (induction as arbitrary: lp ps st n delays rest)
  case (Cons x as)
  obtain now works ans where x: "x = (now, works, ans)" by (cases x)
  obtain result ps1 st1 where p: "pollDomains hash now works ans ps st = (result, ps1, st1)" by (metis prod_cases3)
  obtain delay lp1 st2 where l: "loop_step s result lp st1 = (delay, lp1, st2)" by (metis prod_cases3)
  obtain delays' rest' where r: "connectToAPIStream hash s as lp1 ps1 st2 = (delays', rest')" by (metis surj_pair)
  have d: "delays = delay # delays'" using Cons.prems(2) x p l r by simp
  have within: "pl_poll s \<le> backed_off s k \<and> backed_off s k \<le> pl_maxRetry s" for k
  proof -
    have "pl_poll s * 1 \<le> pl_poll s * 2 ^ k" using assms(1) by (intro mult_left_mono) simp_all
    with assms(2) show ?thesis by (simp add: backed_off_def)
  qed
  obtain k where k: "lp_retry lp1 = backed_off s k" "delay = backed_off s n \<or> delay = backed_off s 0"
    "(\<exists>e. ans = NoAnswer e) \<Longrightarrow> k = Suc n \<and> delay = backed_off s n"
  proof (cases result)
    case (Inl e)
    with that [of "Suc n"] loop_step_fail [OF assms Cons.prems(1), of e st1] l show ?thesis by simp
  next
    case (Inr b)
    moreover have "\<nexists>e. ans = NoAnswer e" using p Inr by (auto simp: pollDomains_def)
    ultimately show ?thesis using that [of 0] loop_step_success [OF assms(2), of b lp st1] l by simp
  qed
  note IH = Cons.IH [OF k(1) r]
  have "delays ! i = backed_off s (n + i)" if all: "\<forall>(t, w, a) \<in> set (x # as). \<exists>e. a = NoAnswer e" and "i < length (x # as)" for i
  proof -
    have "k = Suc n \<and> delay = backed_off s n" using all x k(3) by auto
    with IH all that(2) d show ?thesis by (cases i) auto
  qed
  moreover have "pl_poll s \<le> delay \<and> delay \<le> pl_maxRetry s" using k(2) within [of n] within [of 0] by auto
  ultimately show ?case using IH d by auto
qed simp

text \<open>
  The poller backs off and comes back: for intervals that fit a duration, every delay lies
  between the poll interval and the maximum, whatever the answers are; while there is no answer,
  the delays double from the poll interval up to the maximum.
\<close>

theorem retry_backoff:
  assumes "sane_intervals c"
    and "connectToAPIStream hash s as (start_loop s) ps st = (delays, rest)"
    and "s = streamSettingsFromConfig (Some c)"
  shows "length delays = length as \<and> (\<forall>d \<in> set delays. 0 < d \<and> pl_poll s \<le> d \<and> d \<le> pl_maxRetry s) \<and>
    ((\<forall>(t, w, a) \<in> set as. \<exists>e. a = NoAnswer e) \<longrightarrow> (\<forall>i < length as. delays ! i = min (pl_maxRetry s) (pl_poll s * 2 ^ i)))"
proof -
  have s: "0 < pl_poll s" "pl_poll s \<le> pl_maxRetry s" "pl_maxRetry s \<le> 2 ^ 62" using sane_settings [OF assms(1)] assms(3) by simp_all
  have "lp_retry (start_loop s) = backed_off s 0" using s(2) by (simp add: start_loop_def backed_off_def)
  from loop_delays [OF s this assms(2)] show ?thesis using s(1) by (auto simp: backed_off_def)
qed

theorem retry_backoff_witness:
  "fst (connectToAPIStream (\<lambda>j. []) (streamSettingsFromConfig (Some empty_config)) (replicate 6 (0, True, NoAnswer ''refused''))
      (start_loop (streamSettingsFromConfig (Some empty_config))) \<lparr>ps_digest = None, ps_lastVersion = 0\<rparr> (start_stream [] Map.empty)) ! 5
    = 120 * Second"
proof -
  let ?s = "streamSettingsFromConfig (Some empty_config)"
  obtain delays rest where run: "connectToAPIStream (\<lambda>j. []) ?s (replicate 6 (0, True, NoAnswer ''refused'')) (start_loop ?s)
      \<lparr>ps_digest = None, ps_lastVersion = 0\<rparr> (start_stream [] Map.empty) = (delays, rest)" by (metis surj_pair)
  have sane: "sane_intervals empty_config" by (simp add: sane_intervals_def empty_config_def)
  have s: "pl_poll ?s = 5 * Second" "pl_maxRetry ?s = 120 * Second"
    by (simp_all add: streamSettingsFromConfig_def empty_config_def Minute_def Second_def)
  have "delays ! 5 = min (120 * Second) (5 * Second * 2 ^ 5)"
    using retry_backoff [OF sane run refl] s by auto
  with run show ?thesis by (simp add: Second_def)
qed

subsection \<open>Merging, and the settings after a restart\<close>

lemma put_all_map: "map_ok new \<Longrightarrow> map_of (put_all new m) = map_of m ++ map_of new"
proof (induction new arbitrary: m)
  case (Cons kv new)
  obtain k v where kv: "kv = (k, v)" by (cases kv)
  with Cons.prems have "map_of new k = None" "map_ok new" by (auto simp: map_ok_def map_of_eq_None_iff)
  with Cons.IH [of "AList.update k v m"] kv show ?case by (auto simp: put_all_def map_add_def fun_eq_iff split: option.splits)
qed (simp add: put_all_def)

lemma put_all_ok: "map_ok m \<Longrightarrow> map_ok (put_all new m)"
  unfolding put_all_def by (rule fold_update_ok) (auto simp: map_ok_update split: prod.splits)

lemma merged_routes:
  assumes "map_ok (sn_Routes l)" "map_ok (sn_Routes r)"
  shows "map_of (sn_Routes (mergeConfigSnapshots (Some l) (Some r))) = map_of (sn_Routes l) ++ map_of (sn_Routes r)"
  using put_all_map [OF assms(1), of "[]"] put_all_map [OF assms(2), of "put_all (sn_Routes l) []"]
  by (simp add: mergeConfigSnapshots_def Let_def)

text \<open>
  A restart drops the local limits: when the control plane publishes no settings for the
  agent, the first configuration it sends is still saved with settings, all off. After the next
  start they replace those of the configuration file: the cache, the rate limiter, the request
  queue, the bandwidth limiter and the metrics are off, whatever the file says.
\<close>

theorem restart_drops_local_limits:
  fixes cfg :: config
  assumes "dec_domains_response j no_domains = Some payload" "ds_AgentConfig payload = no_agent"
    and "pollDomains hash now True (AnswerOf StatusOK (BodyText (Some j))) (start_polling st) st = (result, ps', st')"
    and "mg_file (st_manager st) \<noteq> []" "stream_ok st" "is_int64 now"
    and "is_int64 (mg_version (st_manager st))" "mg_version (st_manager st) \<noteq> 2 ^ 63 - 1"
  defines "cfg' \<equiv> applyAgentConfigToConfig (sn_AgentConfig (mg_current (NewManager (mg_file (st_manager st)) (st_disk st')))) cfg"
  shows "\<not> cf_CacheEnabled cfg' \<and> \<not> cf_RateEnabled cfg' \<and> \<not> cf_QueueEnabled cfg' \<and> \<not> cf_BandwidthEnabled cfg' \<and> \<not> cf_MetricsEnabled cfg'"
proof -
  have start: "ps_lastVersion (start_polling st) = mg_version (st_manager st)"
    using assms(5) by (simp add: start_polling_def GetSnapshot_def stream_ok_def Let_def)
  have fresh: "ps_digest (start_polling st) \<noteq> Some (hash (enc_snapshot (snapshotFromDomainsResponse payload)))"
    by (simp add: start_polling_def)
  have ints: "is_int64 (ps_lastVersion (start_polling st))" "ps_lastVersion (start_polling st) \<noteq> 2 ^ 63 - 1"
    using assms(7,8) start by simp_all
  obtain version msg where v: "mg_version (st_manager st) < version" "is_int64 version" "ms_Version msg = version"
    "HandleMessage True msg st = (None, st')" "GetSnapshot st' = reread ((snapshotFromDomainsResponse payload)\<lparr>sn_Version := version\<rparr>)"
    using poll_handled [OF assms(1) start assms(6) ints assms(3) fresh] by metis
  from recovery_restores_core [OF v(4)] v assms(4)
  have "mg_current (NewManager (mg_file (st_manager st)) (st_disk st')) = reread (GetSnapshot st')" by simp
  then have "sn_AgentConfig (mg_current (NewManager (mg_file (st_manager st)) (st_disk st'))) = no_agent\<lparr>ag_present := True\<rparr>"
    using v(5) assms(2) by (simp add: reread_def snapshotFromDomainsResponse_def Let_def)
  then show ?thesis
    by (simp add: cfg'_def applyAgentConfigToConfig_def agent_IsZero_def no_agent_def no_cache_def no_rate_def no_queue_def no_bandwidth_def no_metrics_def)
qed

theorem restart_drops_local_limits_witness:
  "\<exists>st' :: stream_state. \<not> cf_RateEnabled (applyAgentConfigToConfig (sn_AgentConfig (mg_current (NewManager ''f'' (st_disk st'))))
     (empty_config\<lparr>cf_RateEnabled := True\<rparr>))"
proof -
  let ?st = "start_stream ''f'' Map.empty"
  have "case dec_domains_response one_domain no_domains of None \<Rightarrow> False | Some payload \<Rightarrow> ds_AgentConfig payload = no_agent" by code_simp
  then obtain payload where p: "dec_domains_response one_domain no_domains = Some payload" "ds_AgentConfig payload = no_agent"
    by (auto split: option.splits)
  obtain result ps' st' where run:
    "pollDomains (\<lambda>j. ''h'') 5 True (AnswerOf StatusOK (BodyText (Some one_domain))) (start_polling ?st) ?st = (result, ps', st')"
    by (metis prod_cases3)
  have st: "mg_file (st_manager ?st) = ''f''" "mg_version (st_manager ?st) = 0" by code_simp+
  have ints: "is_int64 5" "is_int64 (mg_version (st_manager ?st))" "mg_version (st_manager ?st) \<noteq> 2 ^ 63 - 1"
    by (simp_all add: is_int64_def st(2))
  have named: "mg_file (st_manager ?st) \<noteq> []" by (simp add: st(1))
  from restart_drops_local_limits [OF p run named start_ok ints, of "empty_config\<lparr>cf_RateEnabled := True\<rparr>"] st(1)
  show ?thesis by auto
qed

end
