(* ===== verification/ApplySnapshot.thy ===== *)
theory ApplySnapshot
  imports ControlPlane RouteResolver Waf Health
begin

text \<open>
  How a snapshot gets into the tables (\<^verbatim>\<open>applySnapshotToDB\<close> of \<^verbatim>\<open>main.go\<close>), and what
  follows it: the routes, the rules and the health checks are loaded again. A transaction is a
  function on the tables that fails or gives new ones; a failed one leaves them as they were.
  The maps of a snapshot are visited in the order of their lists.
\<close>

subsection \<open>Targets and routes\<close>

datatype apply_error =
    BadPathRoute string
  | EmptyDomainKey
  | UnsupportedType string
  | InvalidUpstream string
  | UnsupportedCheck string
  | NoTarget
  | RuleIncomplete
  | RuleInvalid string
  | DbError db_error

fun try_fold :: "('a \<Rightarrow> 's \<Rightarrow> 'e + 's) \<Rightarrow> 'a list \<Rightarrow> 's \<Rightarrow> 'e + 's" where
  "try_fold f [] s = Inr s"
| "try_fold f (x # xs) s = (case f x s of Inl e \<Rightarrow> Inl e | Inr s' \<Rightarrow> try_fold f xs s')"

definition valid_upstream :: "string \<Rightarrow> bool" where
  "valid_upstream u =
     (case Parse u of None \<Rightarrow> False | Some p \<Rightarrow> (url_Scheme p = ''http'' \<or> url_Scheme p = ''https'') \<and> url_Host p \<noteq> [])"

fun normalize_targets :: "stream_target list \<Rightarrow> route_target list \<Rightarrow> apply_error + route_target list" where
  "normalize_targets [] acc = Inr acc"
| "normalize_targets (t # ts) acc =
     (let u = TrimSpace (sg_URL t); check = ifEmpty (ToLower (TrimSpace (sg_HealthCheck t))) ''http''
      in if u = [] then normalize_targets ts acc
         else if \<not> valid_upstream u then Inl (InvalidUpstream u)
         else if u \<in> set (map rt_URL acc) then normalize_targets ts acc
         else if check \<noteq> ''http'' \<and> check \<noteq> ''tcp'' then Inl (UnsupportedCheck (sg_HealthCheck t))
         else normalize_targets ts (acc @ [\<lparr>rt_URL = u, rt_HealthCheck = check\<rparr>]))"

definition normalizedRouteTargets :: "stream_target list \<Rightarrow> apply_error + route_target list" where
  "normalizedRouteTargets targets =
     (case normalize_targets targets [] of
        Inl e \<Rightarrow> Inl e
      | Inr ts \<Rightarrow> if ts = [] then Inl NoTarget else Inr ts)"

text \<open>The columns that identify a route: its type, domain and path.\<close>

type_synonym slot = "string \<times> string \<times> string"

definition route_slot :: "string \<times> route_data \<Rightarrow> apply_error + slot" where
  "route_slot kr =
     (let (key0, route) = kr; key = TrimSpace key0; ty = ifEmpty (ToLower (TrimSpace (rd_Type route))) ''domain''
      in if ty = ''path'' then (if HasPrefix key ''/'' then Inr (ty, [], key) else Inl (BadPathRoute key))
         else if ty \<in> {''domain'', ''wildcard'', ''regex''} then (if key = [] then Inl EmptyDomainKey else Inr (ty, key, []))
         else Inl (UnsupportedType (rd_Type route)))"

definition row_slot :: "route_row \<Rightarrow> slot" where
  "row_slot r = (rr_type r, rr_domain r, rr_path r)"

definition upsert_route :: "slot \<Rightarrow> string \<Rightarrow> string \<Rightarrow> string \<Rightarrow> db \<Rightarrow> db" where
  "upsert_route sl target cert key d =
     (if sl \<in> row_slot ` set (db_routes d)
      then d\<lparr>db_routes := map (\<lambda>r. if row_slot r = sl then r\<lparr>rr_target := target, rr_cert := cert, rr_key := key, rr_active := 1\<rparr> else r)
               (db_routes d)\<rparr>
      else (case sl of (ty, dm, path) \<Rightarrow> insert_route ty dm path target cert key d))"

definition find_route :: "slot \<Rightarrow> db \<Rightarrow> route_row option" where
  "find_route sl d = find (\<lambda>r. row_slot r = sl) (db_routes d)"

definition apply_route :: "string \<times> route_data \<Rightarrow> db \<Rightarrow> apply_error + db" where
  "apply_route kr d =
     (case route_slot kr of
        Inl e \<Rightarrow> Inl e
      | Inr sl \<Rightarrow>
          (case normalizedRouteTargets (AllTargets (snd kr)) of
             Inl e \<Rightarrow> Inl e
           | Inr ts \<Rightarrow>
               (let d1 = upsert_route sl (rt_URL (hd ts)) (rd_CertificatePEM (snd kr)) (rd_PrivateKeyPEM (snd kr)) d
                in case find_route sl d1 of
                     None \<Rightarrow> Inl (DbError NoRows)
                   | Some r \<Rightarrow> (case setRouteTargets (rr_id r) ts d1 of Inl e \<Rightarrow> Inl (DbError e) | Inr d2 \<Rightarrow> Inr d2))))"

definition mark_stale :: "db \<Rightarrow> db" where
  "mark_stale d = d\<lparr>db_routes := map (\<lambda>r. r\<lparr>rr_active := 0\<rparr>) (db_routes d)\<rparr>"

definition delete_stale :: "db \<Rightarrow> db" where
  "delete_stale d =
     (let stale = rr_id ` {r \<in> set (db_routes d). rr_active r = 0}
      in d\<lparr>db_targets := filter (\<lambda>t. tr_route t \<notin> stale) (db_targets d),
           db_routes := filter (\<lambda>r. rr_active r \<noteq> 0) (db_routes d)\<rparr>)"

definition apply_routes :: "snapshot \<Rightarrow> db \<Rightarrow> apply_error + db" where
  "apply_routes snap d =
     (if sn_RoutesConfigured snap \<or> sn_Routes snap \<noteq> []
      then (case try_fold apply_route (sn_Routes snap) (mark_stale d) of Inl e \<Rightarrow> Inl e | Inr d' \<Rightarrow> Inr (delete_stale d'))
      else Inr d)"

subsection \<open>Rules, users and the zero-trust switch\<close>

definition rule_values :: "string \<times> waf_data \<Rightarrow> string \<times> string \<times> string \<times> int" where
  "rule_values kw =
     (let (key, rule) = kw
      in (ifEmpty (TrimSpace (wd_Name rule)) (TrimSpace key), wd_Expression rule,
          ifEmpty (ToUpper (TrimSpace (wd_Action rule))) ''BLOCK'', wd_Priority rule))"

definition apply_rule :: "waf_compiler \<Rightarrow> string \<times> waf_data \<Rightarrow> db \<Rightarrow> apply_error + db" where
  "apply_rule compile kw d =
     (case rule_values kw of
        (name, expression, action, priority) \<Rightarrow>
          if name = [] \<or> TrimSpace expression = [] then Inl RuleIncomplete
          else if \<not> ValidateExpression compile expression then Inl (RuleInvalid name)
          else (case insert_waf name expression action priority d of Inl e \<Rightarrow> Inl (DbError e) | Inr d' \<Rightarrow> Inr d'))"

definition apply_rules :: "waf_compiler \<Rightarrow> snapshot \<Rightarrow> db \<Rightarrow> apply_error + db" where
  "apply_rules compile snap d =
     try_fold (apply_rule compile) (sn_WAFRules snap)
       (if sn_WAFRulesConfigured snap \<or> sn_WAFRules snap \<noteq> [] then d\<lparr>db_waf := []\<rparr> else d)"

definition sql_bool :: "bool \<Rightarrow> int" where
  "sql_bool b = (if b then 1 else 0)"

definition upsert_user :: "user_data \<Rightarrow> db \<Rightarrow> apply_error + db" where
  "upsert_user u d =
     (if ud_Username u \<in> us_name ` set (db_users d)
      then Inr (d\<lparr>db_users := map (\<lambda>r. if us_name r = ud_Username u
               then r\<lparr>us_hash := ud_PasswordHash u, us_email := ud_Email u, us_zero_trust := sql_bool (ud_ZeroTrustEnabled u)\<rparr> else r) (db_users d)\<rparr>)
      else (case insert_user (ud_Username u) (ud_PasswordHash u) (ud_Email u) (sql_bool (ud_ZeroTrustEnabled u)) d of
              Inl e \<Rightarrow> Inl (DbError e) | Inr d' \<Rightarrow> Inr d'))"

definition upsert_user_domain :: "user_domain \<Rightarrow> db \<Rightarrow> apply_error + db" where
  "upsert_user_domain x d =
     (case GetUserID (uo_Username x) d of
        Inl e \<Rightarrow> Inl (DbError e)
      | Inr userID \<Rightarrow>
          Inr (if (userID, uo_Domain x) \<in> (\<lambda>p. (pr_user p, pr_domain p)) ` set (db_proxies d)
               then d\<lparr>db_proxies := map (\<lambda>p. if pr_user p = userID \<and> pr_domain p = uo_Domain x
                        then p\<lparr>pr_target := uo_TargetURL x, pr_active := sql_bool (uo_Active x)\<rparr> else p) (db_proxies d)\<rparr>
               else d\<lparr>db_proxies := db_proxies d @ [\<lparr>pr_id = seq_proxies d, pr_user = userID, pr_domain = uo_Domain x,
                        pr_target = uo_TargetURL x, pr_cert = [], pr_active = sql_bool (uo_Active x)\<rparr>],
                      seq_proxies := seq_proxies d + 1\<rparr>))"

definition apply_zero_trust :: "snapshot \<Rightarrow> db \<Rightarrow> db" where
  "apply_zero_trust snap d =
     (if sn_ZeroTrustConfigured snap \<or> sn_ZeroTrustEnabled snap then SetZeroTrustEnabled (sn_ZeroTrustEnabled snap) d else d)"

definition bind_sum :: "'e + 'a \<Rightarrow> ('a \<Rightarrow> 'e + 'b) \<Rightarrow> 'e + 'b" where
  "bind_sum x f = (case x of Inl e \<Rightarrow> Inl e | Inr a \<Rightarrow> f a)"

definition snapshot_transaction :: "waf_compiler \<Rightarrow> snapshot \<Rightarrow> db \<Rightarrow> apply_error + db" where
  "snapshot_transaction compile snap d =
     bind_sum (apply_routes snap d) (\<lambda>d1.
     bind_sum (apply_rules compile snap d1) (\<lambda>d2.
     bind_sum (try_fold upsert_user (sn_Users snap) d2) (\<lambda>d3.
     bind_sum (try_fold upsert_user_domain (sn_UserDomains snap) d3) (\<lambda>d4.
     Inr (apply_zero_trust snap d4)))))"

definition applySnapshotToDB :: "waf_compiler \<Rightarrow> snapshot \<Rightarrow> db \<Rightarrow> apply_error option \<times> db" where
  "applySnapshotToDB compile snap d =
     (case snapshot_transaction compile snap d of Inl e \<Rightarrow> (Some e, d) | Inr d' \<Rightarrow> (None, d'))"

subsection \<open>What follows an update\<close>

definition syncHealthTargets :: "db \<Rightarrow> worker \<Rightarrow> worker" where
  "syncHealthTargets d w = Sync (map (\<lambda>t. \<lparr>tg_URL = rt_URL t, tg_HealthCheck = rt_HealthCheck t\<rparr>) (ListAllRouteTargets d)) w"

record running =
  rn_db :: db
  rn_routes :: routeSnapshot
  rn_rules :: "compiledRule list"
  rn_worker :: worker

text \<open>One round of the subscriber's loop: a step that fails skips those after it.\<close>

definition applyConfigUpdate :: "waf_compiler \<Rightarrow> regexp \<Rightarrow> bool \<Rightarrow> snapshot \<Rightarrow> snapshot \<Rightarrow> running \<Rightarrow> running" where
  "applyConfigUpdate compile regex health localSnap snap st =
     (let (err, d) = applySnapshotToDB compile (mergeConfigSnapshots (Some localSnap) (Some snap)) (rn_db st); st1 = st\<lparr>rn_db := d\<rparr>
      in if err \<noteq> None then st1
         else (let (err, routes) = Reload regex d (rn_routes st1); st2 = st1\<lparr>rn_routes := routes\<rparr>
               in if err \<noteq> None then st2
                  else (let st3 = st2\<lparr>rn_rules := snd (Waf_Reload compile d (rn_rules st2))\<rparr>
                        in if health then st3\<lparr>rn_worker := syncHealthTargets d (rn_worker st3)\<rparr> else st3)))"

subsection \<open>The targets of a route\<close>

lemma insert_target_other [simp]: "insert_target r u c n d = Inr d' \<Longrightarrow> db_routes d' = db_routes d"
  by (auto simp: insert_target_def split: if_splits)

text \<open>The rows that \<open>add_targets\<close> appends.\<close>

lemma add_targets_rows:
  assumes "\<forall>t \<in> set ts. rt_URL t \<noteq> []"
  shows "add_targets r i ts d = Inr d' \<Longrightarrow> \<exists>rows. d' = d\<lparr>db_targets := db_targets d @ rows, seq_targets := seq_targets d + int (length rows)\<rparr> \<and>
    map (\<lambda>t. (tr_route t, tr_url t, tr_check t)) rows = map (\<lambda>t. (r, rt_URL t, norm_target_check (rt_HealthCheck t))) ts \<and>
    sorted_wrt (<) (map tr_sort rows) \<and> (\<forall>t \<in> set rows. i \<le> tr_sort t)"
  using assms
proof (induction ts arbitrary: i d)
  case Nil
  then show ?case by (intro exI [of _ "[]"]) simp
next
  case (Cons t ts)
  let ?row = "\<lparr>tr_id = seq_targets d, tr_route = r, tr_url = rt_URL t, tr_check = norm_target_check (rt_HealthCheck t), tr_sort = i\<rparr>"
  let ?d1 = "d\<lparr>db_targets := db_targets d @ [?row], seq_targets := seq_targets d + 1\<rparr>"
  have "rt_URL t \<noteq> []" and urls: "\<forall>t \<in> set ts. rt_URL t \<noteq> []" using Cons.prems(2) by simp_all
  with Cons.prems(1) have "add_targets r (i + 1) ts ?d1 = Inr d'"
    by (simp add: insert_target_def split: if_splits)
  from Cons.IH [OF this urls] obtain rows where rows:
    "d' = ?d1\<lparr>db_targets := db_targets ?d1 @ rows, seq_targets := seq_targets ?d1 + int (length rows)\<rparr>"
    "map (\<lambda>t. (tr_route t, tr_url t, tr_check t)) rows = map (\<lambda>t. (r, rt_URL t, norm_target_check (rt_HealthCheck t))) ts"
    "sorted_wrt (<) (map tr_sort rows)" "\<forall>t \<in> set rows. i + 1 \<le> tr_sort t" by auto
  show ?case
  proof (intro exI [of _ "?row # rows"] conjI)
    show "d' = d\<lparr>db_targets := db_targets d @ ?row # rows, seq_targets := seq_targets d + int (length (?row # rows))\<rparr>"
      using rows(1) by simp
    show "map (\<lambda>t. (tr_route t, tr_url t, tr_check t)) (?row # rows) =
        map (\<lambda>t. (r, rt_URL t, norm_target_check (rt_HealthCheck t))) (t # ts)" using rows(2) by simp
    show "sorted_wrt (<) (map tr_sort (?row # rows))" using rows(3,4) by fastforce
    show "\<forall>t \<in> set (?row # rows). i \<le> tr_sort t" using rows(4) by fastforce
  qed
qed

lemma sorted_rows: "sorted_wrt (<) (map tr_sort rows) \<Longrightarrow> sort_key (\<lambda>t. (tr_sort t, tr_id t)) rows = rows"
proof (induction rows)
  case (Cons x rows)
  then have "\<forall>y \<in> set rows. tr_sort x < tr_sort y" by simp
  then have "insort_key (\<lambda>t. (tr_sort t, tr_id t)) x rows = x # rows" by (cases rows) (auto simp: less_eq_prod_def)
  with Cons show ?case by simp
qed simp

text \<open>What the validated targets look like, and that they survive being stored.\<close>

definition clean_targets :: "route_target list \<Rightarrow> bool" where
  "clean_targets ts = (distinct (map rt_URL ts) \<and> (\<forall>t \<in> set ts. valid_upstream (rt_URL t) \<and> rt_URL t \<noteq> [] \<and>
     (rt_HealthCheck t = ''http'' \<or> rt_HealthCheck t = ''tcp'')))"

lemma normalize_targets_clean: "normalize_targets ts acc = Inr out \<Longrightarrow> clean_targets acc \<Longrightarrow> clean_targets out"
proof (induction ts acc rule: normalize_targets.induct)
  case (2 t ts acc)
  define u where "u = TrimSpace (sg_URL t)"
  define check where "check = ifEmpty (ToLower (TrimSpace (sg_HealthCheck t))) ''http''"
  note IH = 2(1) [OF u_def check_def] 2(2) [OF u_def check_def] 2(3) [OF u_def check_def]
  note run = 2(4) [unfolded normalize_targets.simps Let_def, folded u_def check_def]
  consider "u = []" | "u \<noteq> []" "valid_upstream u" "u \<in> set (map rt_URL acc)"
    | "u \<noteq> []" "valid_upstream u" "u \<notin> set (map rt_URL acc)" "check = ''http'' \<or> check = ''tcp''"
    using run by (metis Inl_Inr_False)
  then show ?case
  proof cases
    case 1
    with IH(1) run 2(5) show ?thesis by simp
  next
    case 2
    with IH(2) run \<open>clean_targets acc\<close> show ?thesis by simp
  next
    case 3
    then have "clean_targets (acc @ [\<lparr>rt_URL = u, rt_HealthCheck = check\<rparr>])" using \<open>clean_targets acc\<close> by (auto simp: clean_targets_def)
    moreover have "normalize_targets ts (acc @ [\<lparr>rt_URL = u, rt_HealthCheck = check\<rparr>]) = Inr out" using run 3 by (auto split: if_splits)
    ultimately show ?thesis using IH(3) 3 by auto
  qed
qed simp

lemma normalized_clean: "normalizedRouteTargets ts = Inr out \<Longrightarrow> clean_targets out \<and> out \<noteq> []"
  using normalize_targets_clean [of ts "[]"] by (auto simp: normalizedRouteTargets_def clean_targets_def split: sum.splits if_splits)

lemma norm_check_id: "c = ''http'' \<or> c = ''tcp'' \<Longrightarrow> norm_target_check c = c"
proof -
  have "norm_target_check ''http'' = ''http''" "norm_target_check ''tcp'' = ''tcp''" by code_simp+
  then show "c = ''http'' \<or> c = ''tcp'' \<Longrightarrow> norm_target_check c = c" by blast
qed

lemma rows_as_targets:
  assumes "clean_targets ts" "map (\<lambda>t. (tr_route t, tr_url t, tr_check t)) rows = map (\<lambda>t. (r, rt_URL t, norm_target_check (rt_HealthCheck t))) ts"
  shows "map target_of_row rows = ts"
proof -
  have len: "length rows = length ts" using arg_cong [OF assms(2), of length] by simp
  show ?thesis
  proof (rule nth_equalityI)
    fix i assume i: "i < length (map target_of_row rows)"
    then have "(tr_route (rows ! i), tr_url (rows ! i), tr_check (rows ! i)) = (r, rt_URL (ts ! i), norm_target_check (rt_HealthCheck (ts ! i)))"
      using arg_cong [OF assms(2), of "\<lambda>l. l ! i"] len by simp
    moreover have "rt_HealthCheck (ts ! i) = ''http'' \<or> rt_HealthCheck (ts ! i) = ''tcp''"
      using assms(1) i len by (auto simp: clean_targets_def)
    ultimately show "map target_of_row rows ! i = ts ! i"
      using i norm_check_id [of "rt_HealthCheck (ts ! i)"] by (auto simp: target_of_row_def)
  qed (simp add: len)
qed

lemma add_targets_total:
  assumes "clean_targets ts" "\<forall>t \<in> set (db_targets d). tr_route t = r \<longrightarrow> tr_url t \<notin> set (map rt_URL ts)"
  shows "\<exists>d'. add_targets r i ts d = Inr d'"
  using assms
proof (induction ts arbitrary: i d)
  case (Cons t ts)
  let ?row = "\<lparr>tr_id = seq_targets d, tr_route = r, tr_url = rt_URL t, tr_check = norm_target_check (rt_HealthCheck t), tr_sort = i\<rparr>"
  let ?d1 = "d\<lparr>db_targets := db_targets d @ [?row], seq_targets := seq_targets d + 1\<rparr>"
  have "clean_targets ts" using Cons.prems(1) by (simp add: clean_targets_def)
  moreover have "\<forall>x \<in> set (db_targets ?d1). tr_route x = r \<longrightarrow> tr_url x \<notin> set (map rt_URL ts)"
    using Cons.prems by (auto simp: clean_targets_def)
  ultimately have "\<exists>d'. add_targets r (i + 1) ts ?d1 = Inr d'" by (rule Cons.IH)
  moreover have "insert_target r (rt_URL t) (norm_target_check (rt_HealthCheck t)) i d = Inr ?d1" "rt_URL t \<noteq> []"
    using Cons.prems by (auto simp: insert_target_def list_ex_iff clean_targets_def)
  ultimately show ?case by simp
qed simp

text \<open>Setting the targets of a route: it succeeds, they are read back, and no other route changes.\<close>

lemma setRouteTargets_effect:
  assumes "clean_targets ts"
  obtains d' where "setRouteTargets r ts d = Inr d'" "loadRouteTargets d' r = ts"
    "\<And>q. q \<noteq> r \<Longrightarrow> loadRouteTargets d' q = loadRouteTargets d q"
    "d' = d\<lparr>db_targets := db_targets d', seq_targets := seq_targets d'\<rparr>"
proof -
  let ?d0 = "d\<lparr>db_targets := filter (\<lambda>t. tr_route t \<noteq> r) (db_targets d)\<rparr>"
  obtain d' where d': "add_targets r 0 ts ?d0 = Inr d'" using add_targets_total [OF assms, of ?d0 r 0] by auto
  have "\<forall>t \<in> set ts. rt_URL t \<noteq> []" using assms by (simp add: clean_targets_def)
  from add_targets_rows [OF this d'] obtain rows where rows:
    "d' = ?d0\<lparr>db_targets := db_targets ?d0 @ rows, seq_targets := seq_targets ?d0 + int (length rows)\<rparr>"
    "map (\<lambda>t. (tr_route t, tr_url t, tr_check t)) rows = map (\<lambda>t. (r, rt_URL t, norm_target_check (rt_HealthCheck t))) ts"
    "sorted_wrt (<) (map tr_sort rows)" by blast
  have own: "\<forall>t \<in> set rows. tr_route t = r"
  proof
    fix t assume "t \<in> set rows"
    then have "(tr_route t, tr_url t, tr_check t) \<in> set (map (\<lambda>t. (r, rt_URL t, norm_target_check (rt_HealthCheck t))) ts)"
      unfolding rows(2) [symmetric] by force
    then show "tr_route t = r" by auto
  qed
  have all: "filter (\<lambda>t. tr_route t = r) rows = rows" and none: "q \<noteq> r \<Longrightarrow> filter (\<lambda>t. tr_route t = q) rows = []" for q
    using own by (auto simp: filter_id_conv filter_empty_conv)
  show ?thesis
  proof (rule that)
    show "setRouteTargets r ts d = Inr d'" using d' by (simp add: setRouteTargets_def)
    show "loadRouteTargets d' r = ts"
      using rows_as_targets [OF assms rows(2)] sorted_rows [OF rows(3)] by (simp add: loadRouteTargets_def rows(1) all)
    show "loadRouteTargets d' q = loadRouteTargets d q" if "q \<noteq> r" for q
      using that by (simp add: loadRouteTargets_def rows(1) none) (rule arg_cong [of _ _ "\<lambda>xs. map target_of_row (sort_key _ xs)"], auto intro: filter_cong)
    show "d' = d\<lparr>db_targets := db_targets d', seq_targets := seq_targets d'\<rparr>" by (simp add: rows(1))
  qed
qed

subsection \<open>The routes as a map\<close>

text \<open>
  What the resolver can see of the tables: for a type, domain and path the first target, the
  certificate, the key and all targets of the active route.
\<close>

type_synonym route_entry = "string \<times> string \<times> string \<times> route_target list"

definition abs_routes :: "db \<Rightarrow> slot \<rightharpoonup> route_entry" where
  "abs_routes d sl =
     (case find_route sl d of
        None \<Rightarrow> None
      | Some r \<Rightarrow> if rr_active r = 1 then Some (rr_target r, rr_cert r, rr_key r, loadRouteTargets d (rr_id r)) else None)"

text \<open>The tables besides the routes and their targets.\<close>

definition same_rest :: "db \<Rightarrow> db \<Rightarrow> bool" where
  "same_rest d d' = (db_waf d' = db_waf d \<and> db_users d' = db_users d \<and> db_proxies d' = db_proxies d \<and> db_settings d' = db_settings d \<and>
     db_sessions d' = db_sessions d \<and> seq_waf d' = seq_waf d \<and> seq_users d' = seq_users d \<and> seq_proxies d' = seq_proxies d)"

lemma same_rest_refl [simp]: "same_rest d d"
  by (simp add: same_rest_def)

lemma same_rest_trans: "same_rest a b \<Longrightarrow> same_rest b c \<Longrightarrow> same_rest a c"
  by (simp add: same_rest_def)

lemma same_rest_updates [simp]:
  "same_rest d (d\<lparr>db_routes := rs\<rparr>)" "same_rest d (d\<lparr>db_routes := rs, seq_routes := n\<rparr>)"
  "same_rest d (d\<lparr>db_targets := ts, seq_targets := m\<rparr>)" "same_rest d (d\<lparr>db_targets := ts, db_routes := rs\<rparr>)"
  by (simp_all add: same_rest_def)

lemma find_map_key: "(\<And>x. key (f x) = key x) \<Longrightarrow> find (\<lambda>x. key x = k) (map f xs) = map_option f (find (\<lambda>x. key x = k) xs)"
  by (induction xs) simp_all

lemma db_ok_slots: "db_ok d \<Longrightarrow> distinct (map row_slot (db_routes d))"
  by (simp add: db_ok_def row_slot_def [abs_def])

lemma db_ok_map_routes:
  assumes "db_ok d" "\<And>r. row_slot (f r) = row_slot r" "\<And>r. rr_id (f r) = rr_id r"
  shows "db_ok (d\<lparr>db_routes := map f (db_routes d)\<rparr>)"
proof -
  have "(\<lambda>r. (rr_type r, rr_domain r, rr_path r)) \<circ> f = (\<lambda>r. (rr_type r, rr_domain r, rr_path r))" "rr_id \<circ> f = rr_id"
    using assms(2,3) by (auto simp: row_slot_def fun_eq_iff)
  then show ?thesis using assms(1,3) by (simp add: db_ok_def ids_ok_def)
qed

lemma find_route_Some: "find_route sl d = Some r \<Longrightarrow> r \<in> set (db_routes d) \<and> row_slot r = sl"
  unfolding find_route_def by (auto simp: find_Some_iff)

lemma find_route_None: "find_route sl d = None \<longleftrightarrow> sl \<notin> row_slot ` set (db_routes d)"
  unfolding find_route_def by (auto simp: find_None_iff)

text \<open>The flag is 0 or 1.\<close>

definition flags_ok :: "db \<Rightarrow> bool" where
  "flags_ok d = (\<forall>r \<in> set (db_routes d). rr_active r = 0 \<or> rr_active r = 1)"

lemma upsert_route_effect:
  fixes sl :: slot and target cert key :: string
  assumes "db_ok d"
  defines "d1 \<equiv> upsert_route sl target cert key d"
  obtains r where "find_route sl d1 = Some r" "rr_target r = target" "rr_cert r = cert" "rr_key r = key" "rr_active r = 1"
    "\<And>sl'. sl' \<noteq> sl \<Longrightarrow> find_route sl' d1 = find_route sl' d" "db_ok d1" "db_targets d1 = db_targets d" "same_rest d d1"
    "flags_ok d \<Longrightarrow> flags_ok d1"
proof (cases "sl \<in> row_slot ` set (db_routes d)")
  case True
  let ?f = "\<lambda>r. if row_slot r = sl then r\<lparr>rr_target := target, rr_cert := cert, rr_key := key, rr_active := 1\<rparr> else r"
  have d1: "d1 = d\<lparr>db_routes := map ?f (db_routes d)\<rparr>" using True by (simp add: d1_def upsert_route_def)
  have slot: "row_slot (?f r) = row_slot r" "rr_id (?f r) = rr_id r" for r by (simp_all add: row_slot_def)
  have find: "find_route sl' d1 = map_option ?f (find_route sl' d)" for sl'
    unfolding find_route_def d1 using find_map_key [of row_slot ?f sl' "db_routes d", OF slot(1)] by simp
  obtain r0 where r0: "find_route sl d = Some r0" using True find_route_None [of sl d] by auto
  then have sl: "row_slot r0 = sl" using find_route_Some by blast
  show ?thesis
  proof (rule that [of "?f r0"])
    show "find_route sl d1 = Some (?f r0)" by (simp only: find r0 option.map)
    show "find_route sl' d1 = find_route sl' d" if "sl' \<noteq> sl" for sl'
    proof (cases "find_route sl' d")
      case (Some r)
      then have "row_slot r \<noteq> sl" using find_route_Some that by blast
      with Some show ?thesis by (simp only: find option.map if_False)
    qed (simp only: find option.map)
    show "db_ok d1" unfolding d1 by (rule db_ok_map_routes [OF assms(1) slot])
    show "same_rest d d1" by (simp add: d1)
    show "flags_ok d1" if "flags_ok d" using that by (auto simp: d1 flags_ok_def)
  qed (simp_all add: sl d1)
next
  case False
  obtain ty dm path where sl: "sl = (ty, dm, path)" by (cases sl)
  let ?row = "\<lparr>rr_id = seq_routes d, rr_type = ty, rr_domain = dm, rr_path = path, rr_target = target, rr_cert = cert, rr_key = key, rr_active = 1\<rparr>"
  have d1: "d1 = d\<lparr>db_routes := db_routes d @ [?row], seq_routes := seq_routes d + 1\<rparr>"
    using False sl by (simp add: d1_def upsert_route_def insert_route_def)
  have row: "row_slot ?row = sl" by (simp add: row_slot_def sl)
  have none: "find (\<lambda>r. row_slot r = sl) (db_routes d) = None" using False find_route_None [of sl d] by (simp add: find_route_def)
  show ?thesis
  proof (rule that [of ?row])
    show "find_route sl d1 = Some ?row" using none row by (simp add: find_route_def d1 find_append)
    show "find_route sl' d1 = find_route sl' d" if "sl' \<noteq> sl" for sl'
      using row that by (auto simp: find_route_def d1 find_append split: option.splits)
    have "db_ok (insert_route ty dm path target cert key d)"
      by (rule insert_route_ok [OF assms(1)]) (use False sl in \<open>auto simp: row_slot_def [abs_def]\<close>)
    then show "db_ok d1" by (simp add: d1 insert_route_def)
    show "same_rest d d1" by (simp add: d1)
    show "flags_ok d1" if "flags_ok d" using that by (auto simp: d1 flags_ok_def)
  qed (simp_all add: d1)
qed

text \<open>What a route of a snapshot asks for: its slot and its entry.\<close>

definition wanted_route :: "string \<times> route_data \<Rightarrow> apply_error + slot \<times> route_entry" where
  "wanted_route kr =
     (case route_slot kr of
        Inl e \<Rightarrow> Inl e
      | Inr sl \<Rightarrow>
          (case normalizedRouteTargets (AllTargets (snd kr)) of
             Inl e \<Rightarrow> Inl e
           | Inr ts \<Rightarrow> Inr (sl, rt_URL (hd ts), rd_CertificatePEM (snd kr), rd_PrivateKeyPEM (snd kr), ts)))"

lemma abs_routes_same:
  "find_route sl d' = find_route sl d \<Longrightarrow> (\<And>r. find_route sl d = Some r \<Longrightarrow> loadRouteTargets d' (rr_id r) = loadRouteTargets d (rr_id r)) \<Longrightarrow>
     abs_routes d' sl = abs_routes d sl"
  by (simp add: abs_routes_def split: option.splits)

lemma row_ids_differ:
  assumes "db_ok d" "find_route sl d = Some r" "find_route sl' d = Some r'" "sl' \<noteq> sl"
  shows "rr_id r' \<noteq> rr_id r"
proof
  assume "rr_id r' = rr_id r"
  moreover have "inj_on rr_id (set (db_routes d))" using assms(1) by (simp add: db_ok_def ids_ok_def distinct_map)
  ultimately have "r' = r" using find_route_Some [OF assms(2)] find_route_Some [OF assms(3)] by (auto dest: inj_onD)
  then show False using find_route_Some [OF assms(2)] find_route_Some [OF assms(3)] assms(4) by simp
qed

text \<open>The step of the loop over the routes sets the entry of one slot, or fails.\<close>

lemma apply_route_refines:
  assumes "db_ok d"
  shows "case wanted_route kr of
      Inl e \<Rightarrow> apply_route kr d = Inl e
    | Inr (sl, entry) \<Rightarrow> \<exists>d'. apply_route kr d = Inr d' \<and> db_ok d' \<and> abs_routes d' = (abs_routes d)(sl \<mapsto> entry) \<and> same_rest d d' \<and>
        (flags_ok d \<longrightarrow> flags_ok d')"
proof (cases "wanted_route kr")
  case (Inl e)
  then show ?thesis by (auto simp: wanted_route_def apply_route_def split: sum.splits)
next
  case (Inr se)
  obtain sl entry where se: "se = (sl, entry)" by (cases se)
  with Inr obtain ts where sl: "route_slot kr = Inr sl" and ts: "normalizedRouteTargets (AllTargets (snd kr)) = Inr ts"
    and entry: "entry = (rt_URL (hd ts), rd_CertificatePEM (snd kr), rd_PrivateKeyPEM (snd kr), ts)"
    by (auto simp: wanted_route_def split: sum.splits)
  let ?d1 = "upsert_route sl (rt_URL (hd ts)) (rd_CertificatePEM (snd kr)) (rd_PrivateKeyPEM (snd kr)) d"
  obtain r where r: "find_route sl ?d1 = Some r" "rr_target r = rt_URL (hd ts)" "rr_cert r = rd_CertificatePEM (snd kr)"
    "rr_key r = rd_PrivateKeyPEM (snd kr)" "rr_active r = 1" and other: "\<And>sl'. sl' \<noteq> sl \<Longrightarrow> find_route sl' ?d1 = find_route sl' d"
    and ok1: "db_ok ?d1" and tg1: "db_targets ?d1 = db_targets d" and rest1: "same_rest d ?d1"
    and flags1: "flags_ok d \<Longrightarrow> flags_ok ?d1"
    by (rule upsert_route_effect [OF assms]) (rule that)
  have "clean_targets ts" using normalized_clean [OF ts] by blast
  then obtain d2 where d2: "setRouteTargets (rr_id r) ts ?d1 = Inr d2" "loadRouteTargets d2 (rr_id r) = ts"
    "\<And>q. q \<noteq> rr_id r \<Longrightarrow> loadRouteTargets d2 q = loadRouteTargets ?d1 q"
    and d2': "d2 = ?d1\<lparr>db_targets := db_targets d2, seq_targets := seq_targets d2\<rparr>"
    by (rule setRouteTargets_effect [where r = "rr_id r" and d = ?d1]) (rule that)
  have "apply_route kr d = Inr d2" using sl ts r(1) d2(1) by (simp add: apply_route_def Let_def)
  moreover have "db_ok d2" by (rule setRouteTargets_ok [OF d2(1) ok1])
  moreover have "abs_routes d2 = (abs_routes d)(sl \<mapsto> entry)"
  proof
    fix sl'
    have find2: "find_route sl' d2 = find_route sl' ?d1" by (subst d2') (simp add: find_route_def)
    have load1: "loadRouteTargets ?d1 q = loadRouteTargets d q" for q using tg1 by (simp add: loadRouteTargets_def)
    show "abs_routes d2 sl' = ((abs_routes d)(sl \<mapsto> entry)) sl'"
    proof (cases "sl' = sl")
      case True
      with find2 r d2(2) show ?thesis by (simp add: abs_routes_def entry)
    next
      case False
      have "abs_routes d2 sl' = abs_routes d sl'"
      proof (rule abs_routes_same)
        show "find_route sl' d2 = find_route sl' d" using find2 other [OF False] by simp
        show "loadRouteTargets d2 (rr_id r') = loadRouteTargets d (rr_id r')" if "find_route sl' d = Some r'" for r'
        proof -
          have "find_route sl' ?d1 = Some r'" using that other [OF False] by simp
          from row_ids_differ [OF ok1 r(1) this False] show ?thesis using d2(3) load1 by simp
        qed
      qed
      with False show ?thesis by simp
    qed
  qed
  moreover have "same_rest d d2"
    by (rule same_rest_trans [OF rest1]) (subst d2', simp)
  moreover have "flags_ok d \<longrightarrow> flags_ok d2" using flags1 by (subst d2') (simp add: flags_ok_def)
  ultimately show ?thesis using Inr se by auto
qed

subsection \<open>All routes\<close>

text \<open>A function that may fail, on all elements of a list: the first error, or all results.\<close>

fun collect :: "('a \<Rightarrow> 'e + 'b) \<Rightarrow> 'a list \<Rightarrow> 'e + 'b list" where
  "collect f [] = Inr []"
| "collect f (x # xs) =
     (case f x of Inl e \<Rightarrow> Inl e | Inr y \<Rightarrow> (case collect f xs of Inl e \<Rightarrow> Inl e | Inr ys \<Rightarrow> Inr (y # ys)))"

definition set_entries :: "(slot \<times> route_entry) list \<Rightarrow> (slot \<rightharpoonup> route_entry) \<Rightarrow> (slot \<rightharpoonup> route_entry)" where
  "set_entries es m = fold (\<lambda>(sl, e) m. m(sl \<mapsto> e)) es m"

lemma route_loop_refines:
  assumes "db_ok d"
  shows "case collect wanted_route krs of
      Inl e \<Rightarrow> try_fold apply_route krs d = Inl e
    | Inr es \<Rightarrow> \<exists>d'. try_fold apply_route krs d = Inr d' \<and> db_ok d' \<and> abs_routes d' = set_entries es (abs_routes d) \<and>
        same_rest d d' \<and> (flags_ok d \<longrightarrow> flags_ok d')"
  using assms
proof (induction krs arbitrary: d)
  case (Cons kr krs)
  note step = apply_route_refines [OF Cons.prems, of kr]
  show ?case
  proof (cases "wanted_route kr")
    case (Inl e)
    with step show ?thesis by simp
  next
    case (Inr se)
    obtain sl entry where se: "se = (sl, entry)" by (cases se)
    with step Inr obtain d1 where d1: "apply_route kr d = Inr d1" "db_ok d1" "abs_routes d1 = (abs_routes d)(sl \<mapsto> entry)"
      "same_rest d d1" "flags_ok d \<longrightarrow> flags_ok d1" by auto
    note IH = Cons.IH [OF d1(2)]
    show ?thesis
    proof (cases "collect wanted_route krs")
      case (Inl e)
      with IH d1(1) Inr show ?thesis by simp
    next
      case (Inr es)
      with IH obtain d2 where d2: "try_fold apply_route krs d1 = Inr d2" "db_ok d2" "abs_routes d2 = set_entries es (abs_routes d1)"
        "same_rest d1 d2" "flags_ok d1 \<longrightarrow> flags_ok d2" by auto
      have "abs_routes d2 = set_entries ((sl, entry) # es) (abs_routes d)" using d2(3) d1(3) by (simp add: set_entries_def)
      then show ?thesis using \<open>wanted_route kr = Inr se\<close> se Inr d1 d2 same_rest_trans [OF d1(4) d2(4)] by simp
    qed
  qed
qed (simp add: set_entries_def)

lemma mark_stale_effect:
  assumes "db_ok d"
  shows "db_ok (mark_stale d) \<and> abs_routes (mark_stale d) = Map.empty \<and> same_rest d (mark_stale d) \<and> flags_ok (mark_stale d)"
proof -
  have "db_ok (mark_stale d)" unfolding mark_stale_def by (rule db_ok_map_routes [OF assms]) (simp_all add: row_slot_def)
  moreover have "abs_routes (mark_stale d) sl = None" for sl
  proof (cases "find_route sl (mark_stale d)")
    case (Some r)
    then have "rr_active r = 0" using find_route_Some by (fastforce simp: mark_stale_def)
    with Some show ?thesis by (simp add: abs_routes_def)
  qed (simp add: abs_routes_def)
  ultimately show ?thesis by (auto simp: mark_stale_def flags_ok_def)
qed

lemma find_filter: "find P (filter Q xs) = find (\<lambda>x. P x \<and> Q x) xs"
  by (induction xs) auto

lemma find_unique:
  assumes "distinct (map f xs)"
  shows "find (\<lambda>x. f x = k \<and> Q x) xs = (case find (\<lambda>x. f x = k) xs of None \<Rightarrow> None | Some x \<Rightarrow> if Q x then Some x else None)"
  using assms
proof (induction xs)
  case (Cons x xs)
  have "find (\<lambda>x. f x = k \<and> Q x) xs = None" if "f x = k"
    using Cons.prems that by (auto simp: find_None_iff image_iff dest: sym)
  with Cons show ?case by auto
qed simp

lemma delete_stale_effect:
  assumes "db_ok d" "flags_ok d"
  shows "db_ok (delete_stale d) \<and> abs_routes (delete_stale d) = abs_routes d \<and> same_rest d (delete_stale d) \<and>
    (\<forall>r \<in> set (db_routes (delete_stale d)). rr_active r = 1)"
proof -
  let ?stale = "rr_id ` {r \<in> set (db_routes d). rr_active r = 0}"
  have d': "delete_stale d = d\<lparr>db_targets := filter (\<lambda>t. tr_route t \<notin> ?stale) (db_targets d), db_routes := filter (\<lambda>r. rr_active r \<noteq> 0) (db_routes d)\<rparr>"
    by (simp add: delete_stale_def Let_def)
  have "db_ok (delete_stale d)" using assms(1) by (auto simp: d' db_ok_def ids_ok_filter distinct_map_filter)
  moreover have "abs_routes (delete_stale d) sl = abs_routes d sl" for sl
  proof (cases "find_route sl d")
    case None
    then have "find_route sl (delete_stale d) = None" by (auto simp: find_route_None d')
    with None show ?thesis by (simp add: abs_routes_def)
  next
    case (Some r)
    have find: "find_route sl (delete_stale d) = (if rr_active r \<noteq> 0 then Some r else None)"
      using find_unique [OF db_ok_slots [OF assms(1)], of sl "\<lambda>r. rr_active r \<noteq> 0"] Some
      by (simp add: find_route_def d' find_filter)
    have "loadRouteTargets (delete_stale d) (rr_id r) = loadRouteTargets d (rr_id r)" if "rr_active r \<noteq> 0"
    proof -
      have "inj_on rr_id (set (db_routes d))" using assms(1) by (simp add: db_ok_def ids_ok_def distinct_map)
      then have "rr_id r \<notin> ?stale" using that find_route_Some [OF Some] by (auto dest: inj_onD)
      then have "filter (\<lambda>t. tr_route t = rr_id r \<and> tr_route t \<notin> ?stale) (db_targets d) = filter (\<lambda>t. tr_route t = rr_id r) (db_targets d)"
        by (metis (mono_tags, lifting))
      then show ?thesis by (simp add: loadRouteTargets_def d' filter_filter conj_commute)
    qed
    with find Some show ?thesis by (simp add: abs_routes_def)
  qed
  ultimately show ?thesis using assms(2) by (auto simp: d' flags_ok_def)
qed

text \<open>Whether the routes of the tables are replaced.\<close>

definition routes_given :: "snapshot \<Rightarrow> bool" where
  "routes_given snap = (sn_RoutesConfigured snap \<or> sn_Routes snap \<noteq> [])"

lemma apply_routes_refines:
  assumes "db_ok d"
  shows "case collect wanted_route (sn_Routes snap) of
      Inl e \<Rightarrow> apply_routes snap d = Inl e
    | Inr es \<Rightarrow> \<exists>d'. apply_routes snap d = Inr d' \<and> db_ok d' \<and> same_rest d d' \<and>
        (if routes_given snap then abs_routes d' = set_entries es Map.empty \<and> (\<forall>r \<in> set (db_routes d'). rr_active r = 1) else d' = d)"
proof (cases "routes_given snap")
  case True
  note m = mark_stale_effect [OF assms]
  then have ok: "db_ok (mark_stale d)" by blast
  note loop = route_loop_refines [OF ok, of "sn_Routes snap"]
  show ?thesis
  proof (cases "collect wanted_route (sn_Routes snap)")
    case (Inl e)
    with loop True show ?thesis by (simp add: apply_routes_def routes_given_def)
  next
    case (Inr es)
    with loop m obtain d1 where d1: "try_fold apply_route (sn_Routes snap) (mark_stale d) = Inr d1" "db_ok d1"
      "abs_routes d1 = set_entries es Map.empty" "same_rest (mark_stale d) d1" "flags_ok d1" by auto
    have "same_rest d d1" using m d1(4) same_rest_trans by blast
    with delete_stale_effect [OF d1(2,5)] d1(3) same_rest_trans have
      "db_ok (delete_stale d1) \<and> same_rest d (delete_stale d1) \<and> abs_routes (delete_stale d1) = set_entries es Map.empty \<and>
        (\<forall>r \<in> set (db_routes (delete_stale d1)). rr_active r = 1)" by metis
    then show ?thesis using True Inr d1(1) by (simp add: apply_routes_def routes_given_def)
  qed
next
  case False
  then show ?thesis using assms by (simp add: apply_routes_def routes_given_def)
qed

subsection \<open>Rules, users and domains\<close>

definition rule_valid :: "waf_compiler \<Rightarrow> string \<times> waf_data \<Rightarrow> bool" where
  "rule_valid compile kw =
     (fst (rule_values kw) \<noteq> [] \<and> TrimSpace (wd_Expression (snd kw)) \<noteq> [] \<and> ValidateExpression compile (wd_Expression (snd kw)))"

definition rules_valid :: "waf_compiler \<Rightarrow> snapshot \<Rightarrow> bool" where
  "rules_valid compile snap = ((\<forall>kw \<in> set (sn_WAFRules snap). rule_valid compile kw) \<and>
     distinct (map (fst \<circ> rule_values) (sn_WAFRules snap)))"

definition row_values :: "waf_row \<Rightarrow> string \<times> string \<times> string \<times> int" where
  "row_values r = (wr_name r, wr_expression r, wr_action r, wr_priority r)"

text \<open>The rules can be inserted one after the other.\<close>

definition loadable :: "waf_compiler \<Rightarrow> (string \<times> waf_data) list \<Rightarrow> db \<Rightarrow> bool" where
  "loadable compile kws d = ((\<forall>kw \<in> set kws. rule_valid compile kw) \<and> distinct (map (fst \<circ> rule_values) kws) \<and>
     (\<forall>kw \<in> set kws. fst (rule_values kw) \<notin> wr_name ` set (db_waf d)))"

definition rule_row :: "string \<times> waf_data \<Rightarrow> int \<Rightarrow> waf_row" where
  "rule_row kw n = (case rule_values kw of (name, e, a, p) \<Rightarrow>
     \<lparr>wr_id = n, wr_name = name, wr_expression = e, wr_action = a, wr_priority = p\<rparr>)"

lemma rule_row_values [simp]: "row_values (rule_row kw n) = rule_values kw"
  by (simp add: rule_row_def row_values_def split: prod.splits)

definition with_rule :: "string \<times> waf_data \<Rightarrow> db \<Rightarrow> db" where
  "with_rule kw d = d\<lparr>db_waf := db_waf d @ [rule_row kw (seq_waf d)], seq_waf := seq_waf d + 1\<rparr>"

lemma rule_expression: "fst (snd (rule_values kw)) = wd_Expression (snd kw)"
  by (cases kw) (simp add: rule_values_def Let_def)

lemma apply_rule_cases:
  assumes "db_ok d"
  shows "if rule_valid compile kw \<and> fst (rule_values kw) \<notin> wr_name ` set (db_waf d)
    then apply_rule compile kw d = Inr (with_rule kw d) \<and> db_ok (with_rule kw d) else \<exists>e. apply_rule compile kw d = Inl e"
proof -
  obtain name e a p where v: "rule_values kw = (name, e, a, p)" by (cases "rule_values kw")
  have e: "e = wd_Expression (snd kw)" using rule_expression [of kw] v by simp
  have ins: "insert_waf name e a p d = (if name \<in> wr_name ` set (db_waf d) then Inl UniqueViolation else Inr (with_rule kw d))"
    by (auto simp: insert_waf_def list_ex_iff with_rule_def rule_row_def v)
  show ?thesis
  proof (cases "rule_valid compile kw \<and> name \<notin> wr_name ` set (db_waf d)")
    case True
    with ins have i: "insert_waf name e a p d = Inr (with_rule kw d)" by simp
    with True insert_waf_ok [OF i assms] v e show ?thesis by (simp add: apply_rule_def rule_valid_def)
  next
    case False
    with ins v e show ?thesis by (auto simp: apply_rule_def rule_valid_def)
  qed
qed

lemma new_name: "(\<forall>k \<in> A. f k \<notin> insert y N) \<longleftrightarrow> y \<notin> f ` A \<and> (\<forall>k \<in> A. f k \<notin> N)"
  by blast

lemma loadable_Cons:
  "loadable compile (kw # kws) d \<longleftrightarrow>
     (rule_valid compile kw \<and> fst (rule_values kw) \<notin> wr_name ` set (db_waf d)) \<and> loadable compile kws (with_rule kw d)"
proof -
  let ?n = "\<lambda>kw. fst (rule_values kw)"
  have names: "wr_name ` set (db_waf (with_rule kw d)) = insert (?n kw) (wr_name ` set (db_waf d))"
    by (auto simp: with_rule_def rule_row_def split: prod.splits)
  have split: "(\<forall>k \<in> set kws. ?n k \<notin> insert (?n kw) N) \<longleftrightarrow> ?n kw \<notin> ?n ` set kws \<and> (\<forall>k \<in> set kws. ?n k \<notin> N)" for N
    by (rule new_name)
  show ?thesis unfolding loadable_def names split by (auto simp: comp_def)
qed

lemma rule_loop_fails:
  "db_ok d \<Longrightarrow> \<not> loadable compile kws d \<Longrightarrow> \<exists>e. try_fold (apply_rule compile) kws d = Inl e"
proof (induction kws arbitrary: d)
  case (Cons kw kws)
  show ?case
  proof (cases "rule_valid compile kw \<and> fst (rule_values kw) \<notin> wr_name ` set (db_waf d)")
    case True
    with apply_rule_cases [OF Cons.prems(1), of compile kw] have 1: "apply_rule compile kw d = Inr (with_rule kw d)" "db_ok (with_rule kw d)"
      by simp_all
    have "\<not> loadable compile kws (with_rule kw d)" using True Cons.prems(2) by (simp add: loadable_Cons)
    from Cons.IH [OF 1(2) this] 1(1) show ?thesis by simp
  next
    case False
    with apply_rule_cases [OF Cons.prems(1), of compile kw] have "\<exists>e. apply_rule compile kw d = Inl e" by presburger
    then show ?thesis by auto
  qed
qed (simp add: loadable_def)

lemma rule_loop_works:
  "db_ok d \<Longrightarrow> loadable compile kws d \<Longrightarrow> \<exists>d' rows. try_fold (apply_rule compile) kws d = Inr d' \<and> db_ok d' \<and>
     d' = d\<lparr>db_waf := db_waf d @ rows, seq_waf := seq_waf d'\<rparr> \<and> map row_values rows = map rule_values kws"
proof (induction kws arbitrary: d)
  case Nil
  then show ?case by (intro exI [of _ d] exI [of _ "[]"]) simp
next
  case (Cons kw kws)
  have here: "rule_valid compile kw \<and> fst (rule_values kw) \<notin> wr_name ` set (db_waf d)" and rest: "loadable compile kws (with_rule kw d)"
    using Cons.prems(2) by (simp_all add: loadable_Cons)
  with apply_rule_cases [OF Cons.prems(1), of compile kw] have 1: "apply_rule compile kw d = Inr (with_rule kw d)" "db_ok (with_rule kw d)"
    by simp_all
  from Cons.IH [OF 1(2) rest] obtain d' rows where d': "try_fold (apply_rule compile) kws (with_rule kw d) = Inr d'" "db_ok d'"
    "d' = (with_rule kw d)\<lparr>db_waf := db_waf (with_rule kw d) @ rows, seq_waf := seq_waf d'\<rparr>" "map row_values rows = map rule_values kws" by blast
  have "d' = d\<lparr>db_waf := db_waf d @ rule_row kw (seq_waf d) # rows, seq_waf := seq_waf d'\<rparr>"
    using d'(3) by (simp add: with_rule_def)
  with d'(1,2,4) 1(1) show ?case by (intro exI [of _ d'] exI [of _ "rule_row kw (seq_waf d) # rows"]) simp
qed

definition rules_given :: "snapshot \<Rightarrow> bool" where
  "rules_given snap = (sn_WAFRulesConfigured snap \<or> sn_WAFRules snap \<noteq> [])"

lemma apply_rules_effect:
  assumes "db_ok d"
  shows "if rules_valid compile snap
    then \<exists>d'. apply_rules compile snap d = Inr d' \<and> db_ok d' \<and> d' = d\<lparr>db_waf := db_waf d', seq_waf := seq_waf d'\<rparr> \<and>
      (if rules_given snap then map row_values (db_waf d') = map rule_values (sn_WAFRules snap) else db_waf d' = db_waf d)
    else \<exists>e. apply_rules compile snap d = Inl e"
proof (cases "rules_given snap")
  case True
  let ?d0 = "d\<lparr>db_waf := []\<rparr>"
  have ok: "db_ok ?d0" using assms by (simp add: db_ok_def)
  have l: "loadable compile (sn_WAFRules snap) ?d0 = rules_valid compile snap" by (simp add: loadable_def rules_valid_def)
  have run: "apply_rules compile snap d = try_fold (apply_rule compile) (sn_WAFRules snap) ?d0"
    using True by (simp add: apply_rules_def rules_given_def)
  show ?thesis
  proof (cases "rules_valid compile snap")
    case v: True
    then obtain d' rows where d': "try_fold (apply_rule compile) (sn_WAFRules snap) ?d0 = Inr d'" "db_ok d'"
      "d' = ?d0\<lparr>db_waf := db_waf ?d0 @ rows, seq_waf := seq_waf d'\<rparr>" "map row_values rows = map rule_values (sn_WAFRules snap)"
      using rule_loop_works [OF ok] l by blast
    have w: "db_waf d' = rows" by (subst d'(3)) simp
    have "d' = d\<lparr>db_waf := db_waf d', seq_waf := seq_waf d'\<rparr>" using d'(3) unfolding w by simp
    with v True run d' w show ?thesis by simp
  next
    case v: False
    with rule_loop_fails [OF ok] l run show ?thesis by simp
  qed
next
  case False
  then have "apply_rules compile snap d = Inr d" "rules_valid compile snap"
    by (simp_all add: apply_rules_def rules_given_def rules_valid_def)
  with False assms show ?thesis by simp
qed

text \<open>Users are only added or changed, never removed.\<close>

type_synonym user_entry = "string \<times> string \<times> int"

definition abs_users :: "db \<Rightarrow> string \<rightharpoonup> user_entry" where
  "abs_users d name = map_option (\<lambda>u. (us_hash u, us_email u, us_zero_trust u)) (user_by_name name d)"

definition user_entry_of :: "user_data \<Rightarrow> user_entry" where
  "user_entry_of u = (ud_PasswordHash u, ud_Email u, sql_bool (ud_ZeroTrustEnabled u))"

definition set_users :: "user_data list \<Rightarrow> (string \<rightharpoonup> user_entry) \<Rightarrow> (string \<rightharpoonup> user_entry)" where
  "set_users us m = fold (\<lambda>u m. m(ud_Username u \<mapsto> user_entry_of u)) us m"

lemma db_ok_map_users:
  assumes "db_ok d" "\<And>r. us_name (f r) = us_name r" "\<And>r. us_id (f r) = us_id r"
  shows "db_ok (d\<lparr>db_users := map f (db_users d)\<rparr>)"
proof -
  have "us_name \<circ> f = us_name" "us_id \<circ> f = us_id" using assms(2,3) by (auto simp: fun_eq_iff)
  then show ?thesis using assms(1,3) by (simp add: db_ok_def ids_ok_def)
qed

lemma db_ok_map_proxies:
  assumes "db_ok d" "\<And>p. (pr_user (f p), pr_domain (f p)) = (pr_user p, pr_domain p)" "\<And>p. pr_id (f p) = pr_id p"
  shows "db_ok (d\<lparr>db_proxies := map f (db_proxies d)\<rparr>)"
proof -
  have "(\<lambda>p. (pr_user p, pr_domain p)) \<circ> f = (\<lambda>p. (pr_user p, pr_domain p))" "pr_id \<circ> f = pr_id"
    using assms(2,3) by (auto simp: fun_eq_iff)
  then show ?thesis using assms by (simp add: db_ok_def ids_ok_def)
qed

lemma upsert_user_effect:
  assumes "db_ok d"
  obtains d' where "upsert_user u d = Inr d'" "db_ok d'" "abs_users d' = (abs_users d)(ud_Username u \<mapsto> user_entry_of u)"
    "d' = d\<lparr>db_users := db_users d', seq_users := seq_users d'\<rparr>"
proof (cases "ud_Username u \<in> us_name ` set (db_users d)")
  case True
  let ?f = "\<lambda>r. if us_name r = ud_Username u
    then r\<lparr>us_hash := ud_PasswordHash u, us_email := ud_Email u, us_zero_trust := sql_bool (ud_ZeroTrustEnabled u)\<rparr> else r"
  let ?d' = "d\<lparr>db_users := map ?f (db_users d)\<rparr>"
  have f: "us_name (?f r) = us_name r" "us_id (?f r) = us_id r" for r by simp_all
  have ok: "db_ok ?d'" by (rule db_ok_map_users [OF assms f])
  have find: "user_by_name n ?d' = map_option ?f (user_by_name n d)" for n
    using find_map_key [of us_name ?f n "db_users d", OF f(1)] by (simp add: user_by_name_def)
  obtain r where r: "user_by_name (ud_Username u) d = Some r" "us_name r = ud_Username u"
    using True unfolding user_by_name_def
    by (cases "find (\<lambda>r. us_name r = ud_Username u) (db_users d)") (auto simp: find_None_iff find_Some_iff)
  have "abs_users ?d' n = ((abs_users d)(ud_Username u \<mapsto> user_entry_of u)) n" for n
  proof (cases "n = ud_Username u")
    case True
    with find [of n] r show ?thesis by (simp add: abs_users_def user_entry_of_def)
  next
    case False
    then have "\<And>r. user_by_name n d = Some r \<Longrightarrow> us_name r \<noteq> ud_Username u" by (auto simp: user_by_name_def find_Some_iff)
    with find [of n] False show ?thesis by (cases "user_by_name n d") (simp_all add: abs_users_def)
  qed
  then have "abs_users ?d' = (abs_users d)(ud_Username u \<mapsto> user_entry_of u)" by (rule ext)
  with ok show ?thesis using True by (intro that [of ?d']) (simp_all add: upsert_user_def)
next
  case False
  let ?row = "\<lparr>us_id = seq_users d, us_name = ud_Username u, us_hash = ud_PasswordHash u, us_email = ud_Email u,
    us_zero_trust = sql_bool (ud_ZeroTrustEnabled u)\<rparr>"
  let ?d' = "d\<lparr>db_users := db_users d @ [?row], seq_users := seq_users d + 1\<rparr>"
  have ins: "insert_user (ud_Username u) (ud_PasswordHash u) (ud_Email u) (sql_bool (ud_ZeroTrustEnabled u)) d = Inr ?d'"
    using False by (simp add: insert_user_def list_ex_iff) (metis image_eqI)
  have "find (\<lambda>r. us_name r = ud_Username u) (db_users d) = None" using False by (simp add: find_None_iff) (metis image_eqI)
  then have "abs_users ?d' = (abs_users d)(ud_Username u \<mapsto> user_entry_of u)"
    by (auto simp: abs_users_def user_by_name_def find_append user_entry_of_def fun_eq_iff split: option.splits)
  with insert_user_ok [OF ins assms] show ?thesis using False ins by (intro that [of ?d']) (simp_all add: upsert_user_def)
qed

lemma user_loop:
  "db_ok d \<Longrightarrow> \<exists>d'. try_fold upsert_user us d = Inr d' \<and> db_ok d' \<and> abs_users d' = set_users us (abs_users d) \<and>
     d' = d\<lparr>db_users := db_users d', seq_users := seq_users d'\<rparr>"
proof (induction us arbitrary: d)
  case (Cons u us)
  obtain d1 where d1: "upsert_user u d = Inr d1" "db_ok d1" "abs_users d1 = (abs_users d)(ud_Username u \<mapsto> user_entry_of u)"
    "d1 = d\<lparr>db_users := db_users d1, seq_users := seq_users d1\<rparr>" by (rule upsert_user_effect [OF Cons.prems])
  from Cons.IH [OF d1(2)] obtain d2 where d2: "try_fold upsert_user us d1 = Inr d2" "db_ok d2" "abs_users d2 = set_users us (abs_users d1)"
    "d2 = d1\<lparr>db_users := db_users d2, seq_users := seq_users d2\<rparr>" by blast
  have "d2 = d\<lparr>db_users := db_users d2, seq_users := seq_users d2\<rparr>"
    by (subst d2(4), subst d1(4)) simp
  with d1 d2 show ?case by (simp add: set_users_def)
qed (simp add: set_users_def)

text \<open>The domains of the users: for a user's name and a domain the target and whether it is active.\<close>

definition abs_domains :: "db \<Rightarrow> string \<times> string \<rightharpoonup> string \<times> int" where
  "abs_domains d nd =
     (case user_by_name (fst nd) d of
        None \<Rightarrow> None
      | Some u \<Rightarrow> map_option (\<lambda>p. (pr_target p, pr_active p))
                    (find (\<lambda>p. (pr_user p, pr_domain p) = (us_id u, snd nd)) (db_proxies d)))"

definition set_domains :: "user_domain list \<Rightarrow> (string \<times> string \<rightharpoonup> string \<times> int) \<Rightarrow> (string \<times> string \<rightharpoonup> string \<times> int)" where
  "set_domains xs m = fold (\<lambda>x m. m((uo_Username x, uo_Domain x) \<mapsto> (uo_TargetURL x, sql_bool (uo_Active x)))) xs m"

lemma user_ids_differ:
  assumes "db_ok d" "user_by_name n d = Some u" "user_by_name m d = Some v" "n \<noteq> m"
  shows "us_id u \<noteq> us_id v"
proof
  assume "us_id u = us_id v"
  moreover have "inj_on us_id (set (db_users d))" using assms(1) by (simp add: db_ok_def ids_ok_def distinct_map)
  ultimately have "u = v" using user_by_name_mem [OF assms(2)] user_by_name_mem [OF assms(3)] by (auto dest: inj_onD)
  then show False using user_by_name_mem [OF assms(2)] user_by_name_mem [OF assms(3)] assms(4) by simp
qed

text \<open>One entry of the domains: what is found afterwards at every key.\<close>

lemma abs_domains_upsert:
  assumes "db_ok d" "user_by_name n d = Some u" "db_users d' = db_users d"
    and own: "find (\<lambda>p. (pr_user p, pr_domain p) = (us_id u, dom')) (db_proxies d') = Some q" "pr_target q = t" "pr_active q = a"
    and other: "\<And>k. k \<noteq> (us_id u, dom') \<Longrightarrow>
      map_option (\<lambda>p. (pr_target p, pr_active p)) (find (\<lambda>p. (pr_user p, pr_domain p) = k) (db_proxies d')) =
      map_option (\<lambda>p. (pr_target p, pr_active p)) (find (\<lambda>p. (pr_user p, pr_domain p) = k) (db_proxies d))"
  shows "abs_domains d' = (abs_domains d)((n, dom') \<mapsto> (t, a))"
proof
  fix nd :: "string \<times> string"
  have users: "user_by_name m d' = user_by_name m d" for m by (simp add: user_by_name_def assms(3))
  show "abs_domains d' nd = ((abs_domains d)((n, dom') \<mapsto> (t, a))) nd"
  proof (cases "nd = (n, dom')")
    case True
    with assms(2) own users show ?thesis by (simp add: abs_domains_def)
  next
    case False
    show ?thesis
    proof (cases "user_by_name (fst nd) d")
      case (Some v)
      have "(us_id v, snd nd) \<noteq> (us_id u, dom')"
      proof
        assume "(us_id v, snd nd) = (us_id u, dom')"
        with user_ids_differ [OF assms(1) Some assms(2)] have "fst nd = n" "snd nd = dom'" by auto
        with False show False by (cases nd) simp
      qed
      from other [OF this] Some False users show ?thesis by (simp add: abs_domains_def)
    qed (use False users in \<open>simp add: abs_domains_def\<close>)
  qed
qed

lemma upsert_user_domain_effect:
  assumes "db_ok d"
  shows "if uo_Username x \<in> us_name ` set (db_users d)
    then \<exists>d'. upsert_user_domain x d = Inr d' \<and> db_ok d' \<and> d' = d\<lparr>db_proxies := db_proxies d', seq_proxies := seq_proxies d'\<rparr> \<and>
      abs_domains d' = (abs_domains d)((uo_Username x, uo_Domain x) \<mapsto> (uo_TargetURL x, sql_bool (uo_Active x)))
    else upsert_user_domain x d = Inl (DbError NoRows)"
proof (cases "uo_Username x \<in> us_name ` set (db_users d)")
  case False
  then have "user_by_name (uo_Username x) d = None" by (simp add: user_by_name_def find_None_iff) (metis image_eqI)
  with False show ?thesis by (simp add: upsert_user_domain_def GetUserID_def)
next
  case True
  then obtain u where u: "user_by_name (uo_Username x) d = Some u"
    unfolding user_by_name_def by (cases "find (\<lambda>u. us_name u = uo_Username x) (db_users d)") (auto simp: find_None_iff)
  let ?key = "\<lambda>p. (pr_user p, pr_domain p)" and ?k = "(us_id u, uo_Domain x)"
  have id: "GetUserID (uo_Username x) d = Inr (us_id u)" using u by (simp add: GetUserID_def)
  show ?thesis
  proof (cases "?k \<in> ?key ` set (db_proxies d)")
    case c: True
    let ?f = "\<lambda>p. if pr_user p = us_id u \<and> pr_domain p = uo_Domain x then p\<lparr>pr_target := uo_TargetURL x, pr_active := sql_bool (uo_Active x)\<rparr> else p"
    let ?d' = "d\<lparr>db_proxies := map ?f (db_proxies d)\<rparr>"
    have run: "upsert_user_domain x d = Inr ?d'" using c id by (simp add: upsert_user_domain_def)
    have ok: "db_ok ?d'" by (rule db_ok_map_proxies [OF assms]) simp_all
    have find: "find (\<lambda>p. ?key p = k) (map ?f (db_proxies d)) = map_option ?f (find (\<lambda>p. ?key p = k) (db_proxies d))" for k
      by (rule find_map_key) simp
    obtain p where p: "find (\<lambda>p. ?key p = ?k) (db_proxies d) = Some p"
      using c by (cases "find (\<lambda>p. ?key p = ?k) (db_proxies d)") (auto simp: find_None_iff)
    then have pk: "?key p = ?k" by (simp only: find_Some_iff) blast
    have "abs_domains ?d' = (abs_domains d)((uo_Username x, uo_Domain x) \<mapsto> (uo_TargetURL x, sql_bool (uo_Active x)))"
    proof (rule abs_domains_upsert [OF assms u])
      show "find (\<lambda>p. ?key p = ?k) (db_proxies ?d') = Some (?f p)" using find [of ?k] p by simp
      show "map_option (\<lambda>p. (pr_target p, pr_active p)) (find (\<lambda>p. ?key p = k) (db_proxies ?d')) =
          map_option (\<lambda>p. (pr_target p, pr_active p)) (find (\<lambda>p. ?key p = k) (db_proxies d))" if "k \<noteq> ?k" for k
      proof (cases "find (\<lambda>p. ?key p = k) (db_proxies d)")
        case (Some q)
        then have "?key q = k" by (simp only: find_Some_iff) blast
        with Some that find [of k] show ?thesis by auto
      qed (use find [of k] in simp)
    qed (use pk in simp_all)
    with True run ok show ?thesis by simp
  next
    case c: False
    let ?row = "\<lparr>pr_id = seq_proxies d, pr_user = us_id u, pr_domain = uo_Domain x,
        pr_target = uo_TargetURL x, pr_cert = [], pr_active = sql_bool (uo_Active x)\<rparr>"
    let ?d' = "d\<lparr>db_proxies := db_proxies d @ [?row], seq_proxies := seq_proxies d + 1\<rparr>"
    have run: "upsert_user_domain x d = Inr ?d'" using c id by (simp add: upsert_user_domain_def)
    have ok: "db_ok ?d'" using assms c by (auto simp: db_ok_def ids_ok_snoc)
    have none: "find (\<lambda>p. ?key p = ?k) (db_proxies d) = None" using c unfolding find_None_iff by (rule contrapos_nn) (erule exE, elim conjE, erule subst, rule imageI)
    have "abs_domains ?d' = (abs_domains d)((uo_Username x, uo_Domain x) \<mapsto> (uo_TargetURL x, sql_bool (uo_Active x)))"
    proof (rule abs_domains_upsert [OF assms u])
      show "find (\<lambda>p. ?key p = ?k) (db_proxies ?d') = Some ?row" using none by (simp add: find_append)
      show "map_option (\<lambda>p. (pr_target p, pr_active p)) (find (\<lambda>p. ?key p = k) (db_proxies ?d')) =
          map_option (\<lambda>p. (pr_target p, pr_active p)) (find (\<lambda>p. ?key p = k) (db_proxies d))" if "k \<noteq> ?k" for k
        using that by (auto simp: find_append split: option.splits)
    qed simp_all
    with True run ok show ?thesis by simp
  qed
qed

lemma user_domain_loop:
  "db_ok d \<Longrightarrow> if \<forall>x \<in> set xs. uo_Username x \<in> us_name ` set (db_users d)
    then \<exists>d'. try_fold upsert_user_domain xs d = Inr d' \<and> db_ok d' \<and> d' = d\<lparr>db_proxies := db_proxies d', seq_proxies := seq_proxies d'\<rparr> \<and>
      abs_domains d' = set_domains xs (abs_domains d)
    else \<exists>e. try_fold upsert_user_domain xs d = Inl e"
proof (induction xs arbitrary: d)
  case (Cons x xs)
  note step = upsert_user_domain_effect [OF Cons.prems, of x]
  show ?case
  proof (cases "uo_Username x \<in> us_name ` set (db_users d)")
    case True
    with step obtain d1 where d1: "upsert_user_domain x d = Inr d1" "db_ok d1" "d1 = d\<lparr>db_proxies := db_proxies d1, seq_proxies := seq_proxies d1\<rparr>"
      "abs_domains d1 = (abs_domains d)((uo_Username x, uo_Domain x) \<mapsto> (uo_TargetURL x, sql_bool (uo_Active x)))" by auto
    have users: "db_users d1 = db_users d" by (subst d1(3)) simp
    show ?thesis
    proof (cases "\<forall>x \<in> set xs. uo_Username x \<in> us_name ` set (db_users d)")
      case rest: True
      with Cons.IH [OF d1(2)] users obtain d2 where d2: "try_fold upsert_user_domain xs d1 = Inr d2" "db_ok d2"
        "d2 = d1\<lparr>db_proxies := db_proxies d2, seq_proxies := seq_proxies d2\<rparr>" "abs_domains d2 = set_domains xs (abs_domains d1)" by auto
      have "d2 = d\<lparr>db_proxies := db_proxies d2, seq_proxies := seq_proxies d2\<rparr>" by (subst d2(3), subst d1(3)) simp
      with True rest d1(1,4) d2(1,2,4) show ?thesis by (simp add: set_domains_def)
    next
      case rest: False
      with Cons.IH [OF d1(2)] users d1(1) show ?thesis by auto
    qed
  next
    case False
    with step show ?thesis by auto
  qed
qed (simp add: set_domains_def)

end
