(* ===== verification/SnapshotApplied.thy ===== *)
theory SnapshotApplied
  imports ApplySnapshot
begin

text \<open>
  What applying a snapshot promises: which snapshots are refused, what the tables hold after one
  that is not, and that a request for one of its domains then gets the targets it gave.
\<close>

subsection \<open>When a snapshot is valid\<close>

abbreviation named_targets :: "stream_target list \<Rightarrow> stream_target list" where
  "named_targets ts \<equiv> filter (\<lambda>t. TrimSpace (sg_URL t) \<noteq> []) ts"

definition check_known :: "stream_target \<Rightarrow> bool" where
  "check_known t = (ToLower (TrimSpace (sg_HealthCheck t)) \<in> {[], ''http'', ''tcp''})"

text \<open>The check of a target counts only where its address is met first.\<close>

definition first_checks_known :: "string set \<Rightarrow> stream_target list \<Rightarrow> bool" where
  "first_checks_known seen ts = (\<forall>i < length ts. TrimSpace (sg_URL (ts ! i)) \<notin> seen \<and>
     (\<forall>j < i. TrimSpace (sg_URL (ts ! j)) \<noteq> TrimSpace (sg_URL (ts ! i))) \<longrightarrow> check_known (ts ! i))"

definition targets_valid :: "stream_target list \<Rightarrow> bool" where
  "targets_valid ts =
     (let us = named_targets ts
      in us \<noteq> [] \<and> (\<forall>t \<in> set us. valid_upstream (TrimSpace (sg_URL t))) \<and> first_checks_known {} us)"

definition route_valid :: "string \<times> route_data \<Rightarrow> bool" where
  "route_valid kr =
     (let key = TrimSpace (fst kr); ty = ToLower (TrimSpace (rd_Type (snd kr)))
      in (if ty = ''path'' then HasPrefix key ''/'' else ty \<in> {[], ''domain'', ''wildcard'', ''regex''} \<and> key \<noteq> []) \<and>
         targets_valid (AllTargets (snd kr)))"

definition snapshot_valid :: "waf_compiler \<Rightarrow> snapshot \<Rightarrow> db \<Rightarrow> bool" where
  "snapshot_valid compile snap d =
     ((\<forall>kr \<in> set (sn_Routes snap). route_valid kr) \<and>
      (\<forall>kw \<in> set (sn_WAFRules snap). rule_valid compile kw) \<and> distinct (map (fst \<circ> rule_values) (sn_WAFRules snap)) \<and>
      (\<forall>x \<in> set (sn_UserDomains snap). uo_Username x \<in> us_name ` set (db_users d) \<union> ud_Username ` set (sn_Users snap)))"

lemma first_checks_Cons:
  "first_checks_known seen (t # ts) \<longleftrightarrow>
     (TrimSpace (sg_URL t) \<notin> seen \<longrightarrow> check_known t) \<and> first_checks_known (insert (TrimSpace (sg_URL t)) seen) ts"
  by (simp add: first_checks_known_def All_less_Suc2) metis

lemma ifEmpty_check: "ifEmpty c ''http'' = ''http'' \<or> ifEmpty c ''http'' = ''tcp'' \<longleftrightarrow> c \<in> {[], ''http'', ''tcp''}"
  by (auto simp: ifEmpty_def)

lemma first_checks_seen:
  "u \<in> seen \<Longrightarrow> first_checks_known (insert u seen) ts = first_checks_known seen ts"
  by (simp add: insert_absorb)

lemma normalize_targets_iff:
  "(\<exists>out. normalize_targets ts acc = Inr out) \<longleftrightarrow>
     (\<forall>t \<in> set (named_targets ts). valid_upstream (TrimSpace (sg_URL t))) \<and>
     first_checks_known (set (map rt_URL acc)) (named_targets ts)"
proof (induction ts arbitrary: acc)
  case Nil
  show ?case by (simp add: first_checks_known_def)
next
  case (Cons t ts)
  let ?u = "TrimSpace (sg_URL t)" and ?c = "ifEmpty (ToLower (TrimSpace (sg_HealthCheck t))) ''http''"
  have known: "check_known t \<longleftrightarrow> ?c = ''http'' \<or> ?c = ''tcp''" by (simp only: check_known_def ifEmpty_check)
  show ?case
  proof (cases "?u = [] \<or> \<not> valid_upstream ?u")
    case True
    with Cons.IH show ?thesis by (auto simp: Let_def)
  next
    case named: False
    show ?thesis
    proof (cases "?u \<in> set (map rt_URL acc)")
      case True
      with named Cons.IH [of acc] first_checks_seen [OF True] show ?thesis by (simp add: Let_def first_checks_Cons)
    next
      case False
      have "set (map rt_URL (acc @ [\<lparr>rt_URL = ?u, rt_HealthCheck = ?c\<rparr>])) = insert ?u (set (map rt_URL acc))" by simp
      with named False Cons.IH [of "acc @ [\<lparr>rt_URL = ?u, rt_HealthCheck = ?c\<rparr>]"] known show ?thesis
        by (simp add: Let_def first_checks_Cons)
    qed
  qed
qed

lemma normalize_nonempty: "normalize_targets ts acc = Inr out \<Longrightarrow> out = [] \<longleftrightarrow> acc = [] \<and> named_targets ts = []"
proof (induction ts acc rule: normalize_targets.induct)
  case (2 t ts acc)
  define u where "u = TrimSpace (sg_URL t)"
  define check where "check = ifEmpty (ToLower (TrimSpace (sg_HealthCheck t))) ''http''"
  note IH = 2(1) [OF u_def check_def] 2(2) [OF u_def check_def] 2(3) [OF u_def check_def]
  note run = 2(4) [unfolded normalize_targets.simps Let_def, folded u_def check_def]
  show ?case
  proof (cases "u = []")
    case True
    with IH(1) run show ?thesis by (simp add: u_def)
  next
    case False
    with run have "valid_upstream u" by (auto split: if_splits)
    show ?thesis
    proof (cases "u \<in> set (map rt_URL acc)")
      case True
      with False \<open>valid_upstream u\<close> IH(2) run have "out = [] \<longleftrightarrow> acc = [] \<and> named_targets ts = []" by simp
      with True False show ?thesis by (auto simp: u_def)
    next
      case new: False
      with False \<open>valid_upstream u\<close> run have c: "check = ''http'' \<or> check = ''tcp''" by (auto split: if_splits)
      with False new \<open>valid_upstream u\<close> run have "normalize_targets ts (acc @ [\<lparr>rt_URL = u, rt_HealthCheck = check\<rparr>]) = Inr out" by auto
      with IH(3) False new \<open>valid_upstream u\<close> c show ?thesis by (auto simp: u_def)
    qed
  qed
qed simp

lemma targets_valid_iff: "(\<exists>out. normalizedRouteTargets ts = Inr out) \<longleftrightarrow> targets_valid ts"
proof (cases "normalize_targets ts []")
  case (Inl e)
  then show ?thesis using normalize_targets_iff [of ts "[]"] by (auto simp: normalizedRouteTargets_def targets_valid_def Let_def)
next
  case (Inr out)
  then show ?thesis using normalize_targets_iff [of ts "[]"] normalize_nonempty [OF Inr]
    by (auto simp: normalizedRouteTargets_def targets_valid_def Let_def)
qed

lemma route_valid_iff: "(\<exists>w. wanted_route kr = Inr w) \<longleftrightarrow> route_valid kr"
proof -
  let ?ty = "ToLower (TrimSpace (rd_Type (snd kr)))" and ?key = "TrimSpace (fst kr)"
  have slot: "(\<exists>sl. route_slot kr = Inr sl) \<longleftrightarrow>
      (if ?ty = ''path'' then HasPrefix ?key ''/'' else ?ty \<in> {[], ''domain'', ''wildcard'', ''regex''} \<and> ?key \<noteq> [])"
    by (cases kr) (auto simp: route_slot_def Let_def ifEmpty_def)
  have "(\<exists>w. wanted_route kr = Inr w) \<longleftrightarrow> (\<exists>sl. route_slot kr = Inr sl) \<and> (\<exists>out. normalizedRouteTargets (AllTargets (snd kr)) = Inr out)"
    by (auto simp: wanted_route_def split: sum.splits)
  then show ?thesis by (simp only: slot targets_valid_iff route_valid_def Let_def)
qed

lemma collect_iff: "(\<exists>es. collect f xs = Inr es) \<longleftrightarrow> (\<forall>x \<in> set xs. \<exists>y. f x = Inr y)"
proof (induction xs)
  case (Cons x xs)
  then show ?case by (cases "f x"; cases "collect f xs") auto
qed simp

lemma routes_collected: "(\<exists>es. collect wanted_route krs = Inr es) \<longleftrightarrow> (\<forall>kr \<in> set krs. route_valid kr)"
  by (simp only: collect_iff route_valid_iff)

subsection \<open>What a snapshot leaves in the tables\<close>

definition applied :: "snapshot \<Rightarrow> db \<Rightarrow> db \<Rightarrow> bool" where
  "applied snap d d' =
     ((\<exists>es. collect wanted_route (sn_Routes snap) = Inr es \<and>
        (if routes_given snap then abs_routes d' = set_entries es Map.empty \<and> (\<forall>r \<in> set (db_routes d'). rr_active r = 1)
         else abs_routes d' = abs_routes d)) \<and>
      (if rules_given snap then map row_values (db_waf d') = map rule_values (sn_WAFRules snap) else db_waf d' = db_waf d) \<and>
      abs_users d' = set_users (sn_Users snap) (abs_users d) \<and>
      (\<forall>k v. set_domains (sn_UserDomains snap) Map.empty k = Some v \<longrightarrow> abs_domains d' k = Some v) \<and>
      IsZeroTrustEnabled d' = (if sn_ZeroTrustConfigured snap \<or> sn_ZeroTrustEnabled snap then sn_ZeroTrustEnabled snap else IsZeroTrustEnabled d) \<and>
      db_sessions d' = db_sessions d)"

lemma abs_users_domain: "abs_users d n \<noteq> None \<longleftrightarrow> n \<in> us_name ` set (db_users d)"
proof -
  have "user_by_name n d = None \<longleftrightarrow> n \<notin> us_name ` set (db_users d)"
    unfolding user_by_name_def find_None_iff by blast
  then show ?thesis by (simp add: abs_users_def)
qed

lemma set_users_domain: "set_users us m n \<noteq> None \<longleftrightarrow> m n \<noteq> None \<or> n \<in> ud_Username ` set us"
proof (induction us arbitrary: m)
  case (Cons u us)
  have "set_users (u # us) m = set_users us (m(ud_Username u \<mapsto> user_entry_of u))" by (simp add: set_users_def)
  then show ?case by (simp only: Cons.IH) (auto simp del: not_None_eq split: if_splits)
qed (simp add: set_users_def)

lemma set_domains_Cons:
  "set_domains (x # xs) m = set_domains xs (m((uo_Username x, uo_Domain x) \<mapsto> (uo_TargetURL x, sql_bool (uo_Active x))))"
  by (simp add: set_domains_def)

lemma set_domains_add: "set_domains xs (m ++ m') = m ++ set_domains xs m'"
proof (induction xs arbitrary: m')
  case (Cons x xs)
  show ?case unfolding set_domains_Cons map_add_upd [symmetric] by (rule Cons.IH)
qed (simp add: set_domains_def)

lemma set_domains_over: "set_domains xs Map.empty k = Some v \<Longrightarrow> set_domains xs m k = Some v"
  using fun_cong [OF set_domains_add [of xs m Map.empty], of k] by (simp add: map_add_def)

lemma abs_routes_cong: "db_routes d' = db_routes d \<Longrightarrow> db_targets d' = db_targets d \<Longrightarrow> abs_routes d' = abs_routes d"
  by (simp add: abs_routes_def find_route_def loadRouteTargets_def fun_eq_iff split: option.splits)

lemma abs_users_cong: "db_users d' = db_users d \<Longrightarrow> abs_users d' = abs_users d"
  by (simp add: abs_users_def user_by_name_def fun_eq_iff)

lemma abs_domains_cong: "db_users d' = db_users d \<Longrightarrow> db_proxies d' = db_proxies d \<Longrightarrow> abs_domains d' = abs_domains d"
  by (simp add: abs_domains_def user_by_name_def fun_eq_iff split: option.splits)

lemma zero_trust_effect:
  fixes snap :: snapshot
  assumes "db_ok d"
  defines "d' \<equiv> apply_zero_trust snap d"
  shows "db_ok d'" "d' = d\<lparr>db_settings := db_settings d'\<rparr>"
    "IsZeroTrustEnabled d' = (if sn_ZeroTrustConfigured snap \<or> sn_ZeroTrustEnabled snap then sn_ZeroTrustEnabled snap else IsZeroTrustEnabled d)"
  using assms(1)
  by (simp_all add: d'_def apply_zero_trust_def SetZeroTrustEnabled_def db_ok_def map_ok_update IsZeroTrustEnabled_def update_conv)

text \<open>The transaction goes through exactly for a valid snapshot, and then it has done all of its steps.\<close>

lemma transaction_valid:
  assumes "db_ok d" "snapshot_valid compile snap d"
  shows "\<exists>d'. snapshot_transaction compile snap d = Inr d' \<and> db_ok d' \<and> applied snap d d'"
proof -
  obtain es where es: "collect wanted_route (sn_Routes snap) = Inr es"
    using assms(2) routes_collected [of "sn_Routes snap"] by (auto simp: snapshot_valid_def)
  with apply_routes_refines [OF assms(1), of snap] obtain d1 where d1: "apply_routes snap d = Inr d1" "db_ok d1" "same_rest d d1"
    "if routes_given snap then abs_routes d1 = set_entries es Map.empty \<and> (\<forall>r \<in> set (db_routes d1). rr_active r = 1) else d1 = d" by auto
  have "rules_valid compile snap" using assms(2) by (simp add: snapshot_valid_def rules_valid_def)
  with apply_rules_effect [OF d1(2), of compile snap] obtain d2 where d2: "apply_rules compile snap d1 = Inr d2" "db_ok d2"
    "d2 = d1\<lparr>db_waf := db_waf d2, seq_waf := seq_waf d2\<rparr>"
    "if rules_given snap then map row_values (db_waf d2) = map rule_values (sn_WAFRules snap) else db_waf d2 = db_waf d1" by auto
  from user_loop [OF d2(2), of "sn_Users snap"] obtain d3 where d3: "try_fold upsert_user (sn_Users snap) d2 = Inr d3" "db_ok d3"
    "abs_users d3 = set_users (sn_Users snap) (abs_users d2)" "d3 = d2\<lparr>db_users := db_users d3, seq_users := seq_users d3\<rparr>" by blast
  have same2: "db_users d2 = db_users d1" "db_routes d2 = db_routes d1" "db_targets d2 = db_targets d1" "db_settings d2 = db_settings d1"
    "db_sessions d2 = db_sessions d1" by (subst d2(3), simp)+
  have same3: "db_waf d3 = db_waf d2" "db_routes d3 = db_routes d2" "db_targets d3 = db_targets d2" "db_settings d3 = db_settings d2"
    "db_sessions d3 = db_sessions d2" by (subst d3(4), simp)+
  have rest: "db_users d1 = db_users d" "db_waf d1 = db_waf d" "db_settings d1 = db_settings d" "db_sessions d1 = db_sessions d"
    using d1(3) by (simp_all add: same_rest_def)
  have users: "abs_users d2 = abs_users d" using same2(1) rest(1) by (intro abs_users_cong) simp
  have "n \<in> us_name ` set (db_users d3) \<longleftrightarrow> n \<in> us_name ` set (db_users d) \<union> ud_Username ` set (sn_Users snap)" for n
    using abs_users_domain [of d3 n] abs_users_domain [of d n] set_users_domain [of "sn_Users snap" "abs_users d" n] d3(3) users by simp
  then have "\<forall>x \<in> set (sn_UserDomains snap). uo_Username x \<in> us_name ` set (db_users d3)"
    using assms(2) by (auto simp: snapshot_valid_def)
  with user_domain_loop [OF d3(2), of "sn_UserDomains snap"] obtain d4 where d4: "try_fold upsert_user_domain (sn_UserDomains snap) d3 = Inr d4"
    "db_ok d4" "d4 = d3\<lparr>db_proxies := db_proxies d4, seq_proxies := seq_proxies d4\<rparr>" "abs_domains d4 = set_domains (sn_UserDomains snap) (abs_domains d3)"
    by auto
  have same4: "db_waf d4 = db_waf d3" "db_routes d4 = db_routes d3" "db_targets d4 = db_targets d3" "db_users d4 = db_users d3" "db_settings d4 = db_settings d3"
    "db_sessions d4 = db_sessions d3" by (subst d4(3), simp)+
  let ?d' = "apply_zero_trust snap d4"
  note z = zero_trust_effect [OF d4(2), of snap]
  have same5: "db_waf ?d' = db_waf d4" "db_routes ?d' = db_routes d4" "db_targets ?d' = db_targets d4" "db_users ?d' = db_users d4"
    "db_proxies ?d' = db_proxies d4" "db_sessions ?d' = db_sessions d4" by (subst z(2), simp)+
  have routes: "abs_routes ?d' = abs_routes d1" using same5 same4 same3 same2 by (intro abs_routes_cong) simp_all
  have rows: "db_routes ?d' = db_routes d1" using same5 same4 same3 same2 by simp
  have domains: "abs_domains ?d' = abs_domains d4" using same5 by (intro abs_domains_cong) simp_all
  have users': "abs_users ?d' = abs_users d3" using same5 same4 by (intro abs_users_cong) simp
  have zt: "IsZeroTrustEnabled d4 = IsZeroTrustEnabled d"
    using same4 same3 same2 rest by (simp add: IsZeroTrustEnabled_def)
  have "applied snap d ?d'"
    unfolding applied_def
  proof (intro conjI)
    show "\<exists>es. collect wanted_route (sn_Routes snap) = Inr es \<and>
        (if routes_given snap then abs_routes ?d' = set_entries es Map.empty \<and> (\<forall>r \<in> set (db_routes ?d'). rr_active r = 1)
         else abs_routes ?d' = abs_routes d)"
      using es d1(4) by (auto simp: routes rows)
    show "if rules_given snap then map row_values (db_waf ?d') = map rule_values (sn_WAFRules snap) else db_waf ?d' = db_waf d"
      using d2(4) same5(1) same4(1) same3(1) rest(2) by simp
    show "abs_users ?d' = set_users (sn_Users snap) (abs_users d)" using users' d3(3) users by simp
    show "\<forall>k v. set_domains (sn_UserDomains snap) Map.empty k = Some v \<longrightarrow> abs_domains ?d' k = Some v"
      unfolding domains d4(4) by (blast intro: set_domains_over)
    show "db_sessions ?d' = db_sessions d" using same5 same4 same3 same2 rest by simp
  qed (use z(3) zt in simp)
  then show ?thesis using d1(1) d2(1) d3(1) d4(1) z(1) by (simp add: snapshot_transaction_def bind_sum_def)
qed

lemma transaction_invalid:
  assumes "db_ok d" "\<not> snapshot_valid compile snap d"
  shows "\<exists>e. snapshot_transaction compile snap d = Inl e"
proof (cases "collect wanted_route (sn_Routes snap)")
  case (Inl e)
  with apply_routes_refines [OF assms(1), of snap] show ?thesis by (simp add: snapshot_transaction_def bind_sum_def)
next
  case (Inr es)
  with apply_routes_refines [OF assms(1), of snap] obtain d1 where d1: "apply_routes snap d = Inr d1" "db_ok d1" "same_rest d d1" by auto
  have routes: "\<forall>kr \<in> set (sn_Routes snap). route_valid kr" using Inr routes_collected [of "sn_Routes snap"] by simp
  show ?thesis
  proof (cases "rules_valid compile snap")
    case False
    with apply_rules_effect [OF d1(2), of compile snap] d1(1) show ?thesis by (auto simp: snapshot_transaction_def bind_sum_def)
  next
    case True
    with apply_rules_effect [OF d1(2), of compile snap] obtain d2 where d2: "apply_rules compile snap d1 = Inr d2" "db_ok d2"
      "d2 = d1\<lparr>db_waf := db_waf d2, seq_waf := seq_waf d2\<rparr>" by auto
    from user_loop [OF d2(2), of "sn_Users snap"] obtain d3 where d3: "try_fold upsert_user (sn_Users snap) d2 = Inr d3" "db_ok d3"
      "abs_users d3 = set_users (sn_Users snap) (abs_users d2)" by blast
    have "db_users d2 = db_users d1" by (subst d2(3)) simp
    then have users: "abs_users d2 = abs_users d" using d1(3) by (intro abs_users_cong) (simp add: same_rest_def)
    have "n \<in> us_name ` set (db_users d3) \<longleftrightarrow> n \<in> us_name ` set (db_users d) \<union> ud_Username ` set (sn_Users snap)" for n
      using abs_users_domain [of d3 n] abs_users_domain [of d n] set_users_domain [of "sn_Users snap" "abs_users d" n] d3(3) users by simp
    then have "\<not> (\<forall>x \<in> set (sn_UserDomains snap). uo_Username x \<in> us_name ` set (db_users d3))"
      using assms(2) routes True by (auto simp: snapshot_valid_def rules_valid_def)
    with user_domain_loop [OF d3(2), of "sn_UserDomains snap"] obtain e where "try_fold upsert_user_domain (sn_UserDomains snap) d3 = Inl e" by auto
    with d1(1) d2(1) d3(1) show ?thesis by (simp add: snapshot_transaction_def bind_sum_def)
  qed
qed

text \<open>
  C27: A snapshot is refused as a whole exactly when something in it is invalid (a route key or
  type, an address that is no HTTP address, an unknown health check, a rule without a name or
  with an expression that does not compile, two rules of one name, a domain of a user nobody
  knows), and a refused snapshot leaves the tables as they were.
\<close>

theorem apply_refused_iff:
  assumes "db_ok d"
  shows "(fst (applySnapshotToDB compile snap d) = None \<longleftrightarrow> snapshot_valid compile snap d) \<and>
    (fst (applySnapshotToDB compile snap d) = None \<or> snd (applySnapshotToDB compile snap d) = d)"
proof (rule conjI)
  show "fst (applySnapshotToDB compile snap d) = None \<longleftrightarrow> snapshot_valid compile snap d"
    using transaction_valid [OF assms, of compile snap] transaction_invalid [OF assms, of compile snap]
    by (cases "snapshot_valid compile snap d") (auto simp: applySnapshotToDB_def)
  show "fst (applySnapshotToDB compile snap d) = None \<or> snd (applySnapshotToDB compile snap d) = d"
    by (simp add: applySnapshotToDB_def split: sum.splits)
qed

text \<open>
  C28: A snapshot that is not refused is applied as specified: the tables stay well formed; if it
  gives routes, the active routes are exactly its own, with all their targets in order, and
  no other row is left; if it gives rules, they are exactly its own; its users and their domains
  are set, all other users stay; the zero-trust switch has its value; no session changes.
\<close>

theorem apply_refines:
  assumes "db_ok d" "applySnapshotToDB compile snap d = (None, d')"
  shows "db_ok d' \<and> applied snap d d'"
  using transaction_valid [OF assms(1), of compile snap] transaction_invalid [OF assms(1), of compile snap] assms(2)
  by (cases "snapshot_valid compile snap d") (auto simp: applySnapshotToDB_def)

text \<open>A snapshot with a route, a rule, a user and a domain of the user, and one whose route has no usable address.\<close>

definition sample_snapshot :: snapshot where
  "sample_snapshot = no_snapshot\<lparr>
     sn_Routes := [(''a.com'', no_route\<lparr>rd_Targets := [\<lparr>sg_URL = ''http://x:1'', sg_HealthCheck = []\<rparr>, \<lparr>sg_URL = ''http://y:2'', sg_HealthCheck = ''TCP''\<rparr>]\<rparr>)],
     sn_WAFRules := [(''r'', \<lparr>wd_Name = [], wd_Expression = ''true'', wd_Action = ''log'', wd_Priority = 3\<rparr>)],
     sn_Users := [no_user\<lparr>ud_Username := ''u''\<rparr>],
     sn_UserDomains := [no_user_domain\<lparr>uo_Username := ''u'', uo_Domain := ''u.com'', uo_TargetURL := ''http://z''\<rparr>]\<rparr>"

definition broken_snapshot :: snapshot where
  "broken_snapshot = sample_snapshot\<lparr>sn_Routes := [(''a.com'', no_route\<lparr>rd_Target := ''ftp://x''\<rparr>)]\<rparr>"

definition accept_all :: waf_compiler where
  "accept_all e = Some (\<lambda>_. Some False)"

theorem apply_refused_iff_witness:
  "fst (applySnapshotToDB accept_all sample_snapshot empty_db) = None \<and>
   fst (applySnapshotToDB accept_all broken_snapshot empty_db) \<noteq> None"
proof -
  have "snapshot_valid accept_all sample_snapshot empty_db" "\<not> snapshot_valid accept_all broken_snapshot empty_db" by code_simp+
  with apply_refused_iff [OF empty_db_ok, of accept_all sample_snapshot] apply_refused_iff [OF empty_db_ok, of accept_all broken_snapshot]
  show ?thesis by blast
qed

theorem apply_refines_witness:
  "applied sample_snapshot empty_db (snd (applySnapshotToDB accept_all sample_snapshot empty_db))"
proof -
  have "fst (applySnapshotToDB accept_all sample_snapshot empty_db) = None" by code_simp
  then have "applySnapshotToDB accept_all sample_snapshot empty_db = (None, snd (applySnapshotToDB accept_all sample_snapshot empty_db))"
    by (metis prod.collapse)
  from apply_refines [OF empty_db_ok this] show ?thesis by blast
qed

subsection \<open>From the snapshot to the request\<close>

lemma row_found: "db_ok d \<Longrightarrow> r \<in> set (db_routes d) \<Longrightarrow> find_route (row_slot r) d = Some r"
proof -
  assume ok: "db_ok d" and r: "r \<in> set (db_routes d)"
  then obtain r' where r': "find_route (row_slot r) d = Some r'" using find_route_None [of "row_slot r" d] by auto
  have "inj_on row_slot (set (db_routes d))" using db_ok_slots [OF ok] by (simp add: distinct_map)
  with find_route_Some [OF r'] r have "r' = r" by (auto dest: inj_onD)
  with r' show ?thesis by simp
qed

text \<open>The resolver loaded from well-formed tables answers for a host with the one domain route of that name.\<close>

lemma serves_entry:
  assumes ok: "db_ok d" and loaded: "loadRouteSnapshot regex d = Inr s"
    and entry: "abs_routes d (''domain'', key, []) = Some (t, cert, pem, ts)" "ts \<noteq> []"
    and only: "\<forall>sl. abs_routes d sl \<noteq> None \<and> fst sl = ''domain'' \<and> normalizeResolverDomain (fst (snd sl)) = h \<longrightarrow> sl = (''domain'', key, [])"
    and h: "normalizeResolverDomain key = h" "normalizeResolverDomain host = h" "h \<noteq> []"
  shows "Resolve s host path = Some \<lparr>rm_RouteKey = ''domain:'' @ h, rm_Targets = ts, rm_CertificatePEM = cert, rm_PrivateKeyPEM = pem\<rparr>"
proof -
  obtain r where r: "find_route (''domain'', key, []) d = Some r" "rr_active r = 1" "rr_cert r = cert" "rr_key r = pem"
    "loadRouteTargets d (rr_id r) = ts" using entry(1) by (auto simp: abs_routes_def split: option.splits if_splits)
  then have row: "r \<in> set (db_routes d)" "row_slot r = (''domain'', key, [])" using find_route_Some by blast+
  then have ty: "rr_type r = ''domain''" "rr_domain r = key" by (simp_all add: row_slot_def)
  have act: "active_route r" using r(2) ty by (simp add: active_route_def route_types_def)
  from load_cached [OF loaded] obtain cs where cs: "list_all2 (cached regex d) (active_rows d) cs" "s = build_snapshot cs" by blast
  have "r \<in> set (active_rows d)" using row(1) act by (simp add: active_rows_mem)
  from rel_row [OF cs(1) this] obtain c where c: "c \<in> set cs" "cached regex d r c" by blast
  have "is_exact h c" using cached_fields [OF c(2) act] ty h by (simp add: is_exact_def)
  with c(1) have "find (is_exact h) cs \<noteq> None" by (auto simp: find_None_iff)
  then obtain c' where c': "find (is_exact h) cs = Some c'" by blast
  from find_someD [OF c'] have c'm: "c' \<in> set cs" "is_exact h c'" by auto
  from rel_cached [OF cs(1) c'm(1)] obtain r' where r': "r' \<in> set (db_routes d)" "active_route r'" "cached regex d r' c'"
    by (auto simp: active_rows_mem)
  have ty': "rr_type r' = ''domain''" "normalizeResolverDomain (rr_domain r') = h"
    using c'm(2) cached_fields(2) [OF r'(3,2)] cached_fields(7) [OF r'(3,2)] by (auto simp: is_exact_def)
  have "abs_routes d (row_slot r') \<noteq> None" using row_found [OF ok r'(1)] r'(2) by (simp add: abs_routes_def active_route_def)
  with only ty' have "row_slot r' = (''domain'', key, [])" by (simp add: row_slot_def)
  with row_found [OF ok r'(1)] r(1) have same: "r' = r" by simp
  have targets: "cr_targets c' = ts"
    using cached_targets [OF r'(3,1,2)] r(5) entry(2) by (simp add: same usable_targets_def)
  have "normalizeResolverDomain [] = []" by code_simp
  with h have "host \<noteq> []" by auto
  with c' targets entry(2) h cached_fields [OF r'(3,2)] r(3,4) ty show ?thesis
    by (simp add: Resolve_def cs(2) build_snapshot_parts or_else_def domainMatch_def same)
qed

lemma set_entries_from: "set_entries es m sl = Some e \<Longrightarrow> m sl = Some e \<or> (sl, e) \<in> set es"
proof (induction es arbitrary: m)
  case (Cons x es)
  obtain sl' e' where x: "x = (sl', e')" by (cases x)
  have "set_entries es (m(sl' \<mapsto> e')) sl = Some e" using Cons.prems by (simp add: set_entries_def x)
  from Cons.IH [OF this] show ?case by (auto simp: x split: if_splits)
qed (simp add: set_entries_def)

lemma collected_from: "collect f xs = Inr ys \<Longrightarrow> y \<in> set ys \<Longrightarrow> \<exists>x \<in> set xs. f x = Inr y"
  by (induction xs arbitrary: ys) (auto split: sum.splits)

lemma wanted_targets: "wanted_route kr = Inr (sl, t, cert, pem, ts) \<Longrightarrow> ts \<noteq> []"
  using normalized_clean by (auto simp: wanted_route_def split: sum.splits)

lemma applied_is_served:
  assumes ok: "db_ok d'" and ap: "applied merged d d'" and given: "routes_given merged"
    and s: "loadRouteSnapshot regex d' = Inr s"
    and es: "collect wanted_route (sn_Routes merged) = Inr es"
    and entry: "set_entries es Map.empty (''domain'', key, []) = Some (t, cert, pem, ts)"
    and only: "\<forall>sl. set_entries es Map.empty sl \<noteq> None \<and> fst sl = ''domain'' \<and>
      normalizeResolverDomain (fst (snd sl)) = normalizeResolverDomain key \<longrightarrow> sl = (''domain'', key, [])"
    and host: "normalizeResolverDomain host = normalizeResolverDomain key" "normalizeResolverDomain key \<noteq> []"
  shows "Resolve s host path =
    Some \<lparr>rm_RouteKey = ''domain:'' @ normalizeResolverDomain key, rm_Targets = ts, rm_CertificatePEM = cert, rm_PrivateKeyPEM = pem\<rparr>"
proof -
  have routes: "abs_routes d' = set_entries es Map.empty" using ap given es by (auto simp: applied_def)
  have "((''domain'', key, []), t, cert, pem, ts) \<in> set es" using set_entries_from [OF entry] by simp
  from collected_from [OF es this] wanted_targets have "ts \<noteq> []" by blast
  from serves_entry [OF ok s _ this _ refl host] entry only show ?thesis by (simp add: routes)
qed

text \<open>A snapshot that the tables take is applied.\<close>

lemma accepted_applied:
  assumes "db_ok d" "fst (applySnapshotToDB compile snap d) = None"
  shows "db_ok (snd (applySnapshotToDB compile snap d)) \<and> applied snap d (snd (applySnapshotToDB compile snap d))"
  using transaction_valid [OF assms(1), of compile snap] transaction_invalid [OF assms(1), of compile snap] assms(2)
  by (cases "snapshot_valid compile snap d") (auto simp: applySnapshotToDB_def)

lemma apply_keeps_ok: "db_ok d \<Longrightarrow> db_ok (snd (applySnapshotToDB compile snap d))"
  using transaction_valid [of d compile snap] transaction_invalid [of d compile snap]
  by (cases "snapshot_valid compile snap d") (auto simp: applySnapshotToDB_def)

text \<open>
  C29: After a round of the update loop that gets through, a request for a domain of the snapshot
  is resolved to the targets, certificate and key that the snapshot gives for that domain, provided
  no other domain route of the snapshot has the same host name.
\<close>

theorem snapshot_is_served:
  fixes snap localSnap :: snapshot and st :: running and compile :: waf_compiler and regex :: regexp and health :: bool
  defines "merged \<equiv> mergeConfigSnapshots (Some localSnap) (Some snap)"
  defines "st' \<equiv> applyConfigUpdate compile regex health localSnap snap st"
  assumes "db_ok (rn_db st)" "routes_given merged"
    and accepted: "fst (applySnapshotToDB compile merged (rn_db st)) = None"
    and reloaded: "fst (Reload regex (rn_db st') (rn_routes st)) = None"
    and es: "collect wanted_route (sn_Routes merged) = Inr es"
    and entry: "set_entries es Map.empty (''domain'', key, []) = Some (t, cert, pem, ts)"
    and only: "\<forall>sl. set_entries es Map.empty sl \<noteq> None \<and> fst sl = ''domain'' \<and>
      normalizeResolverDomain (fst (snd sl)) = normalizeResolverDomain key \<longrightarrow> sl = (''domain'', key, [])"
    and host: "normalizeResolverDomain host = normalizeResolverDomain key" "normalizeResolverDomain key \<noteq> []"
  shows "Resolve (rn_routes st') host path =
    Some \<lparr>rm_RouteKey = ''domain:'' @ normalizeResolverDomain key, rm_Targets = ts, rm_CertificatePEM = cert, rm_PrivateKeyPEM = pem\<rparr>"
proof -
  let ?d = "snd (applySnapshotToDB compile merged (rn_db st))"
  have db: "rn_db st' = ?d"
    by (simp add: st'_def applyConfigUpdate_def merged_def [symmetric] Let_def split: prod.splits)
  with reloaded obtain s where s: "loadRouteSnapshot regex ?d = Inr s" by (auto simp: Reload_def split: sum.splits)
  have served: "rn_routes st' = s"
    using accepted s unfolding st'_def applyConfigUpdate_def merged_def [symmetric] Let_def
    by (cases "applySnapshotToDB compile merged (rn_db st)") (simp add: Reload_def)
  from accepted_applied [OF assms(3) accepted] have "db_ok ?d" "applied merged (rn_db st) ?d" by blast+
  from applied_is_served [OF this assms(4) s es entry only host] show ?thesis by (simp add: served)
qed

definition idle :: running where
  "idle = \<lparr>rn_db = empty_db, rn_routes = newRouteSnapshot, rn_rules = [], rn_worker = NewWorker 0 0 []\<rparr>"

theorem snapshot_is_served_witness:
  "Resolve (rn_routes (applyConfigUpdate accept_all (\<lambda>_. None) True no_snapshot sample_snapshot idle)) ''A.com:80'' ''/'' =
    Some \<lparr>rm_RouteKey = ''domain:a.com'', rm_Targets = [\<lparr>rt_URL = ''http://x:1'', rt_HealthCheck = ''http''\<rparr>, \<lparr>rt_URL = ''http://y:2'', rt_HealthCheck = ''tcp''\<rparr>],
      rm_CertificatePEM = [], rm_PrivateKeyPEM = []\<rparr>"
proof -
  let ?merged = "mergeConfigSnapshots (Some no_snapshot) (Some sample_snapshot)"
  let ?ts = "[\<lparr>rt_URL = ''http://x:1'', rt_HealthCheck = ''http''\<rparr>, \<lparr>rt_URL = ''http://y:2'', rt_HealthCheck = ''tcp''\<rparr>]"
  let ?es = "[((''domain'', ''a.com'', []), ''http://x:1'', [], [], ?ts)]"
  have db: "db_ok (rn_db idle)" by (simp add: idle_def empty_db_ok)
  have given: "routes_given ?merged" by code_simp
  have ok: "fst (applySnapshotToDB accept_all ?merged (rn_db idle)) = None" by code_simp
  have loaded: "fst (Reload (\<lambda>_. None) (rn_db (applyConfigUpdate accept_all (\<lambda>_. None) True no_snapshot sample_snapshot idle)) (rn_routes idle)) = None"
    by code_simp
  have es: "collect wanted_route (sn_Routes ?merged) = Inr ?es" by code_simp
  have set: "set_entries ?es Map.empty = [(''domain'', ''a.com'', []) \<mapsto> (''http://x:1'', [], [], ?ts)]" by (simp add: set_entries_def)
  have h: "normalizeResolverDomain ''A.com:80'' = normalizeResolverDomain ''a.com''" "normalizeResolverDomain ''a.com'' \<noteq> []"
    "normalizeResolverDomain ''a.com'' = ''a.com''" by code_simp+
  have entry: "set_entries ?es Map.empty (''domain'', ''a.com'', []) = Some (''http://x:1'', [], [], ?ts)" by (simp add: set)
  have only: "\<forall>sl. set_entries ?es Map.empty sl \<noteq> None \<and> fst sl = ''domain'' \<and>
      normalizeResolverDomain (fst (snd sl)) = normalizeResolverDomain ''a.com'' \<longrightarrow> sl = (''domain'', ''a.com'', [])" by (simp add: set)
  from snapshot_is_served [OF db given ok loaded es entry only h(1,2), where path = "''/''"] show ?thesis
    unfolding h(3) by (simp only: append.simps)
qed

subsection \<open>What the order of the steps leaves open\<close>

text \<open>
  The check of a snapshot does not compile its patterns. A route with a broken pattern is
  committed; the reload that follows fails, so neither routes nor rules nor health checks are
  refreshed, and the reload of the next start fails on the same row, which ends the program.
\<close>

definition pattern_snapshot :: snapshot where
  "pattern_snapshot = no_snapshot\<lparr>sn_Routes := [(''('', no_route\<lparr>rd_Type := ''regex'', rd_Target := ''http://x:1''\<rparr>)],
     sn_WAFRules := [(''r'', \<lparr>wd_Name = [], wd_Expression = ''true'', wd_Action = [], wd_Priority = 0\<rparr>)]\<rparr>"

lemma broken_pattern_is_kept:
  "let st = applyConfigUpdate accept_all (\<lambda>_. None) True no_snapshot pattern_snapshot idle
   in map rr_domain (db_routes (rn_db st)) = [''(''] \<and> length (db_waf (rn_db st)) = 1 \<and>
      rn_rules st = [] \<and> hw_targets (rn_worker st) = [] \<and> fst (Reload (\<lambda>_. None) (rn_db st) NewRouteResolver) \<noteq> None"
  by code_simp

text \<open>
  The routes of the configuration file are merged into every snapshot. One that is invalid has
  the whole of each of them refused, however valid they are.
\<close>

lemma local_route_blocks_snapshots:
  "let local = no_snapshot\<lparr>sn_Routes := [(''b.com'', no_route\<lparr>rd_Target := ''localhost:8080''\<rparr>)]\<rparr>
   in fst (applySnapshotToDB accept_all (mergeConfigSnapshots (Some no_snapshot) (Some sample_snapshot)) empty_db) = None \<and>
      fst (applySnapshotToDB accept_all (mergeConfigSnapshots (Some local) (Some sample_snapshot)) empty_db) = Some (InvalidUpstream ''localhost:8080'')"
  by code_simp

text \<open>Two rules of one name, which two domains of the control plane may well have, refuse the snapshot.\<close>

lemma same_rule_name_refused:
  "fst (applySnapshotToDB accept_all (no_snapshot\<lparr>sn_WAFRules :=
     [(''a:x'', \<lparr>wd_Name = ''x'', wd_Expression = ''true'', wd_Action = [], wd_Priority = 0\<rparr>),
      (''b:x'', \<lparr>wd_Name = ''x'', wd_Expression = ''true'', wd_Action = [], wd_Priority = 0\<rparr>)]\<rparr>) empty_db) = Some (DbError UniqueViolation)"
  by code_simp

end
