(* ===== verification/Telemetry.thy ===== *)
theory Telemetry
  imports Metrics Database GatewayHelpers GoUrl "HOL-Library.Word"
begin

text \<open>
  The telemetry client (\<^verbatim>\<open>internal/telemetry\<close>): its settings, the identifier it keeps in a
  file, and its goroutine as a step relation over the events it sends. What is read of the
  machine and the outcomes of file operations are parameters; delivery has no effect on the client.
\<close>

unbundle bit_operations_syntax

subsection \<open>The client\<close>

record tele_config =
  tc_Enabled :: bool
  tc_Endpoint :: string
  tc_IngestKey :: string
  tc_DataDir :: string
  tc_Interval :: duration

record app_stats =
  ap_Routes :: int
  ap_Users :: int
  ap_Requests :: u64
  ap_Blocked :: u64
  ap_ProxyErrors :: u64
  ap_TotalErrors :: u64
  ap_AvgLatency :: rat
  ap_StatusCodes :: "(string, u64) gomap"
  ap_BlockReasons :: "(string, u64) gomap"
  ap_ErrorStatusCodes :: "(string, u64) gomap"
  ap_RecentErrors :: "error_info list"

record sys_info =
  si_CPUModel :: string
  si_CPUCores :: int
  si_RAMTotalMB :: int
  si_DiskTotalMB :: int
  si_DiskFreeMB :: int
  si_Kernel :: string

record payload =
  py_InstanceID :: string
  py_Sys :: sys_info
  py_EventType :: string
  py_App :: "app_stats option"

text \<open>The goroutine: not started, about to send its first event, in its loop, or at its end.\<close>

datatype runner = NoRunner | Starting | Looping | Ended

record tele_client =
  te_cfg :: tele_config
  te_endpoint :: string
  te_ingestKey :: string
  te_instanceID :: string
  te_sysInfo :: sys_info
  te_started :: bool
  te_done :: bool
  te_runner :: runner
  te_sent :: "payload list"

definition no_sys_info :: sys_info where
  "no_sys_info = \<lparr>si_CPUModel = [], si_CPUCores = 0, si_RAMTotalMB = 0, si_DiskTotalMB = 0, si_DiskFreeMB = 0, si_Kernel = []\<rparr>"

definition defaultEndpoint :: string where
  "defaultEndpoint = ''http://127.0.0.1:9091/api''"

definition defaultInterval :: duration where
  "defaultInterval = 5 * Minute"

definition NewClient :: "(string \<Rightarrow> string) \<Rightarrow> tele_config \<Rightarrow> tele_client" where
  "NewClient env cfg =
     (let endpoint0 = ifEmpty (TrimSpace (tc_Endpoint cfg)) defaultEndpoint;
          value = TrimSpace (env ''TELEMETRY_ENDPOINT'');
          endpoint = (if value \<noteq> [] then value else endpoint0);
          key = (if env ''TELEMETRY_INGEST_KEY'' \<noteq> [] then env ''TELEMETRY_INGEST_KEY'' else tc_IngestKey cfg);
          cfg1 = (if tc_Interval cfg \<le> 0 then cfg\<lparr>tc_Interval := defaultInterval\<rparr> else cfg);
          cfg2 = (if tc_DataDir cfg1 = [] then cfg1\<lparr>tc_DataDir := ''database''\<rparr> else cfg1)
      in \<lparr>te_cfg = cfg2, te_endpoint = endpoint, te_ingestKey = key, te_instanceID = [], te_sysInfo = no_sys_info,
          te_started = False, te_done = False, te_runner = NoRunner, te_sent = []\<rparr>)"

definition validateEndpoint :: "string \<Rightarrow> bool" where
  "validateEndpoint endpoint =
     (case Parse endpoint of
        None \<Rightarrow> False
      | Some u \<Rightarrow> (url_Scheme u = ''http'' \<or> url_Scheme u = ''https'') \<and> url_Host u \<noteq> [] \<and> url_User u = None)"

subsection \<open>The identifier\<close>

definition hex_char :: "char \<Rightarrow> bool" where
  "hex_char c = (let n = (of_char c :: nat) in 48 \<le> n \<and> n \<le> 57 \<or> 97 \<le> n \<and> n \<le> 102 \<or> 65 \<le> n \<and> n \<le> 70)"

definition dash_places :: "nat list" where
  "dash_places = [8, 13, 18, 23]"

definition validUUID :: "string \<Rightarrow> bool" where
  "validUUID v = (length v = 36 \<and> (\<forall>i \<in> set dash_places. v ! i = CHR ''-'') \<and>
     list_all (\<lambda>i. i \<in> set dash_places \<or> hex_char (v ! i)) [0..<36])"

definition hex_byte :: "8 word \<Rightarrow> string" where
  "hex_byte b = (let d = (\<lambda>n :: nat. if n < 10 then digit_char n else char_of (n - 10 + 97)) in [d (unat b div 16), d (unat b mod 16)])"

definition newUUID :: "8 word list \<Rightarrow> string" where
  "newUUID b0 =
     (let b = b0[6 := ((b0 ! 6) AND 0x0F) OR 0x40, 8 := ((b0 ! 8) AND 0x3F) OR 0x80];
          hex = (\<lambda>i n. concat (map hex_byte (take n (drop i b))))
      in hex 0 4 @ ''-'' @ hex 4 2 @ ''-'' @ hex 6 2 @ ''-'' @ hex 8 2 @ ''-'' @ hex 10 6)"

text \<open>The file of the identifier, and what the operations on it and the source of random bytes do.\<close>

datatype id_file = Missing | Unreadable | Stored string

record id_env =
  ie_chmod :: bool
  ie_random :: "(nat \<Rightarrow> 8 word) option"
  ie_mkdir :: bool
  ie_write :: bool

datatype tele_error = InvalidID | NotSecured | NotRead | NoRandom | NoDir | NotWritten

definition loadOrCreateID :: "id_env \<Rightarrow> id_file \<Rightarrow> (tele_error + string) \<times> id_file" where
  "loadOrCreateID env d =
     (case d of
        Stored data \<Rightarrow>
          (let uid = TrimSpace data
           in if \<not> validUUID uid then (Inl InvalidID, d)
              else if \<not> ie_chmod env then (Inl NotSecured, d)
              else (Inr uid, d))
      | Unreadable \<Rightarrow> (Inl NotRead, d)
      | Missing \<Rightarrow>
          (case ie_random env of
             None \<Rightarrow> (Inl NoRandom, d)
           | Some b \<Rightarrow>
               (let uid = newUUID (map b [0..<16])
                in if \<not> ie_mkdir env then (Inl NoDir, d)
                   else if \<not> ie_write env then (Inl NotWritten, d)
                   else (Inr uid, Stored (uid @ [CHR 0x0A])))))"

subsection \<open>The machine\<close>

definition first_line :: "string \<Rightarrow> string \<Rightarrow> string option" where
  "first_line start data = find (\<lambda>l. HasPrefix l start) (Split data (CHR 0x0A))"

text \<open>\<^verbatim>\<open>fmt.Sscanf("%d")\<close>: a sign, digits, and whatever follows.\<close>

definition scan_int :: "string \<Rightarrow> int option" where
  "scan_int s =
     (let (neg, rest) = (case s of c # cs \<Rightarrow> if c = CHR ''-'' then (True, cs) else if c = CHR ''+'' then (False, cs) else (False, s) | [] \<Rightarrow> (False, []));
          ds = takeWhile is_digit rest;
          n = (if neg then - int (digits_val ds) else int (digits_val ds))
      in if ds = [] \<or> n < -(2 ^ 63) \<or> 2 ^ 63 \<le> n then None else Some n)"

definition go_quot :: "int \<Rightarrow> int \<Rightarrow> int" where
  "go_quot a b = sgn a * sgn b * (\<bar>a\<bar> div \<bar>b\<bar>)"

definition cpu_model :: "string option \<Rightarrow> string" where
  "cpu_model cpuinfo =
     (case Option.bind cpuinfo (first_line ''model name'') of
        None \<Rightarrow> []
      | Some l \<Rightarrow> (case Cut l (CHR '':'') of (_, v, found) \<Rightarrow> if found then TrimSpace v else []))"

definition ram_total :: "string option \<Rightarrow> int" where
  "ram_total meminfo =
     (case Option.bind meminfo (first_line ''MemTotal:'') of
        None \<Rightarrow> 0
      | Some l \<Rightarrow>
          (let parts = Fields l
           in if 2 \<le> length parts then go_quot (case scan_int (parts ! 1) of None \<Rightarrow> 0 | Some n \<Rightarrow> n) 1024 else 0))"

definition kernel :: "string option \<Rightarrow> string" where
  "kernel version =
     (case version of
        None \<Rightarrow> []
      | Some s \<Rightarrow> (let parts = Split s (CHR '' '') in if 3 \<le> length parts then parts ! 2 else []))"

text \<open>What the machine shows: its cores, the three files, and the blocks of the disk with their size.\<close>

record machine =
  mn_cores :: int
  mn_cpuinfo :: "string option"
  mn_meminfo :: "string option"
  mn_version :: "string option"
  mn_disk :: "(int \<times> int \<times> int) option"

definition disk_mb :: "int \<Rightarrow> int \<Rightarrow> int" where
  "disk_mb blocks bsize = go_quot (int64 (int64 blocks * bsize)) (1024 * 1024)"

definition collectSysInfo :: "machine \<Rightarrow> sys_info" where
  "collectSysInfo m =
     \<lparr>si_CPUModel = cpu_model (mn_cpuinfo m), si_CPUCores = mn_cores m, si_RAMTotalMB = ram_total (mn_meminfo m),
      si_DiskTotalMB = (case mn_disk m of None \<Rightarrow> 0 | Some (all, avail, bsize) \<Rightarrow> disk_mb all bsize),
      si_DiskFreeMB = (case mn_disk m of None \<Rightarrow> 0 | Some (all, avail, bsize) \<Rightarrow> disk_mb avail bsize),
      si_Kernel = kernel (mn_version m)\<rparr>"

subsection \<open>Events\<close>

definition app_stats_of :: "db \<Rightarrow> metrics_snapshot option \<Rightarrow> app_stats" where
  "app_stats_of d ms =
     (let routes = int (length (filter (\<lambda>r. rr_active r = 1) (db_routes d))); users = int (length (db_users d))
      in case ms of
           None \<Rightarrow> \<lparr>ap_Routes = routes, ap_Users = users, ap_Requests = 0, ap_Blocked = 0, ap_ProxyErrors = 0, ap_TotalErrors = 0,
             ap_AvgLatency = 0, ap_StatusCodes = [], ap_BlockReasons = [], ap_ErrorStatusCodes = [], ap_RecentErrors = []\<rparr>
         | Some s \<Rightarrow> \<lparr>ap_Routes = routes, ap_Users = users, ap_Requests = ms_Requests s, ap_Blocked = ms_Blocked s,
             ap_ProxyErrors = ms_ProxyErrors s, ap_TotalErrors = ms_Blocked s + ms_ProxyErrors s, ap_AvgLatency = ms_AverageLatencyMs s,
             ap_StatusCodes = ms_StatusCodes s, ap_BlockReasons = ms_BlockReasons s, ap_ErrorStatusCodes = ms_ErrorStatusCodes s,
             ap_RecentErrors = ms_RecentErrors s\<rparr>)"

definition sendEvent :: "app_stats option \<Rightarrow> string \<Rightarrow> tele_client \<Rightarrow> tele_client" where
  "sendEvent stats ty t =
     t\<lparr>te_sent := te_sent t @ [\<lparr>py_InstanceID = te_instanceID t, py_Sys = te_sysInfo t, py_EventType = ty, py_App = stats\<rparr>]\<rparr>"

definition tele_headers :: "tele_client \<Rightarrow> header" where
  "tele_headers t =
     (let h = hdr_set ''Content-Type'' ''application/json'' Map.empty
      in if te_ingestKey t \<noteq> [] then hdr_set ''X-Telemetry-Key'' (te_ingestKey t) h else h)"

definition Tele_Start :: "id_env \<Rightarrow> machine \<Rightarrow> tele_client \<times> id_file \<Rightarrow> tele_client \<times> id_file" where
  "Tele_Start env m td =
     (let (t, d) = td
      in if \<not> tc_Enabled (te_cfg t) \<or> te_started t then (t, d)
         else (let t1 = t\<lparr>te_started := True\<rparr>
               in if \<not> validateEndpoint (te_endpoint t) then (t1, d)
                  else (case loadOrCreateID env d of
                          (Inl e, d') \<Rightarrow> (t1, d')
                        | (Inr uid, d') \<Rightarrow> (t1\<lparr>te_instanceID := uid, te_sysInfo := collectSysInfo m, te_runner := Starting\<rparr>, d'))))"

definition Tele_Stop :: "tele_client \<Rightarrow> tele_client" where
  "Tele_Stop t = t\<lparr>te_done := True\<rparr>"

text \<open>
  The steps of the program: \<open>Start\<close> and the closing of the channel in \<open>Stop\<close>, at any time and
  any number of times, and those of the goroutine. Its \<^verbatim>\<open>select\<close> takes a tick or the closed
  channel in any order.
\<close>

inductive tele_step :: "tele_client \<times> id_file \<Rightarrow> tele_client \<times> id_file \<Rightarrow> bool" where
  start: "tele_step td (Tele_Start env m td)"
| stop: "tele_step (t, d) (Tele_Stop t, d)"
| first: "te_runner t = Starting \<Longrightarrow> tele_step (t, d) (sendEvent stats ''startup'' t\<lparr>te_runner := Looping\<rparr>, d)"
| tick: "te_runner t = Looping \<Longrightarrow> tele_step (t, d) (sendEvent stats ''heartbeat'' t, d)"
| shut: "te_runner t = Looping \<Longrightarrow> te_done t \<Longrightarrow> tele_step (t, d) (sendEvent stats ''shutdown'' t\<lparr>te_runner := Ended\<rparr>, d)"

declare tele_step.intros [intro]

text \<open>\<open>Stop\<close> returns once the channel is closed and no goroutine runs.\<close>

definition stop_returns :: "tele_client \<Rightarrow> bool" where
  "stop_returns t = (te_done t \<and> te_runner t \<noteq> Starting \<and> te_runner t \<noteq> Looping)"

subsection \<open>Identifiers\<close>

lemma is_hex_digits: "\<forall>n < 16. hex_char ((if n < 10 then digit_char n else char_of (n - 10 + 97 :: nat)))"
  by code_simp

lemma hex_byte_shape: "\<exists>x y. hex_byte b = [x, y] \<and> hex_char x \<and> hex_char y"
proof -
  have "unat b < 2 ^ LENGTH(8)" by (rule unsigned_less)
  then have "unat b div 16 < 16" "unat b mod 16 < 16" by (simp_all add: less_mult_imp_div_less)
  with is_hex_digits show ?thesis by (auto simp: hex_byte_def Let_def)
qed

lemma dash_no_hex: "\<not> hex_char (CHR ''-'')"
  by code_simp

text \<open>Sixteen bytes as their digits.\<close>

lemma uuid_chars:
  assumes "length bs = 16"
  shows "\<exists>h. length h = 32 \<and> list_all hex_char h \<and> concat (map hex_byte bs) = h"
  using assms
proof -
  have "length (concat (map hex_byte bs)) = 2 * length bs \<and> list_all hex_char (concat (map hex_byte bs))" for bs
  proof (induction bs)
    case (Cons b bs)
    with hex_byte_shape [of b] show ?case by auto
  qed simp
  with assms show ?thesis by simp
qed

lemma digits_length: "length (concat (map hex_byte bs)) = 2 * length bs"
proof (induction bs)
  case (Cons b bs)
  with hex_byte_shape [of b] show ?case by auto
qed simp

lemma digits_hex: "i < 2 * length bs \<Longrightarrow> hex_char (concat (map hex_byte bs) ! i)"
proof (induction bs arbitrary: i)
  case (Cons b bs)
  obtain x y where xy: "hex_byte b = [x, y]" "hex_char x" "hex_char y" using hex_byte_shape by blast
  show ?case
  proof (cases "i < 2")
    case True
    then have "i = 0 \<or> i = 1" by auto
    with xy show ?thesis by auto
  next
    case False
    then obtain j where j: "i = Suc (Suc j)" by (metis Suc_1 le_Suc_ex not_less add_2_eq_Suc)
    with Cons.IH [of j] Cons.prems xy show ?thesis by simp
  qed
qed simp

text \<open>Five groups of digits with dashes between them.\<close>

lemma grouped_valid:
  assumes "length a = 8" "length b = 4" "length c = 4" "length d = 4" "length e = 12" "\<forall>x \<in> set (a @ b @ c @ d @ e). hex_char x"
  shows "validUUID (a @ ''-'' @ b @ ''-'' @ c @ ''-'' @ d @ ''-'' @ e)" (is "validUUID ?v")
proof -
  have len: "length ?v = 36" using assms by simp
  have dash: "\<forall>i \<in> set dash_places. ?v ! i = CHR ''-''" using assms by (simp add: dash_places_def nth_append)
  have hex: "hex_char (?v ! i)" if i: "i < 36" "i \<notin> set dash_places" for i
  proof -
    have m: "\<And>xs j. set xs \<subseteq> set (a @ b @ c @ d @ e) \<Longrightarrow> j < length xs \<Longrightarrow> hex_char (xs ! j)"
      using assms(6) nth_mem by blast
    have sub: "set a \<subseteq> set (a @ b @ c @ d @ e)" "set b \<subseteq> set (a @ b @ c @ d @ e)" "set c \<subseteq> set (a @ b @ c @ d @ e)"
      "set d \<subseteq> set (a @ b @ c @ d @ e)" "set e \<subseteq> set (a @ b @ c @ d @ e)" by auto
    consider "i < 8" | "8 < i" "i < 13" | "13 < i" "i < 18" | "18 < i" "i < 23" | "23 < i" "i < 36"
      using i by (auto simp: dash_places_def) linarith
    then show ?thesis
    proof cases
      case 1
      with m [OF sub(1), of i] assms(1) show ?thesis by (simp add: nth_append)
    next
      case 2
      with m [OF sub(2), of "i - 9"] assms show ?thesis by (simp add: nth_append nth_Cons')
    next
      case 3
      with m [OF sub(3), of "i - 14"] assms show ?thesis by (simp add: nth_append nth_Cons')
    next
      case 4
      with m [OF sub(4), of "i - 19"] assms show ?thesis by (simp add: nth_append nth_Cons')
    next
      case 5
      with m [OF sub(5), of "i - 24"] assms show ?thesis by (simp add: nth_append nth_Cons')
    qed
  qed
  have "list_all (\<lambda>i. i \<in> set dash_places \<or> hex_char (?v ! i)) [0..<36]"
    unfolding list_all_iff
  proof (rule ballI)
    fix i :: nat assume "i \<in> set [0..<36]"
    then have "i < 36" by (simp only: set_upt atLeastLessThan_iff)
    with hex show "i \<in> set dash_places \<or> hex_char (?v ! i)" by blast
  qed
  with len dash show ?thesis unfolding validUUID_def by blast
qed

lemma digits_all_hex: "x \<in> set (concat (map hex_byte bs)) \<Longrightarrow> hex_char x"
  by (metis digits_hex digits_length in_set_conv_nth)

lemma first_digit: "hex_byte w ! 0 = (let n = unat (drop_bit 4 w) in if n < 10 then digit_char n else char_of (n - 10 + 97))"
proof -
  have "unat (drop_bit 4 w) = drop_bit 4 (take_bit LENGTH(8) (unat w))" by (rule unsigned_drop_bit_eq)
  also have "take_bit LENGTH(8) (unat w) = unat w" by (rule take_bit_nat_eq_self) (rule unsigned_less)
  finally have "unat (drop_bit 4 w) = unat w div 16" using drop_bit_eq_div [of 4 "unat w"] by simp
  then show ?thesis by (simp add: hex_byte_def Let_def)
qed

lemma version_digit: "hex_byte ((w AND 0x0F) OR 0x40) ! 0 = CHR ''4''"
proof -
  have "drop_bit 4 (0x0F :: 8 word) = 0" "drop_bit 4 (0x40 :: 8 word) = 4" by code_simp+
  then have "drop_bit 4 ((w AND 0x0F) OR 0x40) = 4" by (simp add: drop_bit_and drop_bit_or)
  then show ?thesis unfolding first_digit by simp code_simp
qed

lemma variant_digit: "hex_byte ((w AND 0x3F) OR 0x80) ! 0 \<in> set ''89ab''"
proof -
  have "drop_bit 4 (0x3F :: 8 word) = 3" "drop_bit 4 (0x80 :: 8 word) = 8" by code_simp+
  then have d: "drop_bit 4 ((w AND 0x3F) OR 0x80) = (drop_bit 4 w AND 3) OR 8" by (simp add: drop_bit_and drop_bit_or)
  define v where "v = drop_bit 4 w AND 3"
  have m: "v = take_bit 2 (drop_bit 4 w)" by (simp add: v_def take_bit_eq_mask mask_eq_exp_minus_1)
  then have "unat v < 4" using take_bit_nat_less_exp [of 2 "unat (drop_bit 4 w)"] by (simp add: unsigned_take_bit_eq)
  then have "unat v \<in> {0, 1, 2, 3}" by auto
  then have "v \<in> {0, 1, 2, 3}" by (auto simp: word_unat_eq_iff)
  moreover have "\<forall>v \<in> {0, 1, 2, 3 :: 8 word}. (let n = unat (v OR 8) in if n < 10 then digit_char n else char_of (n - 10 + 97)) \<in> set ''89ab''"
    by code_simp
  ultimately show ?thesis unfolding first_digit d v_def [symmetric] by blast
qed

lemma new_uuid_core:
  assumes "length b = 16"
  shows "validUUID (newUUID b) \<and> newUUID b ! 14 = CHR ''4'' \<and> newUUID b ! 19 \<in> set ''89ab''"
proof -
  let ?b = "b[6 := ((b ! 6) AND 0x0F) OR 0x40, 8 := ((b ! 8) AND 0x3F) OR 0x80]"
  let ?h = "\<lambda>i n. concat (map hex_byte (take n (drop i ?b)))"
  have v: "newUUID b = ?h 0 4 @ ''-'' @ ?h 4 2 @ ''-'' @ ?h 6 2 @ ''-'' @ ?h 8 2 @ ''-'' @ ?h 10 6"
    by (simp only: newUUID_def Let_def)
  have len: "length (?h 0 4) = 8" "length (?h 4 2) = 4" "length (?h 6 2) = 4" "length (?h 8 2) = 4" "length (?h 10 6) = 12"
    unfolding digits_length using assms by simp_all
  have "validUUID (newUUID b)"
    unfolding v by (rule grouped_valid [OF len]) (use digits_all_hex in \<open>simp only: set_append Un_iff, blast\<close>)
  moreover have "newUUID b ! 14 = hex_byte (?b ! 6) ! 0"
  proof -
    have t: "take 2 (drop 6 ?b) = [?b ! 6, ?b ! 7]" using assms by (simp add: numeral_2_eq_2 Cons_nth_drop_Suc [symmetric] take_Suc_Cons)
    show ?thesis unfolding v using len hex_byte_shape [of "?b ! 6"] by (auto simp: nth_append nth_Cons' t)
  qed
  moreover have "newUUID b ! 19 = hex_byte (?b ! 8) ! 0"
  proof -
    have t: "take 2 (drop 8 ?b) = [?b ! 8, ?b ! 9]" using assms by (simp add: numeral_2_eq_2 Cons_nth_drop_Suc [symmetric] take_Suc_Cons)
    show ?thesis unfolding v using len hex_byte_shape [of "?b ! 8"] by (auto simp: nth_append nth_Cons' t)
  qed
  moreover have "?b ! 6 = ((b ! 6) AND 0x0F) OR 0x40" "?b ! 8 = ((b ! 8) AND 0x3F) OR 0x80" using assms by simp_all
  ultimately show ?thesis using version_digit variant_digit by simp
qed

lemma new_valid: "length b = 16 \<Longrightarrow> validUUID (newUUID b)"
  using new_uuid_core by blast

text \<open>
  C30: Every identifier that is made is one that is accepted: whatever sixteen random bytes are
  drawn, their text has the five groups of hexadecimal digits of a UUID, and it names version
  four and the variant of RFC 4122.
\<close>

theorem uuid_well_formed:
  assumes "length b = 16"
  shows "validUUID (newUUID b) \<and> newUUID b ! 14 = CHR ''4'' \<and> newUUID b ! 19 \<in> set ''89ab''"
  by (rule new_uuid_core [OF assms])

theorem uuid_well_formed_witness: "validUUID (newUUID (replicate 16 0xFF))"
  using uuid_well_formed [of "replicate 16 0xFF"] by simp

subsection \<open>The file of the identifier\<close>

lemma space_ends: "map hd spaces @ map last spaces \<noteq> [] \<and> (\<forall>c \<in> set (map hd spaces @ map last spaces). \<not> hex_char c) \<and> [] \<notin> set spaces"
  by code_simp

lemma trim_line:
  assumes "s \<noteq> []" "hex_char (hd s)" "hex_char (last s)"
  shows "TrimSpace (s @ [CHR 0x0A]) = s" "TrimSpace s = s"
proof -
  have first: "\<not> prefix w (s @ r)" if "w \<in> set spaces" "w \<noteq> []" for w r
  proof
    assume "prefix w (s @ r)"
    then have "hd w = hd s" using assms(1) that(2) by (metis hd_append2 prefix_def)
    moreover have "hd w \<in> set (map hd spaces @ map last spaces)" using that by simp
    ultimately show False using space_ends assms(2) by metis
  qed
  have final: "lstrip (map rev spaces) (rev s) = rev s"
  proof (rule lstrip_id, intro ballI impI notI)
    fix w assume w: "w \<in> set (map rev spaces)" "w \<noteq> []" "prefix w (rev s)"
    then obtain v where v: "v \<in> set spaces" "w = rev v" "v \<noteq> []" by auto
    have "hd w = hd (rev s)" using w(2,3) assms(1) by (metis hd_append2 prefix_def)
    with v assms(1) have "last v = last s" by (simp add: hd_rev)
    moreover have "last v \<in> set (map hd spaces @ map last spaces)" using v by simp
    ultimately show False using space_ends assms(3) by metis
  qed
  have left: "TrimLeftSpace (s @ r) = s @ r" for r
    unfolding TrimLeftSpace_def by (rule lstrip_id) (use first in blast)
  have "lstrip (map rev spaces) (CHR 0x0A # rev s) = lstrip (map rev spaces) (rev s)"
    by (subst lstrip.simps) (simp add: spaces_def)
  then show "TrimSpace (s @ [CHR 0x0A]) = s" by (simp add: TrimSpace_def left TrimRightSpace_def final)
  show "TrimSpace s = s" using left [of "[]"] by (simp add: TrimSpace_def TrimRightSpace_def final)
qed

lemma valid_ends: "validUUID v \<Longrightarrow> v \<noteq> [] \<and> hex_char (hd v) \<and> hex_char (last v)"
proof -
  assume v: "validUUID v"
  then have "v \<noteq> []" and len: "length v = 36" by (auto simp: validUUID_def)
  have all: "\<forall>i \<in> set [0..<36]. i \<in> set dash_places \<or> hex_char (v ! i)" using v by (simp only: validUUID_def list_all_iff) blast
  have "hex_char (v ! 0)" "hex_char (v ! 35)" using all [rule_format, of 0] all [rule_format, of 35] by (simp_all add: dash_places_def)
  with \<open>v \<noteq> []\<close> len show ?thesis by (simp add: hd_conv_nth last_conv_nth)
qed

text \<open>
  The instance keeps its identity: the identifier a first start writes is the one that
  every later start reads, whatever random bytes that start would draw; and a stored identifier
  is never replaced.
\<close>

theorem instance_id_kept:
  assumes "loadOrCreateID env d = (Inr uid, d')" "ie_chmod env'"
  shows "loadOrCreateID env' d' = (Inr uid, d') \<and> validUUID uid \<and> (d \<noteq> Missing \<longrightarrow> d' = d)"
proof (cases d)
  case Missing
  then obtain b where b: "ie_random env = Some b" "uid = newUUID (map b [0..<16])" "d' = Stored (uid @ [CHR 0x0A])"
    using assms(1) by (auto simp: loadOrCreateID_def Let_def split: option.splits if_splits)
  have "validUUID uid" unfolding b(2) by (rule new_valid) simp
  with trim_line(1) [of uid] valid_ends [of uid] assms(2) b(3) Missing show ?thesis by (simp add: loadOrCreateID_def)
next
  case Unreadable
  with assms(1) show ?thesis by (simp add: loadOrCreateID_def)
next
  case (Stored data)
  then have "uid = TrimSpace data" "validUUID uid" "d' = d" using assms(1) by (auto simp: loadOrCreateID_def Let_def split: if_splits)
  with Stored assms(2) show ?thesis by (simp add: loadOrCreateID_def)
qed

definition fine_env :: id_env where
  "fine_env = \<lparr>ie_chmod = True, ie_random = Some (\<lambda>n. word_of_nat (17 * n)), ie_mkdir = True, ie_write = True\<rparr>"

theorem instance_id_kept_witness:
  "loadOrCreateID fine_env (Stored (''00112233-4455-4677-8899-aabbccddeeff'' @ [CHR 0x0A])) =
    (Inr ''00112233-4455-4677-8899-aabbccddeeff'', Stored (''00112233-4455-4677-8899-aabbccddeeff'' @ [CHR 0x0A]))"
proof -
  have "loadOrCreateID fine_env Missing = (Inr ''00112233-4455-4677-8899-aabbccddeeff'', Stored (''00112233-4455-4677-8899-aabbccddeeff'' @ [CHR 0x0A]))"
    by code_simp
  moreover have "ie_chmod fine_env" by (simp add: fine_env_def)
  ultimately show ?thesis using instance_id_kept [of fine_env Missing "''00112233-4455-4677-8899-aabbccddeeff''"] by blast
qed

subsection \<open>What is sent\<close>

inductive_cases tele_stepE [elim]: "tele_step (t, d) s"

definition event_types :: "tele_client \<Rightarrow> string list" where
  "event_types t = map py_EventType (te_sent t)"

text \<open>The state of the goroutine and what it has sent.\<close>

definition sent_ok :: "tele_client \<Rightarrow> bool" where
  "sent_ok t = (case te_runner t of
     NoRunner \<Rightarrow> te_sent t = []
   | Starting \<Rightarrow> te_sent t = []
   | Looping \<Rightarrow> (\<exists>n. event_types t = ''startup'' # replicate n ''heartbeat'')
   | Ended \<Rightarrow> te_done t \<and> (\<exists>n. event_types t = ''startup'' # replicate n ''heartbeat'' @ [''shutdown'']))"

definition tele_ok :: "tele_config \<Rightarrow> string \<Rightarrow> tele_client \<Rightarrow> bool" where
  "tele_ok cfg endpoint t = (te_cfg t = cfg \<and> te_endpoint t = endpoint \<and> sent_ok t \<and>
     (\<forall>p \<in> set (te_sent t). py_InstanceID p = te_instanceID t) \<and>
     (te_runner t \<noteq> NoRunner \<longrightarrow> te_started t \<and> tc_Enabled cfg \<and> validateEndpoint endpoint \<and> validUUID (te_instanceID t)))"

lemma loaded_valid: "loadOrCreateID env d = (Inr uid, d') \<Longrightarrow> validUUID uid"
  by (auto simp: loadOrCreateID_def Let_def new_valid split: option.splits if_splits id_file.splits)

lemma Start_ok: "tele_ok cfg endpoint t \<Longrightarrow> Tele_Start env m (t, d) = (t', d') \<Longrightarrow> tele_ok cfg endpoint t'"
  by (cases "te_runner t")
    (auto simp: Tele_Start_def tele_ok_def sent_ok_def Let_def event_types_def loaded_valid split: if_splits prod.splits sum.splits)

lemma replicate_snoc: "replicate n x @ [x] = x # replicate n x"
  by (simp add: replicate_append_same)

lemma tele_step_ok: "tele_step (t, d) (t', d') \<Longrightarrow> tele_ok cfg endpoint t \<Longrightarrow> tele_ok cfg endpoint t'"
proof (erule tele_stepE)
  fix env m assume "tele_ok cfg endpoint t" "(t', d') = Tele_Start env m (t, d)"
  then show ?thesis using Start_ok [of cfg endpoint t env m d t' d'] by simp
next
  assume "tele_ok cfg endpoint t" "(t', d') = (Tele_Stop t, d)"
  then show ?thesis by (cases "te_runner t") (auto simp: tele_ok_def sent_ok_def Tele_Stop_def event_types_def)
next
  fix stats assume "tele_ok cfg endpoint t" "te_runner t = Starting" "(t', d') = (sendEvent stats ''startup'' t\<lparr>te_runner := Looping\<rparr>, d)"
  then show ?thesis by (auto simp: tele_ok_def sent_ok_def sendEvent_def event_types_def intro: exI [of _ 0])
next
  fix stats assume ok: "tele_ok cfg endpoint t" and r: "te_runner t = Looping" "(t', d') = (sendEvent stats ''heartbeat'' t, d)"
  from ok r(1) obtain n where "event_types t = ''startup'' # replicate n ''heartbeat''" by (auto simp: tele_ok_def sent_ok_def)
  then have "event_types t' = ''startup'' # replicate (Suc n) ''heartbeat''" using r(2) by (simp add: event_types_def sendEvent_def replicate_snoc)
  then have "sent_ok t'" using r unfolding sent_ok_def by (auto simp: sendEvent_def simp del: replicate.simps intro: exI [of _ "Suc n"])
  with ok r show ?thesis by (auto simp: tele_ok_def sendEvent_def)
next
  fix stats assume ok: "tele_ok cfg endpoint t" and r: "te_runner t = Looping" "te_done t"
    "(t', d') = (sendEvent stats ''shutdown'' t\<lparr>te_runner := Ended\<rparr>, d)"
  then show ?thesis by (auto simp: tele_ok_def sent_ok_def sendEvent_def event_types_def)
qed

abbreviation tele_reach :: "tele_client \<times> id_file \<Rightarrow> tele_client \<times> id_file \<Rightarrow> bool" where
  "tele_reach \<equiv> tele_step\<^sup>*\<^sup>*"

lemma tele_reach_ok: "tele_reach s s' \<Longrightarrow> tele_ok cfg endpoint (fst s) \<Longrightarrow> tele_ok cfg endpoint (fst s')"
proof (induction rule: rtranclp_induct)
  case (step y z)
  then show ?case using tele_step_ok [of "fst y" "snd y" "fst z" "snd z" cfg endpoint] by simp
qed

lemma NewClient_ok: "tele_ok (te_cfg (NewClient env cfg)) (te_endpoint (NewClient env cfg)) (NewClient env cfg)"
  by (simp add: tele_ok_def sent_ok_def NewClient_def Let_def)

text \<open>
  C31: Nothing leaves the machine unasked: in whatever order \<open>Start\<close>, \<open>Stop\<close>, the ticker and the
  goroutine run, an event was only sent if telemetry is enabled in the settings and its endpoint
  is an HTTP address without credentials; the events are one startup, then heartbeats, then at
  most one shutdown, all under one valid identifier; and when \<open>Stop\<close> has returned, the shutdown
  was the last.
\<close>

theorem telemetry_opt_in:
  assumes "tele_reach (NewClient env cfg, d) (t, d')"
  shows "(te_sent t \<noteq> [] \<longrightarrow> tc_Enabled cfg \<and> validateEndpoint (te_endpoint t) \<and> validUUID (te_instanceID t) \<and>
      (\<exists>n m. m \<le> 1 \<and> map py_EventType (te_sent t) = ''startup'' # replicate n ''heartbeat'' @ replicate m ''shutdown'') \<and>
      (\<forall>p \<in> set (te_sent t). py_InstanceID p = te_instanceID t)) \<and>
    (stop_returns t \<and> te_sent t \<noteq> [] \<longrightarrow> last (map py_EventType (te_sent t)) = ''shutdown'')"
proof -
  have ok: "tele_ok (te_cfg (NewClient env cfg)) (te_endpoint (NewClient env cfg)) t"
    using tele_reach_ok [OF assms] NewClient_ok [of env cfg] by simp
  have enabled: "tc_Enabled (te_cfg (NewClient env cfg)) = tc_Enabled cfg" by (simp add: NewClient_def Let_def)
  from ok enabled have same: "\<forall>p \<in> set (te_sent t). py_InstanceID p = te_instanceID t"
    and allowed: "te_runner t \<noteq> NoRunner \<Longrightarrow> tc_Enabled cfg \<and> validateEndpoint (te_endpoint t) \<and> validUUID (te_instanceID t)"
    by (auto simp: tele_ok_def)
  consider "te_sent t = []"
    | (loop) n where "te_runner t = Looping" "map py_EventType (te_sent t) = ''startup'' # replicate n ''heartbeat''"
    | (ended) n where "te_runner t = Ended" "map py_EventType (te_sent t) = ''startup'' # replicate n ''heartbeat'' @ [''shutdown'']"
    using ok by (cases "te_runner t") (auto simp: tele_ok_def sent_ok_def event_types_def)
  then show ?thesis
  proof cases
    case loop
    then have "\<exists>n m. m \<le> 1 \<and> map py_EventType (te_sent t) = ''startup'' # replicate n ''heartbeat'' @ replicate m ''shutdown''"
      by (intro exI [of _ n] exI [of _ 0]) simp
    moreover have "\<not> stop_returns t" "te_runner t \<noteq> NoRunner" using loop(1) by (simp_all add: stop_returns_def)
    ultimately show ?thesis using same allowed by blast
  next
    case ended
    then have "\<exists>n m. m \<le> 1 \<and> map py_EventType (te_sent t) = ''startup'' # replicate n ''heartbeat'' @ replicate m ''shutdown''"
      by (intro exI [of _ n] exI [of _ 1]) simp
    moreover have "last (map py_EventType (te_sent t)) = ''shutdown''" "te_runner t \<noteq> NoRunner" using ended by simp_all
    ultimately show ?thesis using same allowed by blast
  qed simp
qed

text \<open>A run: start, one event, stop, the shutdown.\<close>

definition quiet_config :: tele_config where
  "quiet_config = \<lparr>tc_Enabled = True, tc_Endpoint = ''https://t.example/api'', tc_IngestKey = [], tc_DataDir = [], tc_Interval = 0\<rparr>"

definition no_machine :: machine where
  "no_machine = \<lparr>mn_cores = 1, mn_cpuinfo = None, mn_meminfo = None, mn_version = None, mn_disk = None\<rparr>"

definition started_client :: "tele_client \<times> id_file" where
  "started_client = Tele_Start fine_env no_machine (NewClient (\<lambda>_. []) quiet_config, Missing)"

theorem telemetry_opt_in_witness:
  "last (map py_EventType (te_sent (sendEvent None ''shutdown'' (Tele_Stop (sendEvent None ''startup'' (fst started_client)\<lparr>te_runner := Looping\<rparr>))\<lparr>te_runner := Ended\<rparr>))) = ''shutdown''"
proof -
  let ?t1 = "sendEvent None ''startup'' (fst started_client)\<lparr>te_runner := Looping\<rparr>"
  let ?t2 = "sendEvent None ''shutdown'' (Tele_Stop ?t1)\<lparr>te_runner := Ended\<rparr>"
  let ?d = "snd started_client"
  have r: "te_runner (fst started_client) = Starting" by code_simp
  have s1: "tele_step (NewClient (\<lambda>_. []) quiet_config, Missing) (fst started_client, ?d)"
    using tele_step.start [of "(NewClient (\<lambda>_. []) quiet_config, Missing)" fine_env no_machine] by (simp add: started_client_def)
  have s2: "tele_step (fst started_client, ?d) (?t1, ?d)" using r by (rule tele_step.first)
  have s3: "tele_step (?t1, ?d) (Tele_Stop ?t1, ?d)" by (rule tele_step.stop)
  have s4: "tele_step (Tele_Stop ?t1, ?d) (?t2, ?d)" by (rule tele_step.shut) (simp_all add: Tele_Stop_def sendEvent_def)
  have "tele_reach (NewClient (\<lambda>_. []) quiet_config, Missing) (?t2, ?d)"
    by (rule converse_rtranclp_into_rtranclp [of tele_step, OF s1], rule converse_rtranclp_into_rtranclp [of tele_step, OF s2],
        rule converse_rtranclp_into_rtranclp [of tele_step, OF s3], rule r_into_rtranclp [of tele_step, OF s4])
  from telemetry_opt_in [OF this] have "stop_returns ?t2 \<and> te_sent ?t2 \<noteq> [] \<longrightarrow> last (map py_EventType (te_sent ?t2)) = ''shutdown''" by blast
  moreover have "stop_returns ?t2" "te_sent ?t2 \<noteq> []" by (simp_all add: stop_returns_def Tele_Stop_def sendEvent_def)
  ultimately show ?thesis by blast
qed

end
