(* ===== verification/ModelDownload.thy ===== *)
theory ModelDownload
  imports GoServer
begin

text \<open>
  The download of model files (\<^verbatim>\<open>internal/modeldl/modeldl.go\<close>) over a small file system: a map
  from paths to directories and files. The answer of the server and which operations fail are
  parameters of a download.
\<close>

datatype node = Dir | File string

type_synonym fs = "string \<rightharpoonup> node"

definition maxModelDownloadBytes :: nat where
  "maxModelDownloadBytes = 512 * 2 ^ 20"

record model_file =
  mf_URL :: string
  mf_DestPath :: string
  mf_Label :: string

text \<open>
  The answer: its status, the length it announces, its body, and whether the transfer breaks
  before the body is complete.
\<close>

record download_answer =
  da_status :: int
  da_length :: int
  da_body :: string
  da_breaks :: bool

text \<open>
  What the operations do: the name \<^verbatim>\<open>CreateTemp\<close> picks, the answer to the request, and
  whether the other operations work.
\<close>

record download_env =
  de_stat :: bool
  de_mkdir :: bool
  de_request :: bool
  de_answer :: "download_answer option"
  de_temp :: "fs \<Rightarrow> string \<Rightarrow> string option"
  de_close :: bool
  de_rename :: bool
  de_remove :: bool

datatype download_error =
    IsDirectory
  | NotInspected
  | NoDirectoryMade
  | NoRequest
  | NoDownload
  | BadStatus int
  | TooLarge
  | NoTemp
  | Interrupted
  | NotClosed
  | NotRenamed

text \<open>\<^verbatim>\<open>os.MkdirAll\<close>: the path and all that lead to it, unless one of them is a file.\<close>

definition leading :: "string \<Rightarrow> string list" where
  "leading p = filter (\<lambda>q. q \<noteq> []) (map (\<lambda>i. take i p) (filter (\<lambda>i. i = length p \<or> p ! i = CHR ''/'') [0..<length p + 1]))"

definition MkdirAll :: "string \<Rightarrow> fs \<Rightarrow> fs option" where
  "MkdirAll p fs =
     (if list_ex (\<lambda>q. case fs q of Some (File _) \<Rightarrow> True | _ \<Rightarrow> False) (leading p) then None
      else Some (\<lambda>q. if q \<in> set (leading p) then Some Dir else fs q))"

text \<open>\<^verbatim>\<open>filepath.Dir\<close>: what comes before the last slash, cleaned.\<close>

definition file_dir :: "string \<Rightarrow> string" where
  "file_dir p = path_Clean (path_dir p)"

text \<open>The temporary file is removed at the end, which does nothing after it was renamed.\<close>

definition remove_temp :: "download_env \<Rightarrow> string \<Rightarrow> fs \<Rightarrow> fs" where
  "remove_temp env tmp fs = (if de_remove env then fs(tmp := None) else fs)"

definition save_body :: "download_env \<Rightarrow> string \<Rightarrow> string \<Rightarrow> download_answer \<Rightarrow> fs \<Rightarrow> download_error option \<times> fs" where
  "save_body env dest tmp a fs =
     (let written = take (maxModelDownloadBytes + 1) (da_body a);
          fs1 = fs(tmp \<mapsto> File written)
      in if da_breaks a \<and> length (da_body a) \<le> maxModelDownloadBytes then (Some Interrupted, remove_temp env tmp fs1)
         else if maxModelDownloadBytes < length written then (Some TooLarge, remove_temp env tmp fs1)
         else if \<not> de_close env then (Some NotClosed, remove_temp env tmp fs1)
         else if \<not> de_rename env then (Some NotRenamed, remove_temp env tmp fs1)
         else (None, remove_temp env tmp (fs1(tmp := None, dest \<mapsto> File written))))"

definition downloadIfMissing :: "download_env \<Rightarrow> model_file \<Rightarrow> fs \<Rightarrow> download_error option \<times> fs" where
  "downloadIfMissing env f fs =
     (if \<not> de_stat env then (Some NotInspected, fs)
      else (case fs (mf_DestPath f) of
              Some Dir \<Rightarrow> (Some IsDirectory, fs)
            | Some (File _) \<Rightarrow> (None, fs)
            | None \<Rightarrow>
                (case (if de_mkdir env then MkdirAll (file_dir (mf_DestPath f)) fs else None) of
                   None \<Rightarrow> (Some NoDirectoryMade, fs)
                 | Some fs1 \<Rightarrow>
                     if \<not> de_request env then (Some NoRequest, fs1)
                     else (case de_answer env of
                             None \<Rightarrow> (Some NoDownload, fs1)
                           | Some a \<Rightarrow>
                               if da_status a \<noteq> 200 then (Some (BadStatus (da_status a)), fs1)
                               else if int maxModelDownloadBytes < da_length a then (Some TooLarge, fs1)
                               else (case de_temp env fs1 (mf_DestPath f) of
                                       None \<Rightarrow> (Some NoTemp, fs1)
                                     | Some tmp \<Rightarrow> save_body env (mf_DestPath f) tmp a fs1)))))"

text \<open>The errors are only logged.\<close>

definition EnsureDownloaded :: "(model_file \<Rightarrow> download_env) \<Rightarrow> model_file list \<Rightarrow> fs \<Rightarrow> fs" where
  "EnsureDownloaded env files fs = fold (\<lambda>f fs. snd (downloadIfMissing (env f) f fs)) files fs"

subsection \<open>What a download leaves behind\<close>

text \<open>The temporary name: one that is not in use.\<close>

definition fresh_temp :: "download_env \<Rightarrow> bool" where
  "fresh_temp env = (\<forall>fs dest tmp. de_temp env fs dest = Some tmp \<longrightarrow> fs tmp = None \<and> tmp \<noteq> dest)"

lemma MkdirAll_keeps: "MkdirAll p fs = Some fs1 \<Longrightarrow> (\<forall>q x. fs q = Some x \<longrightarrow> fs1 q = Some x) \<and> (\<forall>q. fs q = None \<longrightarrow> fs1 q = None \<or> fs1 q = Some Dir)"
  by (auto simp: MkdirAll_def list_ex_iff split: if_splits node.splits option.splits) (metis node.exhaust option.simps(5) node.simps(5,6))+

text \<open>What is at a path after a download.\<close>

definition left_behind :: "model_file \<Rightarrow> download_answer option \<Rightarrow> fs \<Rightarrow> fs \<Rightarrow> bool" where
  "left_behind f a fs fs' =
     ((\<forall>q x. fs q = Some x \<longrightarrow> fs' q = Some x) \<and>
      (\<forall>q s. fs q = None \<and> fs' q = Some (File s) \<longrightarrow>
         q = mf_DestPath f \<and> length s \<le> maxModelDownloadBytes \<and> (\<exists>r. a = Some r \<and> da_status r = 200 \<and> \<not> da_breaks r \<and> s = da_body r)))"

lemma save_body_cases:
  assumes "fs1 tmp = None" "tmp \<noteq> dest" "de_remove env"
  shows "(\<exists>e. save_body env dest tmp a fs1 = (Some e, fs1)) \<or>
    save_body env dest tmp a fs1 = (None, fs1(dest \<mapsto> File (da_body a))) \<and> \<not> da_breaks a \<and> length (da_body a) \<le> maxModelDownloadBytes"
proof -
  have gone: "remove_temp env tmp (fs1(tmp \<mapsto> x)) = fs1" for x using assms(1,3) by (auto simp: remove_temp_def)
  have kept: "remove_temp env tmp (fs1(tmp := None, dest \<mapsto> x)) = fs1(dest \<mapsto> x)" for x
    using assms by (auto simp: remove_temp_def fun_upd_def)
  show ?thesis
  proof (cases "length (da_body a) \<le> maxModelDownloadBytes")
    case True
    with gone kept show ?thesis by (simp add: save_body_def Let_def)
  next
    case False
    then have "maxModelDownloadBytes < length (take (maxModelDownloadBytes + 1) (da_body a))" by simp
    with False gone show ?thesis by (simp add: save_body_def Let_def)
  qed
qed

lemma download_cases:
  "(\<exists>e. downloadIfMissing env f fs = (Some e, fs)) \<or>
   (\<exists>s. downloadIfMissing env f fs = (None, fs) \<and> fs (mf_DestPath f) = Some (File s)) \<or>
   (\<exists>fs1. MkdirAll (file_dir (mf_DestPath f)) fs = Some fs1 \<and> fs (mf_DestPath f) = None \<and>
     ((\<exists>e. downloadIfMissing env f fs = (Some e, fs1)) \<or>
      (\<exists>a tmp. de_answer env = Some a \<and> da_status a = 200 \<and> de_temp env fs1 (mf_DestPath f) = Some tmp \<and>
        downloadIfMissing env f fs = save_body env (mf_DestPath f) tmp a fs1)))"
proof (cases "de_stat env \<and> fs (mf_DestPath f) = None")
  case False
  then show ?thesis by (cases "fs (mf_DestPath f)") (auto simp: downloadIfMissing_def split: node.splits)
next
  case True
  show ?thesis
  proof (cases "de_mkdir env \<and> MkdirAll (file_dir (mf_DestPath f)) fs \<noteq> None")
    case False
    with True show ?thesis by (auto simp: downloadIfMissing_def)
  next
    case made: True
    then obtain fs1 where fs1: "MkdirAll (file_dir (mf_DestPath f)) fs = Some fs1" by blast
    show ?thesis
    proof (cases "\<exists>a tmp. de_request env \<and> de_answer env = Some a \<and> da_status a = 200 \<and> da_length a \<le> int maxModelDownloadBytes \<and>
        de_temp env fs1 (mf_DestPath f) = Some tmp")
      case True
      with \<open>de_stat env \<and> fs (mf_DestPath f) = None\<close> made fs1 show ?thesis by (auto simp: downloadIfMissing_def)
    next
      case False
      then have "\<exists>e. downloadIfMissing env f fs = (Some e, fs1)"
        using True made fs1 by (cases "de_answer env"; cases "de_temp env fs1 (mf_DestPath f)") (auto simp: downloadIfMissing_def)
      with True fs1 show ?thesis by blast
    qed
  qed
qed

lemma download_core:
  fixes f :: model_file and fs :: fs
  assumes "fresh_temp env" "de_remove env"
  defines "r \<equiv> downloadIfMissing env f fs"
  shows "left_behind f (de_answer env) fs (snd r) \<and> (fst r = None \<longrightarrow> (\<exists>s. snd r (mf_DestPath f) = Some (File s))) \<and>
    (fst r \<noteq> None \<and> fs (mf_DestPath f) = None \<longrightarrow> (\<nexists>s. snd r (mf_DestPath f) = Some (File s)))"
proof -
  have same: "left_behind f (de_answer env) fs fs" by (auto simp: left_behind_def)
  consider (early) e where "r = (Some e, fs)" | (there) s where "r = (None, fs)" "fs (mf_DestPath f) = Some (File s)"
    | (made) fs1 where "MkdirAll (file_dir (mf_DestPath f)) fs = Some fs1" "fs (mf_DestPath f) = None"
        "(\<exists>e. r = (Some e, fs1)) \<or> (\<exists>a tmp. de_answer env = Some a \<and> da_status a = 200 \<and> de_temp env fs1 (mf_DestPath f) = Some tmp \<and>
          r = save_body env (mf_DestPath f) tmp a fs1)"
    unfolding r_def using download_cases [of env f fs] by blast
  then show ?thesis
  proof cases
    case early
    with same show ?thesis by simp
  next
    case there
    with same show ?thesis by simp
  next
    case made
    note keeps = MkdirAll_keeps [OF made(1)]
    have no_file: "fs q = None \<Longrightarrow> fs1 q \<noteq> Some (File s)" for q s
    proof
      assume "fs q = None" "fs1 q = Some (File s)"
      with conjunct2 [OF keeps, rule_format, of q] show False by simp
    qed
    with keeps have dirs: "left_behind f (de_answer env) fs fs1" unfolding left_behind_def by blast
    have none: "\<nexists>s. fs1 (mf_DestPath f) = Some (File s)" using no_file made(2) by blast
    from made(3) show ?thesis
    proof
      assume "\<exists>e. r = (Some e, fs1)"
      with dirs none show ?thesis by auto
    next
      assume "\<exists>a tmp. de_answer env = Some a \<and> da_status a = 200 \<and> de_temp env fs1 (mf_DestPath f) = Some tmp \<and> r = save_body env (mf_DestPath f) tmp a fs1"
      then obtain a tmp where a: "de_answer env = Some a" "da_status a = 200" "de_temp env fs1 (mf_DestPath f) = Some tmp"
        "r = save_body env (mf_DestPath f) tmp a fs1" by blast
      have tmp: "fs1 tmp = None" "tmp \<noteq> mf_DestPath f" using assms(1) a(3) by (auto simp: fresh_temp_def)
      have "(\<exists>e. save_body env (mf_DestPath f) tmp a fs1 = (Some e, fs1)) \<or>
        save_body env (mf_DestPath f) tmp a fs1 = (None, fs1(mf_DestPath f \<mapsto> File (da_body a))) \<and> \<not> da_breaks a \<and>
        length (da_body a) \<le> maxModelDownloadBytes"
        by (rule save_body_cases) (use tmp assms(2) in simp_all)
      then show ?thesis
      proof (elim disjE exE conjE)
        fix e assume "save_body env (mf_DestPath f) tmp a fs1 = (Some e, fs1)"
        with a(4) dirs none show ?thesis by simp
      next
        assume s: "save_body env (mf_DestPath f) tmp a fs1 = (None, fs1(mf_DestPath f \<mapsto> File (da_body a)))"
          "\<not> da_breaks a" "length (da_body a) \<le> maxModelDownloadBytes"
        have "left_behind f (de_answer env) fs (fs1(mf_DestPath f \<mapsto> File (da_body a)))"
          using dirs made(2) a(1,2) s(2,3) by (auto simp: left_behind_def)
        with s(1) a(4) show ?thesis by simp
      qed
    qed
  qed
qed

text \<open>
  C32: A model file is complete or not there: whatever fails or breaks off during a download,
  nothing that was there before changes, no temporary or partial file stays behind, and the
  only file that may be new is the destination with the whole body of an answer of status 200
  within the limit. Without an error the file is there; with an error no new one is.
\<close>

theorem download_atomic:
  fixes f :: model_file and fs :: fs
  assumes "fresh_temp env" "de_remove env"
  defines "r \<equiv> downloadIfMissing env f fs"
  shows "left_behind f (de_answer env) fs (snd r) \<and> (fst r = None \<longrightarrow> (\<exists>s. snd r (mf_DestPath f) = Some (File s))) \<and>
    (fst r \<noteq> None \<and> fs (mf_DestPath f) = None \<longrightarrow> (\<nexists>s. snd r (mf_DestPath f) = Some (File s)))"
  unfolding r_def by (rule download_core [OF assms(1,2)])

definition sample_download :: "bool \<Rightarrow> download_env" where
  "sample_download breaks = \<lparr>de_stat = True, de_mkdir = True, de_request = True,
     de_answer = Some \<lparr>da_status = 200, da_length = 3, da_body = ''abc'', da_breaks = breaks\<rparr>,
     de_temp = (\<lambda>fs dest. if fs (dest @ ''.1.tmp'') = None then Some (dest @ ''.1.tmp'') else None),
     de_close = True, de_rename = True, de_remove = True\<rparr>"

definition sample_model :: model_file where
  "sample_model = \<lparr>mf_URL = ''https://h/m'', mf_DestPath = ''ai/m.pkl'', mf_Label = ''m''\<rparr>"

theorem download_atomic_witness:
  "left_behind sample_model (de_answer (sample_download True)) Map.empty (snd (downloadIfMissing (sample_download True) sample_model Map.empty)) \<and>
   (\<exists>s. snd (downloadIfMissing (sample_download False) sample_model Map.empty) ''ai/m.pkl'' = Some (File s))"
proof -
  have fresh: "fresh_temp (sample_download b)" "de_remove (sample_download b)" for b
    by (auto simp: fresh_temp_def sample_download_def)
  have "fst (downloadIfMissing (sample_download False) sample_model Map.empty) = None" by code_simp
  with download_atomic [OF fresh [of False], where f = sample_model and fs = Map.empty]
    download_atomic [OF fresh [of True], where f = sample_model and fs = Map.empty]
  show ?thesis by (simp add: sample_model_def)
qed

lemma EnsureDownloaded_keeps:
  assumes "\<And>f. fresh_temp (env f) \<and> de_remove (env f)" "fs q = Some x"
  shows "EnsureDownloaded env files fs q = Some x"
  using assms(2)
proof (induction files arbitrary: fs)
  case (Cons f files)
  have "left_behind f (de_answer (env f)) fs (snd (downloadIfMissing (env f) f fs))"
    using download_core [of "env f", where f = f and fs = fs] assms(1) by blast
  with Cons show ?case by (simp add: EnsureDownloaded_def left_behind_def)
qed (simp add: EnsureDownloaded_def)

end
