(* ===== verification/Startup.thy ===== *)
theory Startup
  imports SnapshotApplied Gateway Telemetry ModelDownload Bandwidth
begin

text \<open>
  How \<^verbatim>\<open>main\<close> puts the program together: the configuration, the tables with the initial
  snapshots, the resolver and the rules loaded from them, and each component that the
  configuration enables. \<^verbatim>\<open>OpenWithFailover\<close> is not in the repository, so the opened tables
  are a parameter, like the other things the machine answers with.
\<close>

subsection \<open>What the start reads and builds\<close>

record start_input =
  st_env :: "string \<Rightarrow> string"
  st_load :: "config option"
  st_mkdir :: "string \<Rightarrow> bool"
  st_open :: "(db \<times> bool) option"
  st_recovery :: disk
  st_answer :: answer
  st_read :: read_file
  st_time :: gotime
  st_regex :: regexp
  st_waf :: waf_compiler
  st_fs :: fs
  st_download :: "model_file \<Rightarrow> download_env"
  st_worker_starts :: "string \<Rightarrow> bool"
  st_text :: "page \<Rightarrow> string"
  st_hash :: bcrypt
  st_proc :: process
  st_parse :: "string \<Rightarrow> prediction option"
  st_id :: id_env
  st_id_file :: id_file
  st_machine :: machine

datatype start_error = BadProxies | NoDirectory string | NoDatabase | BadRoutes load_error

record system =
  sy_gateway :: gateway
  sy_setting :: setting
  sy_stream :: stream_state
  sy_local :: snapshot
  sy_worker :: worker
  sy_checks :: bool
  sy_queue :: "queue option"
  sy_bandwidth :: "bandwidthLimiter option"
  sy_backups :: "(string \<times> duration) option"
  sy_polling :: "(string \<times> string \<times> poll_settings) option"
  sy_fs :: fs
  sy_telemetry :: "tele_client \<times> id_file"

definition snapshotPath :: string where
  "snapshotPath = ''./database/config-snapshot.json''"

text \<open>The tables after the local routes and the recovered snapshot; errors are only logged.\<close>

definition initial_tables :: "waf_compiler \<Rightarrow> snapshot \<Rightarrow> snapshot \<Rightarrow> db \<Rightarrow> db" where
  "initial_tables compile localSnap initialSnap d =
     (let d1 = (if sn_RoutesConfigured localSnap then snd (applySnapshotToDB compile localSnap d) else d)
      in if snapshotHasContent (Some initialSnap)
         then snd (applySnapshotToDB compile (mergeConfigSnapshots (Some localSnap) (Some initialSnap)) d1) else d1)"

definition recovered_config :: "snapshot \<Rightarrow> config \<Rightarrow> config" where
  "recovered_config initialSnap cfg =
     (if snapshotHasContent (Some initialSnap) then applyAgentConfigToConfig (sn_AgentConfig initialSnap) cfg else cfg)"

definition api_url :: "(string \<Rightarrow> string) \<Rightarrow> config \<Rightarrow> string" where
  "api_url env cfg = (if env ''API_STREAM_URL'' = [] \<and> cf_APIURL cfg \<noteq> [] then cf_APIURL cfg else env ''API_STREAM_URL'')"

text \<open>The control plane's settings for this agent, when there is a control plane and it answers.\<close>

definition fetched_config :: "start_input \<Rightarrow> config \<Rightarrow> config" where
  "fetched_config i cfg =
     (if api_url (st_env i) cfg = [] then cfg
      else (case fetchAgentConfig (st_answer i) of Inl e \<Rightarrow> cfg | Inr a \<Rightarrow> applyAgentConfigToConfig a cfg))"

definition health_worker :: "config \<Rightarrow> worker" where
  "health_worker cfg = NewWorker (seconds (ifZeroInt (cf_HealthIntervalSeconds cfg) 10)) (seconds (ifZeroInt (cf_HealthTimeoutSeconds cfg) 3))
     (ifEmpty (cf_HealthPath cfg) ''/'')"

definition cache_store :: "config \<Rightarrow> store option" where
  "cache_store cfg =
     (if cf_CacheEnabled cfg
      then Some (NewStore (seconds (ifZeroInt (cf_CacheTTLSeconds cfg) 60)) (ifZeroInt (cf_CacheMaxEntries cfg) 1024)
                  (ifZeroInt (cf_CacheMaxBodyBytes cfg) (2 ^ 20)))
      else None)"

definition rate_limiter :: "config \<Rightarrow> rateLimiter option" where
  "rate_limiter cfg = (if cf_RateEnabled cfg then Some (NewRateLimiter (cf_RequestsPerMinute cfg) (cf_RateBurst cfg)) else None)"

definition request_queue :: "config \<Rightarrow> queue option" where
  "request_queue cfg =
     (if cf_QueueEnabled cfg
      then Some (NewQueue (cf_MaxConcurrent cfg) (cf_MaxQueued cfg) (seconds (ifZeroInt (cf_QueueTimeoutSeconds cfg) 5))) else None)"

definition bandwidth_limiter :: "config \<Rightarrow> bandwidthLimiter option" where
  "bandwidth_limiter cfg = (if cf_BandwidthEnabled cfg then Some (NewBandwidthLimiter (cf_BytesPerSecond cfg) (cf_BurstBytes cfg)) else None)"

definition metrics_recorder :: "gotime \<Rightarrow> config \<Rightarrow> recorder option" where
  "metrics_recorder now cfg = (if cf_MetricsEnabled cfg then Some (NewRecorder now) else None)"

definition seven_tenths :: rat where
  "seven_tenths = fl (7 / 10)"

definition model_detector :: "(string \<Rightarrow> bool) \<Rightarrow> (string \<Rightarrow> bool) \<Rightarrow> string \<Rightarrow> string \<Rightarrow> string \<Rightarrow> model_config \<Rightarrow> detector option" where
  "model_detector exists_file starts model scaler script m =
     (let s = ifEmpty (mc_PythonScript m) script
      in if mc_Enabled m
         then new_detector exists_file (starts s) True (ifZero (mc_Threshold m) seven_tenths)
                [ifEmpty (mc_ModelPath m) model, ifEmpty (mc_ScalerPath m) scaler] s
         else None)"

text \<open>The files of the models that are downloaded before their detectors start.\<close>

definition kodaWaf_files :: "model_config \<Rightarrow> model_file list" where
  "kodaWaf_files m =
     [\<lparr>mf_URL = ''https://huggingface.co/netgoat-ai/koda-waf/resolve/main/smart_waf_model.pkl'',
       mf_DestPath = ifEmpty (mc_ModelPath m) ''ai/smart_waf_model.pkl'', mf_Label = ''koda-waf model''\<rparr>,
      \<lparr>mf_URL = ''https://huggingface.co/netgoat-ai/koda-waf/resolve/main/model_features.pkl'',
       mf_DestPath = ifEmpty (mc_ScalerPath m) ''ai/model_features.pkl'', mf_Label = ''koda-waf features''\<rparr>]"

definition koda2_files :: "model_config \<Rightarrow> model_file list" where
  "koda2_files m =
     [\<lparr>mf_URL = ''https://huggingface.co/netgoat-ai/koda-2/resolve/main/model.keras'',
       mf_DestPath = ifEmpty (mc_ModelPath m) ''ai/koda2.keras'', mf_Label = ''koda-2 model''\<rparr>,
      \<lparr>mf_URL = ''https://huggingface.co/netgoat-ai/koda-2/resolve/main/scaler.pkl'',
       mf_DestPath = ifEmpty (mc_ScalerPath m) ''ai/koda2_scaler.pkl'', mf_Label = ''koda-2 scaler''\<rparr>]"

definition telemetry_config :: "config \<Rightarrow> tele_config" where
  "telemetry_config cfg = \<lparr>tc_Enabled = cf_TelemetryEnabled cfg, tc_Endpoint = cf_TelemetryEndpoint cfg, tc_IngestKey = cf_IngestKey cfg,
     tc_DataDir = ''./database'', tc_Interval = seconds (ifZeroInt (cf_TelemetryIntervalSeconds cfg) 300)\<rparr>"

text \<open>Everything that is built once the tables are loaded.\<close>

definition build_system :: "start_input \<Rightarrow> config \<Rightarrow> resolver \<Rightarrow> stream_state \<Rightarrow> snapshot \<Rightarrow> db \<Rightarrow> routeSnapshot \<Rightarrow> system" where
  "build_system i cfg trusted stream localSnap d routes =
     (let env = st_env i;
          checks = HealthChecksEnabled (Some cfg);
          worker0 = health_worker cfg;
          backup = DatabaseBackupIntervalSeconds (Some cfg);
          url = api_url env cfg;
          cfg2 = fetched_config i cfg;
          fs1 = (if mc_Enabled (cf_KodaWaf cfg2) then EnsureDownloaded (st_download i) (kodaWaf_files (cf_KodaWaf cfg2)) (st_fs i) else st_fs i);
          fs2 = (if mc_Enabled (cf_Koda2 cfg2) then EnsureDownloaded (st_download i) (koda2_files (cf_Koda2 cfg2)) fs1 else fs1);
          there = (\<lambda>fs p. fs p \<noteq> None)
      in \<lparr>sy_gateway =
            \<lparr>gw_db = d, gw_challenges = Challenge_NewStore, gw_limiter = rate_limiter cfg2,
             gw_kodaWaf = model_detector (there fs1) (st_worker_starts i) ''ai/smart_waf_model.pkl'' ''ai/model_features.pkl'' ''ai/koda_waf_server.py'' (cf_KodaWaf cfg2),
             gw_anomaly = model_detector (there (st_fs i)) (st_worker_starts i) ''ai/goatai.keras'' ''ai/scaler.pkl'' ''ai/model_server.py'' (cf_Anomaly cfg2),
             gw_koda2 = model_detector (there fs2) (st_worker_starts i) ''ai/koda2.keras'' ''ai/koda2_scaler.pkl'' ''ai/koda2_server.py'' (cf_Koda2 cfg2),
             gw_rules = snd (Waf_Reload (st_waf i) d NewEngine), gw_routes = routes, gw_cache = cache_store cfg2,
             gw_metrics = metrics_recorder (st_time i) cfg2, gw_balancer = New_balancer, gw_proxies = []\<rparr>,
          sy_setting =
            \<lparr>st_config = cfg2, st_trusted = Some trusted, st_pages = buildErrorPageStore (st_read i) cfg2,
             st_page_text = st_text i, st_compare = st_hash i, st_process = st_proc i, st_decode = st_parse i\<rparr>,
          sy_stream = stream, sy_local = localSnap,
          sy_worker = (if checks then syncHealthTargets d worker0 else worker0), sy_checks = checks,
          sy_queue = request_queue cfg2, sy_bandwidth = bandwidth_limiter cfg2,
          sy_backups = (if 0 < backup \<and> 0 < seconds backup \<and> DatabaseStandbyPath (Some cfg) \<noteq> [] then Some (DatabaseStandbyPath (Some cfg), seconds backup) else None),
          sy_polling = (if url = [] then None else Some (url, resolveAPIKey env (Some cfg), streamSettingsFromConfig (Some cfg2))),
          sy_fs = fs2,
          sy_telemetry = Tele_Start (st_id i) (st_machine i) (NewClient env (telemetry_config cfg2), st_id_file i)\<rparr>)"

text \<open>A configuration that cannot be read is the empty one.\<close>

definition loaded_config :: "start_input \<Rightarrow> config" where
  "loaded_config i = (case st_load i of None \<Rightarrow> empty_config | Some c \<Rightarrow> c)"

definition recovered_snapshot :: "start_input \<Rightarrow> snapshot" where
  "recovered_snapshot i = GetSnapshot (start_stream snapshotPath (st_recovery i))"

definition tables_at_start :: "start_input \<Rightarrow> db \<Rightarrow> db" where
  "tables_at_start i d = initial_tables (st_waf i) (localConfigSnapshot (Some (loaded_config i))) (recovered_snapshot i) d"

definition start_program :: "start_input \<Rightarrow> start_error + system" where
  "start_program i =
     (case New (cf_TrustedProxies (loaded_config i)) of
        None \<Rightarrow> Inl BadProxies
      | Some trusted \<Rightarrow>
          (let dir = file_dir (DatabasePath (Some (loaded_config i)))
           in if \<not> st_mkdir i dir then Inl (NoDirectory dir)
              else if \<not> st_mkdir i (file_dir snapshotPath) then Inl (NoDirectory (file_dir snapshotPath))
              else (case st_open i of
                      None \<Rightarrow> Inl NoDatabase
                    | Some (d0, recovered) \<Rightarrow>
                        (case loadRouteSnapshot (st_regex i) (tables_at_start i d0) of
                           Inl e \<Rightarrow> Inl (BadRoutes e)
                         | Inr routes \<Rightarrow>
                             Inr (build_system i (recovered_config (recovered_snapshot i) (loaded_config i)) trusted
                               (start_stream snapshotPath (st_recovery i)) (localConfigSnapshot (Some (loaded_config i)))
                               (tables_at_start i d0) routes)))))"

subsection \<open>When a start fails\<close>

text \<open>A row of the tables that the resolver cannot be loaded from.\<close>

definition uncompilable :: "regexp \<Rightarrow> route_row \<Rightarrow> bool" where
  "uncompilable regex r = (active_route r \<and> rr_type r \<noteq> ''path'' \<and> compileDomainMatcher regex (rr_type r) (rr_domain r) = None)"

lemma scan_route_fails: "active_route r \<Longrightarrow> scan_route regex r = Inl e \<longleftrightarrow> uncompilable regex r \<and> e = CompileError (rr_id r)"
  using type_norm [of "rr_type r"] by (auto simp: scan_route_def uncompilable_def active_route_def Let_def split: option.splits)

lemma scan_routes_fail:
  "\<forall>r \<in> set rs. active_route r \<Longrightarrow> isl (scan_routes regex rs) \<longleftrightarrow> (\<exists>r \<in> set rs. uncompilable regex r)"
proof (induction rs)
  case (Cons r rs)
  show ?case
  proof (cases "scan_route regex r")
    case (Inl e)
    with Cons.prems scan_route_fails [of r regex e] show ?thesis by simp
  next
    case (Inr c)
    with Cons.prems scan_route_fails [of r regex] have "\<not> uncompilable regex r" by auto
    with Cons Inr show ?thesis by (auto split: sum.splits)
  qed
qed simp

lemma load_fails: "isl (loadRouteSnapshot regex d) \<longleftrightarrow> (\<exists>r \<in> set (db_routes d). uncompilable regex r)"
proof -
  have "isl (loadRouteSnapshot regex d) = isl (scan_routes regex (active_rows d))"
    by (simp add: loadRouteSnapshot_def split: sum.splits)
  also have "\<dots> = (\<exists>r \<in> set (active_rows d). uncompilable regex r)"
    by (rule scan_routes_fail) (simp add: active_rows_mem)
  finally show ?thesis by (auto simp: active_rows_mem uncompilable_def)
qed

lemma start_fails:
  "isl (start_program i) \<longleftrightarrow>
     New (cf_TrustedProxies (loaded_config i)) = None \<or>
     \<not> st_mkdir i (file_dir (DatabasePath (Some (loaded_config i)))) \<or> \<not> st_mkdir i ''database'' \<or>
     (case st_open i of None \<Rightarrow> True
      | Some (d, recovered) \<Rightarrow> \<exists>r \<in> set (db_routes (tables_at_start i d)). uncompilable (st_regex i) r)"
proof -
  have "file_dir snapshotPath = ''database''" by code_simp
  then show ?thesis
    by (auto simp: start_program_def Let_def simp flip: load_fails split: option.splits sum.splits prod.splits)
qed


subsection \<open>What a started program serves\<close>

lemma started:
  assumes "start_program i = Inr sys"
  shows "\<exists>d0 b trusted routes. st_open i = Some (d0, b) \<and> New (cf_TrustedProxies (loaded_config i)) = Some trusted \<and>
    loadRouteSnapshot (st_regex i) (tables_at_start i d0) = Inr routes \<and>
    sys = build_system i (recovered_config (recovered_snapshot i) (loaded_config i)) trusted (start_stream snapshotPath (st_recovery i))
      (localConfigSnapshot (Some (loaded_config i))) (tables_at_start i d0) routes"
  using assms by (auto simp: start_program_def Let_def split: option.splits sum.splits prod.splits if_splits)

lemma build_parts [simp]:
  "gw_db (sy_gateway (build_system i cfg trusted stream localSnap d routes)) = d"
  "gw_routes (sy_gateway (build_system i cfg trusted stream localSnap d routes)) = routes"
  "gw_rules (sy_gateway (build_system i cfg trusted stream localSnap d routes)) = snd (Waf_Reload (st_waf i) d NewEngine)"
  by (simp_all add: build_system_def Let_def)

lemma tables_ok: "db_ok d \<Longrightarrow> db_ok (tables_at_start i d)"
  by (simp add: tables_at_start_def initial_tables_def Let_def apply_keeps_ok)

text \<open>The local snapshot brings no users, so it does not matter to the users of another one.\<close>

lemma local_has_no_users:
  "sn_Users (localConfigSnapshot cfg) = []" "sn_UserDomains (localConfigSnapshot cfg) = []"
  by (simp_all add: localConfigSnapshot_def no_snapshot_def split: option.splits)

lemma user_names_kept:
  assumes "db_ok d" "fst (applySnapshotToDB compile (localConfigSnapshot cfg) d) = None"
  shows "us_name ` set (db_users (snd (applySnapshotToDB compile (localConfigSnapshot cfg) d))) = us_name ` set (db_users d)"
proof -
  let ?d = "snd (applySnapshotToDB compile (localConfigSnapshot cfg) d)"
  have "abs_users ?d = abs_users d"
    using accepted_applied [OF assms] by (simp add: applied_def local_has_no_users set_users_def)
  then show ?thesis by (intro set_eqI) (simp only: abs_users_domain [symmetric])
qed

lemma apply_refused: "fst (applySnapshotToDB compile snap d) \<noteq> None \<Longrightarrow> snd (applySnapshotToDB compile snap d) = d"
  by (simp add: applySnapshotToDB_def split: sum.splits)

lemma recovered_is_applied:
  assumes ok: "db_ok d0" and content: "snapshotHasContent (Some (recovered_snapshot i))"
  defines "merged \<equiv> mergeConfigSnapshots (Some (localConfigSnapshot (Some (loaded_config i)))) (Some (recovered_snapshot i))"
  assumes valid: "snapshot_valid (st_waf i) merged d0"
  shows "\<exists>d1. applied merged d1 (tables_at_start i d0)"
proof -
  let ?local = "localConfigSnapshot (Some (loaded_config i))"
  define d1 where "d1 = (if sn_RoutesConfigured ?local then snd (applySnapshotToDB (st_waf i) ?local d0) else d0)"
  have names: "us_name ` set (db_users d1) = us_name ` set (db_users d0)"
    using user_names_kept [OF ok] apply_refused by (metis d1_def)
  have ok1: "db_ok d1" using ok by (simp add: d1_def apply_keeps_ok)
  have "snapshot_valid (st_waf i) merged d1" using valid by (simp add: snapshot_valid_def names)
  from transaction_valid [OF ok1 this] have "applied merged d1 (snd (applySnapshotToDB (st_waf i) merged d1))"
    by (auto simp: applySnapshotToDB_def)
  moreover have "tables_at_start i d0 = snd (applySnapshotToDB (st_waf i) merged d1)"
    using content by (simp add: tables_at_start_def initial_tables_def merged_def d1_def Let_def)
  ultimately show ?thesis by auto
qed


text \<open>A bare machine: no configuration, no control plane, empty tables, and what the disk holds.\<close>

definition bare_start :: "disk \<Rightarrow> start_input" where
  "bare_start d =
     \<lparr>st_env = (\<lambda>_. []), st_load = None, st_mkdir = (\<lambda>_. True), st_open = Some (empty_db, False), st_recovery = d,
      st_answer = NoAnswer ''no route'', st_read = (\<lambda>_. None), st_time = 0, st_regex = (\<lambda>_. None), st_waf = accept_all,
      st_fs = Map.empty, st_download = (\<lambda>_. \<lparr>de_stat = True, de_mkdir = True, de_request = True, de_answer = None,
        de_temp = (\<lambda>_ _. None), de_close = True, de_rename = True, de_remove = True\<rparr>),
      st_worker_starts = (\<lambda>_. False), st_text = (\<lambda>_. []), st_hash = (\<lambda>_ _. False), st_proc = (\<lambda>_. []), st_parse = (\<lambda>_. None),
      st_id = fine_env, st_id_file = Missing, st_machine = no_machine\<rparr>"

definition saved :: stream_state where
  "saved = snd (HandleMessage True \<lparr>ms_Type = ''snapshot'', ms_Data = Some (enc_snapshot sample_snapshot), ms_Version = 1\<rparr>
     (start_stream snapshotPath Map.empty))"

lemma bare_fields: "st_open (bare_start d) = Some (empty_db, False)" "db_ok empty_db" "st_recovery (bare_start d) = d"
  "st_mkdir (bare_start d) p" "st_regex (bare_start d) = (\<lambda>_. None)"
  by (simp_all add: bare_start_def empty_db_ok)

lemma bare_started: "\<exists>sys. start_program (bare_start (st_disk saved)) = Inr sys"
proof -
  let ?i = "bare_start (st_disk saved)"
  have rows: "map rr_type (db_routes (tables_at_start ?i empty_db)) = [''domain'']"
    "map rr_domain (db_routes (tables_at_start ?i empty_db)) = [''a.com'']" by code_simp+
  have "compileDomainMatcher (\<lambda>_. None) ''domain'' ''a.com'' \<noteq> None" by code_simp
  with rows have "\<not> (\<exists>r \<in> set (db_routes (tables_at_start ?i empty_db)). uncompilable (\<lambda>_. None) r)"
    by (auto simp: uncompilable_def map_eq_Cons_conv)
  moreover have "New (cf_TrustedProxies (loaded_config ?i)) \<noteq> None" by code_simp
  ultimately have "\<not> isl (start_program ?i)" by (simp add: start_fails bare_fields)
  then show ?thesis by (cases "start_program ?i") simp_all
qed


end
