(* ===== verification/System.thy ===== *)
theory System
  imports Startup ChallengeSafety
begin

text \<open>
  The whole program as a state and the things that happen to it: requests of clients, messages of the
  control plane, rounds of the loop that applies them, and probes of the health worker. The
  invariants of the components hold together after any of them, and what the
  program serves is what it was configured with.
\<close>

subsection \<open>The gateway keeps the invariants of its parts\<close>

definition gw_ok :: "gateway \<Rightarrow> bool" where
  "gw_ok gw = (db_ok (gw_db gw) \<and> cs_ok (gw_challenges gw) \<and> pred_option limiter_ok (gw_limiter gw) \<and>
     pred_option store_ok (gw_cache gw) \<and> pred_option metrics_ok (gw_metrics gw) \<and> proxy_cache_ok (gw_proxies gw))"

definition next_store :: "cop \<Rightarrow> cstore \<Rightarrow> cstore" where
  "next_store c s = (case chal_step c s of None \<Rightarrow> s | Some (_, s') \<Rightarrow> s')"

interpretation challenge_inv: preserving next_store cs_ok
proof unfold_locales
  fix s c
  assume ok: "cs_ok s"
  from step_refines [OF ok, of c] ok show "cs_ok (next_store c s)" by (auto simp: next_store_def split: option.splits)
qed

lemma challenge_calls_ok:
  assumes "cs_ok s"
  shows "IsVerified now ip s = Some (b, s') \<Longrightarrow> cs_ok s'"
    and "Create now rnd ip ua susp ty s = Some (c, s') \<Longrightarrow> cs_ok s'"
    and "Verify now i a ip s = Some (b, s') \<Longrightarrow> cs_ok s'"
  using challenge_inv.step_good [OF assms, of "OpIsVerified now ip"] challenge_inv.step_good [OF assms, of "OpCreate now rnd ip ua susp ty"]
    challenge_inv.step_good [OF assms, of "OpVerify now i a ip"]
  by (simp_all add: next_store_def)

lemma writeError_ok: "cs_ok s \<Longrightarrow> writeError st oc r status msg s = Some (resp, s') \<Longrightarrow> cs_ok s'"
  by (auto simp: writeError_def Let_def bind_eq_Some_conv split: if_splits dest: challenge_calls_ok)

lemma writeZeroTrust_ok: "cs_ok s \<Longrightarrow> writeZeroTrustChallenge st oc r b s = Some (resp, s') \<Longrightarrow> cs_ok s'"
  by (auto simp: writeZeroTrustChallenge_def bind_eq_Some_conv dest: challenge_calls_ok)

lemma gw_ok_metrics: "gw_ok gw \<Longrightarrow> gw_ok (gw\<lparr>gw_metrics := map_option (metrics_step x) (gw_metrics gw)\<rparr>)"
  by (simp add: gw_ok_def metrics_inv.option_good)

lemmas gw_ok_counted [simp] = gw_ok_metrics [of _ MRequest, unfolded metrics_step.simps] gw_ok_metrics [of _ "MBlocked x" for x, unfolded metrics_step.simps]
  gw_ok_metrics [of _ MCacheHit, unfolded metrics_step.simps] gw_ok_metrics [of _ "MResponse now s b d" for now s b d, unfolded metrics_step.simps]
  gw_ok_metrics [of _ "MProxyError now e" for now e, unfolded metrics_step.simps]

lemma gw_ok_blocked [simp]: "gw_ok gw \<Longrightarrow> gw_ok (recordBlocked reason gw)"
  by (simp add: recordBlocked_def)

lemma gw_ok_challenges: "gw_ok gw \<Longrightarrow> cs_ok s \<Longrightarrow> gw_ok (gw\<lparr>gw_challenges := s\<rparr>)"
  by (simp add: gw_ok_def)

lemma gw_ok_detectors [simp]:
  "gw_ok (gw\<lparr>gw_kodaWaf := x\<rparr>) = gw_ok gw" "gw_ok (gw\<lparr>gw_anomaly := x\<rparr>) = gw_ok gw" "gw_ok (gw\<lparr>gw_koda2 := x\<rparr>) = gw_ok gw"
  by (simp_all add: gw_ok_def)

lemma gw_ok_parts: "gw_ok gw \<Longrightarrow> cs_ok (gw_challenges gw)" "gw_ok gw \<Longrightarrow> db_ok (gw_db gw)"
  by (simp_all add: gw_ok_def)

lemma recordBlocked_challenges [simp]: "gw_challenges (recordBlocked reason gw) = gw_challenges gw"
  by (simp add: recordBlocked_def)

definition keeps :: "check \<Rightarrow> bool" where
  "keeps c = (\<forall>gw x gw'. gw_ok gw \<longrightarrow> c gw = Some (x, gw') \<longrightarrow> gw_ok gw')"

lemma keepsI: "(\<And>gw x gw'. gw_ok gw \<Longrightarrow> c gw = Some (x, gw') \<Longrightarrow> gw_ok gw') \<Longrightarrow> keeps c"
  by (simp add: keeps_def)

lemma refuse_keeps: "gw_ok gw \<Longrightarrow> refuse st oc r status msg gw = Some (x, gw') \<Longrightarrow> gw_ok gw'"
  by (auto simp: refuse_def intro: gw_ok_challenges writeError_ok gw_ok_parts)

lemma proceed_keeps: "gw_ok gw \<Longrightarrow> proceed gw = Some (x, gw') \<Longrightarrow> gw_ok gw'"
  by (simp add: proceed_def)

lemmas keep_rules = refuse_keeps proceed_keeps

lemma auth_keeps: "keeps (check_auth st oc r)"
proof (rule keepsI)
  fix gw x gw'
  assume ok: "gw_ok gw" and run: "check_auth st oc r gw = Some (x, gw')"
  have bound: "gw_ok gw'" if "Option.bind (IsVerified now b (gw_challenges gw)) (\<lambda>(verified, s).
      let gw1 = gw\<lparr>gw_challenges := s\<rparr>
      in if RequireZeroTrustChallenge (Some res) z verified then
           (let gw2 = recordBlocked reason gw1
            in map_option (\<lambda>(resp, s'). (Some resp, gw2\<lparr>gw_challenges := s'\<rparr>)) (writeZeroTrustChallenge st oc r b (gw_challenges gw2)))
         else proceed gw1) = Some (x, gw')" for now b res z reason
  proof -
    note call = that
    obtain verified s where v: "IsVerified now b (gw_challenges gw) = Some (verified, s)"
      using call by (cases "IsVerified now b (gw_challenges gw)") auto
    have "cs_ok s" using challenge_calls_ok(1) [OF gw_ok_parts(1) [OF ok] v] .
    with call v ok show ?thesis
      by (auto simp: Let_def split: if_splits intro!: gw_ok_challenges gw_ok_blocked dest: writeZeroTrust_ok proceed_keeps [rotated])
  qed
  show "gw_ok gw'"
  proof (cases "cf_AuthEnabled (st_config st)")
    case False
    with run have "proceed gw = Some (x, gw')" by (simp add: check_auth_def)
    with ok show ?thesis by (rule proceed_keeps)
  next
    case on: True
    show ?thesis
    proof (cases "ar_Authenticated (Check (st_compare st) (oc_now oc) r (gw_db gw))")
      case True
      show ?thesis by (rule bound) (use run on True in \<open>simp add: check_auth_def Let_def\<close>)
    next
      case False
      with run on have "refuse st oc r StatusUnauthorized ''Unauthorized'' gw = Some (x, gw') \<or> gw' = gw"
        by (auto simp: check_auth_def Let_def split: if_splits)
      with ok show ?thesis by (auto dest: refuse_keeps)
    qed
  qed
qed

lemma honeypot_keeps: "keeps (check_honeypot st r)"
  by (rule keepsI) (auto simp: check_honeypot_def split: if_splits option.splits dest: proceed_keeps)

lemma rate_keeps: "keeps (check_rate st oc r)"
proof (rule keepsI)
  fix gw x gw'
  assume ok: "gw_ok gw" and run: "check_rate st oc r gw = Some (x, gw')"
  show "gw_ok gw'"
  proof (cases "gw_limiter gw")
    case None
    with ok run show ?thesis by (auto simp: check_rate_def dest: proceed_keeps)
  next
    case (Some l)
    let ?call = "allowAt (oc_now oc) (rateLimitKey (st_trusted st) r (cf_RateKey (st_config st))) l"
    have "limiter_ok (snd ?call)" using ok Some allowAt_ok [of l] by (simp add: gw_ok_def)
    then have "gw_ok (gw\<lparr>gw_limiter := Some (snd ?call)\<rparr>)" using ok by (simp add: gw_ok_def)
    with run Some show ?thesis
      by (cases ?call) (auto simp: check_rate_def Let_def split: if_splits dest: proceed_keeps refuse_keeps [rotated])
  qed
qed

lemma queue_keeps: "keeps (check_queue st oc r)"
  by (rule keepsI) (auto simp: check_queue_def split: if_splits option.splits dest: proceed_keeps refuse_keeps [rotated])

lemma waf_keeps: "keeps (check_waf st oc r)"
  by (rule keepsI) (auto simp: check_waf_def Let_def split: if_splits prod.splits dest: proceed_keeps refuse_keeps [rotated])

lemma models_keep: "keeps (check_kodaWaf st oc r)" "keeps (check_anomaly st oc r)" "keeps (check_koda2 st oc r)"
  by (rule keepsI; auto simp: check_kodaWaf_def check_anomaly_def check_koda2_def Let_def
      split: if_splits prod.splits option.splits sum.splits dest: proceed_keeps [rotated] refuse_keeps [rotated])+

lemma checks_keep: "c \<in> set (checks st oc r) \<Longrightarrow> keeps c"
  by (auto simp: checks_def auth_keeps honeypot_keeps rate_keeps queue_keeps waf_keeps models_keep)

lemma run_checks_keep: "\<forall>c \<in> set cs. keeps c \<Longrightarrow> keeps (run_checks cs)"
proof (induction cs)
  case Nil
  show ?case by (rule keepsI) (simp add: proceed_def)
next
  case (Cons c cs)
  then have IH: "keeps (run_checks cs)" and c: "keeps c" by simp_all
  show ?case
  proof (rule keepsI)
    fix gw x gw'
    assume "gw_ok gw" "run_checks (c # cs) gw = Some (x, gw')"
    then obtain y gw1 where one: "c gw = Some (y, gw1)" "gw_ok gw1" using c by (auto simp: keeps_def split: option.splits)
    show "gw_ok gw'"
    proof (cases y)
      case None
      with one IH \<open>run_checks (c # cs) gw = Some (x, gw')\<close> show ?thesis by (simp add: keeps_def)
    next
      case (Some resp)
      with one \<open>run_checks (c # cs) gw = Some (x, gw')\<close> show ?thesis by simp
    qed
  qed
qed

lemma serve_keeps_cache:
  assumes "proxy_cache_ok cache"
  shows "proxy_cache_ok (ss_cache (snd (Serve hw up r k targets rr cache w)))"
proof -
  have step: "proxy_cache_ok (ss_cache (snd (serve_attempt up ok t (picked t rr s))))" if "proxy_cache_ok (ss_cache s)" for ok t rr s
    using that proxyFor_ok [of "ss_cache s" t]
    by (auto simp: serve_attempt_def picked_def Let_def split_beta split: option.splits)
  have "proxy_cache_ok (ss_cache (snd (serve_loop hw up ok k targets s)))" if "proxy_cache_ok (ss_cache s)" for ok s
    by (rule serve_loop_invariant [where I = "\<lambda>s. proxy_cache_ok (ss_cache s)", OF _ that]) (rule step)
  then show ?thesis using assms by (simp add: Serve_def Let_def)
qed

lemma store_response_ok: "pred_option store_ok cache \<Longrightarrow> pred_option store_ok (store_response st ou r cache)"
  by (auto simp: store_response_def SetWithTTL_ok split: option.splits)

lemma not_found_ok: "gw_ok gw \<Longrightarrow> not_found st oc r gw = Some (out, gw') \<Longrightarrow> gw_ok gw'"
  by (auto simp: not_found_def intro: gw_ok_challenges writeError_ok gw_ok_parts)

lemma forward_ok:
  assumes "gw_ok gw" "forward st oc ou r m gw = Some (out, gw')"
  shows "gw_ok gw'"
proof -
  let ?r = "prepareForwardingHeaders r (getClientIP st r)"
  obtain err ss where ss: "Serve (ou_health ou) (ou_upstreams ou) ?r (rm_RouteKey m) (map rt_URL (rm_Targets m)) (gw_balancer gw) (gw_proxies gw) new_client
      = (err, ss)" by fastforce
  let ?gw = "gw\<lparr>gw_balancer := ss_rr ss, gw_proxies := ss_cache ss, gw_cache := store_response st ou r (gw_cache gw)\<rparr>"
  have "proxy_cache_ok (ss_cache ss)"
    using assms(1) serve_keeps_cache [of "gw_proxies gw" "ou_health ou" "ou_upstreams ou" ?r "rm_RouteKey m" "map rt_URL (rm_Targets m)" "gw_balancer gw" new_client] ss
    by (simp add: gw_ok_def)
  then have ok: "gw_ok ?gw" using assms(1) by (simp add: gw_ok_def store_response_ok)
  show ?thesis
  proof (cases err)
    case None
    with assms(2) ss ok show ?thesis by (auto simp: forward_def Let_def)
  next
    case (Some e)
    let ?gw2 = "?gw\<lparr>gw_metrics := map_option (RecordProxyError (oc_now oc) (Some (ou_error ou e))) (gw_metrics ?gw)\<rparr>"
    have ok2: "gw_ok ?gw2" by (rule gw_ok_counted(5) [OF ok])
    obtain resp s status msg where "writeError st oc ?r status msg (gw_challenges ?gw2) = Some (resp, s)" "gw' = ?gw2\<lparr>gw_challenges := s\<rparr>"
      using assms(2) ss Some by (auto simp: forward_def Let_def split: if_splits)
    then show ?thesis using gw_ok_challenges [OF ok2 writeError_ok [OF gw_ok_parts(1) [OF ok2]]] by blast
  qed
qed

lemma route_request_ok:
  assumes "gw_ok gw" "route_request st oc ou r gw = Some (out, gw')"
  shows "gw_ok gw'"
proof (cases "Resolve (gw_routes gw) (resolve_host (req_Host r)) (req_Path r)")
  case None
  with assms show ?thesis by (auto simp: route_request_def intro: not_found_ok)
next
  case m: (Some m)
  show ?thesis
  proof (cases "rm_Targets m \<noteq> [] \<and> isRequestCacheableForSharedStore (gw_cache gw) r \<and> gw_cache gw \<noteq> None")
    case False
    then consider "rm_Targets m = []" | "rm_Targets m \<noteq> []" "\<not> isRequestCacheableForSharedStore (gw_cache gw) r"
      | "rm_Targets m \<noteq> []" "gw_cache gw = None" by blast
    then have "not_found st oc r gw = Some (out, gw') \<or> forward st oc ou r m gw = Some (out, gw')"
      by cases (use assms(2) m in \<open>simp_all add: route_request_def split: if_splits\<close>)
    with assms(1) show ?thesis using not_found_ok forward_ok by blast
  next
    case True
    then obtain s where s: "gw_cache gw = Some s" by blast
    obtain hit s' where get: "Store_Get (oc_now oc) (CacheKey r) s = (hit, s')" by fastforce
    have "store_ok s'" using assms(1) s cache_inv.step_good [of s "cache_op.OpGet (oc_now oc) (CacheKey r)"] get by (simp add: gw_ok_def)
    then have ok: "gw_ok (gw\<lparr>gw_cache := Some s'\<rparr>)" using assms(1) by (simp add: gw_ok_def)
    with assms(2) m True s get forward_ok [OF ok] gw_ok_counted(3) [OF ok] show ?thesis
      by (auto simp: route_request_def Let_def split: option.splits)
  qed
qed

lemma handle_request_ok:
  assumes "gw_ok gw" "handle_request st oc ou r gw = Some (out, gw')"
  shows "gw_ok gw'"
proof -
  let ?gw = "gw\<lparr>gw_metrics := map_option RecordRequest (gw_metrics gw)\<rparr>"
  have ok: "gw_ok ?gw" by (rule gw_ok_counted(1) [OF assms(1)])
  have keep: "keeps (run_checks (checks st oc r))" by (rule run_checks_keep) (blast intro: checks_keep)
  obtain gw1 where run: "serve_request st oc ou r ?gw = Some (out, gw1)"
    and gw': "gw' = gw1\<lparr>gw_metrics := map_option (RecordResponse (oc_now oc) (fst (seen out)) (snd (seen out)) (oc_took oc)) (gw_metrics gw1)\<rparr>"
    using assms(2) by (auto simp: handle_request_def Let_def split_beta)
  obtain x gw2 where checked: "run_checks (checks st oc r) ?gw = Some (x, gw2)"
    using run by (auto simp: serve_request_def split: option.splits)
  with keep ok have ok2: "gw_ok gw2" by (auto simp: keeps_def)
  have "gw_ok gw1" using run checked ok2 route_request_ok [OF ok2] by (auto simp: serve_request_def split: option.splits)
  then show ?thesis unfolding gw' by (rule gw_ok_counted(4))
qed

lemma handle_verify_ok:
  assumes "gw_ok gw" "handle_verify st oc r body gw = Some (resp, gw')"
  shows "gw_ok gw'"
  using assms challenge_calls_ok(3) gw_ok_challenges gw_ok_parts(1)
  by (auto simp: handle_verify_def Let_def bind_eq_Some_conv split: if_splits) metis+

lemma db_ok_sessions: "db_ok d \<Longrightarrow> distinct (map se_token xs) \<Longrightarrow> db_ok (d\<lparr>db_sessions := xs\<rparr>)"
  by (simp add: db_ok_def)

lemma createSession_ok:
  assumes "db_ok d"
  shows "db_ok (snd (createSession now random name d))"
proof (cases "user_by_name name d")
  case None
  with assms show ?thesis by (simp add: createSession_def)
next
  case (Some u)
  let ?d = "snd (PruneExpiredSessions now d)"
  have ok: "db_ok ?d" using assms by (rule Prune_ok)
  then have "distinct (map se_token (db_sessions ?d))" by (simp add: db_ok_def)
  with ok Some show ?thesis by (auto simp: createSession_def Let_def list_ex_iff intro!: db_ok_sessions) metis
qed

lemma HandleLogin_ok: "db_ok d \<Longrightarrow> db_ok (snd (HandleLogin compare page now random r body d))"
  using createSession_ok by (simp add: HandleLogin_def Let_def split_beta split: option.splits)

subsection \<open>What happens to the program\<close>

text \<open>
  The multiplexer hands a request to its handler. A handler that never returns, because the
  challenge store draws identifiers in use forever, leaves the state as it is.
\<close>

datatype event =
    Http occasion outside request string string
  | Push bool message
  | Status bool "string option"
  | Apply
  | Probe target bool

definition http_step :: "setting \<Rightarrow> occasion \<Rightarrow> outside \<Rightarrow> request \<Rightarrow> string \<Rightarrow> string \<Rightarrow> gateway \<Rightarrow> gateway" where
  "http_step st oc ou r random body gw =
     (case handler_for st (req_Path r) of
        VerifyHandler \<Rightarrow> (case handle_verify st oc r body gw of None \<Rightarrow> gw | Some (_, gw') \<Rightarrow> gw')
      | LoginHandler \<Rightarrow> gw\<lparr>gw_db := snd (HandleLogin (st_compare st) [] (oc_now oc) random r body (gw_db gw))\<rparr>
      | ProxyHandler \<Rightarrow> (case handle_request st oc ou r gw of None \<Rightarrow> gw | Some (_, gw') \<Rightarrow> gw')
      | _ \<Rightarrow> gw)"

text \<open>The part of the state that a round of the loop of \<^verbatim>\<open>applyConfigUpdates\<close> changes.\<close>

definition running_of :: "system \<Rightarrow> running" where
  "running_of sys = \<lparr>rn_db = gw_db (sy_gateway sys), rn_routes = gw_routes (sy_gateway sys), rn_rules = gw_rules (sy_gateway sys),
     rn_worker = sy_worker sys\<rparr>"

definition with_running :: "running \<Rightarrow> system \<Rightarrow> system" where
  "with_running rn sys = sys\<lparr>sy_gateway := (sy_gateway sys)\<lparr>gw_db := rn_db rn, gw_routes := rn_routes rn, gw_rules := rn_rules rn\<rparr>,
     sy_worker := rn_worker rn\<rparr>"

text \<open>The loop reads the first channel, since it is the first, and only, subscriber.\<close>

definition applyConfigUpdates :: "waf_compiler \<Rightarrow> regexp \<Rightarrow> system \<Rightarrow> system" where
  "applyConfigUpdates compile regex sys =
     (case receive 0 (sy_stream sys) of
        (None, _) \<Rightarrow> sys
      | (Some snap, stream) \<Rightarrow>
          with_running (applyConfigUpdate compile regex (sy_checks sys) (sy_local sys) snap (running_of sys)) (sys\<lparr>sy_stream := stream\<rparr>))"

fun sys_step :: "waf_compiler \<Rightarrow> regexp \<Rightarrow> event \<Rightarrow> system \<Rightarrow> system" where
  "sys_step compile regex (Http oc ou r random body) sys =
     sys\<lparr>sy_gateway := http_step (sy_setting sys) oc ou r random body (sy_gateway sys)\<rparr>"
| "sys_step compile regex (Push works msg) sys = sys\<lparr>sy_stream := snd (HandleMessage works msg (sy_stream sys))\<rparr>"
| "sys_step compile regex (Status up err) sys = sys\<lparr>sy_stream := SetConnectionStatus up err (sy_stream sys)\<rparr>"
| "sys_step compile regex Apply sys = applyConfigUpdates compile regex sys"
| "sys_step compile regex (Probe t ok) sys = sys\<lparr>sy_worker := recordProbe t ok (sy_worker sys)\<rparr>"

text \<open>A started program with the loop of its subscriber, after some events.\<close>

definition subscribed :: "system \<Rightarrow> system" where
  "subscribed sys = sys\<lparr>sy_stream := snd (Subscribe (sy_stream sys))\<rparr>"

definition run_system :: "start_input \<Rightarrow> event list \<Rightarrow> system \<Rightarrow> system" where
  "run_system i evs sys = fold (sys_step (st_waf i) (st_regex i)) evs (subscribed sys)"

subsection \<open>All invariants together\<close>

definition sys_ok :: "system \<Rightarrow> bool" where
  "sys_ok sys = (gw_ok (sy_gateway sys) \<and> worker_ok (sy_worker sys) \<and> stream_ok (sy_stream sys))"

lemma http_step_ok:
  assumes "gw_ok gw"
  shows "gw_ok (http_step st oc ou r random body gw)"
proof (cases "handler_for st (req_Path r)")
  case VerifyHandler
  with assms handle_verify_ok [OF assms] show ?thesis by (auto simp: http_step_def split: option.splits)
next
  case LoginHandler
  with assms HandleLogin_ok show ?thesis by (simp add: http_step_def gw_ok_def)
next
  case ProxyHandler
  with assms handle_request_ok [OF assms] show ?thesis by (auto simp: http_step_def split: option.splits)
qed (use assms in \<open>simp_all add: http_step_def\<close>)

lemma round_effect:
  fixes rn :: running and localSnap snap :: snapshot and compile :: waf_compiler and regex :: regexp and health :: bool
  defines "merged \<equiv> mergeConfigSnapshots (Some localSnap) (Some snap)"
  defines "rn' \<equiv> applyConfigUpdate compile regex health localSnap snap rn"
  shows "rn_db rn' = snd (applySnapshotToDB compile merged (rn_db rn))"
    and "rn_worker rn' = rn_worker rn \<or> (\<exists>ts. rn_worker rn' = Sync ts (rn_worker rn))"
    and "rn_routes rn' = rn_routes rn \<or>
      fst (applySnapshotToDB compile merged (rn_db rn)) = None \<and> loadRouteSnapshot regex (rn_db rn') = Inr (rn_routes rn')"
proof -
  obtain err d where a: "applySnapshotToDB compile merged (rn_db rn) = (err, d)" by fastforce
  obtain e routes where l: "Reload regex d (rn_routes rn) = (e, routes)" by fastforce
  have rn': "rn' = (if err \<noteq> None then rn\<lparr>rn_db := d\<rparr>
      else if e \<noteq> None then rn\<lparr>rn_db := d, rn_routes := routes\<rparr>
      else rn\<lparr>rn_db := d, rn_routes := routes, rn_rules := snd (Waf_Reload compile d (rn_rules rn)),
             rn_worker := (if health then syncHealthTargets d (rn_worker rn) else rn_worker rn)\<rparr>)"
    by (simp add: rn'_def applyConfigUpdate_def merged_def [symmetric] a l Let_def)
  show "rn_db rn' = snd (applySnapshotToDB compile merged (rn_db rn))" by (simp add: rn' a)
  show "rn_worker rn' = rn_worker rn \<or> (\<exists>ts. rn_worker rn' = Sync ts (rn_worker rn))"
    by (auto simp: rn' syncHealthTargets_def Let_def)
  show "rn_routes rn' = rn_routes rn \<or>
      fst (applySnapshotToDB compile merged (rn_db rn)) = None \<and> loadRouteSnapshot regex (rn_db rn') = Inr (rn_routes rn')"
    using l by (auto simp: rn' a Reload_def split: sum.splits)
qed

lemma applyConfigUpdate_ok:
  fixes rn :: running and localSnap snap :: snapshot and compile :: waf_compiler and regex :: regexp and health :: bool
  assumes "db_ok (rn_db rn)" "worker_ok (rn_worker rn)"
  defines "rn' \<equiv> applyConfigUpdate compile regex health localSnap snap rn"
  shows "db_ok (rn_db rn') \<and> worker_ok (rn_worker rn')"
  using round_effect(1,2) [of compile regex health localSnap snap rn] apply_keeps_ok [OF assms(1)]
    health_inv.step_good [OF assms(2), of "ASync ts" for ts] assms(2)
  unfolding rn'_def by (metis health_act.simps(1))

interpretation system_inv: preserving "sys_step compile regex" sys_ok for compile regex
proof unfold_locales
  fix sys e
  assume ok: "sys_ok sys"
  show "sys_ok (sys_step compile regex e sys)"
  proof (cases e)
    case (Http oc ou r random body)
    with ok show ?thesis by (simp add: sys_ok_def http_step_ok)
  next
    case (Push works msg)
    with ok stream_inv.step_good [of "sy_stream sys" "OpMessage works msg"] show ?thesis by (simp add: sys_ok_def)
  next
    case (Status up err)
    with ok stream_inv.step_good [of "sy_stream sys" "OpStatus up err"] show ?thesis by (simp add: sys_ok_def)
  next
    case (Probe t b)
    with ok health_inv.step_good [of "sy_worker sys" "ARecord t b"] show ?thesis by (simp add: sys_ok_def)
  next
    case Apply
    obtain x stream where r: "receive 0 (sy_stream sys) = (x, stream)" by fastforce
    have s: "stream_ok stream" using ok stream_inv.step_good [of "sy_stream sys" "OpReceive 0"] r by (simp add: sys_ok_def)
    show ?thesis
    proof (cases x)
      case None
      with ok Apply r show ?thesis by (simp add: applyConfigUpdates_def)
    next
      case (Some snap)
      have "db_ok (rn_db (running_of sys))" "worker_ok (rn_worker (running_of sys))"
        using ok by (simp_all add: running_of_def sys_ok_def gw_ok_def)
      from applyConfigUpdate_ok [OF this] ok Apply r Some s show ?thesis
        by (simp add: applyConfigUpdates_def with_running_def sys_ok_def gw_ok_def)
    qed
  qed
qed

text \<open>The challenge store, the cache and the metrics of a started program are new.\<close>

lemma built_ok:
  assumes "db_ok d" "\<forall>l. gw_limiter (sy_gateway (build_system i cfg trusted stream localSnap d routes)) = Some l \<longrightarrow> rl_burst l \<le> 2 ^ 53"
  shows "gw_ok (sy_gateway (build_system i cfg trusted stream localSnap d routes)) \<and>
    worker_ok (sy_worker (build_system i cfg trusted stream localSnap d routes))"
proof -
  let ?sys = "build_system i cfg trusted stream localSnap d routes"
  have limiter: "pred_option limiter_ok (gw_limiter (sy_gateway ?sys))"
    using assms(2) limiter_ok_New by (auto simp: build_system_def Let_def rate_limiter_def option.pred_set split: if_splits)
  have "pred_option store_ok (gw_cache (sy_gateway ?sys))" "pred_option metrics_ok (gw_metrics (sy_gateway ?sys))"
    "cs_ok (gw_challenges (sy_gateway ?sys))" "proxy_cache_ok (gw_proxies (sy_gateway ?sys))"
    by (simp_all add: build_system_def Let_def cache_store_def NewStore_ok metrics_recorder_def NewRecorder_ok Challenge_NewStore_def
        newStore_ok proxy_cache_ok_def maxProxyCacheEntries_def)
  with limiter assms(1) have "gw_ok (sy_gateway ?sys)" by (simp add: gw_ok_def)
  moreover have "worker_ok (health_worker cfg)" by (simp add: health_worker_def worker_ok_New)
  then have "worker_ok (sy_worker ?sys)"
    using health_inv.step_good [of "health_worker cfg" "ASync ts" for ts]
    by (simp add: build_system_def Let_def syncHealthTargets_def)
  ultimately show ?thesis by blast
qed

lemma subscribed_ok:
  assumes "st_open i = Some (d0, b)" "db_ok d0" "start_program i = Inr sys0"
    and "\<forall>l. gw_limiter (sy_gateway sys0) = Some l \<longrightarrow> rl_burst l \<le> 2 ^ 53"
  shows "sys_ok (subscribed sys0)"
proof -
  from started [OF assms(3)] assms(1) obtain trusted routes cfg localSnap where
    sys0: "sys0 = build_system i cfg trusted (start_stream snapshotPath (st_recovery i)) localSnap (tables_at_start i d0) routes"
    by auto
  have "stream_ok (sy_stream sys0)" by (simp add: sys0 build_system_def Let_def start_ok)
  with stream_inv.step_good [of "sy_stream sys0" OpSubscribe] have "stream_ok (sy_stream (subscribed sys0))"
    by (simp add: subscribed_def)
  with built_ok [OF tables_ok [OF assms(2)]] assms(4) show ?thesis by (simp add: sys_ok_def subscribed_def sys0)
qed


subsection \<open>Where the targets come from\<close>

text \<open>The configurations the program was offered: the recovered one and those of the messages.\<close>

definition offered :: "start_input \<Rightarrow> event list \<Rightarrow> snapshot \<Rightarrow> bool" where
  "offered i evs snap = (snap = recovered_snapshot i \<or>
     (\<exists>works msg s. Push works msg \<in> set evs \<and> Option.bind (ms_Data msg) (\<lambda>j. dec_snapshot j no_snapshot) = Some s \<and>
        snap = s\<lparr>sn_Version := ms_Version msg\<rparr>))"

definition entry_targets :: "route_entry \<Rightarrow> route_target list" where
  "entry_targets e = (case e of (target, cert, key, ts) \<Rightarrow>
     if ts = [] \<and> target \<noteq> [] then [\<lparr>rt_URL = target, rt_HealthCheck = ''http''\<rparr>] else ts)"

text \<open>A route as the tables had it at the start, or as an offered configuration gives it.\<close>

definition configured_route :: "start_input \<Rightarrow> db \<Rightarrow> event list \<Rightarrow> slot \<Rightarrow> route_entry \<Rightarrow> bool" where
  "configured_route i d0 evs sl e = (abs_routes (tables_at_start i d0) sl = Some e \<or>
     (\<exists>snap es. offered i evs snap \<and>
        collect wanted_route (sn_Routes (mergeConfigSnapshots (Some (localConfigSnapshot (Some (loaded_config i)))) (Some snap))) = Inr es \<and>
        (sl, e) \<in> set es))"

definition slot_matches :: "regexp \<Rightarrow> string \<Rightarrow> string \<Rightarrow> slot \<Rightarrow> bool" where
  "slot_matches regex h path sl = (case sl of (ty, pattern, front) \<Rightarrow>
     ty = ''domain'' \<and> normalizeResolverDomain pattern = h \<or>
     ty \<in> {''domain'', ''wildcard'', ''regex''} \<and> domainPatternMatches regex ty pattern h \<or>
     ty = ''path'' \<and> HasPrefix path front)"

definition tables_from :: "start_input \<Rightarrow> db \<Rightarrow> event list \<Rightarrow> db \<Rightarrow> bool" where
  "tables_from i d0 evs d = (db_ok d \<and> (\<forall>sl e. abs_routes d sl = Some e \<longrightarrow> configured_route i d0 evs sl e))"

definition sys_from :: "start_input \<Rightarrow> db \<Rightarrow> event list \<Rightarrow> system \<Rightarrow> bool" where
  "sys_from i d0 evs sys = (sy_local sys = localConfigSnapshot (Some (loaded_config i)) \<and>
     offered i evs (mg_current (st_manager (sy_stream sys))) \<and>
     (\<forall>c \<in> set (st_channels (sy_stream sys)). \<forall>snap \<in> set (ch_queue c). offered i evs snap) \<and>
     tables_from i d0 evs (gw_db (sy_gateway sys)) \<and>
     (\<exists>d. tables_from i d0 evs d \<and> loadRouteSnapshot (st_regex i) d = Inr (gw_routes (sy_gateway sys))))"

lemma offered_more: "offered i evs snap \<Longrightarrow> offered i (evs @ [e]) snap"
  by (auto simp: offered_def)

lemma tables_from_more: "tables_from i d0 evs d \<Longrightarrow> tables_from i d0 (evs @ [e]) d"
  unfolding tables_from_def configured_route_def by (blast intro: offered_more)

lemma sys_from_more: "sys_from i d0 evs sys \<Longrightarrow> sys_from i d0 (evs @ [e]) sys"
  unfolding sys_from_def by (blast intro: offered_more tables_from_more)

lemma usable_as_entry:
  assumes "db_ok d" "r \<in> set (db_routes d)" "rr_active r = 1"
  shows "\<exists>e. abs_routes d (row_slot r) = Some e \<and> usable_targets r d = entry_targets e"
  using row_found [OF assms(1,2)] assms(3) by (simp add: abs_routes_def usable_targets_def entry_targets_def Let_def)

lemma accepted_tables_from:
  assumes d: "tables_from i d0 evs d" and snap: "offered i evs snap"
  defines "merged \<equiv> mergeConfigSnapshots (Some (localConfigSnapshot (Some (loaded_config i)))) (Some snap)"
  shows "tables_from i d0 evs (snd (applySnapshotToDB compile merged d))"
proof (cases "fst (applySnapshotToDB compile merged d) = None")
  case False
  with d apply_refused [of compile merged d] show ?thesis by simp
next
  case True
  have ok: "db_ok d" using d by (simp add: tables_from_def)
  let ?d = "snd (applySnapshotToDB compile merged d)"
  from accepted_applied [OF ok True] have ok': "db_ok ?d" and ap: "applied merged d ?d" by blast+
  have "configured_route i d0 evs sl e" if e: "abs_routes ?d sl = Some e" for sl e
  proof (cases "routes_given merged")
    case False
    with ap have "abs_routes ?d = abs_routes d" by (auto simp: applied_def)
    with e d show ?thesis unfolding tables_from_def by metis
  next
    case given: True
    with ap obtain es where es: "collect wanted_route (sn_Routes merged) = Inr es" "abs_routes ?d = set_entries es Map.empty"
      by (auto simp: applied_def)
    with e have "(sl, e) \<in> set es" using set_entries_from [of es Map.empty sl e] by simp
    with es(1) snap show ?thesis unfolding configured_route_def merged_def by blast
  qed
  with ok' show ?thesis by (simp add: tables_from_def)
qed

text \<open>What a message changes, and what a request leaves alone.\<close>

lemma pushed_offered:
  assumes ok: "stream_ok st" and "offered i evs (mg_current (st_manager st))" "\<forall>c \<in> set (st_channels st). \<forall>snap \<in> set (ch_queue c). offered i evs snap"
    and e: "e = Push works msg"
  defines "st' \<equiv> snd (HandleMessage works msg st)"
  shows "offered i (evs @ [e]) (mg_current (st_manager st')) \<and>
    (\<forall>c \<in> set (st_channels st'). \<forall>snap \<in> set (ch_queue c). offered i (evs @ [e]) snap)"
proof -
  consider "st' = st" | snap where "mg_version (st_manager st) < ms_Version msg" "ms_Type msg = ''snapshot''"
      "Option.bind (ms_Data msg) (\<lambda>j. dec_snapshot j no_snapshot) = Some snap"
    using HandleMessage_cases [of works msg st] by (auto simp: st'_def)
  then show ?thesis
  proof cases
    case 1
    with assms(2,3) show ?thesis using offered_more by blast
  next
    case 2
    let ?new = "snap\<lparr>sn_Version := ms_Version msg\<rparr>"
    have new: "offered i (evs @ [e]) ?new" using 2(3) unfolding offered_def e by auto
    have queues: "set (ch_queue (try_send ?new c)) \<subseteq> insert ?new (set (ch_queue c))" for c by (auto simp: try_send_def)
    have chans: "\<exists>c \<in> set (st_channels st). ch_queue c' = ch_queue c \<or> ch_queue c' = ch_queue (try_send ?new c)"
      if "c' \<in> set (st_channels st')" for c'
    proof -
      have l: "distinct (mg_listeners (st_manager st))" "\<forall>j \<in> set (mg_listeners (st_manager st)). j < length (st_channels st)"
        using ok by (auto simp: stream_ok_def Let_def)
      from that obtain j where j: "j < length (st_channels st)"
        "c' = on_listeners (mg_listeners (st_manager st)) (try_send ?new) (st_channels st) ! j"
        by (auto simp: st'_def HandleMessage_taken [OF 2] set_conv_nth)
      then have "st_channels st ! j \<in> set (st_channels st)" "c' = st_channels st ! j \<or> c' = try_send ?new (st_channels st ! j)"
        by (simp_all add: on_listeners_nth [OF l])
      then show ?thesis by blast
    qed
    have "mg_current (st_manager st') = ?new" by (simp add: st'_def HandleMessage_taken [OF 2])
    moreover have "offered i (evs @ [e]) s" if "c' \<in> set (st_channels st')" "s \<in> set (ch_queue c')" for c' s
    proof -
      from chans [OF that(1)] obtain c where
        c: "c \<in> set (st_channels st)" "ch_queue c' = ch_queue c \<or> ch_queue c' = ch_queue (try_send ?new c)" by blast
      then have "s = ?new \<or> s \<in> set (ch_queue c)" using queues [of c] that(2) by auto
      with new assms(3) c(1) show ?thesis using offered_more by blast
    qed
    ultimately show ?thesis using new by simp
  qed
qed

lemma same_tables_routes:
  assumes "db_routes d' = db_routes d" "db_targets d' = db_targets d"
  shows "abs_routes d' = abs_routes d"
proof -
  have "loadRouteTargets d' = loadRouteTargets d" using assms by (simp add: loadRouteTargets_def fun_eq_iff)
  moreover have "find_route sl d' = find_route sl d" for sl using assms by (simp add: find_route_def)
  ultimately show ?thesis by (intro ext) (simp only: abs_routes_def)
qed

lemma HandleLogin_routes:
  "abs_routes (snd (HandleLogin compare page now random r body d)) = abs_routes d"
proof -
  have "db_routes (snd (createSession now random n d)) = db_routes d \<and> db_targets (snd (createSession now random n d)) = db_targets d" for n
    by (auto simp: createSession_def PruneExpiredSessions_def Let_def split: option.splits)
  then have "db_routes (snd (HandleLogin compare page now random r body d)) = db_routes d \<and>
      db_targets (snd (HandleLogin compare page now random r body d)) = db_targets d"
    by (simp add: HandleLogin_def Let_def split_beta split: option.splits)
  then show ?thesis by (intro same_tables_routes) blast+
qed

lemma handle_request_keeps_tables:
  assumes "handle_request st oc ou r gw = Some (out, gw')"
  shows "gw_db gw' = gw_db gw \<and> gw_routes gw' = gw_routes gw"
proof -
  let ?gw = "gw\<lparr>gw_metrics := map_option RecordRequest (gw_metrics gw)\<rparr>"
  let ?same = "\<lambda>a b. gw_db b = gw_db a \<and> gw_routes b = gw_routes a"
  have fwd: "?same g g'" if "forward st oc ou r m g = Some (x, g')" for m g x g'
    using that by (auto simp: forward_def Let_def split_beta split: option.splits if_splits)
  have nf: "?same g g'" if "not_found st oc r g = Some (x, g')" for g x g'
    using that by (auto simp: not_found_def)
  have rt: "?same g g'" if "route_request st oc ou r g = Some (x, g')" for g x g'
    using that by (auto simp: route_request_def Let_def split_beta split: option.splits if_splits dest!: fwd nf)
  obtain gw1 where run: "serve_request st oc ou r ?gw = Some (out, gw1)" and gw': "?same gw1 gw'"
    using assms by (auto simp: handle_request_def Let_def split_beta)
  then obtain x gw2 where c: "run_checks (checks st oc r) ?gw = Some (x, gw2)" by (auto simp: serve_request_def split: option.splits)
  have "kept ?gw gw2"
  proof (cases x)
    case None
    with checks_pass [of st oc r ?gw gw2] c show ?thesis by blast
  next
    case (Some resp)
    show ?thesis by (rule refused_kept [OF c [unfolded Some] checks_kept])
  qed
  with run c rt [of gw2] gw' show ?thesis by (auto simp: serve_request_def kept_def split: option.splits)
qed

lemma handle_verify_keeps_tables:
  assumes "handle_verify st oc r body gw = Some (resp, gw')"
  shows "gw_db gw' = gw_db gw \<and> gw_routes gw' = gw_routes gw"
proof (cases "req_Method r = ''POST''")
  case False
  with assms show ?thesis by (simp add: handle_verify_def)
next
  case True
  with assms show ?thesis by (auto simp: handle_verify_def Let_def bind_eq_Some_conv)
qed

lemma http_step_routes:
  "gw_routes (http_step st oc ou r random body gw) = gw_routes gw \<and>
   abs_routes (gw_db (http_step st oc ou r random body gw)) = abs_routes (gw_db gw)"
proof (cases "handler_for st (req_Path r)")
  case VerifyHandler
  then show ?thesis using handle_verify_keeps_tables [of st oc r body gw]
    by (cases "handle_verify st oc r body gw") (auto simp: http_step_def)
next
  case LoginHandler
  then show ?thesis by (simp add: http_step_def HandleLogin_routes)
next
  case ProxyHandler
  then show ?thesis using handle_request_keeps_tables by (auto simp: http_step_def split: option.splits)
qed (simp_all add: http_step_def)

lemma received:
  assumes "receive k st = (Some snap, st')"
  shows "k < length (st_channels st) \<and> snap \<in> set (ch_queue (st_channels st ! k)) \<and> st_manager st' = st_manager st \<and>
    (\<forall>c \<in> set (st_channels st'). \<exists>c' \<in> set (st_channels st). set (ch_queue c) \<subseteq> set (ch_queue c'))"
proof -
  obtain q where k: "k < length (st_channels st)" and q: "ch_queue (st_channels st ! k) = snap # q"
    and st': "st_manager st' = st_manager st" "st_channels st' = (st_channels st)[k := (st_channels st ! k)\<lparr>ch_queue := q,
      ch_received := ch_received (st_channels st ! k) @ [snap]\<rparr>]"
    using assms by (auto simp: receive_def split: if_splits list.splits)
  have "\<exists>c' \<in> set (st_channels st). set (ch_queue c) \<subseteq> set (ch_queue c')" if "c \<in> set (st_channels st')" for c
  proof (cases "c \<in> set (st_channels st)")
    case False
    with that st'(2) set_update_subset_insert have "ch_queue c = q" by fastforce
    with q k show ?thesis by (intro bexI [of _ "st_channels st ! k"]) auto
  qed blast
  with k q st'(1) show ?thesis by simp
qed

lemma tables_from_same: "tables_from i d0 evs d \<Longrightarrow> db_ok d' \<Longrightarrow> abs_routes d' = abs_routes d \<Longrightarrow> tables_from i d0 evs d'"
  by (simp add: tables_from_def)

lemma sys_from_step:
  assumes from': "sys_from i d0 evs sys" and ok: "sys_ok sys"
  shows "sys_from i d0 (evs @ [e]) (sys_step (st_waf i) (st_regex i) e sys)"
proof -
  note more = sys_from_more [OF from', of e]
  have ok': "sys_ok (sys_step (st_waf i) (st_regex i) e sys)" by (rule system_inv.step_good [OF ok])
  show ?thesis
  proof (cases e)
    case (Http oc ou r random body)
    let ?gw = "http_step (sy_setting sys) oc ou r random body (sy_gateway sys)"
    have "db_ok (gw_db ?gw)" using ok' by (simp add: Http sys_ok_def gw_ok_def)
    with more show ?thesis
      using tables_from_same [of i d0 "evs @ [e]" "gw_db (sy_gateway sys)" "gw_db ?gw"] http_step_routes
      by (simp add: sys_from_def Http)
  next
    case (Push works msg)
    from from' have "offered i evs (mg_current (st_manager (sy_stream sys)))"
      "\<forall>c \<in> set (st_channels (sy_stream sys)). \<forall>snap \<in> set (ch_queue c). offered i evs snap"
      by (simp_all add: sys_from_def)
    from pushed_offered [OF _ this Push] more ok show ?thesis by (simp add: sys_from_def sys_ok_def Push)
  next
    case (Status up err)
    with more show ?thesis by (simp add: sys_from_def SetConnectionStatus_def)
  next
    case (Probe t b)
    with more show ?thesis by (simp add: sys_from_def)
  next
    case Apply
    obtain x stream where r: "receive 0 (sy_stream sys) = (x, stream)" by fastforce
    show ?thesis
    proof (cases x)
      case None
      with more Apply r show ?thesis by (simp add: applyConfigUpdates_def)
    next
      case (Some snap)
      let ?evs = "evs @ [e]"
      let ?rn = "applyConfigUpdate (st_waf i) (st_regex i) (sy_checks sys) (sy_local sys) snap (running_of sys)"
      have loc: "sy_local sys = localConfigSnapshot (Some (loaded_config i))" using more by (simp add: sys_from_def)
      have queue: "st_channels (sy_stream sys) \<noteq> []" "snap \<in> set (ch_queue (st_channels (sy_stream sys) ! 0))"
        "st_manager stream = st_manager (sy_stream sys)"
        "\<forall>c \<in> set (st_channels stream). \<exists>c' \<in> set (st_channels (sy_stream sys)). set (ch_queue c) \<subseteq> set (ch_queue c')"
        using received [OF r [unfolded Some]] by auto
      have snap: "offered i ?evs snap" using more queue(1,2) by (auto simp: sys_from_def)
      have streams: "offered i ?evs (mg_current (st_manager stream))" "\<forall>c \<in> set (st_channels stream). \<forall>s \<in> set (ch_queue c). offered i ?evs s"
        using more queue(3,4) by (auto simp: sys_from_def)
      have tables: "tables_from i d0 ?evs (rn_db (running_of sys))" using more by (simp add: sys_from_def running_of_def)
      note effect = round_effect [of "st_waf i" "st_regex i" "sy_checks sys" "sy_local sys" snap "running_of sys"]
      have db: "tables_from i d0 ?evs (rn_db ?rn)"
        using accepted_tables_from [OF tables snap, of "st_waf i"] effect(1) by (simp add: loc)
      moreover have "\<exists>d. tables_from i d0 ?evs d \<and> loadRouteSnapshot (st_regex i) d = Inr (rn_routes ?rn)"
        using effect(3) db more by (auto simp: sys_from_def running_of_def)
      ultimately show ?thesis using streams loc Apply r Some by (simp add: sys_from_def applyConfigUpdates_def with_running_def)
    qed
  qed
qed

lemma started_from:
  assumes "st_open i = Some (d0, b)" "db_ok d0" "start_program i = Inr sys0"
  shows "sys_from i d0 [] (subscribed sys0)"
proof -
  from started [OF assms(3)] assms(1) obtain trusted routes cfg where
    load: "loadRouteSnapshot (st_regex i) (tables_at_start i d0) = Inr routes" and
    sys0: "sys0 = build_system i cfg trusted (start_stream snapshotPath (st_recovery i)) (localConfigSnapshot (Some (loaded_config i)))
      (tables_at_start i d0) routes"
    by auto
  have tables: "tables_from i d0 [] (tables_at_start i d0)"
    using tables_ok [OF assms(2)] by (simp add: tables_from_def configured_route_def)
  have parts: "sy_stream sys0 = start_stream snapshotPath (st_recovery i)" "sy_local sys0 = localConfigSnapshot (Some (loaded_config i))"
    by (simp_all add: sys0 build_system_def Let_def)
  have "offered i [] (mg_current (st_manager (start_stream snapshotPath (st_recovery i))))"
    by (simp add: offered_def recovered_snapshot_def GetSnapshot_def)
  with tables load show ?thesis
    by (auto simp: sys_from_def subscribed_def parts Subscribe_def Let_def start_stream_def) (auto simp: sys0)
qed

lemma run_from:
  assumes "st_open i = Some (d0, b)" "db_ok d0" "start_program i = Inr sys0"
    and "\<forall>l. gw_limiter (sy_gateway sys0) = Some l \<longrightarrow> rl_burst l \<le> 2 ^ 53"
  shows "sys_ok (run_system i evs sys0) \<and> sys_from i d0 evs (run_system i evs sys0)"
proof (induction evs rule: rev_induct)
  case Nil
  show ?case using subscribed_ok [OF assms] started_from [OF assms(1-3)] by (simp add: run_system_def)
next
  case (snoc e evs)
  have "run_system i (evs @ [e]) sys0 = sys_step (st_waf i) (st_regex i) e (run_system i evs sys0)" by (simp add: run_system_def)
  with snoc show ?case using sys_from_step [of i d0 evs "run_system i evs sys0" e] system_inv.step_good by simp
qed


text \<open>A program without a configuration that is sent one.\<close>

definition one_update :: "event list" where
  "one_update = [Push True \<lparr>ms_Type = ''snapshot'', ms_Data = Some (enc_snapshot sample_snapshot), ms_Version = 1\<rparr>, Apply, Apply]"

definition first_request :: request where
  "first_request = (demo_request ''/x'')\<lparr>req_Host := ''a.com''\<rparr>"

lemma updated_run:
  "case start_program (bare_start Map.empty) of Inl e \<Rightarrow> False
   | Inr sys0 \<Rightarrow> gw_limiter (sy_gateway sys0) = None \<and>
      (case handle_request (sy_setting (run_system (bare_start Map.empty) one_update sys0)) demo_occasion demo_outside first_request
          (sy_gateway (run_system (bare_start Map.empty) one_update sys0)) of
        None \<Rightarrow> False
      | Some (outcome, gw) \<Rightarrow> (case outcome of Proxied out m c \<Rightarrow> map rt_URL (rm_Targets m) = [''http://x:1'', ''http://y:2''] | _ \<Rightarrow> False))"
  by code_simp

lemma updated_parts:
  obtains sys0 out m c gw where "start_program (bare_start Map.empty) = Inr sys0" "gw_limiter (sy_gateway sys0) = None"
    "handle_request (sy_setting (run_system (bare_start Map.empty) one_update sys0)) demo_occasion demo_outside first_request
       (sy_gateway (run_system (bare_start Map.empty) one_update sys0)) = Some (Proxied out m c, gw)"
    "map rt_URL (rm_Targets m) = [''http://x:1'', ''http://y:2'']"
  using updated_run by (auto split: sum.splits option.splits outcome.splits)



end
