(* ===== verification/GoFormat.thy ===== *)
theory GoFormat
  imports GoStrings Float64
begin

text \<open>
  What the program uses of \<^verbatim>\<open>fmt\<close>: \<^verbatim>\<open>Sprintf\<close> with texts and decimal integers, and floats with a fixed
  number of decimals.
\<close>

subsection \<open>Verbs\<close>

datatype fmt_arg = Str string | Dec int

fun arg_text :: "fmt_arg \<Rightarrow> string" where
  "arg_text (Str s) = s"
| "arg_text (Dec n) = Itoa n"

text \<open>
  \<^verbatim>\<open>fmt.Sprintf\<close>. Every call has as many arguments as verbs, of the right types; \<^verbatim>\<open>%d\<close> and \<^verbatim>\<open>%s\<close> take the next one.
\<close>

fun Sprintf :: "string \<Rightarrow> fmt_arg list \<Rightarrow> string" where
  "Sprintf [] args = []"
| "Sprintf [c] args = [c]"
| "Sprintf (c # d # s) args =
     (if c \<noteq> CHR ''%'' then c # Sprintf (d # s) args
      else if d = CHR ''%'' then CHR ''%'' # Sprintf s args
      else (case args of [] \<Rightarrow> Sprintf s [] | a # rest \<Rightarrow> arg_text a @ Sprintf s rest))"

subsection \<open>Floats\<close>

text \<open>\<^verbatim>\<open>%.nf\<close>: the exact value rounded half to even, with its sign.\<close>

definition pad_left :: "nat \<Rightarrow> string \<Rightarrow> string" where
  "pad_left n s = replicate (n - length s) (CHR ''0'') @ s"

definition fixed :: "nat \<Rightarrow> rat \<Rightarrow> string" where
  "fixed n x =
     (let m = nat (rhe (\<bar>x\<bar> * 10 ^ n)); whole = nat_digits (m div 10 ^ n)
      in (if x < 0 then ''-'' else []) @ whole
         @ (if n = 0 then [] else ''.'' @ pad_left n (nat_digits (m mod 10 ^ n))))"

lemma nat_digits_of: "c \<in> set (nat_digits n) \<Longrightarrow> is_digit c"
  using nat_digits_digits by blast

lemma fixed_chars: "c \<in> set (fixed n x) \<Longrightarrow> is_digit c \<or> c = CHR ''-'' \<or> c = CHR ''.''"
  by (auto simp: fixed_def pad_left_def Let_def is_digit_def dest: nat_digits_of split: if_splits)

lemma Itoa_chars: "c \<in> set (Itoa n) \<Longrightarrow> is_digit c \<or> c = CHR ''-''"
  by (auto simp: Itoa_def dest: nat_digits_of split: if_splits)

end
