(* ===== verification/Pages.thy ===== *)
theory Pages
  imports GatewayHelpers GoFormat
begin

text \<open>
  The pages of the challenges (\<^verbatim>\<open>internal/challenge/render.go\<close>): the format texts of the source,
  byte by byte, and \<^verbatim>\<open>fmt.Sprintf\<close> with the three verbs they use. What a client sends reaches a page
  only escaped, and the identifier and the answer of a challenge are put in as they are.
\<close>

subsection \<open>The format texts\<close>

definition simple_format :: string where
  \<open>simple_format = Join
   [''<!DOCTYPE html>'',
    ''<html lang="en">'',
    ''<head>'',
    ''  <meta charset="utf-8"/>'',
    ''  <meta name="viewport" content="width=device-width, initial-scale=1"/>'',
    ''  <title>Request Blocked</title>'',
    ''  <style>'',
    ''    :root { color-scheme: light dark; }'',
    ''    body { margin: 0; font: 16px/1.4 system-ui, sans-serif; display: grid; place-items: center; min-height: 100vh; background: linear-gradient(135deg, #667eea 0%%, #764ba2 100%%); }'',
    ''    .card { max-width: 500px; padding: 32px; background: white; border-radius: 16px; box-shadow: 0 20px 60px rgba(0,0,0,0.3); }'',
    ''    h1 { margin: 0 0 12px; font-size: 24px; color: #333; }'',
    ''    p { margin: 0 0 12px; color: #666; }'',
    ''    code { background: #f5f5f5; padding: 2px 6px; border-radius: 4px; font-size: 14px; }'',
    ''  </style>'',
    ''</head>'',
    ''<body>'',
    ''  <div class="card">'',
    ''    <h1>'' @ [CHR 0xF0, CHR 0x9F, CHR 0x9A, CHR 0xAB] @ '' Request Blocked</h1>'',
    ''    <p>%s</p>'',
    ''    <p>Status: <code>%d</code></p>'',
    ''  </div>'',
    ''</body>'',
    ''</html>''] [CHR 0x0A]\<close>

definition text_format :: string where
  \<open>text_format = Join
   [''<!DOCTYPE html>'',
    ''<html lang="en">'',
    ''<head>'',
    ''  <meta charset="utf-8"/>'',
    ''  <meta name="viewport" content="width=device-width, initial-scale=1"/>'',
    ''  <title>Verification Required</title>'',
    ''  <style>'',
    ''    :root { color-scheme: light dark; }'',
    ''    body { margin: 0; font: 16px/1.4 system-ui, sans-serif; display: grid; place-items: center; min-height: 100vh; background: linear-gradient(135deg, #667eea 0%%, #764ba2 100%%); }'',
    ''    .card { max-width: 520px; padding: 40px; background: white; border-radius: 16px; box-shadow: 0 20px 60px rgba(0,0,0,0.3); }'',
    ''    h1 { margin: 0 0 8px; font-size: 24px; color: #333; }'',
    ''    .bot-id { font-size: 11px; color: #999; font-family: monospace; margin-bottom: 16px; }'',
    ''    .challenge { margin: 24px 0; padding: 20px; background: #f8f9fa; border-radius: 8px; border-left: 4px solid #667eea; }'',
    ''    .word { display: inline-block; padding: 8px 16px; margin: 4px; background: white; border: 2px solid #667eea; border-radius: 8px; font-size: 20px; font-weight: bold; letter-spacing: 3px; color: #667eea; }'',
    ''    input { width: 100%%; padding: 12px; font-size: 16px; border: 2px solid #ddd; border-radius: 8px; box-sizing: border-box; margin-top: 12px; }'',
    ''    button { width: 100%%; padding: 12px; background: #667eea; color: white; border: none; border-radius: 8px; font-size: 16px; font-weight: 600; cursor: pointer; margin-top: 12px; }'',
    ''    button:hover { background: #5568d3; }'',
    ''    .suspicion { font-size: 12px; color: #999; margin-top: 12px; }'',
    ''  </style>'',
    ''</head>'',
    ''<body>'',
    ''  <div class="card">'',
    ''    <h1>'' @ [CHR 0xF0, CHR 0x9F, CHR 0xA4, CHR 0x96] @ '' Verification Required</h1>'',
    ''    <div class="bot-id">Bot ID: %s</div>'',
    ''    <p style="color: #666; margin-bottom: 8px;">Your request was flagged by our security system.</p>'',
    ''    <div class="challenge">'',
    ''      <p style="margin: 0 0 12px; font-weight: 600; color: #333;">Type the word shown below:</p>'',
    ''      <div class="word">%s</div>'',
    ''    </div>'',
    ''    <form method="POST" action="/__netgoat/verify">'',
    ''      <input type="hidden" name="challenge_id" value="%s"/>'',
    ''      <input type="text" name="answer" placeholder="Enter the word" autocomplete="off" autofocus required/>'',
    ''      <button type="submit">Verify</button>'',
    ''    </form>'',
    ''    <div class="suspicion">Suspicion Score: %d/100 | Status: %d</div>'',
    ''  </div>'',
    ''</body>'',
    ''</html>''] [CHR 0x0A]\<close>

definition click_format :: string where
  \<open>click_format = Join
   [''<!DOCTYPE html>'',
    ''<html lang="en">'',
    ''<head>'',
    ''  <meta charset="utf-8"/>'',
    ''  <meta name="viewport" content="width=device-width, initial-scale=1"/>'',
    ''  <title>Verification Required</title>'',
    ''  <style>'',
    ''    :root { color-scheme: light dark; }'',
    ''    body { margin: 0; font: 16px/1.4 system-ui, sans-serif; display: grid; place-items: center; min-height: 100vh; background: linear-gradient(135deg, #f093fb 0%%, #f5576c 100%%); }'',
    ''    .card { max-width: 520px; padding: 40px; background: white; border-radius: 16px; box-shadow: 0 20px 60px rgba(0,0,0,0.3); }'',
    ''    h1 { margin: 0 0 8px; font-size: 24px; color: #333; }'',
    ''    .bot-id { font-size: 11px; color: #999; font-family: monospace; margin-bottom: 16px; }'',
    ''    .challenge { margin: 24px 0; }'',
    ''    .grid { display: grid; grid-template-columns: repeat(3, 1fr); gap: 8px; }'',
    ''    .box { aspect-ratio: 1; background: #f8f9fa; border: 3px solid #ddd; border-radius: 8px; cursor: pointer; display: flex; align-items: center; justify-content: center; font-size: 32px; transition: all 0.2s; }'',
    ''    .box:hover { border-color: #f5576c; transform: scale(1.05); }'',
    ''    .box.selected { background: #f5576c; border-color: #f5576c; color: white; }'',
    ''    button { width: 100%%; padding: 12px; background: #f5576c; color: white; border: none; border-radius: 8px; font-size: 16px; font-weight: 600; cursor: pointer; margin-top: 16px; }'',
    ''    button:hover { background: #e04858; }'',
    ''    .suspicion { font-size: 12px; color: #999; margin-top: 12px; }'',
    ''  </style>'',
    ''</head>'',
    ''<body>'',
    ''  <div class="card">'',
    ''    <h1>'' @ [CHR 0xF0, CHR 0x9F, CHR 0x8E, CHR 0xAF] @ '' Click Verification</h1>'',
    ''    <div class="bot-id">Bot ID: %s</div>'',
    ''    <p style="color: #666; margin-bottom: 8px;">Select all boxes containing <strong>'' @ [CHR 0xF0, CHR 0x9F, CHR 0x9A, CHR 0x80] @ ''</strong></p>'',
    ''    <div class="challenge">'',
    ''      <div class="grid" id="grid"></div>'',
    ''    </div>'',
    ''    <form method="POST" action="/__netgoat/verify" id="verifyForm">'',
    ''      <input type="hidden" name="challenge_id" value="%s"/>'',
    ''      <input type="hidden" name="answer" id="answer" value=""/>'',
    ''      <button type="submit">Verify Selection</button>'',
    ''    </form>'',
    ''    <div class="suspicion">Suspicion Score: %d/100 | Status: %d</div>'',
    ''  </div>'',
    ''  <script>'',
    ''    const correct = "%s".split(",").map(x => parseInt(x));'',
    ''    const selected = new Set();'',
    ''    const grid = document.getElementById("grid");'',
    ''    const emojis = ["'' @ [CHR 0xF0, CHR 0x9F, CHR 0x8C, CHR 0x9F] @ ''", "'' @ [CHR 0xF0, CHR 0x9F, CHR 0x8E, CHR 0x88] @ ''", "'' @ [CHR 0xF0, CHR 0x9F, CHR 0x8E, CHR 0xA8] @ ''", "'' @ [CHR 0xF0, CHR 0x9F, CHR 0x8E, CHR 0xAD] @ ''", "'' @ [CHR 0xF0, CHR 0x9F, CHR 0x8E, CHR 0xAA] @ ''", "'' @ [CHR 0xF0, CHR 0x9F, CHR 0x8E, CHR 0xAC] @ ''", "'' @ [CHR 0xF0, CHR 0x9F, CHR 0x8E, CHR 0xAE] @ ''", "'' @ [CHR 0xF0, CHR 0x9F, CHR 0x8E, CHR 0xAF] @ ''", "'' @ [CHR 0xF0, CHR 0x9F, CHR 0x8E, CHR 0xB2] @ ''"];'',
    ''    '',
    ''    for (let i = 0; i < 9; i++) {'',
    ''      const box = document.createElement("div");'',
    ''      box.className = "box";'',
    ''      box.textContent = correct.includes(i) ? "'' @ [CHR 0xF0, CHR 0x9F, CHR 0x9A, CHR 0x80] @ ''" : emojis[i];'',
    ''      box.onclick = () => {'',
    ''        if (selected.has(i)) {'',
    ''          selected.delete(i);'',
    ''          box.classList.remove("selected");'',
    ''        } else {'',
    ''          selected.add(i);'',
    ''          box.classList.add("selected");'',
    ''        }'',
    ''        document.getElementById("answer").value = Array.from(selected).sort().join(",");'',
    ''      };'',
    ''      grid.appendChild(box);'',
    ''    }'',
    ''  </script>'',
    ''</body>'',
    ''</html>''] [CHR 0x0A]\<close>

definition slider_format :: string where
  \<open>slider_format = Join
   [''<!DOCTYPE html>'',
    ''<html lang="en">'',
    ''<head>'',
    ''  <meta charset="utf-8"/>'',
    ''  <meta name="viewport" content="width=device-width, initial-scale=1"/>'',
    ''  <title>Verification Required</title>'',
    ''  <style>'',
    ''    :root { color-scheme: light dark; }'',
    ''    body { margin: 0; font: 16px/1.4 system-ui, sans-serif; display: grid; place-items: center; min-height: 100vh; background: linear-gradient(135deg, #fa709a 0%%, #fee140 100%%); }'',
    ''    .card { max-width: 520px; padding: 40px; background: white; border-radius: 16px; box-shadow: 0 20px 60px rgba(0,0,0,0.3); }'',
    ''    h1 { margin: 0 0 8px; font-size: 24px; color: #333; }'',
    ''    .bot-id { font-size: 11px; color: #999; font-family: monospace; margin-bottom: 16px; }'',
    ''    .challenge { margin: 24px 0; }'',
    ''    .puzzle-container { position: relative; width: 100%%; height: 200px; background: linear-gradient(90deg, #fa709a 0%%, #fee140 100%%); border-radius: 12px; overflow: hidden; }'',
    ''    .puzzle-piece { position: absolute; width: 60px; height: 60px; background: white; border: 3px solid #333; border-radius: 8px; cursor: grab; box-shadow: 0 4px 12px rgba(0,0,0,0.2); display: flex; align-items: center; justify-content: center; font-size: 24px; }'',
    ''    .puzzle-piece:active { cursor: grabbing; }'',
    ''    .target-zone { position: absolute; right: 20px; top: 70px; width: 70px; height: 70px; border: 3px dashed #333; border-radius: 8px; background: rgba(255,255,255,0.3); }'',
    ''    button { width: 100%%; padding: 12px; background: #fa709a; color: white; border: none; border-radius: 8px; font-size: 16px; font-weight: 600; cursor: pointer; margin-top: 16px; }'',
    ''    button:hover { background: #e8638a; }'',
    ''    .suspicion { font-size: 12px; color: #999; margin-top: 12px; }'',
    ''  </style>'',
    ''</head>'',
    ''<body>'',
    ''  <div class="card">'',
    ''    <h1>'' @ [CHR 0xF0, CHR 0x9F, CHR 0xA7, CHR 0xA9] @ '' Puzzle Verification</h1>'',
    ''    <div class="bot-id">Bot ID: %s</div>'',
    ''    <p style="color: #666; margin-bottom: 8px;">Drag the puzzle piece to the target zone</p>'',
    ''    <div class="challenge">'',
    ''      <div class="puzzle-container">'',
    ''        <div class="target-zone"></div>'',
    ''        <div class="puzzle-piece" id="piece" style="left: 20px; top: 70px;">'' @ [CHR 0xF0, CHR 0x9F, CHR 0x94, CHR 0x92] @ ''</div>'',
    ''      </div>'',
    ''    </div>'',
    ''    <form method="POST" action="/__netgoat/verify" id="verifyForm">'',
    ''      <input type="hidden" name="challenge_id" value="%s"/>'',
    ''      <input type="hidden" name="answer" id="answer" value=""/>'',
    ''      <button type="submit">Verify</button>'',
    ''    </form>'',
    ''    <div class="suspicion">Suspicion Score: %d/100 | Status: %d</div>'',
    ''  </div>'',
    ''  <script>'',
    ''    const piece = document.getElementById("piece");'',
    ''    const target = "%s";'',
    ''    let solved = false;'',
    ''    '',
    ''    piece.onmousedown = (e) => {'',
    ''      e.preventDefault();'',
    ''      const shiftX = e.clientX - piece.getBoundingClientRect().left;'',
    ''      const shiftY = e.clientY - piece.getBoundingClientRect().top;'',
    ''      '',
    ''      const move = (e) => {'',
    ''        const container = piece.parentElement.getBoundingClientRect();'',
    ''        let x = e.clientX - container.left - shiftX;'',
    ''        let y = e.clientY - container.top - shiftY;'',
    ''        x = Math.max(0, Math.min(x, container.width - 60));'',
    ''        y = Math.max(0, Math.min(y, container.height - 60));'',
    ''        piece.style.left = x + "px";'',
    ''        piece.style.top = y + "px";'',
    ''        '',
    ''        // Check if close to target (right side)'',
    ''        if (x > container.width - 100 && y > 50 && y < 110) {'',
    ''          piece.style.background = "#4ade80";'',
    ''          piece.textContent = "'' @ [CHR 0xE2, CHR 0x9C, CHR 0x93] @ ''";'',
    ''          solved = true;'',
    ''          document.getElementById("answer").value = target;'',
    ''        } else {'',
    ''          piece.style.background = "white";'',
    ''          piece.textContent = "'' @ [CHR 0xF0, CHR 0x9F, CHR 0x94, CHR 0x92] @ ''";'',
    ''          solved = false;'',
    ''          document.getElementById("answer").value = "";'',
    ''        }'',
    ''      };'',
    ''      '',
    ''      const up = () => {'',
    ''        document.removeEventListener("mousemove", move);'',
    ''        document.removeEventListener("mouseup", up);'',
    ''      };'',
    ''      '',
    ''      document.addEventListener("mousemove", move);'',
    ''      document.addEventListener("mouseup", up);'',
    ''    };'',
    ''  </script>'',
    ''</body>'',
    ''</html>''] [CHR 0x0A]\<close>

subsection \<open>The pages\<close>

fun page_text :: "page \<Rightarrow> string" where
  "page_text (SimpleError message status) = Sprintf simple_format [Str message, Dec status]"
| "page_text (TextPage uid answer field suspicion status) =
     Sprintf text_format [Str uid, Str answer, Str field, Dec suspicion, Dec status]"
| "page_text (ClickPage uid field suspicion status answer) =
     Sprintf click_format [Str uid, Str field, Dec suspicion, Dec status, Str answer]"
| "page_text (SliderPage uid field suspicion status answer) =
     Sprintf slider_format [Str uid, Str field, Dec suspicion, Dec status, Str answer]"

subsection \<open>What a text can do to a page\<close>

text \<open>The bytes that can open or close a tag, an attribute or an entity.\<close>

definition markup :: "char \<Rightarrow> bool" where
  "markup c = (c = CHR ''<'' \<or> c = CHR ''>'' \<or> c = CHR 0x22 \<or> c = CHR 0x27)"

definition plain :: "string \<Rightarrow> bool" where
  "plain s = (\<forall>c \<in> set s. \<not> markup c)"

lemma plain_digits: "plain (Itoa n)"
proof -
  have "\<not> markup c" if "c \<in> set (nat_digits k)" for c k
  proof -
    have "is_digit c" using that nat_digits_digits by blast
    then show ?thesis by (auto simp: markup_def is_digit_def)
  qed
  then show ?thesis by (auto simp: plain_def Itoa_def markup_def)
qed

lemma escaped_plain: "plain (HTMLEscapeString s)"
  by (auto simp: plain_def HTMLEscapeString_def markup_def split: if_splits)

lemma filter_plain: "plain s \<Longrightarrow> filter markup s = []"
  by (simp add: plain_def filter_empty_conv)

text \<open>Plain arguments leave the markup of a format text as it is.\<close>

lemma Sprintf_markup:
  assumes "\<forall>a \<in> set args. plain (arg_text a)" "length args = length args'" "\<forall>a \<in> set args'. plain (arg_text a)"
  shows "filter markup (Sprintf f args) = filter markup (Sprintf f args')"
  using assms
proof (induction f args arbitrary: args' rule: Sprintf.induct)
  case (3 c d s args)
  show ?case
  proof (cases args)
    case Nil
    with 3 show ?thesis by auto
  next
    case (Cons a rest)
    then obtain a' rest' where args': "args' = a' # rest'" using "3.prems"(2) by (cases args') auto
    show ?thesis using 3 Cons args' by (auto simp: filter_plain)
  qed
qed auto

subsection \<open>The pages of requests\<close>

fun blank :: "page \<Rightarrow> page" where
  "blank (SimpleError message status) = SimpleError [] 0"
| "blank (TextPage uid answer field suspicion status) = TextPage [] [] [] 0 0"
| "blank (ClickPage uid field suspicion status answer) = ClickPage [] [] 0 0 []"
| "blank (SliderPage uid field suspicion status answer) = SliderPage [] [] 0 0 []"

fun page_texts :: "page \<Rightarrow> string list" where
  "page_texts (SimpleError message status) = [message]"
| "page_texts (TextPage uid answer field suspicion status) = [uid, answer, field]"
| "page_texts (ClickPage uid field suspicion status answer) = [uid, field, answer]"
| "page_texts (SliderPage uid field suspicion status answer) = [uid, field, answer]"

lemma plain_Nil: "plain []"
  by (simp add: plain_def)

lemma blank_markup: "\<forall>s \<in> set (page_texts p). plain s \<Longrightarrow> filter markup (page_text p) = filter markup (page_text (blank p))"
  by (cases p) (simp_all only: page_text.simps blank.simps, (rule Sprintf_markup; simp add: plain_digits plain_Nil)+)

lemma rendered_texts:
  "page_texts (RenderDynamicErrorPage ch status message) =
     (case ch of None \<Rightarrow> [HTMLEscapeString message]
      | Some c \<Rightarrow> if ch_Type c = ChallengeText then [ch_ID c, ch_Answer c, ch_ID c]
                  else if ch_Type c \<in> {ChallengeClick, ChallengeSlider} then [ch_ID c, ch_ID c, ch_Answer c]
                  else [HTMLEscapeString message])"
  by (auto simp: RenderDynamicErrorPage_def split: option.splits)

text \<open>
  A client cannot put markup into a page: whatever message is shown, and for any challenge whose
  identifier and answer are free of angle brackets and quotes, the page has the
  angle brackets and quotes of its format text and no others, in the same order.
\<close>

theorem page_markup_fixed:
  fixes ch :: "challenge option" and status :: int and message :: string
  assumes "\<forall>c. ch = Some c \<longrightarrow> plain (ch_ID c) \<and> plain (ch_Answer c)"
  defines "p \<equiv> RenderDynamicErrorPage ch status message"
  shows "filter markup (page_text p) = filter markup (page_text (blank p))"
proof (rule blank_markup)
  show "\<forall>s \<in> set (page_texts p). plain s"
    using assms(1) escaped_plain by (auto simp: p_def rendered_texts split: option.splits)
qed

definition bold_message :: string where
  "bold_message = ''<b onload=x>''"

theorem page_markup_fixed_witness:
  "filter markup (page_text (RenderDynamicErrorPage None 404 bold_message)) = filter markup (page_text (SimpleError [] 0)) \<and>
   filter markup bold_message \<noteq> []"
proof -
  have "filter markup bold_message \<noteq> []" by code_simp
  with page_markup_fixed [of None 404 bold_message] show ?thesis by (simp add: RenderDynamicErrorPage_def)
qed

subsection \<open>What a page gives away\<close>

text \<open>Every argument that has a verb appears in the text; so every page of a challenge holds its answer.\<close>

fun verbs :: "string \<Rightarrow> nat" where
  "verbs [] = 0"
| "verbs [c] = 0"
| "verbs (c # d # s) = (if c \<noteq> CHR ''%'' then verbs (d # s) else if d = CHR ''%'' then verbs s else Suc (verbs s))"

lemma Sprintf_shows:
  "length args \<le> verbs f \<Longrightarrow> a \<in> set args \<Longrightarrow> \<exists>x y. Sprintf f args = x @ arg_text a @ y"
proof (induction f args rule: Sprintf.induct)
  case (3 c d s args)
  consider "c \<noteq> CHR ''%''" | "c = CHR ''%''" "d = CHR ''%''" | "c = CHR ''%''" "d \<noteq> CHR ''%''" by blast
  then show ?case
  proof cases
    case 1
    with 3 obtain x y where "Sprintf (d # s) args = x @ arg_text a @ y" by auto
    with 1 show ?thesis by - (rule exI [of _ "c # x"], auto)
  next
    case 2
    with 3 obtain x y where "Sprintf s args = x @ arg_text a @ y" by auto
    with 2 show ?thesis by - (rule exI [of _ "c # x"], auto)
  next
    case c: 3
    obtain b rest where args: "args = b # rest" using "3.prems"(2) by (cases args) auto
    show ?thesis
    proof (cases "a = b")
      case True
      with c args show ?thesis by - (rule exI [of _ "[]"], auto)
    next
      case False
      have "length rest \<le> verbs s" "a \<in> set rest" using "3.prems" c args False by simp_all
      with "3.IH"(4) c args obtain x y where "Sprintf s rest = x @ arg_text a @ y" by auto
      with c args show ?thesis by - (rule exI [of _ "arg_text b @ x"], auto)
    qed
  qed
qed simp_all

lemma verbs_after: "c \<noteq> CHR ''%'' \<Longrightarrow> verbs t \<le> verbs (c # t)"
  by (cases t) simp_all

lemma verbs_line: "verbs s + verbs t \<le> verbs (s @ CHR 0x0A # t)"
proof (induction s rule: verbs.induct)
  case 1
  show ?case by (simp add: verbs_after)
next
  case (2 c)
  show ?case using verbs_after [of "CHR 0x0A" t] by simp
next
  case (3 c d s)
  then show ?case using verbs_after by auto
qed

lemma verbs_lines: "sum_list (map verbs ls) \<le> verbs (Join ls [CHR 0x0A])"
proof (induction ls)
  case (Cons s ls)
  show ?case using Cons verbs_line [of s "Join ls [CHR 0x0A]"] by (cases ls) auto
qed simp

lemma text_verbs: "5 \<le> verbs text_format"
  unfolding text_format_def by (rule order_trans [OF _ verbs_lines]) code_simp

lemma click_verbs: "5 \<le> verbs click_format"
  unfolding click_format_def by (rule order_trans [OF _ verbs_lines]) code_simp

lemma slider_verbs: "5 \<le> verbs slider_format"
  unfolding slider_format_def by (rule order_trans [OF _ verbs_lines]) code_simp

lemma answer_in_page:
  assumes "ch_Type c \<in> {ChallengeText, ChallengeClick, ChallengeSlider}"
  shows "\<exists>x y. page_text (RenderDynamicErrorPage (Some c) status message) = x @ ch_Answer c @ y"
proof -
  have word: "\<exists>x y. Sprintf text_format [Str (ch_ID c), Str (ch_Answer c), Str (ch_ID c), Dec (ch_Suspicion c), Dec status] = x @ ch_Answer c @ y"
    using Sprintf_shows [of _ text_format "Str (ch_Answer c)"] text_verbs by simp
  have click: "\<exists>x y. Sprintf click_format [Str (ch_ID c), Str (ch_ID c), Dec (ch_Suspicion c), Dec status, Str (ch_Answer c)] = x @ ch_Answer c @ y"
    using Sprintf_shows [of _ click_format "Str (ch_Answer c)"] click_verbs by simp
  have slider: "\<exists>x y. Sprintf slider_format [Str (ch_ID c), Str (ch_ID c), Dec (ch_Suspicion c), Dec status, Str (ch_Answer c)] = x @ ch_Answer c @ y"
    using Sprintf_shows [of _ slider_format "Str (ch_Answer c)"] slider_verbs by simp
  show ?thesis using assms word click slider by (auto simp: RenderDynamicErrorPage_def)
qed

end
