(* ===== verification/DebugOverlay.thy ===== *)
theory DebugOverlay
  imports Pages
begin

text \<open>
  The debug overlay (\<^verbatim>\<open>internal/debugoverlay/overlay.go\<close>): the record of what the checks found, the
  colours, the template with its conditions, and what \<^verbatim>\<open>html/template\<close> does to a value on its way into
  the page. Texts of the request cannot add markup; the gradients and translucent backgrounds are
  lost to the filter for style values.
\<close>

subsection \<open>What a request was found to be\<close>

record analysis_info =
  an_RequestID :: string
  an_Timestamp :: gotime
  an_ClientIP :: string
  an_Host :: string
  an_Path :: string
  an_Method :: string
  an_WAFChecked :: bool
  an_WAFBlocked :: bool
  an_WAFRuleName :: string
  an_WAFRuleMatched :: string
  an_AIEnabled :: bool
  an_AIChecked :: bool
  an_AILabel :: string
  an_AIScore :: rat
  an_AIThreshold :: rat
  an_AIBlocked :: bool
  an_AIError :: string
  an_AIProcessingMs :: int
  an_KodaWafEnabled :: bool
  an_KodaWafChecked :: bool
  an_KodaWafLabel :: string
  an_KodaWafScore :: rat
  an_KodaWafThreshold :: rat
  an_KodaWafBlocked :: bool
  an_KodaWafAttackType :: string
  an_KodaWafError :: string
  an_KodaWafProcessingMs :: int
  an_Koda2Enabled :: bool
  an_Koda2Checked :: bool
  an_Koda2Label :: string
  an_Koda2Score :: rat
  an_Koda2Threshold :: rat
  an_Koda2Blocked :: bool
  an_Koda2Error :: string
  an_Koda2ProcessingMs :: int
  an_TargetURL :: string
  an_CacheHit :: bool
  an_RequestAllowed :: bool
  an_BlockReason :: string

subsection \<open>Times as texts\<close>

text \<open>\<^verbatim>\<open>Format("15:04:05")\<close> of a time, in a zone that many seconds east of Greenwich.\<close>

definition clock_text :: "int \<Rightarrow> gotime \<Rightarrow> string" where
  "clock_text zone t =
     (let s = (t div Second + zone) mod 86400;
          two = (\<lambda>k. pad_left 2 (nat_digits (nat k)))
      in two (s div 3600) @ '':'' @ two (s div 60 mod 60) @ '':'' @ two (s mod 60))"

subsection \<open>The colours\<close>

definition near :: "rat \<Rightarrow> rat \<Rightarrow> bool" where
  "near score threshold = (fl (threshold * fl (7 / 10)) < score)"

definition getStatusColor :: "analysis_info \<Rightarrow> string" where
  "getStatusColor info =
     (if \<not> an_RequestAllowed info then ''#ff4757''
      else if an_AIBlocked info \<or> an_WAFBlocked info \<or> an_KodaWafBlocked info \<or> an_Koda2Blocked info then ''#ff4757''
      else if near (an_AIScore info) (an_AIThreshold info) \<or> near (an_KodaWafScore info) (an_KodaWafThreshold info)
              \<or> near (an_Koda2Score info) (an_Koda2Threshold info) then ''#ffa500''
      else ''#00ff88'')"

definition getStatusBadgeColor :: "analysis_info \<Rightarrow> string" where
  "getStatusBadgeColor info = (if \<not> an_RequestAllowed info then ''#d63031'' else ''#00b894'')"

definition getStatusText :: "analysis_info \<Rightarrow> string" where
  "getStatusText info = (if \<not> an_RequestAllowed info then ''BLOCKED'' else ''ALLOWED'')"

definition getWAFBackground :: "analysis_info \<Rightarrow> string" where
  "getWAFBackground info = (if an_WAFBlocked info then ''rgba(255, 71, 87, 0.1)'' else ''transparent'')"

definition getModelBackground :: "bool \<Rightarrow> rat \<Rightarrow> rat \<Rightarrow> string" where
  "getModelBackground blocked score threshold =
     (if blocked then ''rgba(255, 71, 87, 0.1)''
      else if near score threshold then ''rgba(255, 165, 0, 0.1)''
      else ''rgba(46, 204, 113, 0.05)'')"

definition getScoreColor :: "rat \<Rightarrow> string" where
  "getScoreColor score =
     (if fl (7 / 10) \<le> score then ''linear-gradient(90deg, #ff4757, #ff6348)''
      else if fl (5 / 10) \<le> score then ''linear-gradient(90deg, #ffa502, #ff6348)''
      else if fl (3 / 10) \<le> score then ''linear-gradient(90deg, #feca57, #ffa502)''
      else ''linear-gradient(90deg, #00d2d3, #1dd1a1)'')"

definition getLabelColor :: "string \<Rightarrow> string list \<Rightarrow> string" where
  "getLabelColor label dangerKeywords =
     (let lab = ToLower label
      in if list_ex (Contains lab) dangerKeywords then ''#ff4757''
         else if Contains lab ''suspi'' \<or> Contains lab ''warning'' then ''#ffa502''
         else ''#00ff88'')"

subsection \<open>The values of the template\<close>

text \<open>The scores and thresholds themselves, which no action of the template names, are left out.\<close>

datatype val = VStr string | VBool bool | VInt int

definition overlay_data :: "int \<Rightarrow> analysis_info \<Rightarrow> (string \<times> val) list" where
  \<open>overlay_data zone info =
   [(''Timestamp'', VStr (clock_text zone (an_Timestamp info))),
    (''ClientIP'', VStr (an_ClientIP info)),
    (''Host'', VStr (an_Host info)),
    (''Path'', VStr (an_Path info)),
    (''Method'', VStr (an_Method info)),
    (''TargetURL'', VStr (an_TargetURL info)),
    (''RequestAllowed'', VBool (an_RequestAllowed info)),
    (''BlockReason'', VStr (an_BlockReason info)),
    (''StatusColor'', VStr (getStatusColor info)),
    (''StatusBadgeColor'', VStr (getStatusBadgeColor info)),
    (''StatusText'', VStr (getStatusText info)),
    (''WAFChecked'', VBool (an_WAFChecked info)),
    (''WAFBlocked'', VBool (an_WAFBlocked info)),
    (''WAFRuleName'', VStr (an_WAFRuleName info)),
    (''WAFBackground'', VStr (getWAFBackground info)),
    (''AIEnabled'', VBool (an_AIEnabled info)),
    (''AIChecked'', VBool (an_AIChecked info)),
    (''AILabel'', VStr (an_AILabel info)),
    (''AIScoreDisplay'', VStr (fixed 1 (fl (an_AIScore info * 100)) @ ''%'')),
    (''AIScorePercent'', VStr (fixed 0 (fl (an_AIScore info * 100)))),
    (''AIScoreColor'', VStr (getScoreColor (an_AIScore info))),
    (''AILabelColor'', VStr (getLabelColor (an_AILabel info) [''attack'', ''malicious'', ''anom''])),
    (''AIThresholdDisplay'', VStr (fixed 1 (fl (an_AIThreshold info * 100)) @ ''%'')),
    (''AIBlocked'', VBool (an_AIBlocked info)),
    (''AIError'', VStr (an_AIError info)),
    (''AIProcessingMs'', VInt (an_AIProcessingMs info)),
    (''AIBackground'', VStr (getModelBackground (an_AIBlocked info) (an_AIScore info) (an_AIThreshold info))),
    (''KodaWafEnabled'', VBool (an_KodaWafEnabled info)),
    (''KodaWafChecked'', VBool (an_KodaWafChecked info)),
    (''KodaWafLabel'', VStr (an_KodaWafLabel info)),
    (''KodaWafAttackType'', VStr (an_KodaWafAttackType info)),
    (''KodaWafScoreDisplay'', VStr (fixed 1 (fl (an_KodaWafScore info * 100)) @ ''%'')),
    (''KodaWafScorePercent'', VStr (fixed 0 (fl (an_KodaWafScore info * 100)))),
    (''KodaWafScoreColor'', VStr (getScoreColor (an_KodaWafScore info))),
    (''KodaWafLabelColor'', VStr (getLabelColor (an_KodaWafLabel info) [''sqli'', ''xss'', ''rfi'', ''lfi'', ''command'', ''attack''])),
    (''KodaWafBlocked'', VBool (an_KodaWafBlocked info)),
    (''KodaWafError'', VStr (an_KodaWafError info)),
    (''KodaWafProcessingMs'', VInt (an_KodaWafProcessingMs info)),
    (''KodaWafBackground'', VStr (getModelBackground (an_KodaWafBlocked info) (an_KodaWafScore info) (an_KodaWafThreshold info))),
    (''Koda2Enabled'', VBool (an_Koda2Enabled info)),
    (''Koda2Checked'', VBool (an_Koda2Checked info)),
    (''Koda2Label'', VStr (an_Koda2Label info)),
    (''Koda2ScoreDisplay'', VStr (fixed 1 (fl (an_Koda2Score info * 100)) @ ''%'')),
    (''Koda2ScorePercent'', VStr (fixed 0 (fl (an_Koda2Score info * 100)))),
    (''Koda2ScoreColor'', VStr (getScoreColor (an_Koda2Score info))),
    (''Koda2LabelColor'', VStr (getLabelColor (an_Koda2Label info) [''anom'', ''malicious'', ''attack'', ''threat''])),
    (''Koda2Blocked'', VBool (an_Koda2Blocked info)),
    (''Koda2Error'', VStr (an_Koda2Error info)),
    (''Koda2ProcessingMs'', VInt (an_Koda2ProcessingMs info)),
    (''Koda2Background'', VStr (getModelBackground (an_Koda2Blocked info) (an_Koda2Score info) (an_Koda2Threshold info)))]\<close>

subsection \<open>Templates\<close>

text \<open>
  A template is literal lines (with the tabs they begin with), remarks, values and conditions. A value
  stands in the text of an element or in the style of one; \<^verbatim>\<open>html/template\<close> finds out which, and
  escapes accordingly.
\<close>

datatype place = Html | CssVal

datatype test = Truth string | Ne string string

datatype tpl_node =
    Lines "(nat \<times> string) list"
  | Remark string
  | Act place string
  | If test "tpl_node list" "tpl_node list"

text \<open>\<^verbatim>\<open>htmlReplacementTable\<close>.\<close>

definition htmlEscaper :: "string \<Rightarrow> string" where
  "htmlEscaper s = concat (map (\<lambda>c.
     if c = CHR 0x22 then ''&#34;'' else if c = CHR ''&'' then ''&amp;'' else if c = CHR 0x27 then ''&#39;''
     else if c = CHR ''+'' then ''&#43;'' else if c = CHR ''<'' then ''&lt;'' else if c = CHR ''>'' then ''&gt;''
     else if c = CHR 0x00 then [CHR 0xEF, CHR 0xBF, CHR 0xBD] else [c]) s)"

text \<open>
  \<^verbatim>\<open>cssValueFilter\<close>, for values without a backslash: a value that holds one of these bytes, two
  dashes in a row, or one of two names once other bytes are left out, is replaced.
\<close>

definition filterFailsafe :: string where
  "filterFailsafe = ''ZgotmplZ''"

definition css_forbidden :: "char list" where
  "css_forbidden = [CHR 0x00, CHR 0x22, CHR 0x27, CHR ''('', CHR '')'', CHR ''/'', CHR '';'', CHR ''@'', CHR ''['',
     CHR 0x5C, CHR '']'', CHR 0x60, CHR ''{'', CHR ''}'', CHR ''<'', CHR ''>'']"

definition css_name_char :: "char \<Rightarrow> bool" where
  "css_name_char c = (let n = of_char c :: nat in
     (97 \<le> n \<and> n \<le> 122) \<or> (65 \<le> n \<and> n \<le> 90) \<or> is_digit c \<or> c = CHR ''_'')"

definition cssValueFilter :: "string \<Rightarrow> string" where
  "cssValueFilter s =
     (let name = ToLower (filter css_name_char s)
      in if list_ex (\<lambda>c. c \<in> set css_forbidden) s \<or> Contains s ''--'' then filterFailsafe
         else if Contains name ''expression'' \<or> Contains name ''mozbinding'' then filterFailsafe
         else s)"

fun val_text :: "val \<Rightarrow> string" where
  "val_text (VStr s) = s"
| "val_text (VBool b) = (if b then ''true'' else ''false'')"
| "val_text (VInt n) = Itoa n"

fun truth :: "val \<Rightarrow> bool" where
  "truth (VStr s) = (s \<noteq> [])"
| "truth (VBool b) = b"
| "truth (VInt n) = (n \<noteq> 0)"

fun holds :: "(string \<times> val) list \<Rightarrow> test \<Rightarrow> bool" where
  "holds d (Truth k) = (case map_of d k of None \<Rightarrow> False | Some v \<Rightarrow> truth v)"
| "holds d (Ne k s) = (map_of d k \<noteq> Some (VStr s))"

fun escaped :: "place \<Rightarrow> string \<Rightarrow> string" where
  "escaped Html s = htmlEscaper s"
| "escaped CssVal s = htmlEscaper (cssValueFilter s)"

definition act_text :: "(string \<times> val) list \<Rightarrow> place \<Rightarrow> string \<Rightarrow> string" where
  "act_text d ctx k = (case map_of d k of None \<Rightarrow> [] | Some v \<Rightarrow> escaped ctx (val_text v))"

definition tabbed :: "nat \<times> string \<Rightarrow> string" where
  "tabbed l = replicate (fst l) (CHR 0x09) @ snd l"

text \<open>Remarks do not reach the page.\<close>

primrec exec :: "(string \<times> val) list \<Rightarrow> tpl_node \<Rightarrow> string" where
  "exec d (Lines ls) = Join (map tabbed ls) [CHR 0x0A]"
| "exec d (Remark s) = []"
| "exec d (Act ctx k) = act_text d ctx k"
| "exec d (If c yes no) = (if holds d c then concat (map (exec d) yes) else concat (map (exec d) no))"

definition Execute :: "tpl_node list \<Rightarrow> (string \<times> val) list \<Rightarrow> string" where
  "Execute t d = concat (map (exec d) t)"

subsection \<open>The template of the overlay\<close>

definition head_part :: "tpl_node list" where
  \<open>head_part =
   [Lines [(0, []),
      (0, [])],
    Remark (''<!-- NetGoat Debug Overlay -->''),
    Lines [(0, []),
      (0, ''<div id="netgoat-debug-overlay" style="position: fixed; bottom: 20px; right: 20px; z-index: 999999; font-family: '' @ [CHR 0x27] @ ''Monaco'' @ [CHR 0x27] @ '', '' @ [CHR 0x27] @ ''Menlo'' @ [CHR 0x27] @ '', monospace; font-size: 12px;">''),
      (1, ''<div id="netgoat-debug-toggle" style="background: linear-gradient(135deg, #667eea 0%, #764ba2 100%); color: white; padding: 10px 15px; border-radius: 8px; cursor: pointer; box-shadow: 0 4px 15px rgba(0,0,0,0.3); display: flex; align-items: center; gap: 8px;">''),
      (2, ''<span style="font-size: 16px;">'' @ [CHR 0xF0, CHR 0x9F, CHR 0x90, CHR 0x90] @ ''</span>''),
      (2, ''<span style="font-weight: bold;">NetGoat AI</span>''),
      (2, ''<span id="netgoat-status-indicator" style="width: 8px; height: 8px; border-radius: 50%; background: '')],
    Act CssVal ''StatusColor'',
    Lines [(0, ''; animation: pulse 2s infinite;"></span>''),
      (1, ''</div>''),
      (0, []),
      (1, ''<div id="netgoat-debug-panel" style="display: none; position: absolute; bottom: 60px; right: 0; background: #1a1a2e; color: #eee; border-radius: 12px; box-shadow: 0 8px 30px rgba(0,0,0,0.5); width: 420px; max-height: 600px; overflow-y: auto; backdrop-filter: blur(10px);">''),
      (2, ''<div style="padding: 20px; border-bottom: 2px solid #16213e;">''),
      (3, ''<div style="display: flex; justify-content: space-between; align-items: center; margin-bottom: 12px;">''),
      (4, ''<h3 style="margin: 0; font-size: 16px; color: #fff; display: flex; align-items: center; gap: 8px;">''),
      (5, ''<span>'' @ [CHR 0xF0, CHR 0x9F, CHR 0x9B, CHR 0xA1, CHR 0xEF, CHR 0xB8, CHR 0x8F] @ ''</span> Request Analysis''),
      (4, ''</h3>''),
      (4, ''<span style="background: '')],
    Act CssVal ''StatusBadgeColor'',
    Lines [(0, ''; padding: 4px 10px; border-radius: 12px; font-size: 10px; font-weight: bold; color: white;">'')],
    Act Html ''StatusText'',
    Lines [(0, ''</span>''),
      (3, ''</div>''),
      (3, ''<div style="font-size: 10px; color: #888; display: flex; gap: 12px;">''),
      (4, ''<span>'' @ [CHR 0xE2, CHR 0x8F, CHR 0xB1, CHR 0xEF, CHR 0xB8, CHR 0x8F] @ '' '')],
    Act Html ''Timestamp'',
    Lines [(0, ''</span>''),
      (4, ''<span>'' @ [CHR 0xF0, CHR 0x9F, CHR 0x93, CHR 0x8D] @ '' '')],
    Act Html ''ClientIP'',
    Lines [(0, ''</span>''),
      (3, ''</div>''),
      (2, ''</div>''),
      (0, []),
      (2, [])],
    Remark (''<!-- Request Info -->''),
    Lines [(0, []),
      (2, ''<div style="padding: 16px; border-bottom: 1px solid #2a2a3e;">''),
      (3, ''<div style="font-weight: bold; color: #ffa500; margin-bottom: 8px; display: flex; align-items: center; gap: 6px;">''),
      (4, ''<span>'' @ [CHR 0xF0, CHR 0x9F, CHR 0x93, CHR 0xA1] @ ''</span> Request Details''),
      (3, ''</div>''),
      (3, ''<div style="font-size: 11px; line-height: 1.6;">''),
      (4, ''<div style="display: grid; grid-template-columns: 80px 1fr; gap: 6px;">''),
      (5, ''<span style="color: #888;">Method:</span>''),
      (5, ''<span style="color: #00ff88; font-weight: bold;">'')],
    Act Html ''Method'',
    Lines [(0, ''</span>''),
      (5, ''<span style="color: #888;">Host:</span>''),
      (5, ''<span style="color: #fff;">'')],
    Act Html ''Host'',
    Lines [(0, ''</span>''),
      (5, ''<span style="color: #888;">Path:</span>''),
      (5, ''<span style="color: #fff; word-break: break-all;">'')],
    Act Html ''Path'',
    Lines [(0, ''</span>''),
      (5, ''<span style="color: #888;">Target:</span>''),
      (5, ''<span style="color: #66d9ef; word-break: break-all;">'')],
    Act Html ''TargetURL'',
    Lines [(0, ''</span>''),
      (4, ''</div>''),
      (3, ''</div>''),
      (2, ''</div>''),
      (0, []),
      (2, [])]]\<close>

definition waf_part :: "tpl_node" where
  \<open>waf_part =
   If (Truth ''WAFChecked'')
      ([Lines [(0, []),
        (2, [])],
      Remark (''<!-- WAF Analysis -->''),
      Lines [(0, []),
        (2, ''<div style="padding: 16px; border-bottom: 1px solid #2a2a3e; background: '')],
      Act CssVal ''WAFBackground'',
      Lines [(0, '';">''),
        (3, ''<div style="font-weight: bold; color: #ff6b6b; margin-bottom: 8px; display: flex; align-items: center; gap: 6px;">''),
        (4, ''<span>'' @ [CHR 0xF0, CHR 0x9F, CHR 0x94, CHR 0xA5] @ ''</span> WAF Analysis''),
        (3, ''</div>''),
        (3, ''<div style="font-size: 11px; line-height: 1.6;">''),
        (4, [])],
      If (Truth ''WAFBlocked'')
       ([Lines [(0, []),
         (4, ''<div style="background: #ff4757; padding: 8px; border-radius: 6px; margin-bottom: 8px; border-left: 4px solid #ff0000;">''),
         (5, ''<div style="font-weight: bold; color: white;">'' @ [CHR 0xE2, CHR 0x9B, CHR 0x94] @ '' REQUEST BLOCKED</div>''),
         (5, ''<div style="color: #ffe0e0; margin-top: 4px;">Rule: '')],
       Act Html ''WAFRuleName'',
       Lines [(0, ''</div>''),
         (4, ''</div>''),
         (4, [])]])
       ([Lines [(0, []),
         (4, ''<div style="color: #00ff88; display: flex; align-items: center; gap: 6px;">''),
         (5, ''<span>'' @ [CHR 0xE2, CHR 0x9C, CHR 0x85] @ ''</span> No threats detected''),
         (4, ''</div>''),
         (4, [])]]),
      Lines [(0, []),
        (3, ''</div>''),
        (2, ''</div>''),
        (2, [])]])
      ([])\<close>

definition ai_part :: "tpl_node" where
  \<open>ai_part =
   If (Truth ''AIEnabled'')
      ([Lines [(0, []),
        (2, [])],
      Remark (''<!-- AI Analysis (GoatAI) -->''),
      Lines [(0, []),
        (2, ''<div style="padding: 16px; border-bottom: 1px solid #2a2a3e; background: '')],
      Act CssVal ''AIBackground'',
      Lines [(0, '';">''),
        (3, ''<div style="font-weight: bold; color: #a29bfe; margin-bottom: 8px; display: flex; align-items: center; gap: 6px;">''),
        (4, ''<span>'' @ [CHR 0xF0, CHR 0x9F, CHR 0xA4, CHR 0x96] @ ''</span> GoatAI Risk Analysis''),
        (3, ''</div>''),
        (3, [])],
      If (Truth ''AIChecked'')
       ([Lines [(0, []),
         (3, ''<div style="font-size: 11px; line-height: 1.6;">''),
         (4, ''<div style="display: grid; grid-template-columns: 100px 1fr; gap: 8px; margin-bottom: 12px;">''),
         (5, ''<span style="color: #888;">Classification:</span>''),
         (5, ''<span style="color: '')],
       Act CssVal ''AILabelColor'',
       Lines [(0, ''; font-weight: bold;">'')],
       Act Html ''AILabel'',
       Lines [(0, ''</span>''),
         (0, []),
         (5, ''<span style="color: #888;">Risk Score:</span>''),
         (5, ''<div style="display: flex; align-items: center; gap: 8px;">''),
         (6, ''<div style="flex: 1; background: #2a2a3e; border-radius: 10px; height: 16px; overflow: hidden; position: relative;">''),
         (7, ''<div style="background: '')],
       Act CssVal ''AIScoreColor'',
       Lines [(0, ''; width: '')],
       Act CssVal ''AIScorePercent'',
       Lines [(0, ''%; height: 100%; transition: width 0.3s ease;"></div>''),
         (7, ''<div style="position: absolute; top: 0; left: 0; right: 0; bottom: 0; display: flex; align-items: center; justify-content: center; font-size: 10px; font-weight: bold; color: white; text-shadow: 0 1px 2px rgba(0,0,0,0.5);">''),
         (8, [])],
       Act Html ''AIScoreDisplay'',
       Lines [(0, []),
         (7, ''</div>''),
         (6, ''</div>''),
         (5, ''</div>''),
         (0, []),
         (5, ''<span style="color: #888;">Threshold:</span>''),
         (5, ''<span style="color: #ffa500;">'')],
       Act Html ''AIThresholdDisplay'',
       Lines [(0, ''</span>''),
         (0, []),
         (5, ''<span style="color: #888;">Processing:</span>''),
         (5, ''<span style="color: #888;">'')],
       Act Html ''AIProcessingMs'',
       Lines [(0, ''ms</span>''),
         (4, ''</div>''),
         (0, []),
         (4, [])],
       If (Truth ''AIBlocked'')
        ([Lines [(0, []),
          (4, ''<div style="background: #ff4757; padding: 8px; border-radius: 6px; border-left: 4px solid #ff0000;">''),
          (5, ''<div style="font-weight: bold; color: white;">'' @ [CHR 0xE2, CHR 0x9B, CHR 0x94] @ '' BLOCKED BY GOATAI</div>''),
          (5, ''<div style="color: #ffe0e0; margin-top: 4px; font-size: 10px;">High-risk behavior detected</div>''),
          (4, ''</div>''),
          (4, [])]])
        ([Lines [(0, []),
          (4, ''<div style="background: #2ecc71; padding: 8px; border-radius: 6px; border-left: 4px solid #27ae60;">''),
          (5, ''<div style="font-weight: bold; color: white;">'' @ [CHR 0xE2, CHR 0x9C, CHR 0x85] @ '' VERIFIED SAFE</div>''),
          (5, ''<div style="color: #e8f8f0; margin-top: 4px; font-size: 10px;">Request within normal parameters</div>''),
          (4, ''</div>''),
          (4, [])]]),
       Lines [(0, []),
         (3, ''</div>''),
         (3, [])]])
       ([Lines [(0, []),
         (3, ''<div style="color: #888; font-size: 11px;">''),
         (4, [])],
       If (Ne ''AIError'' [])
        ([Lines [(0, []),
          (4, ''<div style="background: #f39c12; padding: 8px; border-radius: 6px; color: white;">''),
          (5, [CHR 0xE2, CHR 0x9A, CHR 0xA0, CHR 0xEF, CHR 0xB8, CHR 0x8F] @ '' Error: '')],
        Act Html ''AIError'',
        Lines [(0, []),
          (4, ''</div>''),
          (4, [])]])
        ([Lines [(0, []),
          (4, ''<div>'' @ [CHR 0xE2, CHR 0x84, CHR 0xB9, CHR 0xEF, CHR 0xB8, CHR 0x8F] @ '' No AI features provided (use X-GoatAI-Features header)</div>''),
          (4, [])]]),
       Lines [(0, []),
         (3, ''</div>''),
         (3, [])]]),
      Lines [(0, []),
        (2, ''</div>''),
        (2, [])]])
      ([])\<close>

definition koda_waf_part :: "tpl_node" where
  \<open>koda_waf_part =
   If (Truth ''KodaWafEnabled'')
      ([Lines [(0, []),
        (2, [])],
      Remark (''<!-- Koda-Waf Analysis -->''),
      Lines [(0, []),
        (2, ''<div style="padding: 16px; border-bottom: 1px solid #2a2a3e; background: '')],
      Act CssVal ''KodaWafBackground'',
      Lines [(0, '';">''),
        (3, ''<div style="font-weight: bold; color: #ff6b6b; margin-bottom: 8px; display: flex; align-items: center; gap: 6px;">''),
        (4, ''<span>'' @ [CHR 0xF0, CHR 0x9F, CHR 0x9B, CHR 0xA1, CHR 0xEF, CHR 0xB8, CHR 0x8F] @ ''</span> Koda-Waf Analysis''),
        (3, ''</div>''),
        (3, [])],
      If (Truth ''KodaWafChecked'')
       ([Lines [(0, []),
         (3, ''<div style="font-size: 11px; line-height: 1.6;">''),
         (4, ''<div style="display: grid; grid-template-columns: 100px 1fr; gap: 8px; margin-bottom: 12px;">''),
         (5, ''<span style="color: #888;">Classification:</span>''),
         (5, ''<span style="color: '')],
       Act CssVal ''KodaWafLabelColor'',
       Lines [(0, ''; font-weight: bold;">'')],
       Act Html ''KodaWafLabel'',
       Lines [(0, ''</span>''),
         (0, []),
         (5, [])],
       If (Ne ''KodaWafAttackType'' [])
        ([Lines [(0, []),
          (5, ''<span style="color: #888;">Attack Type:</span>''),
          (5, ''<span style="color: #ff6348; font-weight: bold;">'')],
        Act Html ''KodaWafAttackType'',
        Lines [(0, ''</span>''),
          (5, [])]])
        ([]),
       Lines [(0, []),
         (0, []),
         (5, ''<span style="color: #888;">Score:</span>''),
         (5, ''<div style="display: flex; align-items: center; gap: 8px;">''),
         (6, ''<div style="flex: 1; background: #2a2a3e; border-radius: 10px; height: 16px; overflow: hidden; position: relative;">''),
         (7, ''<div style="background: '')],
       Act CssVal ''KodaWafScoreColor'',
       Lines [(0, ''; width: '')],
       Act CssVal ''KodaWafScorePercent'',
       Lines [(0, ''%; height: 100%; transition: width 0.3s ease;"></div>''),
         (7, ''<div style="position: absolute; top: 0; left: 0; right: 0; bottom: 0; display: flex; align-items: center; justify-content: center; font-size: 10px; font-weight: bold; color: white; text-shadow: 0 1px 2px rgba(0,0,0,0.5);">''),
         (8, [])],
       Act Html ''KodaWafScoreDisplay'',
       Lines [(0, []),
         (7, ''</div>''),
         (6, ''</div>''),
         (5, ''</div>''),
         (0, []),
         (5, ''<span style="color: #888;">Processing:</span>''),
         (5, ''<span style="color: #888;">'')],
       Act Html ''KodaWafProcessingMs'',
       Lines [(0, ''ms</span>''),
         (4, ''</div>''),
         (0, []),
         (4, [])],
       If (Truth ''KodaWafBlocked'')
        ([Lines [(0, []),
          (4, ''<div style="background: #ff4757; padding: 8px; border-radius: 6px; border-left: 4px solid #ff0000;">''),
          (5, ''<div style="font-weight: bold; color: white;">'' @ [CHR 0xE2, CHR 0x9B, CHR 0x94] @ '' BLOCKED BY KODA-WAF</div>''),
          (5, ''<div style="color: #ffe0e0; margin-top: 4px; font-size: 10px;">Attack pattern detected: '')],
        Act Html ''KodaWafLabel'',
        Lines [(0, ''</div>''),
          (4, ''</div>''),
          (4, [])]])
        ([Lines [(0, []),
          (4, ''<div style="background: #2ecc71; padding: 8px; border-radius: 6px; border-left: 4px solid #27ae60;">''),
          (5, ''<div style="font-weight: bold; color: white;">'' @ [CHR 0xE2, CHR 0x9C, CHR 0x85] @ '' NO ATTACK DETECTED</div>''),
          (4, ''</div>''),
          (4, [])]]),
       Lines [(0, []),
         (3, ''</div>''),
         (3, [])]])
       ([Lines [(0, []),
         (3, ''<div style="color: #888; font-size: 11px;">''),
         (4, [])],
       If (Ne ''KodaWafError'' [])
        ([Lines [(0, []),
          (4, ''<div style="background: #f39c12; padding: 8px; border-radius: 6px; color: white;">''),
          (5, [CHR 0xE2, CHR 0x9A, CHR 0xA0, CHR 0xEF, CHR 0xB8, CHR 0x8F] @ '' Error: '')],
        Act Html ''KodaWafError'',
        Lines [(0, []),
          (4, ''</div>''),
          (4, [])]])
        ([Lines [(0, []),
          (4, ''<div>'' @ [CHR 0xE2, CHR 0x84, CHR 0xB9, CHR 0xEF, CHR 0xB8, CHR 0x8F] @ '' No Koda-Waf features (use X-KodaWaf-Features header)</div>''),
          (4, [])]]),
       Lines [(0, []),
         (3, ''</div>''),
         (3, [])]]),
      Lines [(0, []),
        (2, ''</div>''),
        (2, [])]])
      ([])\<close>

definition koda2_part :: "tpl_node" where
  \<open>koda2_part =
   If (Truth ''Koda2Enabled'')
      ([Lines [(0, []),
        (2, [])],
      Remark (''<!-- Koda-2 Analysis -->''),
      Lines [(0, []),
        (2, ''<div style="padding: 16px; border-bottom: 1px solid #2a2a3e; background: '')],
      Act CssVal ''Koda2Background'',
      Lines [(0, '';">''),
        (3, ''<div style="font-weight: bold; color: #fd79a8; margin-bottom: 8px; display: flex; align-items: center; gap: 6px;">''),
        (4, ''<span>'' @ [CHR 0xF0, CHR 0x9F, CHR 0xA7, CHR 0xA0] @ ''</span> Koda-2 Anomaly Analysis''),
        (3, ''</div>''),
        (3, [])],
      If (Truth ''Koda2Checked'')
       ([Lines [(0, []),
         (3, ''<div style="font-size: 11px; line-height: 1.6;">''),
         (4, ''<div style="display: grid; grid-template-columns: 100px 1fr; gap: 8px; margin-bottom: 12px;">''),
         (5, ''<span style="color: #888;">Classification:</span>''),
         (5, ''<span style="color: '')],
       Act CssVal ''Koda2LabelColor'',
       Lines [(0, ''; font-weight: bold;">'')],
       Act Html ''Koda2Label'',
       Lines [(0, ''</span>''),
         (0, []),
         (5, ''<span style="color: #888;">Anomaly Score:</span>''),
         (5, ''<div style="display: flex; align-items: center; gap: 8px;">''),
         (6, ''<div style="flex: 1; background: #2a2a3e; border-radius: 10px; height: 16px; overflow: hidden; position: relative;">''),
         (7, ''<div style="background: '')],
       Act CssVal ''Koda2ScoreColor'',
       Lines [(0, ''; width: '')],
       Act CssVal ''Koda2ScorePercent'',
       Lines [(0, ''%; height: 100%; transition: width 0.3s ease;"></div>''),
         (7, ''<div style="position: absolute; top: 0; left: 0; right: 0; bottom: 0; display: flex; align-items: center; justify-content: center; font-size: 10px; font-weight: bold; color: white; text-shadow: 0 1px 2px rgba(0,0,0,0.5);">''),
         (8, [])],
       Act Html ''Koda2ScoreDisplay'',
       Lines [(0, []),
         (7, ''</div>''),
         (6, ''</div>''),
         (5, ''</div>''),
         (0, []),
         (5, ''<span style="color: #888;">Processing:</span>''),
         (5, ''<span style="color: #888;">'')],
       Act Html ''Koda2ProcessingMs'',
       Lines [(0, ''ms</span>''),
         (4, ''</div>''),
         (0, []),
         (4, [])],
       If (Truth ''Koda2Blocked'')
        ([Lines [(0, []),
          (4, ''<div style="background: #ff4757; padding: 8px; border-radius: 6px; border-left: 4px solid #ff0000;">''),
          (5, ''<div style="font-weight: bold; color: white;">'' @ [CHR 0xE2, CHR 0x9B, CHR 0x94] @ '' BLOCKED BY KODA-2</div>''),
          (5, ''<div style="color: #ffe0e0; margin-top: 4px; font-size: 10px;">Multi-vector anomaly detected</div>''),
          (4, ''</div>''),
          (4, [])]])
        ([Lines [(0, []),
          (4, ''<div style="background: #2ecc71; padding: 8px; border-radius: 6px; border-left: 4px solid #27ae60;">''),
          (5, ''<div style="font-weight: bold; color: white;">'' @ [CHR 0xE2, CHR 0x9C, CHR 0x85] @ '' ANOMALY CLEAR</div>''),
          (4, ''</div>''),
          (4, [])]]),
       Lines [(0, []),
         (3, ''</div>''),
         (3, [])]])
       ([Lines [(0, []),
         (3, ''<div style="color: #888; font-size: 11px;">''),
         (4, [])],
       If (Ne ''Koda2Error'' [])
        ([Lines [(0, []),
          (4, ''<div style="background: #f39c12; padding: 8px; border-radius: 6px; color: white;">''),
          (5, [CHR 0xE2, CHR 0x9A, CHR 0xA0, CHR 0xEF, CHR 0xB8, CHR 0x8F] @ '' Error: '')],
        Act Html ''Koda2Error'',
        Lines [(0, []),
          (4, ''</div>''),
          (4, [])]])
        ([Lines [(0, []),
          (4, ''<div>'' @ [CHR 0xE2, CHR 0x84, CHR 0xB9, CHR 0xEF, CHR 0xB8, CHR 0x8F] @ '' No Koda-2 features (use X-Koda2-Features header)</div>''),
          (4, [])]]),
       Lines [(0, []),
         (3, ''</div>''),
         (3, [])]]),
      Lines [(0, []),
        (2, ''</div>''),
        (2, [])]])
      ([])\<close>

definition status_part :: "tpl_node list" where
  \<open>status_part =
   [Lines [(0, []),
      (0, []),
      (2, [])],
    Remark (''<!-- Overall Status -->''),
    Lines [(0, []),
      (2, ''<div style="padding: 16px;">''),
      (3, ''<div style="font-weight: bold; color: #74b9ff; margin-bottom: 8px; display: flex; align-items: center; gap: 6px;">''),
      (4, ''<span>'' @ [CHR 0xF0, CHR 0x9F, CHR 0x93, CHR 0x8A] @ ''</span> Final Decision''),
      (3, ''</div>''),
      (3, ''<div style="font-size: 11px; line-height: 1.6;">''),
      (4, [])]]\<close>

definition decision_part :: "tpl_node" where
  \<open>decision_part =
   If (Truth ''RequestAllowed'')
      ([Lines [(0, []),
        (4, ''<div style="background: linear-gradient(135deg, #00b894, #00cec9); padding: 12px; border-radius: 8px; color: white; text-align: center; font-weight: bold;">''),
        (5, [CHR 0xE2, CHR 0x9C, CHR 0x85] @ '' REQUEST ALLOWED''),
        (4, ''</div>''),
        (4, [])]])
      ([Lines [(0, []),
        (4, ''<div style="background: linear-gradient(135deg, #d63031, #ff7675); padding: 12px; border-radius: 8px; color: white; text-align: center; font-weight: bold;">''),
        (5, [CHR 0xE2, CHR 0x9B, CHR 0x94] @ '' REQUEST BLOCKED''),
        (5, ''<div style="font-size: 10px; margin-top: 4px; opacity: 0.9;">Reason: '')],
      Act Html ''BlockReason'',
      Lines [(0, ''</div>''),
        (4, ''</div>''),
        (4, [])]])\<close>

definition tail_part :: "tpl_node list" where
  \<open>tail_part =
   [Lines [(0, []),
      (3, ''</div>''),
      (2, ''</div>''),
      (1, ''</div>''),
      (0, ''</div>''),
      (0, []),
      (0, ''<style>''),
      (0, ''@keyframes pulse {''),
      (1, ''0%, 100% { opacity: 1; }''),
      (1, ''50% { opacity: 0.5; }''),
      (0, ''}''),
      (0, ''#netgoat-debug-panel::-webkit-scrollbar {''),
      (1, ''width: 8px;''),
      (0, ''}''),
      (0, ''#netgoat-debug-panel::-webkit-scrollbar-track {''),
      (1, ''background: #16213e;''),
      (0, ''}''),
      (0, ''#netgoat-debug-panel::-webkit-scrollbar-thumb {''),
      (1, ''background: #667eea;''),
      (1, ''border-radius: 4px;''),
      (0, ''}''),
      (0, ''#netgoat-debug-panel::-webkit-scrollbar-thumb:hover {''),
      (1, ''background: #764ba2;''),
      (0, ''}''),
      (0, ''</style>''),
      (0, []),
      (0, ''<script>''),
      (0, ''(function() {''),
      (1, ''const toggle = document.getElementById('' @ [CHR 0x27] @ ''netgoat-debug-toggle'' @ [CHR 0x27] @ '');''),
      (1, ''const panel = document.getElementById('' @ [CHR 0x27] @ ''netgoat-debug-panel'' @ [CHR 0x27] @ '');''),
      (0, []),
      (1, ''toggle.addEventListener('' @ [CHR 0x27] @ ''click'' @ [CHR 0x27] @ '', function() {''),
      (2, ''if (panel.style.display === '' @ [CHR 0x27] @ ''none'' @ [CHR 0x27] @ '') {''),
      (3, ''panel.style.display = '' @ [CHR 0x27] @ ''block'' @ [CHR 0x27] @ '';''),
      (3, ''panel.style.animation = '' @ [CHR 0x27] @ ''slideIn 0.3s ease-out'' @ [CHR 0x27] @ '';''),
      (2, ''} else {''),
      (3, ''panel.style.display = '' @ [CHR 0x27] @ ''none'' @ [CHR 0x27] @ '';''),
      (2, ''}''),
      (1, ''});''),
      (0, []),
      (1, [])],
    Remark (''// Add animation''),
    Lines [(0, []),
      (1, ''const style = document.createElement('' @ [CHR 0x27] @ ''style'' @ [CHR 0x27] @ '');''),
      (1, ''style.textContent = '' @ [CHR 0x27] @ ''@keyframes slideIn { from { opacity: 0; transform: translateY(20px); } to { opacity: 1; transform: translateY(0); } }'' @ [CHR 0x27] @ '';''),
      (1, ''document.head.appendChild(style);''),
      (0, ''})();''),
      (0, ''</script>''),
      (0, [])]]\<close>

definition overlay_template :: "tpl_node list" where
  \<open>overlay_template =
   head_part @ [waf_part] @ [Lines [(0, []),
      (0, []),
      (2, [])]] @ [ai_part] @ [Lines [(0, []),
      (0, []),
      (2, [])]] @ [koda_waf_part] @ [Lines [(0, []),
      (0, []),
      (2, [])]] @ [koda2_part] @ status_part @ [decision_part] @ tail_part\<close>

definition generateOverlayHTML :: "int \<Rightarrow> analysis_info \<Rightarrow> string" where
  "generateOverlayHTML zone info = Execute overlay_template (overlay_data zone info)"

subsection \<open>Texts of a request add no markup\<close>

lemma escaped_plain_html: "plain (htmlEscaper s)"
  by (auto simp: plain_def htmlEscaper_def markup_def split: if_splits)

lemma act_markup: "filter markup (act_text d place k) = []"
  by (cases place) (simp_all add: act_text_def filter_plain escaped_plain_html split: option.splits)

primrec tests :: "tpl_node \<Rightarrow> test list" where
  "tests (Lines ls) = []"
| "tests (Remark s) = []"
| "tests (Act place k) = []"
| "tests (If c yes no) = c # concat (map tests yes) @ concat (map tests no)"

definition agree :: "(string \<times> val) list \<Rightarrow> (string \<times> val) list \<Rightarrow> tpl_node \<Rightarrow> bool" where
  "agree d d' n = (\<forall>c \<in> set (tests n). holds d c = holds d' c)"

lemma agree_simps [simp]:
  "agree d d' (Lines ls)" "agree d d' (Remark s)" "agree d d' (Act place k)"
  "agree d d' (If c yes no) = (holds d c = holds d' c \<and> list_all (agree d d') yes \<and> list_all (agree d d') no)"
  by (auto simp: agree_def list_all_iff)

text \<open>The markup of a page is that of the template, for the branches the tests take.\<close>

lemma exec_markup: "agree d d' n \<Longrightarrow> filter markup (exec d n) = filter markup (exec d' n)"
proof (induction n)
  case (If c yes no)
  have parts: "filter markup (concat (map (exec d) ns)) = filter markup (concat (map (exec d') ns))"
    if "list_all (agree d d') ns" "set ns \<subseteq> set yes \<union> set no" for ns
    using that If.IH by (induction ns) auto
  show ?case using If.prems parts [of yes] parts [of no] by simp
qed (simp_all add: act_markup)

lemma Execute_markup:
  assumes "list_all (agree d d') t"
  shows "filter markup (Execute t d) = filter markup (Execute t d')"
  using assms by (induction t) (auto simp: Execute_def exec_markup)

text \<open>What decides the shape of the overlay: the flags, and which of the optional texts are there.\<close>

definition overlay_shape :: "analysis_info \<Rightarrow> bool list" where
  "overlay_shape info =
     [an_RequestAllowed info, an_WAFChecked info, an_WAFBlocked info,
      an_AIEnabled info, an_AIChecked info, an_AIBlocked info, an_AIError info \<noteq> [],
      an_KodaWafEnabled info, an_KodaWafChecked info, an_KodaWafBlocked info, an_KodaWafError info \<noteq> [],
      an_KodaWafAttackType info \<noteq> [],
      an_Koda2Enabled info, an_Koda2Checked info, an_Koda2Blocked info, an_Koda2Error info \<noteq> []]"

definition overlay_tests :: "test list" where
  "overlay_tests =
     [Truth ''RequestAllowed'', Truth ''WAFChecked'', Truth ''WAFBlocked'',
      Truth ''AIEnabled'', Truth ''AIChecked'', Truth ''AIBlocked'', Ne ''AIError'' [],
      Truth ''KodaWafEnabled'', Truth ''KodaWafChecked'', Truth ''KodaWafBlocked'', Ne ''KodaWafError'' [],
      Ne ''KodaWafAttackType'' [],
      Truth ''Koda2Enabled'', Truth ''Koda2Checked'', Truth ''Koda2Blocked'', Ne ''Koda2Error'' []]"

lemma shape_of_tests: "map (holds (overlay_data zone info)) overlay_tests = overlay_shape info"
  by (simp add: overlay_tests_def overlay_shape_def overlay_data_def)

lemma template_tests: "list_all (\<lambda>n. set (tests n) \<subseteq> set overlay_tests) overlay_template"
  by (simp add: overlay_template_def overlay_tests_def head_part_def waf_part_def ai_part_def koda_waf_part_def
      koda2_part_def status_part_def decision_part_def tail_part_def)

text \<open>
  C39: Nothing a request, a rule or a model says can add markup to the overlay: two requests with the same
  flags, and the same optional texts present, get overlays with the same angle brackets and quotes
  in the same order, whatever addresses, hosts, paths, labels, errors, scores and reasons they hold.
\<close>

theorem overlay_markup_fixed:
  assumes "overlay_shape info = overlay_shape info'"
  shows "filter markup (generateOverlayHTML zone info) = filter markup (generateOverlayHTML zone' info')"
proof -
  let ?d = "overlay_data zone info" and ?d' = "overlay_data zone' info'"
  have "map (holds ?d) overlay_tests = map (holds ?d') overlay_tests"
    using assms by (simp only: shape_of_tests)
  then have "holds ?d c = holds ?d' c" if "c \<in> set overlay_tests" for c
    using that by (simp only: map_eq_conv)
  then have "list_all (agree ?d ?d') overlay_template"
    using template_tests by (auto simp: list_all_iff agree_def)
  then show ?thesis unfolding generateOverlayHTML_def by (rule Execute_markup)
qed

definition quiet_info :: analysis_info where
  "quiet_info =
     \<lparr>an_RequestID = ''1'', an_Timestamp = 0, an_ClientIP = ''1.2.3.4'', an_Host = ''a.example'', an_Path = ''/'', an_Method = ''GET'',
      an_WAFChecked = True, an_WAFBlocked = False, an_WAFRuleName = [], an_WAFRuleMatched = [],
      an_AIEnabled = False, an_AIChecked = False, an_AILabel = [], an_AIScore = 0, an_AIThreshold = fl (7 / 10),
      an_AIBlocked = False, an_AIError = [], an_AIProcessingMs = 0,
      an_KodaWafEnabled = False, an_KodaWafChecked = False, an_KodaWafLabel = [], an_KodaWafScore = 0,
      an_KodaWafThreshold = fl (7 / 10), an_KodaWafBlocked = False, an_KodaWafAttackType = [], an_KodaWafError = [],
      an_KodaWafProcessingMs = 0,
      an_Koda2Enabled = False, an_Koda2Checked = False, an_Koda2Label = [], an_Koda2Score = 0,
      an_Koda2Threshold = fl (7 / 10), an_Koda2Blocked = False, an_Koda2Error = [], an_Koda2ProcessingMs = 0,
      an_TargetURL = ''http://10.0.0.1'', an_CacheHit = False, an_RequestAllowed = True, an_BlockReason = []\<rparr>"

theorem overlay_markup_fixed_witness:
  "filter markup (generateOverlayHTML 0 (quiet_info\<lparr>an_Path := ''/<script>alert(1)</script>''\<rparr>)) =
     filter markup (generateOverlayHTML 3600 quiet_info)"
  by (rule overlay_markup_fixed) (simp add: overlay_shape_def quiet_info_def)

subsection \<open>Which colours reach the page\<close>

lemma score_colour_filtered: "cssValueFilter (getScoreColor score) = filterFailsafe"
proof -
  have "cssValueFilter ''linear-gradient(90deg, #ff4757, #ff6348)'' = filterFailsafe"
    "cssValueFilter ''linear-gradient(90deg, #ffa502, #ff6348)'' = filterFailsafe"
    "cssValueFilter ''linear-gradient(90deg, #feca57, #ffa502)'' = filterFailsafe"
    "cssValueFilter ''linear-gradient(90deg, #00d2d3, #1dd1a1)'' = filterFailsafe"
    by code_simp+
  then show ?thesis by (simp add: getScoreColor_def)
qed

lemma background_filtered: "cssValueFilter (getModelBackground blocked score threshold) = filterFailsafe"
proof -
  have "cssValueFilter ''rgba(255, 71, 87, 0.1)'' = filterFailsafe"
    "cssValueFilter ''rgba(255, 165, 0, 0.1)'' = filterFailsafe"
    "cssValueFilter ''rgba(46, 204, 113, 0.05)'' = filterFailsafe"
    by code_simp+
  then show ?thesis by (simp add: getModelBackground_def)
qed

lemma waf_background_filtered:
  "cssValueFilter (getWAFBackground info) = (if an_WAFBlocked info then filterFailsafe else ''transparent'')"
proof -
  have "cssValueFilter ''rgba(255, 71, 87, 0.1)'' = filterFailsafe" "cssValueFilter ''transparent'' = ''transparent''"
    by code_simp+
  then show ?thesis by (simp add: getWAFBackground_def)
qed

lemma hex_colours_pass:
  "cssValueFilter (getStatusColor info) = getStatusColor info"
  "cssValueFilter (getStatusBadgeColor info) = getStatusBadgeColor info"
  "cssValueFilter (getLabelColor label kws) = getLabelColor label kws"
proof -
  have "cssValueFilter ''#ff4757'' = ''#ff4757''" "cssValueFilter ''#ffa500'' = ''#ffa500''"
    "cssValueFilter ''#00ff88'' = ''#00ff88''" "cssValueFilter ''#d63031'' = ''#d63031''"
    "cssValueFilter ''#00b894'' = ''#00b894''" "cssValueFilter ''#ffa502'' = ''#ffa502''"
    by code_simp+
  then show "cssValueFilter (getStatusColor info) = getStatusColor info"
    "cssValueFilter (getStatusBadgeColor info) = getStatusBadgeColor info"
    "cssValueFilter (getLabelColor label kws) = getLabelColor label kws"
    by (simp_all add: getStatusColor_def getStatusBadgeColor_def getLabelColor_def Let_def)
qed

definition style_of :: "int \<Rightarrow> analysis_info \<Rightarrow> string \<Rightarrow> string" where
  "style_of zone info k = act_text (overlay_data zone info) CssVal k"

lemma failsafe_escaped: "htmlEscaper filterFailsafe = filterFailsafe"
  by code_simp

text \<open>
  The colours of the scores and of the models never reach the page: the three score bars and the
  three model backgrounds come out as the filter's placeholder for every request, and the firewall's
  background does whenever it blocked. The status colours and the label colours do reach it.
\<close>

theorem overlay_colours_lost:
  "style_of zone info ''AIScoreColor'' = ''ZgotmplZ'' \<and> style_of zone info ''KodaWafScoreColor'' = ''ZgotmplZ'' \<and>
   style_of zone info ''Koda2ScoreColor'' = ''ZgotmplZ'' \<and> style_of zone info ''AIBackground'' = ''ZgotmplZ'' \<and>
   style_of zone info ''KodaWafBackground'' = ''ZgotmplZ'' \<and> style_of zone info ''Koda2Background'' = ''ZgotmplZ'' \<and>
   style_of zone info ''WAFBackground'' = (if an_WAFBlocked info then ''ZgotmplZ'' else ''transparent'') \<and>
   style_of zone info ''StatusColor'' = getStatusColor info \<and>
   style_of zone info ''StatusBadgeColor'' = getStatusBadgeColor info"
proof -
  have "htmlEscaper (getStatusColor info) = getStatusColor info" "htmlEscaper (getStatusBadgeColor info) = getStatusBadgeColor info"
    "htmlEscaper ''transparent'' = ''transparent''"
    by (simp_all add: getStatusColor_def getStatusBadgeColor_def htmlEscaper_def)
  moreover have "filterFailsafe = ''ZgotmplZ''" by (simp add: filterFailsafe_def)
  ultimately show ?thesis
    by (simp add: style_of_def act_text_def overlay_data_def score_colour_filtered background_filtered
        waf_background_filtered hex_colours_pass failsafe_escaped)
qed

end
