(* ===== verification/OverlayAnalysis.thy ===== *)
theory OverlayAnalysis
  imports Gateway DebugOverlay
begin

text \<open>
  What the proxy handler (\<^verbatim>\<open>main.go\<close>) notes about a request for the debug overlay while it goes through the
  checks of \<^verbatim>\<open>Gateway\<close>. The overlay is put into pages of requests that passed them all, so the texts it
  has for blocked requests never reach a page.
\<close>

subsection \<open>What is noted\<close>

text \<open>The record a request starts with; \<open>now\<close> is the second reading of the clock.\<close>

definition new_analysis :: "setting \<Rightarrow> gateway \<Rightarrow> gotime \<Rightarrow> gotime \<Rightarrow> request \<Rightarrow> analysis_info" where
  "new_analysis st gw start now r =
     (let cfg = st_config st; threshold = (\<lambda>m. ifZero (mc_Threshold m) (fl (7 / 10)))
      in \<lparr>an_RequestID = Itoa now, an_Timestamp = start, an_ClientIP = getClientIP st r, an_Host = req_Host r,
          an_Path = req_Path r, an_Method = req_Method r,
          an_WAFChecked = False, an_WAFBlocked = False, an_WAFRuleName = [], an_WAFRuleMatched = [],
          an_AIEnabled = (gw_anomaly gw \<noteq> None), an_AIChecked = False, an_AILabel = [], an_AIScore = 0,
          an_AIThreshold = threshold (cf_Anomaly cfg), an_AIBlocked = False, an_AIError = [], an_AIProcessingMs = 0,
          an_KodaWafEnabled = (gw_kodaWaf gw \<noteq> None), an_KodaWafChecked = False, an_KodaWafLabel = [], an_KodaWafScore = 0,
          an_KodaWafThreshold = threshold (cf_KodaWaf cfg), an_KodaWafBlocked = False, an_KodaWafAttackType = [],
          an_KodaWafError = [], an_KodaWafProcessingMs = 0,
          an_Koda2Enabled = (gw_koda2 gw \<noteq> None), an_Koda2Checked = False, an_Koda2Label = [], an_Koda2Score = 0,
          an_Koda2Threshold = threshold (cf_Koda2 cfg), an_Koda2Blocked = False, an_Koda2Error = [], an_Koda2ProcessingMs = 0,
          an_TargetURL = [], an_CacheHit = False, an_RequestAllowed = True, an_BlockReason = []\<rparr>)"

type_synonym noting = "gateway \<Rightarrow> analysis_info \<Rightarrow> analysis_info"

definition blocked_for :: "string \<Rightarrow> analysis_info \<Rightarrow> analysis_info" where
  "blocked_for reason info = info\<lparr>an_RequestAllowed := False, an_BlockReason := reason\<rparr>"

definition note_auth :: "setting \<Rightarrow> occasion \<Rightarrow> request \<Rightarrow> noting" where
  "note_auth st oc r gw info =
     (if \<not> cf_AuthEnabled (st_config st) then info
      else (let res = Check (st_compare st) (oc_now oc) r (gw_db gw)
            in if \<not> ar_Authenticated res then info
               else (case IsVerified (oc_now oc) (zeroTrustChallengeBinding (getClientIP st r) (Some res)) (gw_challenges gw) of
                       None \<Rightarrow> info
                     | Some (verified, s) \<Rightarrow>
                         if RequireZeroTrustChallenge (Some res) (IsZeroTrustEnabled (gw_db gw)) verified
                         then blocked_for ''zero-trust verification required'' info else info)))"

definition note_rate :: "setting \<Rightarrow> occasion \<Rightarrow> request \<Rightarrow> noting" where
  "note_rate st oc r gw info =
     (case gw_limiter gw of
        None \<Rightarrow> info
      | Some l \<Rightarrow> if fst (allowAt (oc_now oc) (rateLimitKey (st_trusted st) r (cf_RateKey (st_config st))) l) then info
                  else blocked_for ''rate limit exceeded'' info)"

definition note_queue :: "setting \<Rightarrow> occasion \<Rightarrow> noting" where
  "note_queue st oc gw info =
     (if cf_QueueEnabled (st_config st) \<and> oc_queue oc \<noteq> None then blocked_for ''request queue full'' info else info)"

text \<open>\<^verbatim>\<open>"...: %s (%.1f%%)"\<close> of a label and a score.\<close>

definition verdict_text :: "string \<Rightarrow> string \<Rightarrow> rat \<Rightarrow> string" where
  "verdict_text what label score = what @ '': '' @ label @ '' ('' @ fixed 1 (fl (score * 100)) @ ''%)''"

text \<open>The texts of the errors of a detector, and the milliseconds it took, come from outside.\<close>

definition note_kodaWaf :: "(predict_error \<Rightarrow> string) \<Rightarrow> int \<Rightarrow> setting \<Rightarrow> occasion \<Rightarrow> request \<Rightarrow> noting" where
  "note_kodaWaf say took st oc r gw info =
     (case gw_kodaWaf gw of
        None \<Rightarrow> info
      | Some d \<Rightarrow>
          (let csv = features r (ifEmpty (mc_FeatureHeader (cf_KodaWaf (st_config st))) ''X-KodaWaf-Features'') ''kodawaf''
           in if csv = [] then info
              else (let (res, d') = Predict (st_process st) (st_decode st) (oc_kodaWaf oc) csv d;
                        info1 = info\<lparr>an_KodaWafChecked := True, an_KodaWafProcessingMs := took\<rparr>
                    in case res of
                         Inl e \<Rightarrow> info1\<lparr>an_KodaWafError := say e\<rparr>
                       | Inr pred \<Rightarrow>
                           (let info2 = info1\<lparr>an_KodaWafLabel := pd_Label pred, an_KodaWafScore := pd_Score pred,
                                              an_KodaWafAttackType := pd_AttackType pred\<rparr>
                            in if IsBlocked d' (Some pred)
                               then blocked_for (verdict_text ''Koda-Waf blocked'' (pd_Label pred) (pd_Score pred))
                                      (info2\<lparr>an_KodaWafBlocked := True\<rparr>)
                               else info2))))"

definition note_anomaly :: "(predict_error \<Rightarrow> string) \<Rightarrow> int \<Rightarrow> setting \<Rightarrow> occasion \<Rightarrow> request \<Rightarrow> noting" where
  "note_anomaly say took st oc r gw info =
     (case gw_anomaly gw of
        None \<Rightarrow> info
      | Some d \<Rightarrow>
          (let csv = features r (ifEmpty (mc_FeatureHeader (cf_Anomaly (st_config st))) ''X-GoatAI-Features'') ''goatai''
           in if csv = [] then info
              else (let (res, d') = PredictCSV (st_process st) (st_decode st) (oc_anomaly oc) csv d;
                        info1 = info\<lparr>an_AIChecked := True, an_AIProcessingMs := took\<rparr>
                    in case res of
                         Inl e \<Rightarrow> info1\<lparr>an_AIError := say e\<rparr>
                       | Inr pred \<Rightarrow>
                           (let info2 = info1\<lparr>an_AILabel := pd_Label pred, an_AIScore := pd_Score pred\<rparr>
                            in if LocalDetector_IsAnomalous d' (pd_Label pred) (pd_Score pred)
                               then blocked_for (verdict_text ''AI detected high-risk'' (pd_Label pred) (pd_Score pred))
                                      (info2\<lparr>an_AIBlocked := True\<rparr>)
                               else info2))))"

definition note_koda2 :: "(predict_error \<Rightarrow> string) \<Rightarrow> int \<Rightarrow> setting \<Rightarrow> occasion \<Rightarrow> request \<Rightarrow> noting" where
  "note_koda2 say took st oc r gw info =
     (case gw_koda2 gw of
        None \<Rightarrow> info
      | Some d \<Rightarrow>
          (let csv = features r (ifEmpty (mc_FeatureHeader (cf_Koda2 (st_config st))) ''X-Koda2-Features'') ''koda2''
           in if csv = [] then info
              else (let (res, d') = Predict (st_process st) (st_decode st) (oc_koda2 oc) csv d;
                        info1 = info\<lparr>an_Koda2Checked := True, an_Koda2ProcessingMs := took\<rparr>
                    in case res of
                         Inl e \<Rightarrow> info1\<lparr>an_Koda2Error := say e\<rparr>
                       | Inr pred \<Rightarrow>
                           (let info2 = info1\<lparr>an_Koda2Label := pd_Label pred, an_Koda2Score := pd_Score pred\<rparr>
                            in if IsAnomalous d' (Some pred)
                               then blocked_for (verdict_text ''Koda-2 detected anomaly'' (pd_Label pred) (pd_Score pred))
                                      (info2\<lparr>an_Koda2Blocked := True\<rparr>)
                               else info2))))"

definition note_waf :: "request \<Rightarrow> noting" where
  "note_waf r gw info =
     (let info1 = info\<lparr>an_WAFChecked := True\<rparr>; (block, ruleName) = Waf_Check (gw_rules gw) r
      in if block
         then blocked_for (''WAF rule triggered: '' @ ruleName) (info1\<lparr>an_WAFBlocked := True, an_WAFRuleName := ruleName\<rparr>)
         else info1)"

text \<open>The checks with what each notes; the first that answers ends the handler.\<close>

fun analyse :: "(check \<times> noting) list \<Rightarrow> gateway \<Rightarrow> analysis_info \<Rightarrow> analysis_info" where
  "analyse [] gw info = info"
| "analyse ((c, n) # cs) gw info =
     (case c gw of
        Some (None, gw1) \<Rightarrow> analyse cs gw1 (n gw info)
      | _ \<Rightarrow> n gw info)"

definition all_notes :: "(predict_error \<Rightarrow> string) \<Rightarrow> int \<Rightarrow> setting \<Rightarrow> occasion \<Rightarrow> request \<Rightarrow> noting list" where
  "all_notes say took st oc r =
     [note_auth st oc r, \<lambda>gw info. info, note_rate st oc r, note_queue st oc, note_kodaWaf say took st oc r,
      note_anomaly say took st oc r, note_koda2 say took st oc r, note_waf r]"

definition analysis_of :: "(predict_error \<Rightarrow> string) \<Rightarrow> int \<Rightarrow> setting \<Rightarrow> occasion \<Rightarrow> request \<Rightarrow> gotime \<Rightarrow> gateway \<Rightarrow> analysis_info" where
  "analysis_of say took st oc r now gw =
     analyse (zip (checks st oc r) (all_notes say took st oc r)) gw (new_analysis st gw (oc_now oc) now r)"

subsection \<open>A check that lets a request go on notes no block\<close>

definition unblocked :: "analysis_info \<Rightarrow> bool" where
  "unblocked info = (an_RequestAllowed info \<and> \<not> an_WAFBlocked info \<and> \<not> an_KodaWafBlocked info \<and> \<not> an_AIBlocked info \<and>
     \<not> an_Koda2Blocked info \<and> an_BlockReason info = [])"

definition notes_pass :: "check \<Rightarrow> noting \<Rightarrow> bool" where
  "notes_pass c n = (\<forall>gw gw1 info. c gw = Some (None, gw1) \<longrightarrow> unblocked info \<longrightarrow> unblocked (n gw info))"

lemma notes_passI:
  "(\<And>gw gw1 info. c gw = Some (None, gw1) \<Longrightarrow> unblocked info \<Longrightarrow> unblocked (n gw info)) \<Longrightarrow> notes_pass c n"
  by (simp add: notes_pass_def)

lemma refuse_not_None [simp]: "refuse st oc r status msg gw \<noteq> Some (None, gw1)"
  using refuse_kept by blast

lemma note_auth_pass: "notes_pass (check_auth st oc r) (note_auth st oc r)"
proof (rule notes_passI)
  fix gw gw1 info
  assume pass: "check_auth st oc r gw = Some (None, gw1)" and info: "unblocked info"
  let ?res = "Check (st_compare st) (oc_now oc) r (gw_db gw)"
  let ?v = "IsVerified (oc_now oc) (zeroTrustChallengeBinding (getClientIP st r) (Some ?res)) (gw_challenges gw)"
  have "\<not> RequireZeroTrustChallenge (Some ?res) (IsZeroTrustEnabled (gw_db gw)) verified"
    if "cf_AuthEnabled (st_config st)" "ar_Authenticated ?res" "?v = Some (verified, s)" for verified s
    using pass that by (auto simp: check_auth_def Let_def split: if_splits)
  with info show "unblocked (note_auth st oc r gw info)"
    by (auto simp: note_auth_def Let_def split: option.splits)
qed

lemma note_rate_pass: "notes_pass (check_rate st oc r) (note_rate st oc r)"
  by (rule notes_passI) (auto simp: note_rate_def dest: check_rate_spec split: option.splits)

lemma note_queue_pass: "notes_pass (check_queue st oc r) (note_queue st oc)"
  by (rule notes_passI) (auto simp: note_queue_def dest: check_queue_spec)

lemma note_waf_pass: "notes_pass (check_waf st oc r) (note_waf r)"
  by (rule notes_passI) (auto simp: note_waf_def unblocked_def Let_def dest: check_waf_spec split: prod.splits)

lemma note_kodaWaf_pass: "notes_pass (check_kodaWaf st oc r) (note_kodaWaf say took st oc r)"
proof (rule notes_passI)
  fix gw gw1 info
  assume pass: "check_kodaWaf st oc r gw = Some (None, gw1)" and info: "unblocked info"
  show "unblocked (note_kodaWaf say took st oc r gw info)"
  proof (cases "gw_kodaWaf gw")
    case (Some d)
    let ?csv = "features r (ifEmpty (mc_FeatureHeader (cf_KodaWaf (st_config st))) ''X-KodaWaf-Features'') ''kodawaf''"
    obtain res d' where p: "Predict (st_process st) (st_decode st) (oc_kodaWaf oc) ?csv d = (res, d')" by fastforce
    show ?thesis
    proof (cases "?csv = []")
      case False
      have "\<not> IsBlocked d' (Some pred)" if "res = Inr pred" for pred
        using pass Some p that False by (auto simp: check_kodaWaf_def Let_def split: if_splits)
      with info Some p show ?thesis by (auto simp: note_kodaWaf_def unblocked_def Let_def split: sum.splits)
    qed (simp add: note_kodaWaf_def Some info)
  qed (simp add: note_kodaWaf_def info)
qed

lemma note_anomaly_pass: "notes_pass (check_anomaly st oc r) (note_anomaly say took st oc r)"
proof (rule notes_passI)
  fix gw gw1 info
  assume pass: "check_anomaly st oc r gw = Some (None, gw1)" and info: "unblocked info"
  show "unblocked (note_anomaly say took st oc r gw info)"
  proof (cases "gw_anomaly gw")
    case (Some d)
    let ?csv = "features r (ifEmpty (mc_FeatureHeader (cf_Anomaly (st_config st))) ''X-GoatAI-Features'') ''goatai''"
    obtain res d' where p: "PredictCSV (st_process st) (st_decode st) (oc_anomaly oc) ?csv d = (res, d')" by fastforce
    show ?thesis
    proof (cases "?csv = []")
      case False
      have "\<not> LocalDetector_IsAnomalous d' (pd_Label pred) (pd_Score pred)" if "res = Inr pred" for pred
        using pass Some p that False by (auto simp: check_anomaly_def Let_def split: if_splits)
      with info Some p show ?thesis by (auto simp: note_anomaly_def unblocked_def Let_def split: sum.splits)
    qed (simp add: note_anomaly_def Some info)
  qed (simp add: note_anomaly_def info)
qed

lemma note_koda2_pass: "notes_pass (check_koda2 st oc r) (note_koda2 say took st oc r)"
proof (rule notes_passI)
  fix gw gw1 info
  assume pass: "check_koda2 st oc r gw = Some (None, gw1)" and info: "unblocked info"
  show "unblocked (note_koda2 say took st oc r gw info)"
  proof (cases "gw_koda2 gw")
    case (Some d)
    let ?csv = "features r (ifEmpty (mc_FeatureHeader (cf_Koda2 (st_config st))) ''X-Koda2-Features'') ''koda2''"
    obtain res d' where p: "Predict (st_process st) (st_decode st) (oc_koda2 oc) ?csv d = (res, d')" by fastforce
    show ?thesis
    proof (cases "?csv = []")
      case False
      have "\<not> IsAnomalous d' (Some pred)" if "res = Inr pred" for pred
        using pass Some p that False by (auto simp: check_koda2_def Let_def split: if_splits)
      with info Some p show ?thesis by (auto simp: note_koda2_def unblocked_def Let_def split: sum.splits)
    qed (simp add: note_koda2_def Some info)
  qed (simp add: note_koda2_def info)
qed

lemma note_nothing_pass: "notes_pass c (\<lambda>gw info. info)"
  by (rule notes_passI) simp

lemma analyse_unblocked:
  assumes "run_checks (map fst cs) gw = Some (None, gw')" "\<forall>(c, n) \<in> set cs. notes_pass c n" "unblocked info"
  shows "unblocked (analyse cs gw info)"
  using assms
proof (induction cs arbitrary: gw info)
  case (Cons p cs)
  obtain c n where p: "p = (c, n)" by (cases p)
  obtain gw1 where c: "c gw = Some (None, gw1)"
    using Cons.prems(1) p by (auto split: option.splits)
  have "unblocked (n gw info)" using Cons.prems(2,3) c p by (auto simp: notes_pass_def)
  with Cons c p show ?case by simp
qed simp

lemma analysis_unblocked:
  assumes "run_checks (checks st oc r) gw = Some (None, gw')"
  shows "unblocked (analysis_of say took st oc r now gw)"
  unfolding analysis_of_def
proof (rule analyse_unblocked)
  show "run_checks (map fst (zip (checks st oc r) (all_notes say took st oc r))) gw = Some (None, gw')"
    using assms by (simp add: checks_def all_notes_def)
  show "\<forall>(c, n) \<in> set (zip (checks st oc r) (all_notes say took st oc r)). notes_pass c n"
    by (simp add: checks_def all_notes_def note_auth_pass note_nothing_pass note_rate_pass note_queue_pass note_kodaWaf_pass
        note_anomaly_pass note_koda2_pass note_waf_pass)
  show "unblocked (new_analysis st gw (oc_now oc) now r)"
    by (simp add: new_analysis_def unblocked_def Let_def)
qed

text \<open>Once the route is known the target is noted, and a hit of the cache.\<close>

definition routed_analysis :: "string \<Rightarrow> bool \<Rightarrow> analysis_info \<Rightarrow> analysis_info" where
  "routed_analysis target hit info =
     (let info1 = info\<lparr>an_TargetURL := target\<rparr> in if hit then info1\<lparr>an_CacheHit := True\<rparr> else info1)"

text \<open>The gateway as the checks see it: the request is counted.\<close>

definition counted :: "gateway \<Rightarrow> gateway" where
  "counted gw = gw\<lparr>gw_metrics := map_option RecordRequest (gw_metrics gw)\<rparr>"

lemma served_passes:
  assumes "handle_request st oc ou r gw = Some (outcome, gw')" "\<forall>resp. outcome \<noteq> Answered resp"
  obtains gw1 where "run_checks (checks st oc r) (counted gw) = Some (None, gw1)"
proof -
  obtain gw2 where "serve_request st oc ou r (counted gw) = Some (outcome, gw2)"
    using assms(1) by (auto simp: handle_request_def counted_def Let_def)
  with assms(2) that show thesis
    by (auto simp: serve_request_def split: option.splits)
qed

text \<open>
  C40: The overlay in a page never speaks of a block: when a request is answered from the cache or by a target,
  no check has noted one, the badge says ALLOWED and none of the texts for blocked requests is
  chosen, whatever the firewall, the detectors and the limiters were given.
\<close>

theorem overlay_says_allowed:
  fixes say :: "predict_error \<Rightarrow> string" and took :: int and now :: gotime and target :: string and hit :: bool
  assumes "handle_request st oc ou r gw = Some (outcome, gw')" "\<forall>resp. outcome \<noteq> Answered resp"
  defines "info \<equiv> routed_analysis target hit (analysis_of say took st oc r now (counted gw))"
  shows "an_RequestAllowed info \<and> \<not> an_WAFBlocked info \<and> \<not> an_KodaWafBlocked info \<and> \<not> an_AIBlocked info \<and>
    \<not> an_Koda2Blocked info \<and> an_BlockReason info = [] \<and> getStatusText info = ''ALLOWED'' \<and> getStatusBadgeColor info = ''#00b894''"
proof -
  obtain gw1 where "run_checks (checks st oc r) (counted gw) = Some (None, gw1)" by (rule served_passes [OF assms(1,2)])
  from analysis_unblocked [OF this] show ?thesis
    by (simp add: info_def routed_analysis_def unblocked_def getStatusText_def getStatusBadgeColor_def Let_def)
qed

theorem overlay_says_allowed_witness:
  "getStatusText (routed_analysis ''http://a'' False (analysis_of (\<lambda>_. ''error'') 0 (demo_setting empty_config) demo_occasion
     (demo_request ''/x'') 1 (counted (demo_gateway demo_routes)))) = ''ALLOWED''"
proof -
  obtain m c gw' where run: "handle_request (demo_setting empty_config) demo_occasion demo_outside (demo_request ''/x'') (demo_gateway demo_routes)
      = Some (Proxied (prepareForwardingHeaders (demo_request ''/x'') ''10.0.0.1'') m c, gw')" by (rule demo_run)
  from overlay_says_allowed [OF run] show ?thesis by blast
qed

end
