(* ===== verification/Prometheus.thy ===== *)
theory Prometheus
  imports ControlPlane Metrics GoFormat
begin

text \<open>
  The text of the metrics endpoint (\<^verbatim>\<open>ServePrometheus\<close> and \<^verbatim>\<open>sortedKeys\<close> in
  \<^verbatim>\<open>internal/metrics/metrics.go\<close>): one line for each counter, status and reason, whatever the reasons
  are called.
\<close>

definition sortedKeys :: "(string, u64) gomap \<Rightarrow> string list" where
  "sortedKeys m = sort_key (map (of_char :: char \<Rightarrow> nat)) (map fst m)"

definition counter_of :: "(string, u64) gomap \<Rightarrow> string \<Rightarrow> u64" where
  "counter_of m k = (case map_of m k of None \<Rightarrow> 0 | Some n \<Rightarrow> n)"

definition dec :: "u64 \<Rightarrow> string" where
  "dec n = Itoa (uint n)"

text \<open>The lines that are printed, each with its newline.\<close>

definition prometheus_counters :: "metrics_snapshot \<Rightarrow> string list" where
  "prometheus_counters snap =
     [''netgoat_requests_total '' @ dec (ms_Requests snap),
      ''netgoat_responses_total '' @ dec (ms_Responses snap),
      ''netgoat_blocked_total '' @ dec (ms_Blocked snap),
      ''netgoat_cache_hits_total '' @ dec (ms_CacheHits snap),
      ''netgoat_proxy_errors_total '' @ dec (ms_ProxyErrors snap),
      ''netgoat_bytes_written_total '' @ dec (ms_BytesWritten snap),
      ''netgoat_average_latency_ms '' @ fixed 3 (ms_AverageLatencyMs snap)]"

definition prometheus_status :: "metrics_snapshot \<Rightarrow> string \<Rightarrow> string" where
  "prometheus_status snap code =
     ''netgoat_responses_by_status_total{code='' @ Quote code @ ''} '' @ dec (counter_of (ms_StatusCodes snap) code)"

definition prometheus_reason :: "metrics_snapshot \<Rightarrow> string \<Rightarrow> string" where
  "prometheus_reason snap reason =
     ''netgoat_blocks_by_reason_total{reason='' @ Quote reason @ ''} '' @ dec (counter_of (ms_BlockReasons snap) reason)"

definition println :: "string \<Rightarrow> string" where
  "println l = l @ [CHR 0x0A]"

definition ServePrometheus :: "gotime \<Rightarrow> recorder \<Rightarrow> string" where
  "ServePrometheus now r =
     (let snap = recorder_Snapshot now r
      in concat (map println (prometheus_counters snap))
         @ concat (map (println \<circ> prometheus_status snap) (sortedKeys (ms_StatusCodes snap)))
         @ concat (map (println \<circ> prometheus_reason snap) (sortedKeys (ms_BlockReasons snap))))"

subsection \<open>No text breaks a line\<close>

definition one_row :: "string \<Rightarrow> bool" where
  "one_row s = (CHR 0x0A \<notin> set s)"

lemma one_row_simps [simp]:
  "one_row []" "one_row (c # s) = (c \<noteq> CHR 0x0A \<and> one_row s)" "one_row (a @ b) = (one_row a \<and> one_row b)"
  by (auto simp: one_row_def)

lemma one_row_Itoa [simp]: "one_row (Itoa n)"
  by (auto simp: one_row_def is_digit_def dest: Itoa_chars)

lemma one_row_fixed [simp]: "one_row (fixed n x)"
  by (auto simp: one_row_def is_digit_def dest: fixed_chars)

lemma quote_digit_row: "m < 16 \<Longrightarrow> quote_digit m \<noteq> CHR 0x0A"
proof -
  assume "m < 16"
  then have "m \<in> {0..<16}" by simp
  moreover have "\<forall>m \<in> {0..<16}. quote_digit m \<noteq> CHR 0x0A" by code_simp
  ultimately show ?thesis by blast
qed

lemma one_row_quote_char: "one_row (quote_char c)"
proof -
  have n: "(of_char c :: nat) < 256" by simp
  have "quote_digit (of_char c div 16) \<noteq> CHR 0x0A" "quote_digit (of_char c mod 16) \<noteq> CHR 0x0A"
    by (rule quote_digit_row, use n in linarith, rule quote_digit_row, simp)
  moreover have "(of_char c :: nat) = 10 \<or> c \<noteq> CHR 0x0A" by auto
  ultimately show ?thesis by (auto simp: quote_char_def Let_def)
qed

lemma one_row_Quote [simp]: "one_row (Quote s)"
  using one_row_quote_char by (auto simp: Quote_def one_row_def)

lemma one_row_counters: "l \<in> set (prometheus_counters snap) \<Longrightarrow> one_row l"
  by (auto simp: prometheus_counters_def dec_def)

lemma one_row_status: "one_row (prometheus_status snap k)"
  by (simp add: prometheus_status_def dec_def)

lemma one_row_reason: "one_row (prometheus_reason snap k)"
  by (simp add: prometheus_reason_def dec_def)

lemma Split_rows:
  "(\<And>l. l \<in> set ls \<Longrightarrow> one_row l) \<Longrightarrow> Split (concat (map println ls) @ rest) (CHR 0x0A) = ls @ Split rest (CHR 0x0A)"
proof (induction ls)
  case (Cons l ls)
  have "CHR 0x0A \<notin> set l" using Cons.prems by (auto simp: one_row_def)
  with Cons show ?case by (simp add: println_def Split_append)
qed simp

text \<open>
  C38: The metrics text has exactly the lines it should: the seven counters, one line for each status and one
  for each reason of a block, in the order of their names, and nothing else; no reason, whatever it
  is called, can add a line or forge a counter.
\<close>

theorem prometheus_lines:
  "Split (ServePrometheus now r) (CHR 0x0A) =
     prometheus_counters (recorder_Snapshot now r)
     @ map (prometheus_status (recorder_Snapshot now r)) (sortedKeys (ms_StatusCodes (recorder_Snapshot now r)))
     @ map (prometheus_reason (recorder_Snapshot now r)) (sortedKeys (ms_BlockReasons (recorder_Snapshot now r)))
     @ [[]]"
proof -
  let ?s = "recorder_Snapshot now r"
  let ?ls = "prometheus_counters ?s @ map (prometheus_status ?s) (sortedKeys (ms_StatusCodes ?s))
      @ map (prometheus_reason ?s) (sortedKeys (ms_BlockReasons ?s))"
  have "Split (concat (map println ?ls) @ []) (CHR 0x0A) = ?ls @ Split [] (CHR 0x0A)"
    by (rule Split_rows) (auto simp: one_row_status one_row_reason dest: one_row_counters)
  then show ?thesis by (simp add: ServePrometheus_def Let_def)
qed

end
