(* ===== verification/ResponsePath.thy ===== *)
theory ResponsePath
  imports Bandwidth Metrics
begin

text \<open>
  The wrappers a transfer goes through: \<^verbatim>\<open>ThrottledReadCloser\<close> and \<^verbatim>\<open>BandwidthResponseWriter\<close>
  (\<^verbatim>\<open>internal/traffic/bandwidth.go\<close>), the latter around the writer that counts
  (\<^verbatim>\<open>internal/metrics/metrics.go\<close>). Bytes pass only after the limiter has granted them, so the bound
  on what it grants is a bound on what a client is sent.
\<close>

subsection \<open>Reading and writing through the limiter\<close>

text \<open>
  What a read of the body returned is handed on, with the error of the wait if there is one. Here and
  below \<open>None\<close> means that the attempts listed are used up and the transfer still waits.
\<close>

definition throttled_Read :: "attempts \<Rightarrow> string \<Rightarrow> int \<Rightarrow> 'e option \<Rightarrow> bandwidthLimiter \<Rightarrow>
    ((int \<times> (wait_error + 'e option)) \<times> attempts \<times> bandwidthLimiter) option" where
  "throttled_Read env key n err l =
     (if 0 < n then
        (case Wait env key n l of
           None \<Rightarrow> None
         | Some (Some waitErr, env', l') \<Rightarrow> Some ((n, Inl waitErr), env', l')
         | Some (None, env', l') \<Rightarrow> Some ((n, Inr err), env', l'))
      else Some ((n, Inr err), env, l))"

text \<open>The connection takes \<open>accept b\<close> bytes of a write.\<close>

definition throttled_Write :: "attempts \<Rightarrow> string \<Rightarrow> (string \<Rightarrow> nat) \<Rightarrow> string \<Rightarrow> metrics_writer \<Rightarrow> bandwidthLimiter \<Rightarrow>
    ((nat \<times> wait_error option) \<times> metrics_writer \<times> attempts \<times> bandwidthLimiter) option" where
  "throttled_Write env key accept b w l =
     (if b \<noteq> [] then
        (case Wait env key (int (length b)) l of
           None \<Rightarrow> None
         | Some (Some e, env', l') \<Rightarrow> Some ((0, Some e), w, env', l')
         | Some (None, env', l') \<Rightarrow> Some ((accept b, None), mw_Write accept b w, env', l'))
      else Some ((accept b, None), mw_Write accept b w, env, l))"

text \<open>The copy of a body: write by write, until one fails.\<close>

fun copy_body :: "attempts \<Rightarrow> string \<Rightarrow> (string \<Rightarrow> nat) \<Rightarrow> string list \<Rightarrow> metrics_writer \<Rightarrow> bandwidthLimiter \<Rightarrow>
    (wait_error option \<times> metrics_writer \<times> attempts \<times> bandwidthLimiter) option" where
  "copy_body env key accept [] w l = Some (None, w, env, l)"
| "copy_body env key accept (b # bs) w l =
     (case throttled_Write env key accept b w l of
        None \<Rightarrow> None
      | Some ((n, Some e), w', env', l') \<Rightarrow> Some (Some e, w', env', l')
      | Some ((n, None), w', env', l') \<Rightarrow>
          if n < length b then Some (None, w', env', l') else copy_body env' key accept bs w' l')"

subsection \<open>Waiting is a sequence of reservations\<close>

definition bw_run :: "reservation list \<Rightarrow> bandwidthLimiter \<Rightarrow> bandwidthLimiter" where
  "bw_run cs l = fold (\<lambda>c l. snd (bw_call c l)) cs l"

lemma bw_run_simps [simp]: "bw_run [] l = l" "bw_run (c # cs) l = bw_run cs (snd (bw_call c l))"
  by (simp_all add: bw_run_def)

lemma bw_run_append: "bw_run (xs @ ys) l = bw_run ys (bw_run xs l)"
  by (simp add: bw_run_def)

lemma bw_granted_append: "bw_granted k (xs @ ys) l = bw_granted k xs l + bw_granted k ys (bw_run xs l)"
  by (induction xs arbitrary: l) simp_all

lemma bw_call_keeps: "bw_ok l \<Longrightarrow> bw_ok (snd (bw_call c l)) \<and> bw_same (snd (bw_call c l)) l"
  using bw_call_spec [OF _ prod.collapse [symmetric]] by (cases c) blast

lemma bw_run_keeps: "bw_ok l \<Longrightarrow> bw_ok (bw_run cs l)"
  by (induction cs arbitrary: l) (simp_all add: bw_call_keeps)

text \<open>A transfer of \<open>n\<close> bytes has gone through, by these reservations at these times.\<close>

definition through :: "attempts \<Rightarrow> string \<Rightarrow> rat \<Rightarrow> bandwidthLimiter \<Rightarrow> attempts \<Rightarrow> bandwidthLimiter \<Rightarrow> bool" where
  "through env key n l env' l' =
     (\<exists>used cs. env = used @ env' \<and> map fst cs = map fst used \<and> (\<forall>c \<in> set cs. fst (snd c) = key) \<and>
        l' = bw_run cs l \<and> n \<le> bw_granted (wait_key key) cs l)"

lemma through_refl: "n \<le> 0 \<Longrightarrow> through env key n l env l"
  unfolding through_def by (intro exI [of _ "[]"]) simp

lemma through_less: "through env key n l env' l' \<Longrightarrow> m \<le> n \<Longrightarrow> through env key m l env' l'"
  unfolding through_def by (blast intro: order_trans)

lemma through_trans:
  assumes "through env key m l env' l'" "through env' key n l' env'' l''"
  shows "through env key (m + n) l env'' l''"
proof -
  obtain u cs where 1: "env = u @ env'" "map fst cs = map fst u" "\<forall>c \<in> set cs. fst (snd c) = key"
    "l' = bw_run cs l" "m \<le> bw_granted (wait_key key) cs l"
    using assms(1) unfolding through_def by blast
  obtain v ds where 2: "env' = v @ env''" "map fst ds = map fst v" "\<forall>c \<in> set ds. fst (snd c) = key"
    "l'' = bw_run ds l'" "n \<le> bw_granted (wait_key key) ds l'"
    using assms(2) unfolding through_def by blast
  show ?thesis
    unfolding through_def
    using 1 2 by (intro exI [of _ "u @ v"] exI [of _ "cs @ ds"]) (auto simp: bw_run_append bw_granted_append)
qed

lemma through_ok: "through env key n l env' l' \<Longrightarrow> bw_ok l \<Longrightarrow> bw_ok l'"
  unfolding through_def using bw_run_keeps by blast

lemma bw_call_amount: "bw_ok l \<Longrightarrow> 0 \<le> fst (bw_call c l)"
  using bw_chunk_bounds [of l "snd (snd c)"]
  by (cases c) (simp add: bw_call_def Let_def split: prod.splits)

lemma through_step: "bw_ok l \<Longrightarrow> through ((now, c) # env) key (fst (bw_call (now, key, n) l)) l env (snd (bw_call (now, key, n) l))"
  unfolding through_def by (intro exI [of _ "[(now, c)]"] exI [of _ "[(now, key, n)]"]) simp

lemma wait_key_idem [simp]: "wait_key (wait_key key) = wait_key key"
  by (simp add: wait_key_def)

lemma waitChunk_through:
  assumes "waitChunk env (wait_key key) (bw_chunk n l) l = Some (r, env', l')" "bw_ok l"
  shows "through env key (if r = None then of_int (bw_chunk n l) else 0) l env' l'"
  using assms
proof (induction env arbitrary: l)
  case (Cons a env)
  obtain now c where a: "a = (now, c)" by (cases a)
  obtain wt m where res: "reserve now (wait_key key) (bw_chunk n l) l = (wt, m)" by fastforce
  have call: "bw_call (now, key, n) l = (if wt \<le> 0 then of_int (bw_chunk n l) else 0, m)"
    by (simp add: bw_call_def res)
  have first: "through (a # env) key (if wt \<le> 0 then of_int (bw_chunk n l) else 0) l env m"
    using through_step [OF Cons.prems(2), of now c env key n] by (simp add: a call)
  have keep: "bw_ok m" "bw_chunk n m = bw_chunk n l"
    using bw_call_keeps [OF Cons.prems(2), of "(now, key, n)"] by (simp_all add: call bw_same_def bw_chunk_def)
  consider "wt \<le> 0" | "\<not> wt \<le> 0" c | "\<not> wt \<le> 0" "\<not> c" by blast
  then show ?case
  proof cases
    case 3
    with Cons.prems(1) have "waitChunk env (wait_key key) (bw_chunk n m) m = Some (r, env', l')"
      by (simp add: a res keep)
    from through_trans [OF first Cons.IH [OF this keep(1)]] 3 keep(2) show ?thesis by (cases r) simp_all
  qed (use Cons.prems(1) first in \<open>auto simp: a res\<close>)
qed simp

lemma wait_loop_through:
  assumes "wait_loop env (wait_key key) n l = Some (r, env', l')" "bw_ok l"
  shows "through env key (if r = None then of_int n else 0) l env' l'"
  using assms
proof (induction env "wait_key key" n l rule: wait_loop.induct)
  case (1 env n l)
  show ?case
  proof (cases "n \<le> 0")
    case True
    with "1.prems"(1) show ?thesis by (auto simp: wait_loop_eq intro: through_refl)
  next
    case False
    have b: "1 \<le> \<lfloor>bl_burst l\<rfloor>"
      using "1.prems"(2) by (simp add: bw_ok_def bw_params_ok_def le_floor_iff)
    let ?c = "if \<lfloor>bl_burst l\<rfloor> < n then \<lfloor>bl_burst l\<rfloor> else n"
    have chunk: "?c = bw_chunk n l" using False b by (auto simp: bw_chunk_def)
    obtain r1 env1 l1 where w: "waitChunk env (wait_key key) ?c l = Some (r1, env1, l1)"
      using "1.prems"(1) False by (subst (asm) wait_loop_eq) (auto simp: Let_def split: option.splits)
    have first: "through env key (if r1 = None then of_int ?c else 0) l env1 l1"
      using waitChunk_through [of env key n l r1 env1 l1] w "1.prems"(2) chunk by (cases r1) simp_all
    show ?thesis
    proof (cases r1)
      case (Some e)
      with "1.prems"(1) w False have "r = Some e" "env' = env1" "l' = l1"
        by (auto simp: wait_loop_eq [of env] Let_def)
      with first Some show ?thesis by simp
    next
      case None
      have len: "length env1 < length env" using waitChunk_uses [OF w] .
      have rest: "wait_loop env1 (wait_key key) (n - ?c) l1 = Some (r, env', l')"
        using "1.prems"(1) w False None by (simp add: wait_loop_eq [of env] Let_def)
      have "through env1 key (if r = None then of_int (n - ?c) else 0) l1 env' l'"
        by (rule "1.hyps" [OF False refl w refl None refl len rest through_ok [OF first "1.prems"(2)]])
      from through_trans [OF first this] None
      have "through env key (of_int ?c + (if r = None then of_int (n - ?c) else 0)) l env' l'" by simp
      moreover have "(0 :: rat) \<le> of_int ?c" using b False by simp
      ultimately show ?thesis by (cases r) (auto elim: through_less)
    qed
  qed
qed

lemma Wait_through:
  assumes "Wait env key n l = Some (r, env', l')" "bw_ok l"
  shows "through env key (if r = None then of_int n else 0) l env' l'"
  using assms wait_loop_through [of env key n l r env' l']
  by (cases "n \<le> 0") (auto simp: Wait_def intro: through_refl)

text \<open>
  What a body was read or written is at most what the limiter granted; a write the limiter refused
  leaves the writer as it was.
\<close>

lemma throttled_Read_through:
  assumes "throttled_Read env key n err l = Some ((m, r), env', l')" "bw_ok l"
  shows "m = n \<and> (\<forall>e. r = Inr e \<longrightarrow> e = err \<and> through env key (of_int n) l env' l')"
proof (cases "0 < n")
  case True
  obtain x env1 l1 where w: "Wait env key n l = Some (x, env1, l1)"
    using assms(1) True by (auto simp: throttled_Read_def split: option.splits)
  with assms(1) True Wait_through [OF w assms(2)] show ?thesis
    by (cases x) (auto simp: throttled_Read_def)
next
  case False
  with assms(1) show ?thesis by (auto simp: throttled_Read_def intro: through_refl)
qed

lemma throttled_Write_through:
  assumes "throttled_Write env key accept b w l = Some ((n, e), w', env', l')" "bw_ok l" "accept b \<le> length b"
  shows "through env key (of_int (mw_bytes w' - mw_bytes w)) l env' l'"
proof (cases "b = []")
  case True
  with assms show ?thesis by (auto simp: throttled_Write_def mw_Write_def intro: through_refl)
next
  case False
  obtain r env1 l1 where w: "Wait env key (int (length b)) l = Some (r, env1, l1)"
    using assms(1) False by (auto simp: throttled_Write_def split: option.splits)
  have t: "through env key (if r = None then of_int (int (length b)) else 0) l env1 l1"
    by (rule Wait_through [OF w assms(2)])
  show ?thesis
  proof (cases r)
    case None
    with assms(1) w False have "mw_bytes w' - mw_bytes w = int (accept b)" "env' = env1" "l' = l1"
      by (auto simp: throttled_Write_def mw_Write_def)
    moreover have "(of_int (int (accept b)) :: rat) \<le> of_int (int (length b))" using assms(3) by simp
    ultimately show ?thesis using t None through_less by simp
  next
    case (Some x)
    with assms(1) w False t show ?thesis by (auto simp: throttled_Write_def)
  qed
qed

lemma copy_body_through:
  assumes "copy_body env key accept bs w l = Some (e, w', env', l')" "bw_ok l" "\<And>b. accept b \<le> length b"
  shows "through env key (of_int (mw_bytes w' - mw_bytes w)) l env' l'"
  using assms(1,2)
proof (induction bs arbitrary: env w l)
  case Nil
  then show ?case by (auto intro: through_refl)
next
  case (Cons b bs)
  obtain n e1 w1 env1 l1 where t: "throttled_Write env key accept b w l = Some ((n, e1), w1, env1, l1)"
    using Cons.prems(1) by (auto split: option.splits)
  have first: "through env key (of_int (mw_bytes w1 - mw_bytes w)) l env1 l1"
    by (rule throttled_Write_through [OF t Cons.prems(2) assms(3)])
  show ?case
  proof (cases "e1 = None \<and> \<not> n < length b")
    case True
    with Cons.prems(1) t have "copy_body env1 key accept bs w1 l1 = Some (e, w', env', l')" by simp
    then have "through env1 key (of_int (mw_bytes w' - mw_bytes w1)) l1 env' l'"
      by (rule Cons.IH [OF _ through_ok [OF first Cons.prems(2)]])
    from through_trans [OF first this] show ?thesis by simp
  next
    case False
    with Cons.prems(1) t have "w' = w1" "env' = env1" "l' = l1" by (auto split: option.splits if_splits)
    with first show ?thesis by simp
  qed
qed

lemma mw_bytes_copy: "copy_body env key accept bs w l = Some (e, w', env', l') \<Longrightarrow> mw_bytes w \<le> mw_bytes w'"
proof (induction bs arbitrary: env w l)
  case (Cons b bs)
  obtain n e1 w1 env1 l1 where t: "throttled_Write env key accept b w l = Some ((n, e1), w1, env1, l1)"
    using Cons.prems by (auto split: option.splits)
  then have "mw_bytes w \<le> mw_bytes w1"
    by (auto simp: throttled_Write_def mw_Write_def split: if_splits option.splits)
  with Cons t show ?case by (fastforce split: option.splits if_splits)
qed simp

lemma one_key: "\<forall>c \<in> set cs. fst (snd c) = key \<Longrightarrow> card ((\<lambda>c. wait_key (fst (snd c))) ` set cs) \<le> 1"
  by (rule order_trans [OF card_mono [of "{wait_key key}"]]) auto

lemma bandwidth_window:
  assumes "bw_sane (NewBandwidthLimiter bps b)" "t0 \<le> t1" "t1 - t0 \<le> 10 * Minute"
    and "\<forall>c \<in> set cs. t0 \<le> fst c \<and> fst c \<le> t1" "\<forall>c \<in> set cs. fst (snd c) = key"
  defines "l \<equiv> NewBandwidthLimiter bps b"
  shows "bw_granted k cs l \<le> bl_burst l
           + bl_rate l * (of_int (t1 - t0) / 1000000000) * (1 + 1 / 2 ^ 53) ^ 5
           + of_nat (length cs) * bl_burst l / 2 ^ 53"
proof -
  have "bw_ok l" unfolding l_def by (rule bw_ok_New) fact
  moreover have "bw_view l = Map.empty" "bl_maxBuckets l = 10000" "bl_ttl l = 10 * Minute"
    by (auto simp: l_def NewBandwidthLimiter_def Let_def bw_view_def)
  ultimately show ?thesis
    using bw.granted_bound [of l cs t0 t1 k] assms(2-5) one_key [OF assms(5)] by (simp add: bw_granted_eq)
qed



end
