(* ===== verification/SqliteDsn.thy ===== *)
theory SqliteDsn
  imports GoServer "HOL-Library.List_Lexorder"
begin

text \<open>
  How the database is opened (\<^verbatim>\<open>sqliteDSN\<close> and \<^verbatim>\<open>configureConnectionPool\<close> in
  \<^verbatim>\<open>internal/database/database.go\<close>): the options in a path are replaced where they would defeat
  the policy of the program. \<^verbatim>\<open>url.Values\<close> is the list of its pairs, the values of a key in their order.
\<close>

subsection \<open>Parameters\<close>

type_synonym url_values = "(string \<times> string) list"

definition values_get :: "string \<Rightarrow> url_values \<Rightarrow> string" where
  "values_get k ps = (case map_of ps k of None \<Rightarrow> [] | Some v \<Rightarrow> v)"

definition values_del :: "string \<Rightarrow> url_values \<Rightarrow> url_values" where
  "values_del k ps = filter (\<lambda>p. fst p \<noteq> k) ps"

definition values_set :: "string \<Rightarrow> string \<Rightarrow> url_values \<Rightarrow> url_values" where
  "values_set k v ps = values_del k ps @ [(k, v)]"

definition encode_pair :: "string \<times> string \<Rightarrow> string" where
  "encode_pair p = escape EncodeQueryComponent (fst p) @ ''='' @ escape EncodeQueryComponent (snd p)"

definition by_key :: "url_values \<Rightarrow> url_values" where
  "by_key ps = sort_key (\<lambda>p. map (of_char :: char \<Rightarrow> nat) (fst p)) ps"

definition Encode :: "url_values \<Rightarrow> string" where
  "Encode ps = Join (map encode_pair (by_key ps)) ''&''"

subsection \<open>The name of the database\<close>

definition sqliteBusyTimeout :: duration where
  "sqliteBusyTimeout = 5 * Second"

definition in_memory :: "string \<Rightarrow> url_values \<Rightarrow> bool" where
  "in_memory filename ps =
     (filename = '':memory:'' \<or> filename = ''file::memory:'' \<or> EqualFold (values_get ''mode'' ps) ''memory'')"

definition sqlite_params :: "bool \<Rightarrow> url_values \<Rightarrow> url_values" where
  "sqlite_params inMemory ps0 =
     (let ps1 = values_del ''_fk'' (values_del ''_timeout'' ps0);
          ps2 = values_set ''_busy_timeout'' (Itoa (sqliteBusyTimeout div Millisecond)) ps1;
          ps3 = values_set ''_foreign_keys'' ''on'' ps2
      in if \<not> inMemory then
           values_set ''_synchronous'' ''NORMAL'' (values_set ''_journal_mode'' ''WAL'' (values_del ''_sync'' (values_del ''_journal'' ps3)))
         else values_del ''_synchronous'' (values_del ''_sync'' (values_del ''_journal_mode'' (values_del ''_journal'' ps3))))"

definition sqliteDSN :: "string \<Rightarrow> (string \<times> bool) option" where
  "sqliteDSN path =
     (case Cut path (CHR ''?'') of
        (filename, rawQuery, hasQuery) \<Rightarrow>
          if hasQuery \<and> query_error rawQuery then None
          else (let ps = (if hasQuery then parse_query rawQuery else []); inMemory = in_memory filename ps
                in Some (filename @ ''?'' @ Encode (sqlite_params inMemory ps), inMemory)))"

text \<open>The limits of the pool: open and idle connections.\<close>

definition configureConnectionPool :: "bool \<Rightarrow> int \<times> int" where
  "configureConnectionPool inMemory = (if inMemory then (1, 1) else (8, 4))"

subsection \<open>Encoding and decoding\<close>

lemma hexdig_hex: "n < 16 \<Longrightarrow> is_hex (hexdig n) \<and> unhex (hexdig n) = n"
proof -
  have "\<forall>n < 16. is_hex (hexdig n) \<and> unhex (hexdig n) = n" by code_simp
  then show "n < 16 \<Longrightarrow> ?thesis" by blast
qed

definition separators :: "char set" where
  "separators = {CHR ''&'', CHR ''='', CHR '';''}"

lemma escaped_specials: "should_escape EncodeQueryComponent c" if "c \<in> separators \<or> c = CHR ''%'' \<or> c = CHR ''+''"
proof -
  have "should_escape EncodeQueryComponent (CHR ''&'')" "should_escape EncodeQueryComponent (CHR ''='')"
    "should_escape EncodeQueryComponent (CHR '';'')" "should_escape EncodeQueryComponent (CHR ''%'')"
    "should_escape EncodeQueryComponent (CHR ''+'')" by code_simp+
  with that show ?thesis by (auto simp: separators_def)
qed

lemma hexdig_no_separator: "hexdig n \<notin> separators"
proof -
  have "hexdig n \<in> set ''0123456789ABCDEF''" unfolding hexdig_def by (rule nth_mem) simp
  then show ?thesis by (auto simp: separators_def)
qed

definition query_char :: "char \<Rightarrow> string" where
  "query_char c =
     (if should_escape EncodeQueryComponent c then
        (if c = CHR '' '' then ''+'' else [CHR ''%'', hexdig ((of_char c :: nat) div 16), hexdig ((of_char c :: nat) mod 16)])
      else [c])"

lemma escape_chars: "escape EncodeQueryComponent s = concat (map query_char s)"
  by (induction s) (simp_all add: escape_def query_char_def)

lemma query_char_clean: "c \<in> set (query_char d) \<Longrightarrow> c \<notin> separators"
proof -
  assume "c \<in> set (query_char d)"
  then consider "c = CHR ''+''" | "c = CHR ''%''" | n where "c = hexdig n" | "\<not> should_escape EncodeQueryComponent c"
    by (auto simp: query_char_def split: if_splits)
  then show ?thesis using escaped_specials [of c] hexdig_no_separator by cases (auto simp: separators_def)
qed

lemma escape_no_separator: "c \<in> set (escape EncodeQueryComponent s) \<Longrightarrow> c \<notin> separators"
  using query_char_clean by (auto simp: escape_chars)

lemma unescape_char: "unescape EncodeQueryComponent (query_char c @ s) = map_option (Cons c) (unescape EncodeQueryComponent s)"
proof (cases "should_escape EncodeQueryComponent c \<and> c \<noteq> CHR '' ''")
  case True
  let ?n = "of_char c :: nat"
  have "?n < 256" by simp
  then have h: "?n div 16 < 16" "?n mod 16 < 16" by (simp_all add: less_mult_imp_div_less)
  have "16 * (?n div 16) + ?n mod 16 = ?n" by simp
  then have "char_of (16 * (?n div 16) + ?n mod 16) = c" by (metis char_of_char)
  with True hexdig_hex [OF h(1)] hexdig_hex [OF h(2)] show ?thesis by (simp add: query_char_def)
next
  case False
  have "c \<noteq> CHR ''%''" "c \<noteq> CHR ''+''" using False escaped_specials [of c] by auto
  with False show ?thesis by (auto simp: query_char_def)
qed

lemma unescape_escape: "unescape EncodeQueryComponent (escape EncodeQueryComponent s) = Some s"
  by (induction s) (simp_all add: escape_chars unescape_char)

lemma Split_once: "d \<notin> set s \<Longrightarrow> Split s d = [s]"
  by (induction s) auto

lemma Split_more: "d \<notin> set a \<Longrightarrow> Split (a @ d # s) d = a # Split s d"
  by (induction a) auto

lemma Split_Join: "ls \<noteq> [] \<Longrightarrow> \<forall>l \<in> set ls. d \<notin> set l \<Longrightarrow> Split (Join ls [d]) d = ls"
proof (induction ls)
  case (Cons l ls)
  then show ?case by (cases "ls = []") (simp_all add: Split_once Split_more Join_Cons)
qed simp

lemma parse_encoded: "parse_pair (encode_pair p) = Some p"
proof -
  obtain k v where p: "p = (k, v)" by (cases p)
  let ?k = "escape EncodeQueryComponent k" and ?v = "escape EncodeQueryComponent v"
  have clean: "CHR ''='' \<notin> set ?k" "CHR '';'' \<notin> set ?k" "CHR '';'' \<notin> set ?v"
    using escape_no_separator by (auto simp: separators_def)
  then have "takeWhile (\<lambda>c. c \<noteq> CHR ''='') ?k = ?k" "dropWhile (\<lambda>c. c \<noteq> CHR ''='') ?k = []"
    by (auto simp: takeWhile_eq_all_conv dropWhile_eq_Nil_conv)
  then have "Cut (encode_pair p) (CHR ''='') = (?k, ?v, True)"
    by (simp add: Cut_def encode_pair_def p takeWhile_tail dropWhile_append)
  with clean show ?thesis by (simp add: parse_pair_def encode_pair_def p QueryUnescape_def unescape_escape)
qed

lemma encode_no_amp: "CHR ''&'' \<notin> set (encode_pair p)"
  using escape_no_separator by (auto simp: encode_pair_def separators_def)

lemma by_key_set [simp]: "set (by_key ps) = set ps"
  by (simp add: by_key_def)

lemma by_key_Nil [simp]: "by_key ps = [] \<longleftrightarrow> ps = []"
  by (metis by_key_set set_empty)

lemma split_encoded: "ps \<noteq> [] \<Longrightarrow> Split (Encode ps) (CHR ''&'') = map encode_pair (by_key ps)"
  unfolding Encode_def by (rule Split_Join) (auto simp: encode_no_amp)

lemma parse_Encode:
  assumes "ps \<noteq> []"
  shows "parse_query (Encode ps) = by_key ps \<and> \<not> query_error (Encode ps)"
proof -
  have "List.map_filter parse_pair (map encode_pair qs) = qs" for qs
    by (induction qs) (simp_all add: List.map_filter_def parse_encoded)
  then show ?thesis
    by (simp add: parse_query_def query_error_def split_encoded [OF assms] list_ex_iff parse_encoded)
qed

subsection \<open>The policy\<close>

definition policy_keys :: "string set" where
  "policy_keys = {''_timeout'', ''_busy_timeout'', ''_fk'', ''_foreign_keys'', ''_journal'', ''_journal_mode'', ''_sync'', ''_synchronous''}"

lemma values_del_mem [simp]: "p \<in> set (values_del k ps) \<longleftrightarrow> p \<in> set ps \<and> fst p \<noteq> k"
  by (auto simp: values_del_def)

lemma values_set_mem [simp]: "p \<in> set (values_set k v ps) \<longleftrightarrow> p = (k, v) \<or> p \<in> set ps \<and> fst p \<noteq> k"
  by (auto simp: values_set_def)

lemma sqlite_params_mem:
  "(k, v) \<in> set (sqlite_params mem ps) \<longleftrightarrow>
     (if k = ''_busy_timeout'' then v = ''5000'' else if k = ''_foreign_keys'' then v = ''on''
      else if k = ''_journal_mode'' then \<not> mem \<and> v = ''WAL'' else if k = ''_synchronous'' then \<not> mem \<and> v = ''NORMAL''
      else k \<notin> policy_keys \<and> (k, v) \<in> set ps)"
proof -
  have "Itoa (sqliteBusyTimeout div Millisecond) = ''5000''" by code_simp
  then show ?thesis by (auto simp: sqlite_params_def policy_keys_def Let_def)
qed

text \<open>
  The options of a path cannot defeat the policy of the program: what the driver reads after
  the question mark of the name it is opened with decodes without an error; it has foreign keys
  switched on and the timeout for locks, with one value and under no other name; a database in
  a file has write-ahead logging with its synchronisation, one in memory has neither; and every other option is
  there exactly as the path gave it.
\<close>

theorem dsn_policy:
  assumes "sqliteDSN path = Some (dsn, inMemory)"
  defines "opts \<equiv> (if CHR ''?'' \<in> set path then parse_query (tl (dropWhile (\<lambda>c. c \<noteq> CHR ''?'') path)) else [])"
  shows "\<exists>q. dsn = takeWhile (\<lambda>c. c \<noteq> CHR ''?'') path @ ''?'' @ q \<and> \<not> query_error q \<and>
    (\<forall>k v. (k, v) \<in> set (parse_query q) \<longleftrightarrow>
       (if k = ''_busy_timeout'' then v = ''5000'' else if k = ''_foreign_keys'' then v = ''on''
        else if k = ''_journal_mode'' then \<not> inMemory \<and> v = ''WAL'' else if k = ''_synchronous'' then \<not> inMemory \<and> v = ''NORMAL''
        else k \<notin> policy_keys \<and> (k, v) \<in> set opts))"
proof -
  let ?name = "takeWhile (\<lambda>c. c \<noteq> CHR ''?'') path"
  have "Cut path (CHR ''?'') = (?name, if CHR ''?'' \<in> set path then tl (dropWhile (\<lambda>c. c \<noteq> CHR ''?'') path) else [], CHR ''?'' \<in> set path)"
  proof (cases "CHR ''?'' \<in> set path")
    case False
    then have name: "?name = path" by (subst takeWhile_eq_all_conv) blast
    show ?thesis unfolding name by (simp add: Cut_def False)
  qed (simp add: Cut_def)
  with assms(1) have dsn: "dsn = ?name @ ''?'' @ Encode (sqlite_params inMemory opts)"
    by (cases "CHR ''?'' \<in> set path") (auto simp: sqliteDSN_def opts_def Let_def split: if_splits)
  have "(''_foreign_keys'', ''on'') \<in> set (sqlite_params inMemory opts)" by (simp add: sqlite_params_mem)
  then have "sqlite_params inMemory opts \<noteq> []" by auto
  from parse_Encode [OF this] dsn show ?thesis by (auto simp: sqlite_params_mem)
qed

theorem dsn_policy_witness:
  "\<exists>q. sqliteDSN ''a.db?_fk=off&cache=shared'' = Some (''a.db?'' @ q, False) \<and> (''_foreign_keys'', ''on'') \<in> set (parse_query q) \<and>
     (''cache'', ''shared'') \<in> set (parse_query q) \<and> (\<forall>v. (''_fk'', v) \<notin> set (parse_query q))"
proof -
  let ?p = "''a.db?_fk=off&cache=shared''"
  have "case sqliteDSN ?p of None \<Rightarrow> False | Some (dsn, mem) \<Rightarrow> \<not> mem" by code_simp
  then obtain dsn where dsn: "sqliteDSN ?p = Some (dsn, False)" by (auto split: option.splits)
  have parts: "takeWhile (\<lambda>c. c \<noteq> CHR ''?'') ?p = ''a.db''" "CHR ''?'' \<in> set ?p"
    "parse_query (tl (dropWhile (\<lambda>c. c \<noteq> CHR ''?'') ?p)) = [(''_fk'', ''off''), (''cache'', ''shared'')]" by code_simp+
  from dsn_policy [OF dsn, unfolded if_P [OF parts(2)] parts(1,3)] obtain q where q: "dsn = ''a.db'' @ ''?'' @ q"
    "\<forall>k v. (k, v) \<in> set (parse_query q) \<longleftrightarrow>
       (if k = ''_busy_timeout'' then v = ''5000'' else if k = ''_foreign_keys'' then v = ''on''
        else if k = ''_journal_mode'' then \<not> False \<and> v = ''WAL'' else if k = ''_synchronous'' then \<not> False \<and> v = ''NORMAL''
        else k \<notin> policy_keys \<and> (k, v) \<in> set [(''_fk'', ''off''), (''cache'', ''shared'')])" by blast
  note opts = q(2) [THEN spec, THEN spec]
  have "sqliteDSN ?p = Some (''a.db?'' @ q, False)" using dsn q(1) by simp
  moreover have "(''_foreign_keys'', ''on'') \<in> set (parse_query q)" "(''cache'', ''shared'') \<in> set (parse_query q)"
    "(''_fk'', v) \<notin> set (parse_query q)" for v
    unfolding opts by (simp_all add: policy_keys_def)
  ultimately show ?thesis by blast
qed

end
