(* ===== verification/Environment.thy ===== *)
theory Environment
  imports GoStrings
begin

text \<open>
  The environment of the process and the file that adds to it (\<^verbatim>\<open>loadEnvFromFile\<close> in
  \<^verbatim>\<open>main.go\<close>). The environment is a function; a variable that is not set reads as the empty text,
  which is all that the program can see of it.
\<close>

type_synonym environment = "string \<Rightarrow> string"

text \<open>\<^verbatim>\<open>os.Setenv\<close> refuses an empty name, a name with an equals sign, and null bytes.\<close>

definition Setenv :: "string \<Rightarrow> string \<Rightarrow> environment \<Rightarrow> environment" where
  "Setenv key val env =
     (if key = [] \<or> CHR ''='' \<in> set key \<or> CHR 0x00 \<in> set key \<or> CHR 0x00 \<in> set val then env else env(key := val))"

text \<open>The variable that a line sets, if it sets one.\<close>

definition env_line :: "string \<Rightarrow> (string \<times> string) option" where
  "env_line line0 =
     (let line = TrimSpace line0
      in if line = [] \<or> HasPrefix line ''#'' then None
         else (case Cut line (CHR ''='') of
                 (k, v, found) \<Rightarrow> if \<not> found then None else Some (TrimSpace k, Trim (TrimSpace v) [CHR 0x22, CHR 0x27])))"

definition load_line :: "string \<Rightarrow> environment \<Rightarrow> environment" where
  "load_line line env =
     (case env_line line of None \<Rightarrow> env | Some (key, val) \<Rightarrow> if env key = [] then Setenv key val env else env)"

definition load_env :: "string \<Rightarrow> environment \<Rightarrow> environment" where
  "load_env data env = fold load_line (Split data (CHR 0x0A)) env"

text \<open>The first candidate that can be read is taken: the given path, the one beside the executable, the old one.\<close>

definition env_candidates :: "string option \<Rightarrow> string \<Rightarrow> string list" where
  "env_candidates exe_dir path =
     path # (case exe_dir of None \<Rightarrow> [] | Some d \<Rightarrow> [d @ ''/.env'']) @ [''PinkDiamond/.env'']"

definition loadEnvFromFile :: "(string \<Rightarrow> string option) \<Rightarrow> string option \<Rightarrow> string \<Rightarrow> environment \<Rightarrow> environment" where
  "loadEnvFromFile read exe_dir path env =
     (case find (\<lambda>p. read p \<noteq> None) (env_candidates exe_dir path) of
        None \<Rightarrow> env
      | Some p \<Rightarrow> (case read p of None \<Rightarrow> env | Some data \<Rightarrow> load_env data env))"

subsection \<open>What a file changes\<close>

text \<open>The value a list of lines gives to a name: the first that is not empty and can be set.\<close>

definition settable :: "string \<Rightarrow> string \<Rightarrow> bool" where
  "settable key val = (key \<noteq> [] \<and> CHR ''='' \<notin> set key \<and> CHR 0x00 \<notin> set key \<and> CHR 0x00 \<notin> set val)"

fun first_value :: "string \<Rightarrow> string list \<Rightarrow> string" where
  "first_value key [] = []"
| "first_value key (l # ls) =
     (case env_line l of
        Some (k, v) \<Rightarrow> if k = key \<and> v \<noteq> [] \<and> settable k v then v else first_value key ls
      | None \<Rightarrow> first_value key ls)"

lemma load_line_value:
  "load_line l env key =
     (if env key \<noteq> [] then env key
      else (case env_line l of Some (k, v) \<Rightarrow> if k = key \<and> v \<noteq> [] \<and> settable k v then v else [] | None \<Rightarrow> []))"
  by (auto simp: load_line_def Setenv_def settable_def split: option.splits)

lemma load_lines_value:
  "fold load_line ls env key = (if env key \<noteq> [] then env key else first_value key ls)"
proof (induction ls arbitrary: env)
  case (Cons l ls)
  have "fold load_line (l # ls) env key = (if load_line l env key \<noteq> [] then load_line l env key else first_value key ls)"
    by (simp add: Cons.IH)
  then show ?case unfolding load_line_value by (auto split: option.splits)
qed simp

lemma loadEnvFromFile_value:
  "loadEnvFromFile read exe_dir path env key =
     (if env key \<noteq> [] then env key
      else (case find (\<lambda>p. read p \<noteq> None) (env_candidates exe_dir path) of
              None \<Rightarrow> []
            | Some p \<Rightarrow> first_value key (Split (the (read p)) (CHR 0x0A))))"
  by (auto simp: loadEnvFromFile_def load_env_def load_lines_value split: option.splits dest: find_someD)

text \<open>
  The environment has the last word and the file the first: for any file, a variable that
  the process was started with keeps its value, and any other gets the first value that the first readable file
  gives it and that is not empty; lines that are blank, comments, or without an
  equals sign, and names and values that the system refuses, change nothing.
\<close>

theorem env_file_fills_gaps:
  "loadEnvFromFile read exe_dir path env =
     (\<lambda>key. if env key \<noteq> [] then env key
            else (case find (\<lambda>p. read p \<noteq> None) (env_candidates exe_dir path) of
                    None \<Rightarrow> []
                  | Some p \<Rightarrow> first_value key (Split (the (read p)) (CHR 0x0A))))"
  by (rule ext) (rule loadEnvFromFile_value)

lemma env_quoted_value: "env_line ('' API_KEY = '' @ [CHR 0x22] @ ''a=b'' @ [CHR 0x22, CHR 0x0D]) = Some (''API_KEY'', ''a=b'')"
  by code_simp

end
