(* ===== verification/Spec2Isabelle.thy ===== *)
theory Spec2Isabelle
  imports Prelude GoStrings Float64 GoList GoMap GoHttp GoUrl Netip ResponseCache CachePolicy TokenBucket RateLimit
    RequestQueue Bandwidth Health Balancer ClientIP GoCrypto Challenge ChallengeSafety Database Routing
    RouteResolver RouteEquivalence GoServer Auth Waf AiWorker Metrics Config GatewayHelpers Gateway
    GoJson Snapshot Streaming ControlPlane ApplySnapshot SnapshotApplied Telemetry ModelDownload Startup System GoFormat
    Pages DebugOverlay OverlayAnalysis Prometheus ResponsePath SqliteDsn Environment
begin

text \<open>
  A verification library for the NetGoat agent, a reverse proxy written in Go: \<^verbatim>\<open>main.go\<close> and
  the packages under \<^verbatim>\<open>internal/\<close>. A request passes a chain of checks (login, honeypot, rate
  limit, queue, three models, firewall), is resolved to the targets of a route and
  is answered from a shared cache or by one of the healthy targets. Routes, rules and users
  come from a configuration file, a recovery file and a control plane that is polled.

  \<^bold>\<open>Foundations.\<close> \<open>Prelude\<close> holds times, durations, 64-bit results, and the locale
  \<open>preserving\<close>, the contract of every component with an invariant. \<open>GoStrings\<close>, \<open>GoFormat\<close>, \<open>GoMap\<close>,
  \<open>GoList\<close>, \<open>GoHttp\<close>, \<open>GoUrl\<close>, \<open>GoServer\<close>, \<open>GoJson\<close>, \<open>GoCrypto\<close>, \<open>Netip\<close> and \<open>Float64\<close>
  model what the program uses of Go's library: strings as lists of bytes, maps as association lists
  with distinct keys, \<^verbatim>\<open>container/list\<close> with its two ends as instances of the locale
  \<open>element_list\<close>, headers as functions, SHA-256 on 32-bit words, addresses on 32- and 128-bit words, and
  \<^verbatim>\<open>float64\<close> as rational numbers with an explicit rounding after every operation.

  \<^bold>\<open>Protection.\<close> \<open>TokenBucket\<close> proves the bound of a token bucket once, in the locales
  \<open>token_bucket\<close> and \<open>keyed_limiter\<close>; \<open>RateLimit\<close> and \<open>Bandwidth\<close>
  (\<^verbatim>\<open>internal/traffic\<close>) are instances, \<open>RequestQueue\<close> is a step relation over the callers of the
  queue. \<open>ClientIP\<close> resolves the address of a client behind trusted proxies
  (\<^verbatim>\<open>internal/clientip\<close>). \<open>Challenge\<close> and \<open>ChallengeSafety\<close> are the store of the challenges
  (\<^verbatim>\<open>internal/challenge\<close>): a refinement to two plain lists, and what a verification requires.
  \<open>Auth\<close> holds sessions and logins (\<^verbatim>\<open>internal/auth\<close>), \<open>Waf\<close> the firewall and the
  honeypot, \<open>AiWorker\<close> the line protocol with a model process and the detectors on it.

  \<^bold>\<open>Serving.\<close> \<open>ResponseCache\<close> refines the cache to an LRU list and \<open>CachePolicy\<close> says what it
  may hold (\<^verbatim>\<open>internal/cache\<close>). \<open>Health\<close> and \<open>Balancer\<close> are the probes, the round
  robin, the failover loop and the writer that holds a failing answer back. \<open>Database\<close>,
  \<open>Routing\<close>, \<open>RouteResolver\<close> and \<open>RouteEquivalence\<close> are the tables, the queries on them,
  and the resolver in memory, which is proved to answer as the queries do. \<open>GatewayHelpers\<close> and
  \<open>Gateway\<close> are the handlers of \<^verbatim>\<open>main.go\<close> with the checks in their order, and \<open>Metrics\<close> their
  counters, shown as text by \<open>Prometheus\<close>. \<open>Pages\<close> has the format texts of the challenge pages,
  \<open>DebugOverlay\<close> the template of the overlay with the escaping of \<^verbatim>\<open>html/template\<close>
  (\<^verbatim>\<open>internal/debugoverlay\<close>), both proved free of injected markup, and \<open>OverlayAnalysis\<close> what the
  handler notes for it. \<open>ResponsePath\<close> composes the throttled writer with the counting one and turns the
  bound of the limiter into a bound on what a client is sent.

  \<^bold>\<open>Configuration.\<close> \<open>Config\<close> holds the settings, \<open>Snapshot\<close> the configurations with their JSON
  form, \<open>Streaming\<close> the manager with its subscribers and its recovery file, \<open>ControlPlane\<close> what
  the answers of the control plane become and the polling loop, \<open>ApplySnapshot\<close> and
  \<open>SnapshotApplied\<close> the transaction that puts a configuration into the tables, refined to maps.

  \<^bold>\<open>The program.\<close> \<open>Telemetry\<close> and \<open>ModelDownload\<close> are the two clients of outside services.
  \<open>Environment\<close> reads the file of variables, \<open>SqliteDsn\<close> says how the database is opened.
  \<open>Startup\<close> is \<^verbatim>\<open>main\<close> up to the first request. \<open>System\<close> is the running program with everything
  that happens to it: all invariants hold together, by the interpretations of
  \<open>preserving\<close>, and a request only goes where the operator or the control plane sent it.

  \<^bold>\<open>Correspondence.\<close> A definition has the name of the Go function or method it models; a type
  qualifier is added where two packages share a name. A structure is a record, with a prefix
  per type; a method takes the state last and returns it changed. An error is a
  \<^verbatim>\<open>None\<close>, an \<open>Inl\<close> or a constructor of the error type of its component. Everything a mutex
  protects is one step. The clock, random bytes, answers of the network, the outcomes of
  file operations and the libraries (SQLite, bcrypt, regular expressions, the
  expression language of the rules, \<^verbatim>\<open>httputil.ReverseProxy\<close>) are parameters. Where a property needs
  something of them, it is a named hypothesis, for example \<open>proxy_contract\<close>
  (an attempt fails without writing or copies one complete response) and \<open>fresh_temp\<close> (a temporary name is unused).

  \<^bold>\<open>Loops.\<close> Recursion is structural or has a measure. The four loops of the challenge store that the
  source lets run until a list is short enough are \<open>partial_function\<close>s, and the
  refinement proves that they return. \<open>Wait\<close> of the bandwidth limiter takes the clock readings as a list;
  the second reading of a chunk that had to wait is enough. Drawing an unused
  identifier fails only if every identifier on offer is in use.

  \<^bold>\<open>Bounds.\<close> Durations, counters and versions are kept in 64 bits with their wrap-around. The
  limiters are proved for bursts up to \<open>2\<^sup>5\<^sup>3\<close>, the integers a \<^verbatim>\<open>float64\<close> represents; a text is mapped
  to lower case byte by byte, which agrees with Go on ASCII.

  \<^bold>\<open>Not modelled.\<close> Logging and its colours, signals, sockets, TLS and the timeouts of the transport have
  no state of the program behind them. Opening the database with failover and backing it up are in
  functions the repository does not contain (\<^verbatim>\<open>OpenWithFailover\<close>, \<^verbatim>\<open>BackupTo\<close>), and so is the section
  \<^verbatim>\<open>Database\<close> of the configuration, a field here. The HTML of the login form and the text of the pages as the handlers send them
  (\<open>st_page_text\<close>, which \<open>page_text\<close> defines) are parameters of \<open>Gateway\<close>, and so is the overlay of a response. The rounds of the update loop are
  atomic with respect to requests in \<open>System\<close>; in the source a request may see the new tables with the old routes.
\<close>

end
